(* ===== verification/CBytes.thy ===== *)
theory CBytes
  imports Main "HOL-Library.Word" "HOL-Library.Monad_Syntax"
begin

text \<open>
  Prelude of the development: C byte buffers and the parts of the C library that the parsers
  of \<open>src/packets.c\<close> use.

  A buffer is the list of all bytes of one C object, so that its length is the size of the
  object; the number of valid bytes (\<open>n\<close>, \<open>bsize\<close>) is a separate integer, as in the code.
  Every access goes through \<open>rd\<close>, \<open>wr\<close>, \<open>memmove\<close> and their kin, whose result is
  \<open>None\<close> when the access leaves the object. So a result \<open>None\<close> of an operation means
  that the C code has no defined result (an access out of bounds, or a loop that never ends),
  and a theorem that the result is \<open>Some\<close> is a memory-safety and termination theorem.

  Offsets and sizes (\<open>size_t\<close>, \<open>ssize_t\<close>, \<open>int\<close>) are unbounded integers: the values in
  play are bounded by the buffer size, which \<open>parse_args\<close> limits to \<open>INT_MAX / 4\<close>. The
  wrap-around of \<open>uint16_t\<close> variables is written out by \<open>u16\<close>. Plain \<open>char\<close> is signed,
  as it is for the compilers of x86.
\<close>

type_synonym byte = "8 word"
type_synonym buf = "byte list"

named_theorems safe_intros \<open>introduction rules for results that are defined\<close>
named_theorems len_simps \<open>what the operations do to the length of a buffer\<close>

subsection \<open>Access to a buffer\<close>

definition rd :: "buf \<Rightarrow> int \<Rightarrow> byte option" where
  "rd b i = (if 0 \<le> i \<and> i < int (length b) then Some (b ! nat i) else None)"

definition wr :: "buf \<Rightarrow> int \<Rightarrow> byte \<Rightarrow> buf option" where
  "wr b i x = (if 0 \<le> i \<and> i < int (length b) then Some (b[nat i := x]) else None)"

text \<open>\<open>n\<close> bytes from \<open>i\<close>, and \<open>xs\<close> stored from \<open>i\<close>. A negative count is a huge
  \<open>size_t\<close> and leaves every object.\<close>

definition rdn :: "buf \<Rightarrow> int \<Rightarrow> int \<Rightarrow> byte list option" where
  "rdn b i n =
     (if 0 \<le> i \<and> 0 \<le> n \<and> i + n \<le> int (length b)
      then Some (take (nat n) (drop (nat i) b)) else None)"

definition wrn :: "buf \<Rightarrow> int \<Rightarrow> byte list \<Rightarrow> buf option" where
  "wrn b i xs =
     (if 0 \<le> i \<and> i + int (length xs) \<le> int (length b)
      then Some (take (nat i) b @ xs @ drop (nat i + length xs) b) else None)"

definition memmove :: "buf \<Rightarrow> int \<Rightarrow> int \<Rightarrow> int \<Rightarrow> buf option" where
  "memmove b dst src n = do { xs \<leftarrow> rdn b src n; wrn b dst xs }"

definition memset :: "buf \<Rightarrow> int \<Rightarrow> byte \<Rightarrow> int \<Rightarrow> buf option" where
  "memset b i x n = (if n < 0 then None else wrn b i (replicate (nat n) x))"

lemma rd_Some [simp]: "0 \<le> i \<Longrightarrow> i < int (length b) \<Longrightarrow> rd b i = Some (b ! nat i)"
  by (simp add: rd_def)

lemma rd_eq_Some: "rd b i = Some x \<longleftrightarrow> 0 \<le> i \<and> i < int (length b) \<and> x = b ! nat i"
  by (auto simp: rd_def)

lemma rd_eq_None: "rd b i = None \<longleftrightarrow> i < 0 \<or> int (length b) \<le> i"
  by (auto simp: rd_def)

lemma wr_Some [simp]: "0 \<le> i \<Longrightarrow> i < int (length b) \<Longrightarrow> wr b i x = Some (b[nat i := x])"
  by (simp add: wr_def)

lemma wr_length [len_simps]: "wr b i x = Some b' \<Longrightarrow> length b' = length b"
  by (auto simp: wr_def split: if_splits)

lemma rdn_Some [simp]:
  "0 \<le> i \<Longrightarrow> 0 \<le> n \<Longrightarrow> i + n \<le> int (length b) \<Longrightarrow> rdn b i n = Some (take (nat n) (drop (nat i) b))"
  by (simp add: rdn_def)

lemma wrn_Some:
  "0 \<le> i \<Longrightarrow> i + int (length xs) \<le> int (length b) \<Longrightarrow>
     wrn b i xs = Some (take (nat i) b @ xs @ drop (nat i + length xs) b)"
  by (simp add: wrn_def)

lemma wrn_length [len_simps]: "wrn b i xs = Some b' \<Longrightarrow> length b' = length b"
  by (auto simp: wrn_def split: if_splits)

lemma rdn_length: "rdn b i n = Some xs \<Longrightarrow> length xs = nat n"
  by (auto simp: rdn_def split: if_splits)

lemma wrn_safe [safe_intros]:
  "0 \<le> i \<Longrightarrow> i + int (length xs) \<le> int (length b) \<Longrightarrow> \<exists>b'. wrn b i xs = Some b'"
  by (simp add: wrn_def)

lemma memmove_length [len_simps]: "memmove b d s n = Some b' \<Longrightarrow> length b' = length b"
  by (auto simp: memmove_def bind_eq_Some_conv wrn_length)

lemma memmove_safe_iff:
  "(\<exists>b'. memmove b d s n = Some b') \<longleftrightarrow>
     0 \<le> s \<and> 0 \<le> d \<and> 0 \<le> n \<and> s + n \<le> int (length b) \<and> d + n \<le> int (length b)"
  by (auto simp: memmove_def rdn_def wrn_def min_def bind_eq_Some_conv)

lemma memmove_Some:
  assumes "0 \<le> s" "0 \<le> d" "0 \<le> n" "s + n \<le> int (length b)" "d + n \<le> int (length b)"
  shows "memmove b d s n =
    Some (take (nat d) b @ take (nat n) (drop (nat s) b) @ drop (nat d + nat n) b)"
proof -
  have "length (take (nat n) (drop (nat s) b)) = nat n"
    using assms by (simp add: min_def) linarith
  then show ?thesis using assms by (simp add: memmove_def wrn_def)
qed

lemma memset_length [len_simps]: "memset b i x n = Some b' \<Longrightarrow> length b' = length b"
  by (auto simp: memset_def wrn_length split: if_splits)

lemma memset_safe_iff:
  "(\<exists>b'. memset b i x n = Some b') \<longleftrightarrow> 0 \<le> i \<and> 0 \<le> n \<and> i + n \<le> int (length b)"
  by (auto simp: memset_def wrn_def)

subsection \<open>16-bit integers in a buffer: \<open>ANTOHS\<close> and \<open>SHTONA\<close> of packets.h\<close>

definition u16 :: "int \<Rightarrow> int" where
  "u16 x = x mod 65536"

lemma u16_bounds [simp]: "0 \<le> u16 x" "u16 x < 65536"
  by (simp_all add: u16_def)

lemma u16_id: "0 \<le> x \<Longrightarrow> x < 65536 \<Longrightarrow> u16 x = x"
  by (simp add: u16_def)

lemma u16_idem [simp]: "u16 (u16 x) = u16 x"
  by (simp add: u16_def)

text \<open>
  \<open>ANTOHS\<close> converts a plain \<open>char\<close> to \<open>uint16_t\<close> before it shifts: a first byte of 128 or
  more is sign-extended to 16 bits and the value of the macro, an \<open>int\<close>, exceeds 16 bits.
  The variables of type \<open>uint16_t\<close> that take it cut it back (\<open>rd16\<close>); those of type
  \<open>int\<close> do not (\<open>antohs\<close>).
\<close>

definition antohs :: "buf \<Rightarrow> int \<Rightarrow> int option" where
  "antohs b i = do {
     h \<leftarrow> rd b i;
     l \<leftarrow> rd b (i + 1);
     Some (u16 (sint h) * 256 + uint l) }"

definition rd16 :: "buf \<Rightarrow> int \<Rightarrow> int option" where
  "rd16 b i = map_option u16 (antohs b i)"

definition shtona :: "buf \<Rightarrow> int \<Rightarrow> int \<Rightarrow> buf option" where
  "shtona b i x = do {
     b \<leftarrow> wr b i (word_of_int (x div 256));
     wr b (i + 1) (word_of_int x) }"

lemma uint_byte_bounds [simp]: "0 \<le> uint (x :: byte)" "uint (x :: byte) < 256"
  using uint_lt2p [of x] by simp_all

lemma mod_65536: "(x :: int) mod 65536 = (x div 256) mod 256 * 256 + x mod 256"
  using zmod_zmult2_eq [of 256 x 256] by simp

lemma u16_scale: "0 \<le> l \<Longrightarrow> l < 256 \<Longrightarrow> u16 (x * 256 + l) = x mod 256 * 256 + l"
  unfolding u16_def by (subst mod_65536) simp

lemma sint_mod_256: "sint (h :: byte) mod 256 = uint h"
  by (simp add: uint_sint take_bit_eq_mod)

lemma u16_sint_byte: "u16 (u16 (sint (h :: byte)) * 256 + uint (l :: byte)) = uint h * 256 + uint l"
proof -
  have "u16 (sint h) mod 256 = uint h"
    by (simp add: u16_def mod_mod_cancel sint_mod_256)
  then show ?thesis by (simp add: u16_scale)
qed

lemma antohs_Some:
  "0 \<le> i \<Longrightarrow> i + 1 < int (length b) \<Longrightarrow>
     antohs b i = Some (u16 (sint (b ! nat i)) * 256 + uint (b ! nat (i + 1)))"
  by (simp add: antohs_def)

lemma rd16_Some:
  "0 \<le> i \<Longrightarrow> i + 1 < int (length b) \<Longrightarrow>
     rd16 b i = Some (uint (b ! nat i) * 256 + uint (b ! nat (i + 1)))"
  by (simp add: rd16_def antohs_Some u16_sint_byte)

text \<open>The untruncated value equals a constant below \<open>0x8000\<close> exactly when the two bytes do.\<close>

lemma antohs_value_iff:
  assumes "0 \<le> hv" "hv < 128" "0 \<le> lv" "lv < 256"
  shows "u16 (sint (h :: byte)) * 256 + uint (l :: byte) = hv * 256 + lv \<longleftrightarrow>
    h = word_of_int hv \<and> l = word_of_int lv"
proof
  assume eq: "u16 (sint h) * 256 + uint l = hv * 256 + lv"
  have l: "uint l = lv"
    using arg_cong [OF eq, of "\<lambda>x. x mod 256"] assms by simp
  then have h: "u16 (sint h) = hv" using eq by simp
  have "u16 (sint h) mod 256 = uint h"
    by (simp add: u16_def mod_mod_cancel sint_mod_256)
  then have "uint h = hv" using h assms by simp
  then show "h = word_of_int hv \<and> l = word_of_int lv"
    using l by (metis word_of_int_uint)
next
  assume "h = word_of_int hv \<and> l = word_of_int lv"
  moreover have "sint (word_of_int hv :: byte) = hv"
    using assms by (simp add: sint_sbintrunc' signed_take_bit_int_eq_self)
  ultimately show "u16 (sint h) * 256 + uint l = hv * 256 + lv"
    using assms by (simp add: u16_id uint_word_of_int)
qed

lemmas antohs_0x1603_iff = antohs_value_iff [of 22 3, simplified]

lemma rd16_eq_Some:
  "rd16 b i = Some v \<longleftrightarrow>
     0 \<le> i \<and> i + 1 < int (length b) \<and> v = uint (b ! nat i) * 256 + uint (b ! nat (i + 1))"
  by (auto simp: rd16_def antohs_def bind_eq_Some_conv rd_eq_Some u16_sint_byte)

lemma rd16_bounds: "rd16 b i = Some v \<Longrightarrow> 0 \<le> v \<and> v < 65536"
  by (auto simp: rd16_def)

lemma rd16_safe [safe_intros]:
  "0 \<le> i \<Longrightarrow> i + 1 < int (length b) \<Longrightarrow> \<exists>v. rd16 b i = Some v \<and> 0 \<le> v \<and> v < 65536"
  using rd16_Some rd16_bounds by blast

lemma shtona_length [len_simps]: "shtona b i x = Some b' \<Longrightarrow> length b' = length b"
  by (auto simp: shtona_def bind_eq_Some_conv wr_length)

lemma shtona_Some:
  "0 \<le> i \<Longrightarrow> i + 1 < int (length b) \<Longrightarrow>
     shtona b i x = Some (b[nat i := word_of_int (x div 256), nat (i + 1) := word_of_int x])"
  by (simp add: shtona_def)

lemma shtona_safe_iff:
  "(\<exists>b'. shtona b i x = Some b') \<longleftrightarrow> 0 \<le> i \<and> i + 1 < int (length b)"
  by (auto simp: shtona_def wr_def bind_eq_Some_conv split: if_splits)

text \<open>Storing and reading back: the low 16 bits survive.\<close>

lemma rd16_shtona:
  assumes "shtona b i x = Some b'"
  shows "rd16 b' i = Some (u16 x)"
proof -
  have i: "0 \<le> i" "i + 1 < int (length b)"
    using assms shtona_safe_iff by blast+
  then have ne: "nat i \<noteq> nat (i + 1)" and lt: "nat i < length b" "nat (i + 1) < length b"
    by linarith+
  have "b' ! nat i = word_of_int (x div 256)" "b' ! nat (i + 1) = word_of_int x"
    "length b' = length b"
    using assms i ne lt by (auto simp: shtona_Some)
  then have "rd16 b' i = Some ((x div 256) mod 256 * 256 + x mod 256)"
    using i by (simp add: rd16_Some uint_word_of_int)
  moreover have "(x div 256) mod 256 * 256 + x mod 256 = x mod 65536"
    by (simp add: mod_65536)
  ultimately show ?thesis by (simp add: u16_def)
qed

lemma rd16_shtona_other:
  assumes "shtona b i x = Some b'" "j + 1 < i \<or> i + 1 < j"
  shows "rd16 b' j = rd16 b j"
proof -
  have i: "0 \<le> i" "i + 1 < int (length b)"
    using assms(1) shtona_safe_iff by blast+
  show ?thesis
    using assms i by (auto simp: shtona_Some rd16_def antohs_def rd_def)
qed

subsection \<open>Operations on a buffer given by its segments\<close>

text \<open>The functional properties split a buffer into the segments the code works on; an
  operation on a segment replaces it.\<close>

definition be16 :: "int \<Rightarrow> byte list" where
  "be16 v = [word_of_int (v div 256), word_of_int v]"

lemma length_be16 [simp]: "length (be16 v) = 2"
  by (simp add: be16_def)

lemma be16_u16 [simp]: "be16 (u16 v) = be16 v"
proof -
  have "(v mod 65536) mod 256 = v mod 256" by (simp add: mod_mod_cancel)
  moreover have "v mod 65536 div 256 = v div 256 mod 256"
    by (simp add: mod_65536)
  ultimately show ?thesis
    by (simp add: be16_def u16_def word_of_int_eq_iff take_bit_eq_mod)
qed

lemma rd16_mid:
  assumes "b = p @ be16 v @ q" "i = int (length p)"
  shows "rd16 b i = Some (u16 v)"
proof -
  have "b ! length p = word_of_int (v div 256)" "b ! Suc (length p) = word_of_int v"
    by (simp_all add: assms(1) be16_def nth_append)
  moreover have "nat (int (length p) + 1) = Suc (length p)" by linarith
  ultimately show ?thesis
    by (simp add: rd16_Some assms uint_word_of_int u16_def mod_65536)
qed

lemma rd16_be16:
  "b = p @ be16 v @ q \<Longrightarrow> 0 \<le> v \<Longrightarrow> v < 65536 \<Longrightarrow> rd16 b (int (length p)) = Some v"
  by (simp add: rd16_mid u16_id)

lemma rdn_mid: "b = p @ xs @ q \<Longrightarrow> i = int (length p) \<Longrightarrow> k = int (length xs) \<Longrightarrow> rdn b i k = Some xs"
  by (simp add: rdn_def)

lemma wrn_mid:
  "b = p @ old @ q \<Longrightarrow> i = int (length p) \<Longrightarrow> length old = length xs \<Longrightarrow>
     wrn b i xs = Some (p @ xs @ q)"
  by (simp add: wrn_def)

lemma shtona_mid:
  assumes "b = p @ old @ q" "i = int (length p)" "length old = 2"
  shows "shtona b i x = Some (p @ be16 x @ q)"
proof -
  obtain c d where "old = [c, d]"
    using assms(3) by (auto simp: numeral_2_eq_2 length_Suc_conv)
  moreover have "nat (int (length p) + 1) = Suc (length p)" by linarith
  ultimately show ?thesis
    by (simp add: shtona_Some assms be16_def list_update_append)
qed

lemma memmove_left:
  assumes "b = p @ gap @ xs @ q" "d = int (length p)" "s = d + int (length gap)" "n = int (length xs)"
  shows "memmove b d s n = Some (p @ xs @ drop (length xs) (gap @ xs) @ q)"
proof -
  have "rdn b s n = Some xs"
    by (rule rdn_mid [where p = "p @ gap" and q = q]) (simp_all add: assms)
  moreover have "b = p @ take (length xs) (gap @ xs) @ drop (length xs) (gap @ xs) @ q"
    by (metis append.assoc append_take_drop_id assms(1))
  then have "wrn b d xs = Some (p @ xs @ drop (length xs) (gap @ xs) @ q)"
    by (rule wrn_mid) (simp_all add: assms(2))
  ultimately show ?thesis by (simp add: memmove_def)
qed

lemma memmove_right:
  assumes "b = p @ xs @ q" "s = int (length p)" "d = s + int k" "n = int (length xs)" "k \<le> length q"
  shows "memmove b d s n = Some (take (length p + k) b @ xs @ drop k q)"
proof -
  have "rdn b s n = Some xs"
    by (rule rdn_mid [where p = p and q = q]) (simp_all add: assms)
  moreover have "wrn b d xs = Some (take (length p + k) b @ xs @ drop k q)"
    using assms(5) by (simp add: assms(1-4) wrn_def nat_int_add add.commute)
  ultimately show ?thesis by (simp add: memmove_def)
qed

end
