(* ===== verification/CString.thy ===== *)
theory CString
  imports CBytes
begin

text \<open>
  The string functions of the C library that \<open>src/packets.c\<close> calls, in the C locale, on byte
  buffers. Each reads byte by byte and stops where the library function stops; a read outside the
  object is \<open>None\<close>.
\<close>

section \<open>Characters\<close>

definition isspace :: "byte \<Rightarrow> bool" where
  "isspace c \<longleftrightarrow> c = 32 \<or> 9 \<le> uint c \<and> uint c \<le> 13"

definition isdigit :: "byte \<Rightarrow> bool" where
  "isdigit c \<longleftrightarrow> 48 \<le> uint c \<and> uint c \<le> 57"

definition to_lower :: "byte \<Rightarrow> byte" where
  "to_lower c = (if 65 \<le> uint c \<and> uint c \<le> 90 then c + 32 else c)"

definition to_upper :: "byte \<Rightarrow> byte" where
  "to_upper c = (if 97 \<le> uint c \<and> uint c \<le> 122 then c - 32 else c)"

text \<open>String literals of the source.\<close>

definition str :: "string \<Rightarrow> byte list" where
  "str s = map (\<lambda>c. of_char c) s"

section \<open>Searching and comparing\<close>

fun memchr_n :: "nat \<Rightarrow> buf \<Rightarrow> int \<Rightarrow> byte \<Rightarrow> int option option" where
  "memchr_n 0 b i c = Some None"
| "memchr_n (Suc n) b i c =
     do { x \<leftarrow> rd b i; if x = c then Some (Some i) else memchr_n n b (i + 1) c }"

definition memchr :: "buf \<Rightarrow> int \<Rightarrow> byte \<Rightarrow> int \<Rightarrow> int option option" where
  "memchr b i c n = memchr_n (nat (if n < 0 then n + 2 ^ 64 else n)) b i c"

text \<open>A negative length is a huge \<open>size_t\<close>; \<open>memchr\<close> still stops at the first match.\<close>

text \<open>\<open>strncmp (b + i, s, strlen (s)) == 0\<close> and the same for \<open>strncasecmp\<close>.\<close>

fun strncmp_eq :: "buf \<Rightarrow> int \<Rightarrow> byte list \<Rightarrow> bool option" where
  "strncmp_eq b i [] = Some True"
| "strncmp_eq b i (c # cs) =
     do { x \<leftarrow> rd b i; if x \<noteq> c then Some False else strncmp_eq b (i + 1) cs }"

fun strncasecmp_eq :: "buf \<Rightarrow> int \<Rightarrow> byte list \<Rightarrow> bool option" where
  "strncasecmp_eq b i [] = Some True"
| "strncasecmp_eq b i (c # cs) =
     do { x \<leftarrow> rd b i; if to_lower x \<noteq> to_lower c then Some False else strncasecmp_eq b (i + 1) cs }"

text \<open>\<open>strtol (b + i, &end, 10)\<close>: the value and the offset of \<open>end\<close>.\<close>

function skip_ws :: "buf \<Rightarrow> int \<Rightarrow> int option" where
  "skip_ws b i = do { x \<leftarrow> rd b i; if isspace x then skip_ws b (i + 1) else Some i }"
  by pat_completeness auto
termination
  by (relation "measure (\<lambda>(b, i). nat (int (length b) - i))") (auto simp: rd_eq_Some)

function dec_digits :: "buf \<Rightarrow> int \<Rightarrow> int \<Rightarrow> (int \<times> int) option" where
  "dec_digits b i acc =
     do { x \<leftarrow> rd b i; if isdigit x then dec_digits b (i + 1) (acc * 10 + (uint x - 48)) else Some (acc, i) }"
  by pat_completeness auto
termination
  by (relation "measure (\<lambda>(b, i, acc). nat (int (length b) - i))") (auto simp: rd_eq_Some)

declare skip_ws.simps [simp del] dec_digits.simps [simp del]

definition clamp_long :: "int \<Rightarrow> int" where
  "clamp_long v = max (- (2 ^ 63)) (min (2 ^ 63 - 1) v)"

definition strtol10 :: "buf \<Rightarrow> int \<Rightarrow> (int \<times> int) option" where
  "strtol10 b i = do {
     j \<leftarrow> skip_ws b i;
     s \<leftarrow> rd b j;
     let k = (if s = 43 \<or> s = 45 then j + 1 else j);
     (v, e) \<leftarrow> dec_digits b k 0;
     Some (if e = k then (0, i) else (clamp_long (if s = 45 then - v else v), e)) }"

section \<open>Properties\<close>

lemma isspace_not_digit: "isspace c \<Longrightarrow> \<not> isdigit c"
  by (auto simp: isspace_def isdigit_def)

text \<open>The first \<open>c\<close> in \<open>n\<close> bytes from \<open>i\<close>.\<close>

definition first_at :: "buf \<Rightarrow> int \<Rightarrow> int \<Rightarrow> byte \<Rightarrow> int option \<Rightarrow> bool" where
  "first_at b i n c r \<longleftrightarrow>
     (case r of None \<Rightarrow> \<forall>j\<in>{i..<i + n}. b ! nat j \<noteq> c
      | Some p \<Rightarrow> p \<in> {i..<i + n} \<and> b ! nat p = c \<and> (\<forall>j\<in>{i..<p}. b ! nat j \<noteq> c))"

lemma int_range_step: "(i :: int) < p \<Longrightarrow> {i..<p} = insert i {i + 1..<p}"
  by auto

lemma memchr_n_safe:
  "0 \<le> i \<Longrightarrow> i + int n \<le> int (length b) \<Longrightarrow>
     \<exists>r. memchr_n n b i c = Some r \<and> first_at b i (int n) c r"
proof (induction n arbitrary: i)
  case 0
  then show ?case by (simp add: first_at_def)
next
  case (Suc n)
  show ?case
  proof (cases "b ! nat i = c")
    case True
    with Suc.prems show ?thesis by (simp add: first_at_def)
  next
    case False
    obtain r where r: "memchr_n n b (i + 1) c = Some r" "first_at b (i + 1) (int n) c r"
      using Suc.IH [of "i + 1"] Suc.prems by auto
    have "first_at b i (int (Suc n)) c r"
    proof (cases r)
      case None
      have step: "\<And>j. j \<in> {i..<i + int (Suc n)} \<Longrightarrow> j = i \<or> j \<in> {i + 1..<i + 1 + int n}" by auto
      have "\<forall>j\<in>{i + 1..<i + 1 + int n}. b ! nat j \<noteq> c" using r(2) None by (simp add: first_at_def)
      then have "\<forall>j\<in>{i..<i + int (Suc n)}. b ! nat j \<noteq> c" using step False by blast
      then show ?thesis by (simp add: first_at_def None)
    next
      case (Some a)
      have step: "\<And>j. j \<in> {i..<a} \<Longrightarrow> j = i \<or> j \<in> {i + 1..<a}" by auto
      have a: "i < a" "a < i + int (Suc n)" "b ! nat a = c" "\<forall>j\<in>{i + 1..<a}. b ! nat j \<noteq> c"
        using r(2) Some by (auto simp: first_at_def)
      then have "\<forall>j\<in>{i..<a}. b ! nat j \<noteq> c" using step False by blast
      with a show ?thesis by (simp add: first_at_def Some)
    qed
    with r False Suc.prems show ?thesis by simp
  qed
qed

lemma memchr_safe:
  assumes "0 \<le> i" "0 \<le> n" "i + n \<le> int (length b)"
  shows "\<exists>r. memchr b i c n = Some r \<and> first_at b i n c r"
proof -
  obtain k where k: "n = int k" using assms(2) zero_le_imp_eq_int by blast
  with memchr_n_safe [of i k b c] assms show ?thesis by (simp add: memchr_def)
qed

lemma memchr_n_bound: "memchr_n n b i c = Some (Some p) \<Longrightarrow> i \<le> p \<and> p < i + int n"
  by (induction n arbitrary: i) (fastforce simp: bind_eq_Some_conv split: if_splits)+

lemma memchr_bound: "memchr b i c n = Some (Some p) \<Longrightarrow> i \<le> p"
  by (auto simp: memchr_def dest: memchr_n_bound split: if_splits)

lemma memchr_n_in: "memchr_n n b i c = Some (Some p) \<Longrightarrow> 0 \<le> p \<and> p < int (length b)"
  by (induction n arbitrary: i) (fastforce simp: bind_eq_Some_conv rd_eq_Some split: if_splits)+

lemma memchr_in: "memchr b i c n = Some (Some p) \<Longrightarrow> 0 \<le> p \<and> p < int (length b)"
  by (auto simp: memchr_def dest: memchr_n_in split: if_splits)

lemma memchr_range: "memchr b i c n = Some (Some p) \<Longrightarrow> i \<le> p \<and> 0 \<le> p \<and> p < int (length b)"
  using memchr_bound memchr_in by blast

lemma strncmp_eq_iff:
  "0 \<le> i \<Longrightarrow> i + int (length s) \<le> int (length b) \<Longrightarrow>
     strncmp_eq b i s = Some (take (length s) (drop (nat i) b) = s)"
proof (induction s arbitrary: i)
  case Nil
  then show ?case by simp
next
  case (Cons c s)
  then have "drop (nat i) b = b ! nat i # drop (nat (i + 1)) b"
    by (simp add: Cons_nth_drop_Suc nat_add_distrib)
  with Cons show ?case by simp
qed

lemma strncasecmp_eq_iff:
  "0 \<le> i \<Longrightarrow> i + int (length s) \<le> int (length b) \<Longrightarrow>
     strncasecmp_eq b i s =
       Some (map to_lower (take (length s) (drop (nat i) b)) = map to_lower s)"
proof (induction s arbitrary: i)
  case Nil
  then show ?case by simp
next
  case (Cons c s)
  then have "drop (nat i) b = b ! nat i # drop (nat (i + 1)) b"
    by (simp add: Cons_nth_drop_Suc nat_add_distrib)
  with Cons show ?case by simp
qed

lemma skip_ws_safe:
  "0 \<le> i \<Longrightarrow> i \<le> q \<Longrightarrow> q < int (length b) \<Longrightarrow> \<not> isspace (b ! nat q) \<Longrightarrow>
     \<exists>j. skip_ws b i = Some j \<and> i \<le> j \<and> j \<le> q \<and> \<not> isspace (b ! nat j)"
proof (induction b i rule: skip_ws.induct)
  case (1 b i)
  show ?case
  proof (cases "isspace (b ! nat i)")
    case True
    then have "i \<noteq> q" using "1.prems" by auto
    then show ?thesis
      using "1.IH" [of "b ! nat i"] "1.prems" True by (auto simp: skip_ws.simps [of b i])
  next
    case False
    then show ?thesis using "1.prems" by (auto simp: skip_ws.simps [of b i])
  qed
qed

lemma dec_digits_safe:
  "0 \<le> i \<Longrightarrow> i \<le> q \<Longrightarrow> q < int (length b) \<Longrightarrow> \<not> isdigit (b ! nat q) \<Longrightarrow>
     \<exists>v e. dec_digits b i acc = Some (v, e) \<and> i \<le> e \<and> e \<le> q"
proof (induction b i acc rule: dec_digits.induct)
  case (1 b i acc)
  show ?case
  proof (cases "isdigit (b ! nat i)")
    case True
    then have "i \<noteq> q" using "1.prems" by auto
    then show ?thesis
      using "1.IH" [of "b ! nat i"] "1.prems" True
      by (fastforce simp: dec_digits.simps [of b i])
  next
    case False
    then show ?thesis using "1.prems" by (auto simp: dec_digits.simps [of b i])
  qed
qed

lemma strtol10_safe:
  assumes "0 \<le> i" "i \<le> q" "\<not> isspace (b ! nat q)" "q + 1 < int (length b)" "\<not> isdigit (b ! nat (q + 1))"
  shows "\<exists>v e. strtol10 b i = Some (v, e) \<and> i \<le> e \<and> e \<le> q + 1"
proof -
  obtain j where j: "skip_ws b i = Some j" "i \<le> j" "j \<le> q"
    using skip_ws_safe [of i q b] assms by auto
  let ?k = "if b ! nat j = 43 \<or> b ! nat j = 45 then j + 1 else j"
  have "0 \<le> ?k" "?k \<le> q + 1" using assms j by auto
  then obtain v e where "dec_digits b ?k 0 = Some (v, e)" "?k \<le> e" "e \<le> q + 1"
    using dec_digits_safe assms(4,5) by blast
  then show ?thesis using j assms
    by (auto simp: strtol10_def Let_def split: if_splits)
qed

end
