(* ===== verification/CNumber.thy ===== *)
theory CNumber
  imports CString
begin

text \<open>
  Numbers and strings in the arguments of the program: what \<open>src/main.c\<close> and the cache files of
  \<open>src/mpool.c\<close> use of \<open>strtol\<close>, \<open>strchr\<close>, \<open>strlen\<close>, \<open>sscanf\<close> and \<open>printf\<close>. A C string is a buffer that holds
  a zero byte; a function that would run past the end of the buffer is \<open>None\<close>.
\<close>

section \<open>Strings\<close>

text \<open>\<open>strchr (b + i, c)\<close>; the null pointer is \<open>Some None\<close>.\<close>

fun strchr_n :: "nat \<Rightarrow> buf \<Rightarrow> int \<Rightarrow> byte \<Rightarrow> int option option" where
  "strchr_n 0 b i c = None"
| "strchr_n (Suc n) b i c = do {
     x \<leftarrow> rd b i;
     if x = c then Some (Some i) else if x = 0 then Some None else strchr_n n b (i + 1) c }"

definition strchr :: "buf \<Rightarrow> int \<Rightarrow> byte \<Rightarrow> int option option" where
  "strchr b i c = strchr_n (length b) b i c"

definition strlen :: "buf \<Rightarrow> int \<Rightarrow> int option" where
  "strlen b i = do { e \<leftarrow> strchr b i 0; map_option (\<lambda>e. e - i) e }"

text \<open>The contents of a string.\<close>

definition cstr :: "buf \<Rightarrow> byte list" where
  "cstr b = takeWhile (\<lambda>c. c \<noteq> 0) b"

section \<open>Numbers\<close>

definition digit_val :: "byte \<Rightarrow> int" where
  "digit_val c =
     (if isdigit c then uint c - 48
      else if 97 \<le> uint c \<and> uint c \<le> 102 then uint c - 87
      else if 65 \<le> uint c \<and> uint c \<le> 70 then uint c - 55
      else 99)"

text \<open>At most \<open>w\<close> digits from \<open>i\<close>: the value and where it stops.\<close>

fun num_digits :: "int \<Rightarrow> nat \<Rightarrow> buf \<Rightarrow> int \<Rightarrow> int \<Rightarrow> (int \<times> int) option" where
  "num_digits base 0 b i acc = Some (acc, i)"
| "num_digits base (Suc w) b i acc = do {
     x \<leftarrow> rd b i;
     if digit_val x < base then num_digits base w b (i + 1) (acc * base + digit_val x) else Some (acc, i) }"

text \<open>\<open>strtol (b + i, &end, 0)\<close>: the value and the offset of \<open>end\<close>.\<close>

definition num_base :: "buf \<Rightarrow> int \<Rightarrow> (int \<times> int) option" where
  "num_base b k = do {
     x \<leftarrow> rd b k;
     if x \<noteq> 48 then Some (10, k)
     else do {
       y \<leftarrow> rd b (k + 1);
       if y \<noteq> 120 \<and> y \<noteq> 88 then Some (8, k)
       else do {
         z \<leftarrow> rd b (k + 2);
         Some (if digit_val z < 16 then (16, k + 2) else (8, k)) } } }"

definition strtol0 :: "buf \<Rightarrow> int \<Rightarrow> (int \<times> int) option" where
  "strtol0 b i = do {
     j \<leftarrow> skip_ws b i;
     s \<leftarrow> rd b j;
     let k = (if s = 43 \<or> s = 45 then j + 1 else j);
     (base, k) \<leftarrow> num_base b k;
     (v, e) \<leftarrow> num_digits base (length b) b k 0;
     Some (if e = k then (0, i) else (clamp_long (if s = 45 then - v else v), e)) }"

text \<open>\<open>int\<close> and \<open>unsigned int\<close> of a \<open>long\<close>.\<close>

definition to_int :: "int \<Rightarrow> int" where
  "to_int v = (v + 2 ^ 31) mod 2 ^ 32 - 2 ^ 31"

text \<open>The conversions \<open>%hhx\<close> and \<open>%hho\<close> of \<open>sscanf\<close> with a width \<open>w\<close>, and \<open>%d\<close>, \<open>%hu\<close>, \<open>%jd\<close> with base 10:
  the value before it is stored and where it stops, \<open>Some None\<close> for a failed match. With \<open>0x\<close> and no digit
  the C standard has the match fail.\<close>

definition scan_num :: "int \<Rightarrow> nat \<Rightarrow> buf \<Rightarrow> int \<Rightarrow> (int \<times> int) option option" where
  "scan_num base w b i = do {
     j \<leftarrow> skip_ws b i;
     s \<leftarrow> rd b j;
     let (k, w) = (if s = 43 \<or> s = 45 then (j + 1, w - 1) else (j, w));
     x \<leftarrow> (if w > 0 then rd b k else Some 0);
     y \<leftarrow> (if base = 16 \<and> w \<ge> 2 \<and> x = 48 then rd b (k + 1) else Some 0);
     let (k, w) = (if y = 120 \<or> y = 88 then (k + 2, w - 2) else (k, w));
     (v, e) \<leftarrow> num_digits base w b k 0;
     Some (if e = k then None else Some (if s = 45 then - v else v, e)) }"

text \<open>\<open>%d\<close> of \<open>printf\<close>.\<close>

fun dec_nat :: "nat \<Rightarrow> byte list" where
  "dec_nat n = (if n < 10 then [word_of_nat (48 + n)] else dec_nat (n div 10) @ [word_of_nat (48 + n mod 10)])"

definition dec_int :: "int \<Rightarrow> byte list" where
  "dec_int n = (if n < 0 then 45 # dec_nat (nat (- n)) else dec_nat (nat n))"

declare dec_nat.simps [simp del]

section \<open>Properties\<close>

text \<open>A buffer with a zero byte at \<open>z\<close>.\<close>

definition ends_at :: "buf \<Rightarrow> int \<Rightarrow> bool" where
  "ends_at b z \<longleftrightarrow> 0 \<le> z \<and> z < int (length b) \<and> b ! nat z = 0"

lemma ends_at_rd: "ends_at b z \<Longrightarrow> 0 \<le> i \<Longrightarrow> i \<le> z \<Longrightarrow> rd b i = Some (b ! nat i)"
  by (simp add: ends_at_def)

lemma ends_at_zero [simp]: "ends_at b z \<Longrightarrow> b ! nat z = 0"
  by (simp add: ends_at_def)

lemma isspace_0 [simp]: "\<not> isspace 0" and isdigit_0 [simp]: "\<not> isdigit 0" and digit_val_0 [simp]: "digit_val 0 = 99"
  by (simp_all add: isspace_def isdigit_def digit_val_def)

lemma strchr_n_safe:
  "ends_at b z \<Longrightarrow> 0 \<le> i \<Longrightarrow> i \<le> z \<Longrightarrow> z < i + int n \<Longrightarrow>
     \<exists>r. strchr_n n b i c = Some r \<and> (\<forall>p. r = Some p \<longrightarrow> i \<le> p \<and> p \<le> z \<and> b ! nat p = c)"
proof (induction n arbitrary: i)
  case (Suc n)
  show ?case
  proof (cases "b ! nat i = c \<or> b ! nat i = 0")
    case True
    then show ?thesis using Suc.prems by (auto simp: ends_at_rd)
  next
    case False
    then have "i < z" using Suc.prems by (cases "i = z") auto
    then obtain r where r: "strchr_n n b (i + 1) c = Some r"
      "\<forall>p. r = Some p \<longrightarrow> i + 1 \<le> p \<and> p \<le> z \<and> b ! nat p = c"
      using Suc.IH [of "i + 1"] Suc.prems by auto
    have "strchr_n (Suc n) b i c = Some r" using r(1) False Suc.prems by (simp add: ends_at_rd)
    then show ?thesis using r(2) by auto
  qed
qed simp

lemma strchr_safe:
  assumes "ends_at b z" "0 \<le> i" "i \<le> z"
  shows "\<exists>r. strchr b i c = Some r \<and> (\<forall>p. r = Some p \<longrightarrow> i \<le> p \<and> p \<le> z \<and> b ! nat p = c)"
proof -
  have "z < i + int (length b)" using assms by (simp add: ends_at_def)
  from strchr_n_safe [OF assms this, of c] show ?thesis unfolding strchr_def by blast
qed

lemma skip_ws_stop: "ends_at b z \<Longrightarrow> 0 \<le> i \<Longrightarrow> i \<le> z \<Longrightarrow> \<exists>j. skip_ws b i = Some j \<and> i \<le> j \<and> j \<le> z"
proof (induction "nat (z - i)" arbitrary: i)
  case 0
  then have "i = z" by simp
  then show ?case using 0 by (subst skip_ws.simps) (simp add: ends_at_rd)
next
  case (Suc n)
  show ?case
  proof (cases "isspace (b ! nat i)")
    case True
    then have "i \<noteq> z" using Suc.prems by auto
    then have "i < z" using Suc.prems by simp
    moreover have "n = nat (z - (i + 1))" using Suc.hyps(2) by simp
    ultimately obtain j where "skip_ws b (i + 1) = Some j" "i + 1 \<le> j" "j \<le> z"
      using Suc.hyps(1) [of "i + 1"] Suc.prems by auto
    then show ?thesis using True Suc.prems by (subst skip_ws.simps) (simp add: ends_at_rd)
  next
    case False
    then show ?thesis using Suc.prems by (subst skip_ws.simps) (simp add: ends_at_rd)
  qed
qed

lemma num_digits_safe:
  "ends_at b z \<Longrightarrow> 0 \<le> i \<Longrightarrow> i \<le> z \<Longrightarrow> base \<le> 16 \<Longrightarrow> \<exists>v e. num_digits base w b i acc = Some (v, e) \<and> i \<le> e \<and> e \<le> z"
proof (induction w arbitrary: i acc)
  case (Suc w)
  show ?case
  proof (cases "digit_val (b ! nat i) < base")
    case True
    then have "i \<noteq> z" using Suc.prems by auto
    then obtain v e where "num_digits base w b (i + 1) (acc * base + digit_val (b ! nat i)) = Some (v, e)" "i + 1 \<le> e" "e \<le> z"
      using Suc.IH [of "i + 1" "acc * base + digit_val (b ! nat i)"] Suc.prems by auto
    then show ?thesis using True Suc.prems by (simp add: ends_at_rd)
  qed (use Suc.prems in \<open>simp add: ends_at_rd\<close>)
qed simp

lemma num_base_safe:
  assumes "ends_at b z" "0 \<le> k" "k \<le> z"
  shows "\<exists>base k'. num_base b k = Some (base, k') \<and> base \<le> 16 \<and> k \<le> k' \<and> k' \<le> z"
proof (cases "b ! nat k = 48")
  case True
  then have k: "k < z" using assms by (cases "k = z") auto
  show ?thesis
  proof (cases "b ! nat (k + 1) = 120 \<or> b ! nat (k + 1) = 88")
    case x: True
    then have "k + 1 < z" using assms k by (cases "k + 1 = z") auto
    then show ?thesis using True x k assms by (auto simp: num_base_def ends_at_rd)
  next
    case False
    then show ?thesis using True k assms by (auto simp: num_base_def ends_at_rd)
  qed
qed (use assms in \<open>simp add: num_base_def ends_at_rd\<close>)

lemma strtol0_safe:
  assumes b: "ends_at b z" "0 \<le> i" "i \<le> z"
  shows "\<exists>v e. strtol0 b i = Some (v, e) \<and> i \<le> e \<and> e \<le> z"
proof -
  obtain j where j: "skip_ws b i = Some j" "i \<le> j" "j \<le> z" using skip_ws_stop b by blast
  define k where "k = (if b ! nat j = 43 \<or> b ! nat j = 45 then j + 1 else j)"
  have k: "j \<le> k" "k \<le> z" using j(3) b(1) by (cases "j = z"; simp add: k_def)+
  obtain base k' where nb: "num_base b k = Some (base, k')" "base \<le> 16" "k \<le> k'" "k' \<le> z"
    using num_base_safe [OF b(1), of k] k j(2) b(2) by auto
  obtain v e where d: "num_digits base (length b) b k' 0 = Some (v, e)" "k' \<le> e" "e \<le> z"
    using num_digits_safe [OF b(1) _ nb(4,2), of "length b" 0] nb(3) k(1) j(2) b(2) by auto
  show ?thesis
    using j k nb d b by (auto simp: strtol0_def ends_at_rd k_def [symmetric] Let_def)
qed

lemma scan_num_safe:
  assumes b: "ends_at b z" "0 \<le> i" "i \<le> z" "base \<le> 16"
  shows "\<exists>r. scan_num base w b i = Some r \<and> (\<forall>v e. r = Some (v, e) \<longrightarrow> i < e \<and> e \<le> z)"
proof -
  obtain j where j: "skip_ws b i = Some j" "i \<le> j" "j \<le> z" using skip_ws_stop b by blast
  define kw where "kw = (if b ! nat j = 43 \<or> b ! nat j = 45 then (j + 1, w - 1) else (j, w))"
  obtain k w1 where kw: "kw = (k, w1)" by (cases kw)
  have k: "j \<le> k" "k \<le> z" using j(3) b(1) kw by (cases "j = z"; auto simp: kw_def split: if_splits)+
  define x where "x = (if w1 > 0 then b ! nat k else 0)"
  have x: "(if w1 > 0 then rd b k else Some 0) = Some x" using k b j(2) by (simp add: x_def ends_at_rd)
  have x0: "k < z" if "x = 48" using that k(2) b(1) by (cases "k = z") (auto simp: x_def split: if_splits)
  define y where "y = (if base = 16 \<and> w1 \<ge> 2 \<and> x = 48 then b ! nat (k + 1) else 0)"
  have y: "(if base = 16 \<and> w1 \<ge> 2 \<and> x = 48 then rd b (k + 1) else Some 0) = Some y"
    using k b j(2) x0 by (auto simp: y_def ends_at_rd)
  have y0: "k + 2 \<le> z" if "y = 120 \<or> y = 88"
  proof -
    have "k < z" "b ! nat (k + 1) \<noteq> 0" using that x0 by (auto simp: y_def split: if_splits)
    then show ?thesis using b(1) by (cases "k + 1 = z") auto
  qed
  define kv where "kv = (if y = 120 \<or> y = 88 then (k + 2, w1 - 2) else (k, w1))"
  obtain k' w2 where kv: "kv = (k', w2)" by (cases kv)
  have k': "k \<le> k'" "k' \<le> z" using kv y0 k(2) by (auto simp: kv_def split: if_splits)
  obtain v e where d: "num_digits base w2 b k' 0 = Some (v, e)" "k' \<le> e" "e \<le> z"
    using num_digits_safe [OF b(1) _ k'(2) b(4), of w2 0] k'(1) k(1) j(2) b(2) by auto
  have eq: "scan_num base w b i = Some (if e = k' then None else Some (if b ! nat j = 45 then - v else v, e))"
    using j b(1,2) unfolding scan_num_def
    by (simp add: ends_at_rd kw_def [symmetric] kw x y kv_def [symmetric] kv d(1) del: One_nat_def)
  show ?thesis unfolding eq using d k' k(1) j(2) by auto
qed

end
