(* ===== verification/TlsParse.thy ===== *)
theory TlsParse
  imports CBytes
begin

text \<open>
  The read-only TLS functions of \<open>src/packets.c\<close>: recognising a ClientHello or ServerHello,
  walking the extension block, and extracting the server name (SNI). A function that takes
  \<open>(buffer, bsize)\<close> takes the object's bytes and \<open>bsize\<close>; \<open>None\<close> is a read outside the
  object.
\<close>

section \<open>Definitions\<close>

definition is_tls_chello :: "buf \<Rightarrow> int \<Rightarrow> bool option" where
  "is_tls_chello b n =
     (if n > 5 then do {
        v \<leftarrow> antohs b 0;
        if v = 0x1603 then do { t \<leftarrow> rd b 5; Some (t = 0x01) } else Some False }
      else Some False)"

definition is_tls_shello :: "buf \<Rightarrow> int \<Rightarrow> bool option" where
  "is_tls_shello b n =
     (if n > 5 then do {
        v \<leftarrow> antohs b 0;
        if v = 0x1603 then do { t \<leftarrow> rd b 5; Some (t = 0x02) } else Some False }
      else Some False)"

text \<open>The \<open>while\<close> loop of \<open>find_tls_ext_offset\<close>.\<close>

function tls_ext_loop :: "int \<Rightarrow> buf \<Rightarrow> int \<Rightarrow> int \<Rightarrow> int option" where
  "tls_ext_loop type data sz skip =
     (if skip + 4 < sz then do {
        epyt \<leftarrow> rd16 data skip;
        if type = epyt then Some skip
        else do {
          len \<leftarrow> rd16 data (skip + 2);
          tls_ext_loop type data sz (skip + (len + 4)) } }
      else Some 0)"
  by pat_completeness auto
termination
  by (relation "measure (\<lambda>(type, data, sz, skip). nat (sz - skip))") (auto dest: rd16_bounds)

declare tls_ext_loop.simps [simp del]

definition find_tls_ext_offset :: "int \<Rightarrow> buf \<Rightarrow> int \<Rightarrow> int \<Rightarrow> int option" where
  "find_tls_ext_offset type data sz skip =
     (if sz \<le> skip + 2 then Some 0
      else do {
        ext_len \<leftarrow> rd16 data skip;
        let skip = skip + 2;
        let sz = (if ext_len < sz - skip then ext_len + skip else sz);
        tls_ext_loop type data sz skip })"

definition find_ext_block :: "buf \<Rightarrow> int \<Rightarrow> int option" where
  "find_ext_block data sz =
     (if sz < 44 then Some 0
      else do {
        c \<leftarrow> rd data 43;
        let sid_len = uint c;
        if sz < 44 + sid_len + 2 then Some 0
        else do {
          cip_len \<leftarrow> rd16 data (44 + sid_len);
          let skip = 44 + sid_len + 2 + cip_len + 2;
          Some (if skip > sz then 0 else skip) } })"

text \<open>\<open>parse_tls\<close> returns the length of the host name and, when it reaches the assignment,
  the offset of \<open>*hs\<close> in the buffer.\<close>

definition parse_tls :: "buf \<Rightarrow> int \<Rightarrow> (int \<times> int option) option" where
  "parse_tls b n = do {
     ch \<leftarrow> is_tls_chello b n;
     if \<not> ch then Some (0, None)
     else do {
       skip \<leftarrow> find_ext_block b n;
       if skip = 0 then Some (0, None)
       else do {
         sni_offs \<leftarrow> find_tls_ext_offset 0x00 b n skip;
         if sni_offs = 0 \<or> sni_offs + 12 \<ge> n then Some (0, None)
         else do {
           len \<leftarrow> rd16 b (sni_offs + 7);
           if sni_offs + 9 + len > n then Some (0, None)
           else Some (len, Some (sni_offs + 9)) } } } }"

text \<open>\<open>memcmp (a + i, b + j, k)\<close>, as far as its callers look at it: are the two runs
  different?\<close>

definition memcmp_ne :: "buf \<Rightarrow> int \<Rightarrow> buf \<Rightarrow> int \<Rightarrow> int \<Rightarrow> bool option" where
  "memcmp_ne a i b j k = do { xs \<leftarrow> rdn a i k; ys \<leftarrow> rdn b j k; Some (xs \<noteq> ys) }"

definition neq_tls_sid :: "buf \<Rightarrow> int \<Rightarrow> buf \<Rightarrow> int \<Rightarrow> bool option" where
  "neq_tls_sid req qn resp sn =
     (if qn < 75 \<or> sn < 75 then Some False
      else do {
        ch \<leftarrow> is_tls_chello req qn;
        if \<not> ch then Some False
        else do {
          v \<leftarrow> antohs resp 0;
          if v \<noteq> 0x1603 then Some False
          else do {
            c \<leftarrow> rd req 43;
            let sid_len = uint c;
            let skip = 44 + sid_len + 3;
            offs \<leftarrow> find_tls_ext_offset 0x2b resp sn skip;
            if offs = 0 then Some False
            else do {
              d \<leftarrow> rd resp 43;
              if c \<noteq> d then Some True
              else memcmp_ne req 44 resp 44 sid_len } } } })"

section \<open>Every read stays inside the data\<close>

text \<open>The results below are stated for an object of at least \<open>n\<close> bytes. Taking \<open>n\<close> to be
  the size of the object, they say that no byte past the data is read.\<close>

lemma is_tls_chello_safe: "n \<le> int (length b) \<Longrightarrow> \<exists>r. is_tls_chello b n = Some r"
  by (auto simp: is_tls_chello_def antohs_Some)

lemma is_tls_chello_iff:
  "n \<le> int (length b) \<Longrightarrow> is_tls_chello b n = Some True \<longleftrightarrow>
     n > 5 \<and> b ! 0 = 0x16 \<and> b ! 1 = 0x03 \<and> b ! 5 = 0x01"
  by (auto simp: is_tls_chello_def antohs_Some antohs_0x1603_iff)

lemma tls_ext_loop_safe:
  "0 \<le> skip \<Longrightarrow> sz \<le> int (length data) \<Longrightarrow>
     \<exists>r. tls_ext_loop type data sz skip = Some r \<and>
         (r = 0 \<or> skip \<le> r \<and> r + 4 < sz \<and> rd16 data r = Some type)"
proof (induction type data sz skip rule: tls_ext_loop.induct)
  case (1 type data sz skip)
  show ?case
  proof (cases "skip + 4 < sz")
    case True
    then obtain epyt len where e: "rd16 data skip = Some epyt" "rd16 data (skip + 2) = Some len"
      and len: "0 \<le> len" using "1.prems" rd16_safe [of skip data] rd16_safe [of "skip + 2" data]
      by auto
    show ?thesis
    proof (cases "type = epyt")
      case True
      with e \<open>skip + 4 < sz\<close> show ?thesis by (simp add: tls_ext_loop.simps)
    next
      case False
      then obtain r where "tls_ext_loop type data sz (skip + (len + 4)) = Some r"
        "r = 0 \<or> skip + (len + 4) \<le> r \<and> r + 4 < sz \<and> rd16 data r = Some type"
        using "1.IH" [OF True e(1) False e(2)] "1.prems" len by auto
      with True False e len show ?thesis by (auto simp: tls_ext_loop.simps)
    qed
  next
    case False
    then show ?thesis by (simp add: tls_ext_loop.simps)
  qed
qed

lemma find_tls_ext_offset_safe:
  assumes "0 \<le> skip" "sz \<le> int (length data)"
  shows "\<exists>r. find_tls_ext_offset type data sz skip = Some r \<and>
    (r = 0 \<or> skip + 2 \<le> r \<and> r + 4 < sz \<and> rd16 data r = Some type)"
proof (cases "sz \<le> skip + 2")
  case True
  then show ?thesis by (simp add: find_tls_ext_offset_def)
next
  case False
  then obtain e where e: "rd16 data skip = Some e" "0 \<le> e"
    using assms rd16_safe [of skip data] by auto
  let ?sz = "if e < sz - (skip + 2) then e + (skip + 2) else sz"
  have "?sz \<le> int (length data)" using assms by auto
  then obtain r where "tls_ext_loop type data ?sz (skip + 2) = Some r"
    "r = 0 \<or> skip + 2 \<le> r \<and> r + 4 < ?sz \<and> rd16 data r = Some type"
    using tls_ext_loop_safe [of "skip + 2" ?sz data type] assms by auto
  with False e show ?thesis
    by (auto simp: find_tls_ext_offset_def Let_def split: if_splits)
qed

lemma find_ext_block_safe:
  assumes "sz \<le> int (length data)"
  shows "\<exists>r. find_ext_block data sz = Some r \<and> (r = 0 \<or> 48 \<le> r \<and> r \<le> sz)"
proof (cases "sz < 44 \<or> sz < 44 + uint (data ! 43) + 2")
  case True
  then show ?thesis using assms by (auto simp: find_ext_block_def)
next
  case False
  then obtain c where "rd16 data (44 + uint (data ! 43)) = Some c" "0 \<le> c"
    using assms rd16_safe [of "44 + uint (data ! 43)" data] by auto
  then show ?thesis using False assms by (auto simp: find_ext_block_def Let_def)
qed

lemma parse_tls_safe:
  assumes "n \<le> int (length b)"
  shows "\<exists>len hs. parse_tls b n = Some (len, hs) \<and> 0 \<le> len \<and> len < 65536 \<and>
    (case hs of None \<Rightarrow> len = 0 | Some h \<Rightarrow> 0 \<le> h \<and> h + len \<le> n)"
proof -
  obtain ch where ch: "is_tls_chello b n = Some ch"
    using is_tls_chello_safe [OF assms] by blast
  obtain skip where skip: "find_ext_block b n = Some skip" "skip = 0 \<or> 48 \<le> skip \<and> skip \<le> n"
    using find_ext_block_safe [OF assms] by blast
  then have "0 \<le> skip" by auto
  then obtain s where s: "find_tls_ext_offset 0 b n skip = Some s"
    "s = 0 \<or> skip + 2 \<le> s \<and> s + 4 < n"
    using find_tls_ext_offset_safe [OF _ assms] by blast
  show ?thesis
  proof (cases "\<not> ch \<or> skip = 0 \<or> s = 0 \<or> s + 12 \<ge> n")
    case True
    then show ?thesis using ch skip s by (auto simp: parse_tls_def)
  next
    case False
    then obtain len where "rd16 b (s + 7) = Some len" "0 \<le> len" "len < 65536"
      using rd16_safe [of "s + 7" b] assms s \<open>0 \<le> skip\<close> by auto
    then show ?thesis using False ch skip s \<open>0 \<le> skip\<close> by (auto simp: parse_tls_def)
  qed
qed

text \<open>The comparison of the session ids reads up to 44 + 255 bytes of the request, whatever its
  length \<open>qn\<close>: the caller passes an object that is large enough.\<close>

lemma neq_tls_sid_safe:
  assumes "qn \<le> int (length req)" "299 \<le> length req" "sn \<le> int (length resp)"
  shows "\<exists>r. neq_tls_sid req qn resp sn = Some r"
proof (cases "qn < 75 \<or> sn < 75")
  case True
  then have "neq_tls_sid req qn resp sn = Some False" by (simp add: neq_tls_sid_def)
  then show ?thesis ..
next
  case False
  obtain ch where ch: "is_tls_chello req qn = Some ch"
    using is_tls_chello_safe [OF assms(1)] by blast
  let ?sid = "uint (req ! 43)"
  obtain s where s: "find_tls_ext_offset 0x2b resp sn (44 + ?sid + 3) = Some s"
    "s = 0 \<or> 44 + ?sid + 3 + 2 \<le> s \<and> s + 4 < sn"
    using find_tls_ext_offset_safe [of "44 + ?sid + 3" sn resp "0x2b"] assms by auto
  have "44 + ?sid \<le> int (length req)"
    using assms(2) uint_byte_bounds(2) [where x = "req ! 43"] by linarith
  moreover have "44 + ?sid \<le> int (length resp)" if "s \<noteq> 0"
    using s that assms by linarith
  ultimately show ?thesis
    using False ch s assms by (auto simp: neq_tls_sid_def antohs_Some memcmp_ne_def Let_def)
qed

end
