(* ===== verification/TlsSpec.thy ===== *)
theory TlsSpec
  imports TlsParse
begin

text \<open>
  What the parsers promise, against an encoder of the wire format of RFC 8446: a list of
  extensions is laid out as type, length, data, and a ClientHello as a record with its fixed
  fields. None of the definitions here models code.
\<close>

section \<open>The wire format\<close>

type_synonym tls_ext = "int \<times> byte list"

fun ext_enc :: "tls_ext \<Rightarrow> byte list" where
  "ext_enc (t, d) = be16 t @ be16 (int (length d)) @ d"

definition exts_enc :: "tls_ext list \<Rightarrow> byte list" where
  "exts_enc es = concat (map ext_enc es)"

fun wf_ext :: "tls_ext \<Rightarrow> bool" where
  "wf_ext (t, d) \<longleftrightarrow> 0 \<le> t \<and> t < 65536 \<and> length d < 65536"

text \<open>The server-name extension, with one host name.\<close>

definition sni_ext :: "byte list \<Rightarrow> tls_ext" where
  "sni_ext host =
     (0, be16 (int (length host) + 3) @ [0] @ be16 (int (length host)) @ host)"

record hello =
  h_vers :: "byte list"     \<comment> \<open>the two version bytes and the 32 random bytes\<close>
  h_sid :: "byte list"
  h_ciphers :: "byte list"
  h_comp :: "byte list"     \<comment> \<open>length and one compression method\<close>
  h_exts :: "tls_ext list"

definition wf_hello :: "hello \<Rightarrow> bool" where
  "wf_hello h \<longleftrightarrow> length (h_vers h) = 34 \<and> length (h_sid h) < 256 \<and>
     length (h_ciphers h) < 65536 \<and> length (h_comp h) = 2 \<and>
     list_all wf_ext (h_exts h) \<and> length (exts_enc (h_exts h)) < 65536"

definition hello_head :: "hello \<Rightarrow> byte list" where
  "hello_head h =
     h_vers h @ [word_of_int (int (length (h_sid h)))] @ h_sid h @
     be16 (int (length (h_ciphers h))) @ h_ciphers h @ h_comp h"

definition hello_enc :: "byte \<Rightarrow> int \<Rightarrow> int \<Rightarrow> hello \<Rightarrow> byte list" where
  "hello_enc minor rlen hlen h =
     [0x16, 0x03, minor] @ be16 rlen @ [0x01, 0x00] @ be16 hlen @ hello_head h @
     be16 (int (length (exts_enc (h_exts h)))) @ exts_enc (h_exts h)"

section \<open>Reading back what was encoded\<close>

lemma length_ext_enc [simp]: "length (ext_enc e) = 4 + length (snd e)"
  by (cases e) simp

lemma exts_enc_simps [simp]:
  "exts_enc [] = []"
  "exts_enc (e # es) = ext_enc e @ exts_enc es"
  by (simp_all add: exts_enc_def)

lemma exts_enc_append [simp]: "exts_enc (es @ fs) = exts_enc es @ exts_enc fs"
  by (induction es) simp_all

lemma exts_enc_eq_Nil [simp]: "exts_enc es = [] \<longleftrightarrow> es = []"
  by (cases es) (auto simp: be16_def)

text \<open>Where the walk of \<open>find_tls_ext_offset\<close> stops: at the first extension of the type, but an
  empty extension at the very end is never looked at.\<close>

fun ext_pos :: "int \<Rightarrow> tls_ext list \<Rightarrow> int \<Rightarrow> int" where
  "ext_pos type [] p = 0"
| "ext_pos type ((t, d) # es) p =
     (if d = [] \<and> es = [] then 0
      else if t = type then p
      else ext_pos type es (p + 4 + int (length d)))"

lemma tls_ext_loop_spec:
  assumes "list_all wf_ext es" "data = pre @ exts_enc es @ post"
  shows "tls_ext_loop type data (int (length pre + length (exts_enc es))) (int (length pre)) =
    Some (ext_pos type es (int (length pre)))"
  using assms
proof (induction es arbitrary: pre)
  case Nil
  then show ?case by (simp add: tls_ext_loop.simps)
next
  case (Cons e es)
  obtain t d where e: "e = (t, d)" by (cases e)
  have t: "rd16 data (int (length pre)) = Some t"
    using Cons.prems by (intro rd16_be16 [where q = "be16 (int (length d)) @ d @ exts_enc es @ post"])
      (auto simp: e)
  have "rd16 data (int (length (pre @ be16 t))) = Some (int (length d))"
    using Cons.prems by (intro rd16_be16 [where q = "d @ exts_enc es @ post"]) (auto simp: e)
  then have d: "rd16 data (int (length pre) + 2) = Some (int (length d))"
    by (simp add: algebra_simps)
  define sz k where "sz = int (length pre + length (exts_enc (e # es)))" and "k = int (length pre)"
  have next_eq: "int (length (pre @ ext_enc e)) = k + (int (length d) + 4)"
    "int (length (pre @ ext_enc e) + length (exts_enc es)) = sz"
    by (simp_all add: sz_def k_def e)
  have IH: "tls_ext_loop type data sz (k + (int (length d) + 4)) =
      Some (ext_pos type es (k + (int (length d) + 4)))"
    using Cons.IH [of "pre @ ext_enc e"] Cons.prems unfolding next_eq by simp
  have iff: "k + 4 < sz \<longleftrightarrow> \<not> (d = [] \<and> es = [])"
    by (cases d; cases es) (auto simp: e sz_def k_def)
  have "tls_ext_loop type data sz k = Some (ext_pos type (e # es) k)"
  proof (cases "d = [] \<and> es = []")
    case True
    then show ?thesis using iff by (simp add: e tls_ext_loop.simps)
  next
    case False
    then show ?thesis
      using t d IH iff unfolding k_def [symmetric]
      by (auto simp: e tls_ext_loop.simps [of type data sz k] add.assoc add.commute [of 4])
  qed
  then show ?case by (simp only: sz_def k_def)
qed

lemma find_tls_ext_offset_spec:
  assumes "list_all wf_ext es" "length (exts_enc es) < 65536"
    and data: "data = pre @ be16 (int (length (exts_enc es))) @ exts_enc es @ post"
    and sz: "int (length pre + 2 + length (exts_enc es)) \<le> sz"
  shows "find_tls_ext_offset type data sz (int (length pre)) =
    Some (ext_pos type es (int (length pre) + 2))"
proof -
  let ?L = "int (length (exts_enc es))"
  have rd: "rd16 data (int (length pre)) = Some ?L"
    using assms by (intro rd16_be16) auto
  have loop: "tls_ext_loop type data (int (length pre) + 2 + ?L) (int (length pre) + 2) =
      Some (ext_pos type es (int (length pre) + 2))"
    using tls_ext_loop_spec [of es data "pre @ be16 ?L" post type] assms by (simp add: data algebra_simps)
  show ?thesis
  proof (cases "sz \<le> int (length pre) + 2")
    case True
    then have "length (exts_enc es) = 0" using sz by linarith
    then have "es = []" by simp
    with True show ?thesis by (simp add: find_tls_ext_offset_def)
  next
    case False
    moreover have "(if ?L < sz - (int (length pre) + 2) then ?L + (int (length pre) + 2) else sz)
        = int (length pre) + 2 + ?L"
      using sz by auto
    ultimately show ?thesis
      using rd loop by (simp add: find_tls_ext_offset_def Let_def)
  qed
qed

lemma ext_pos_append:
  "list_all (\<lambda>(t, d). t \<noteq> type) es \<Longrightarrow> fs \<noteq> [] \<Longrightarrow>
     ext_pos type (es @ fs) p = ext_pos type fs (p + int (length (exts_enc es)))"
  by (induction es arbitrary: p) (auto simp: algebra_simps)

section \<open>The server name of a ClientHello\<close>

lemma hello_head_length:
  "wf_hello h \<Longrightarrow>
     length (hello_head h) = 39 + length (h_sid h) + length (h_ciphers h)"
  by (simp add: wf_hello_def hello_head_def)

lemma is_tls_chello_hello_enc:
  "is_tls_chello (hello_enc minor rlen hlen h @ post) (int (length (hello_enc minor rlen hlen h @ post)))
     = Some True"
  by (subst is_tls_chello_iff) (simp_all add: hello_enc_def be16_def nth_Cons')

lemma find_ext_block_hello_enc:
  assumes "wf_hello h"
    and n: "int (9 + length (hello_head h)) \<le> n"
  shows "find_ext_block (hello_enc minor rlen hlen h @ post) n =
    Some (int (9 + length (hello_head h)))"
proof -
  let ?b = "hello_enc minor rlen hlen h @ post"
  let ?s = "length (h_sid h)" and ?c = "length (h_ciphers h)"
  let ?pre = "[0x16, 0x03, minor] @ be16 rlen @ [0x01, 0x00] @ be16 hlen @ h_vers h"
  let ?q = "h_ciphers h @ h_comp h @ be16 (int (length (exts_enc (h_exts h)))) @ exts_enc (h_exts h) @ post"
  have wf: "length (h_vers h) = 34" "?s < 256" "?c < 65536" "length (h_comp h) = 2"
    using assms by (simp_all add: wf_hello_def)
  have b: "?b = ?pre @ word_of_int (int ?s) # h_sid h @ be16 (int ?c) @ ?q"
    by (simp add: hello_enc_def hello_head_def)
  have "length ?pre = 43" using wf by simp
  then have "?b ! 43 = word_of_int (int ?s)"
    unfolding b by (metis nth_append_length)
  then have rd43: "rd ?b 43 = Some (word_of_int (int ?s))"
    using wf by (simp add: hello_enc_def hello_head_def)
  have "rd16 ?b (int (length (?pre @ word_of_int (int ?s) # h_sid h))) = Some (int ?c)"
    using wf by (intro rd16_be16 [where q = ?q]) (simp_all add: b)
  then have rdc: "rd16 ?b (44 + int ?s) = Some (int ?c)" using wf by simp
  have "uint (word_of_int (int ?s) :: byte) = int ?s"
    using wf by (simp add: unsigned_of_nat take_bit_nat_eq_self)
  then show ?thesis
    using rd43 rdc wf n hello_head_length [OF assms(1)]
    by (simp add: find_ext_block_def Let_def hello_enc_def)
qed

lemma ext_pos_sni:
  "list_all (\<lambda>(t, d). t \<noteq> 0) es1 \<Longrightarrow>
     ext_pos 0 (es1 @ sni_ext host # es2) p = p + int (length (exts_enc es1))"
  by (simp add: ext_pos_append sni_ext_def be16_def)

lemma parse_tls_hello:
  assumes wf: "wf_hello h" and es: "h_exts h = es1 @ sni_ext host # es2"
    and first: "list_all (\<lambda>(t, d). t \<noteq> 0) es1"
    and room: "es2 \<noteq> [] \<or> 3 < length host + length post"
    and b: "b = hello_enc minor rlen hlen h @ post" "n = int (length b)"
  shows "\<exists>off. parse_tls b n = Some (int (length host), Some off) \<and>
    rdn b off (int (length host)) = Some host"
proof -
  let ?L = "length (exts_enc (h_exts h))"
  let ?pre = "[0x16, 0x03, minor] @ be16 rlen @ [0x01, 0x00] @ be16 hlen @ hello_head h"
  let ?pos = "int (length ?pre) + 2 + int (length (exts_enc es1))"
  have len: "length ?pre = 9 + length (hello_head h)" by simp
  have host: "length host < 65536"
    using wf es by (auto simp: wf_hello_def sni_ext_def)
  have be: "b = ?pre @ be16 (int ?L) @ exts_enc (h_exts h) @ post"
    by (simp add: b hello_enc_def)
  have blk: "find_ext_block b n = Some (int (length ?pre))"
    using find_ext_block_hello_enc [OF wf, of n minor rlen hlen post] b len
    by (simp add: hello_enc_def)
  have "find_tls_ext_offset 0 b n (int (length ?pre)) =
      Some (ext_pos 0 (h_exts h) (int (length ?pre) + 2))"
    using wf be by (intro find_tls_ext_offset_spec) (auto simp: wf_hello_def b(2))
  then have offs: "find_tls_ext_offset 0 b n (int (length ?pre)) = Some ?pos"
    using ext_pos_sni [OF first] es by (simp add: add.assoc)
  let ?hd = "?pre @ be16 (int ?L) @ exts_enc es1 @
    be16 0 @ be16 (int (length host) + 5) @ be16 (int (length host) + 3) @ [0]"
  let ?tl = "exts_enc es2 @ post"
  have bh: "b = ?hd @ be16 (int (length host)) @ host @ ?tl"
    by (simp add: be es sni_ext_def add.commute)
  have "rd16 b (int (length ?hd)) = Some (int (length host))"
    using host bh by (intro rd16_be16 [where q = "host @ ?tl"]) auto
  moreover have "int (length ?hd) = ?pos + 7" by simp
  ultimately have hl: "rd16 b (?pos + 7) = Some (int (length host))" by simp
  have "n = ?pos + 9 + int (length host) + int (length ?tl)"
    by (simp add: b(2) bh)
  moreover have "es2 \<noteq> [] \<Longrightarrow> 4 \<le> length ?tl" by (cases es2) auto
  ultimately have bnd: "?pos + 12 < n" "?pos + 9 + int (length host) \<le> n"
    using room by auto
  have "rdn b (int (length (?hd @ be16 (int (length host))))) (int (length host)) = Some host"
    using bh by (intro rdn_mid [where p = "?hd @ be16 (int (length host))" and q = ?tl]) simp_all
  moreover have "int (length (?hd @ be16 (int (length host)))) = ?pos + 9" by simp
  ultimately have "rdn b (?pos + 9) (int (length host)) = Some host" by simp
  moreover have "parse_tls b n = Some (int (length host), Some (?pos + 9))"
    using blk offs hl bnd is_tls_chello_hello_enc [of minor rlen hlen h post]
    by (simp add: parse_tls_def b)
  ultimately show ?thesis by blast
qed

text \<open>A small ClientHello for examples.\<close>

definition hello_ex :: "tls_ext list \<Rightarrow> hello" where
  "hello_ex es = \<lparr> h_vers = replicate 34 3, h_sid = [7, 8], h_ciphers = [19, 1], h_comp = [1, 0], h_exts = es \<rparr>"

text \<open>C4: \<open>parse_tls\<close> is memory-safe on every input: given \<open>n\<close> bytes it reads only those, whatever
  their lengths claim, and the host name it reports, if any, lies inside them and is shorter than
  65536 bytes.\<close>

theorem parse_tls_in_bounds:
  assumes "n = int (length b)"
  shows "\<exists>len hs. parse_tls b n = Some (len, hs) \<and> 0 \<le> len \<and> len < 65536 \<and>
    (case hs of None \<Rightarrow> len = 0 | Some h \<Rightarrow> 0 \<le> h \<and> h + len \<le> n)"
  using parse_tls_safe [of n b] assms by simp

lemma parse_tls_in_bounds_witness:
  "\<exists>len hs. parse_tls [0x16, 3, 1, 0xff, 0xff, 1, 0] 7 = Some (len, hs) \<and> 0 \<le> len \<and> len < 65536 \<and>
    (case hs of None \<Rightarrow> len = 0 | Some h \<Rightarrow> 0 \<le> h \<and> h + len \<le> 7)"
  by (rule parse_tls_in_bounds) simp

text \<open>C5: in every ClientHello, whatever its session id, cipher suites and other extensions,
  \<open>parse_tls\<close> finds the server name; the bytes after the hello do not matter. The side condition
  \<open>room\<close> is the guard \<open>sni_offs + 12 >= bsize\<close> of the code.\<close>

theorem parse_tls_finds_sni:
  assumes wf: "wf_hello h" and es: "h_exts h = es1 @ sni_ext host # es2"
    and first: "list_all (\<lambda>(t, d). t \<noteq> 0) es1"
    and room: "es2 \<noteq> [] \<or> 3 < length host + length post"
    and b: "b = hello_enc minor rlen hlen h @ post" "n = int (length b)"
  shows "\<exists>off. parse_tls b n = Some (int (length host), Some off) \<and>
    rdn b off (int (length host)) = Some host"
  by (rule parse_tls_hello [OF assms])

lemma parse_tls_finds_sni_witness:
  "\<exists>off. parse_tls (hello_enc 1 90 86 (hello_ex [(23, [5]), sni_ext [97, 46, 98, 99]]) @ [1, 2])
      (int (length (hello_enc 1 90 86 (hello_ex [(23, [5]), sni_ext [97, 46, 98, 99]]) @ [1, 2]))) =
      Some (int (length [97 :: byte, 46, 98, 99]), Some off) \<and>
    rdn (hello_enc 1 90 86 (hello_ex [(23, [5]), sni_ext [97, 46, 98, 99]]) @ [1, 2]) off
      (int (length [97 :: byte, 46, 98, 99])) = Some [97, 46, 98, 99]"
proof (rule parse_tls_finds_sni [OF _ _ _ _ refl refl])
  show "wf_hello (hello_ex [(23, [5]), sni_ext [97, 46, 98, 99]])" by (simp add: wf_hello_def hello_ex_def sni_ext_def)
  show "h_exts (hello_ex [(23, [5]), sni_ext [97, 46, 98, 99]]) = [(23, [5])] @ sni_ext [97, 46, 98, 99] # []"
    by (simp add: hello_ex_def)
qed simp_all

end
