(* ===== verification/TlsEdit.thy ===== *)
theory TlsEdit
  imports TlsSpec
begin

text \<open>
  The TLS functions of \<open>src/packets.c\<close> that change a buffer: splitting a record (\<open>part_tls\<close>)
  and merging records, replacing the server name of a fake ClientHello (\<open>change_tls_sni\<close> and its
  helpers), and randomising it (\<open>randomize_tls\<close>).

  An operation takes the buffer and returns it changed, \<open>None\<close> when an access leaves the
  object or the loop of \<open>merge_tls_records\<close> never ends. \<open>rand ()\<close> is a sequence
  \<open>rand :: nat \<Rightarrow> nat\<close> of values with the number \<open>k\<close> of calls made so far.
\<close>

section \<open>Definitions\<close>

subsection \<open>Splitting and merging records\<close>

definition part_tls :: "buf \<Rightarrow> int \<Rightarrow> int \<Rightarrow> int \<Rightarrow> (int \<times> buf) option" where
  "part_tls b bsize n pos =
     (if n < 3 \<or> bsize - n < 5 \<or> pos < 0 \<or> pos + 5 > n then Some (0, b)
      else do {
        r_sz \<leftarrow> rd16 b 3;
        if r_sz < pos then Some (n, b)
        else do {
          b \<leftarrow> memmove b (5 + pos + 5) (5 + pos) (n - (5 + pos));
          hdr \<leftarrow> rdn b 0 3;
          b \<leftarrow> wrn b (5 + pos) hdr;
          b \<leftarrow> shtona b 3 pos;
          b \<leftarrow> shtona b (5 + pos + 3) (r_sz - pos);
          Some (5, b) } })"

text \<open>The \<open>while (1)\<close> loop of \<open>merge_tls_records\<close>: the buffer, \<open>full_sz\<close>, \<open>r_sz\<close>
  and \<open>i\<close> at the head of the loop; the result holds the buffer, \<open>full_sz\<close> and \<open>i\<close>.\<close>

partial_function (option) merge_loop ::
  "buf \<Rightarrow> int \<Rightarrow> int \<Rightarrow> int \<Rightarrow> int \<Rightarrow> (buf \<times> int \<times> int) option"
where
  "merge_loop b n full_sz r_sz i =
     (let full_sz = u16 (full_sz + r_sz) in
      if 5 + full_sz > n - 5 then Some (b, full_sz, i)
      else do {
        c \<leftarrow> rd b (5 + full_sz);
        c0 \<leftarrow> rd b 0;
        if c \<noteq> c0 then Some (b, full_sz, i)
        else do {
          r_sz \<leftarrow> rd16 b (5 + full_sz + 3);
          if full_sz + 10 + r_sz > n then Some (b, full_sz, i)
          else do {
            b \<leftarrow> memmove b (5 + full_sz) (10 + full_sz) (n - (10 + full_sz));
            merge_loop b n full_sz r_sz (i + 1) } } })"

definition merge_tls_records :: "buf \<Rightarrow> int \<Rightarrow> (buf \<times> int) option" where
  "merge_tls_records b n =
     (if n < 5 then Some (b, 0)
      else do {
        r_sz \<leftarrow> rd16 b 3;
        (b, full_sz, i) \<leftarrow> merge_loop b n 0 r_sz 0;
        b \<leftarrow> shtona b 3 full_sz;
        b \<leftarrow> shtona b 7 (full_sz - 4);
        Some (b, i * 5) })"

subsection \<open>Replacing the server name\<close>

text \<open>One iteration of \<open>copy_name\<close>: the characters \<open>*\<close>, \<open>?\<close> and \<open>#\<close> stand for a
  random character.\<close>

definition copy_char :: "(nat \<Rightarrow> nat) \<Rightarrow> nat \<Rightarrow> byte \<Rightarrow> byte \<times> nat" where
  "copy_char rand k c =
     (if c = 42 then
        let r = int (rand k) mod 36 in
        (word_of_int ((if r < 10 then 48 else 97 - 10) + r), Suc k)
      else if c = 63 then (word_of_int (97 + int (rand k) mod 26), Suc k)
      else if c = 35 then (word_of_int (48 + int (rand k) mod 10), Suc k)
      else (c, k))"

fun copy_name :: "(nat \<Rightarrow> nat) \<Rightarrow> nat \<Rightarrow> byte list \<Rightarrow> byte list \<times> nat" where
  "copy_name rand k [] = ([], k)"
| "copy_name rand k (c # cs) =
     (let (x, k) = copy_char rand k c; (xs, k) = copy_name rand k cs in (x # xs, k))"

text \<open>\<open>ks_sz\<close> has type \<open>int\<close>: it takes the value of \<open>ANTOHS\<close> uncut. The loop of
  \<open>remove_ks_group\<close> at offset \<open>g_offs\<close>.\<close>

function ks_group_loop ::
  "buf \<Rightarrow> int \<Rightarrow> int \<Rightarrow> int \<Rightarrow> int \<Rightarrow> int \<Rightarrow> (buf \<times> int) option"
where
  "ks_group_loop b n ks_offs ks_sz grp g_offs =
     (if g_offs + 4 < ks_offs + 4 + ks_sz then do {
        g_sz \<leftarrow> rd16 b (g_offs + 2);
        if ks_offs + 4 + g_sz > n then Some (b, 0)
        else do {
          g_tp \<leftarrow> rd16 b g_offs;
          if g_tp = grp then do {
            let g_end = g_offs + 4 + g_sz;
            b \<leftarrow> memmove b g_offs g_end (n - g_end);
            b \<leftarrow> shtona b (ks_offs + 2) (ks_sz - (4 + g_sz));
            b \<leftarrow> shtona b (ks_offs + 4) (ks_sz - (4 + g_sz) - 2);
            Some (b, 4 + g_sz) }
          else ks_group_loop b n ks_offs ks_sz grp (g_offs + (4 + g_sz)) } }
      else Some (b, 0))"
  by pat_completeness auto
termination
  by (relation "measure (\<lambda>(b, n, ks_offs, ks_sz, grp, g_offs). nat (ks_offs + 4 + ks_sz - g_offs))")
    (auto dest: rd16_bounds)

declare ks_group_loop.simps [simp del]

definition remove_ks_group :: "buf \<Rightarrow> int \<Rightarrow> int \<Rightarrow> int \<Rightarrow> (buf \<times> int) option" where
  "remove_ks_group b n skip grp = do {
     ks_offs \<leftarrow> find_tls_ext_offset 0x0033 b n skip;
     if ks_offs = 0 \<or> ks_offs + 6 \<ge> n then Some (b, 0)
     else do {
       ks_sz \<leftarrow> antohs b (ks_offs + 2);
       if ks_offs + 4 + ks_sz > n then Some (b, 0)
       else ks_group_loop b n ks_offs ks_sz grp (ks_offs + 4 + 2) } }"

definition remove_tls_ext :: "buf \<Rightarrow> int \<Rightarrow> int \<Rightarrow> int \<Rightarrow> (buf \<times> int) option" where
  "remove_tls_ext b n skip type = do {
     ext_offs \<leftarrow> find_tls_ext_offset type b n skip;
     if ext_offs = 0 then Some (b, 0)
     else do {
       ext_sz \<leftarrow> rd16 b (ext_offs + 2);
       let ext_end = ext_offs + 4 + ext_sz;
       if ext_end > n then Some (b, 0)
       else do {
         b \<leftarrow> memmove b ext_offs ext_end (n - ext_end);
         Some (b, ext_sz + 4) } } }"

definition resize_ech_ext :: "buf \<Rightarrow> int \<Rightarrow> int \<Rightarrow> int \<Rightarrow> (buf \<times> int) option" where
  "resize_ech_ext b n skip inc = do {
     ech_offs \<leftarrow> find_tls_ext_offset 0xfe0d b n skip;
     if ech_offs = 0 then Some (b, 0)
     else do {
       ech_sz \<leftarrow> rd16 b (ech_offs + 2);
       let ech_end = ech_offs + 4 + ech_sz;
       if ech_sz < 12 \<or> ech_end > n then Some (b, 0)
       else do {
         enc_sz \<leftarrow> rd16 b (ech_offs + 4 + 6);
         let pay_offs = ech_offs + 4 + 8 + enc_sz;
         let pay_sz = u16 (ech_sz - (8 + enc_sz + 2));
         if pay_offs + 2 > n then Some (b, 0)
         else do {
           let inc = (if pay_sz < - inc then - pay_sz else inc);
           b \<leftarrow> shtona b (ech_offs + 2) (ech_sz + inc);
           b \<leftarrow> shtona b pay_offs (pay_sz + inc);
           b \<leftarrow> memmove b (ech_end + inc) ech_end (n - (ech_end + inc));
           Some (b, inc) } } } }"

definition resize_sni :: "buf \<Rightarrow> int \<Rightarrow> int \<Rightarrow> int \<Rightarrow> int \<Rightarrow> buf option" where
  "resize_sni b n sni_offs sni_sz new_sz = do {
     b \<leftarrow> shtona b (sni_offs + 2) (new_sz + 5);
     b \<leftarrow> shtona b (sni_offs + 4) (new_sz + 3);
     b \<leftarrow> shtona b (sni_offs + 7) new_sz;
     let sni_end = sni_offs + 4 + sni_sz;
     memmove b (sni_end + new_sz - (sni_sz - 5)) sni_end (n - sni_end) }"

definition sni_strip_exts :: "int list" where
  "sni_strip_exts =
     [0x0015, 0x0031, 0x0010, 0x001c, 0x0023, 0x0005, 0x0022, 0x0012, 0x001b]"

text \<open>The loop of \<open>change_tls_sni\<close> that drops extensions; \<open>None\<close> in the second component
  is its \<open>return -1\<close>.\<close>

fun strip_exts :: "int list \<Rightarrow> buf \<Rightarrow> int \<Rightarrow> int \<Rightarrow> int \<Rightarrow> (buf \<times> int option) option" where
  "strip_exts [] b n skip avail =
     Some (b, if avail \<noteq> 0 \<and> avail < 4 then None else Some avail)"
| "strip_exts (e # es) b n skip avail =
     (if avail \<noteq> 0 \<and> avail < 4 then do {
        (b, d) \<leftarrow> remove_tls_ext b n skip e;
        strip_exts es b n skip (avail + d) }
      else Some (b, Some avail))"

definition sni_finish :: "buf \<Rightarrow> int \<Rightarrow> int \<Rightarrow> int \<Rightarrow> buf option" where
  "sni_finish b skip r_sz avail = do {
     b \<leftarrow> (if avail \<ge> 4 then do {
             b \<leftarrow> shtona b (5 + r_sz - avail) 0x0015;
             b \<leftarrow> shtona b (5 + r_sz - avail + 2) (avail - 4);
             memset b (5 + r_sz - avail + 4) 0 (avail - 4) }
           else Some b);
     b \<leftarrow> shtona b 3 r_sz;
     b \<leftarrow> shtona b 7 (r_sz - 4);
     shtona b skip (5 + r_sz - skip - 2) }"

definition change_tls_sni ::
  "(nat \<Rightarrow> nat) \<Rightarrow> nat \<Rightarrow> byte list \<Rightarrow> buf \<Rightarrow> int \<Rightarrow> int \<Rightarrow> (int \<times> buf \<times> nat) option"
where
  "change_tls_sni rand k host b n nn = do {
     (b, m) \<leftarrow> merge_tls_records b n;
     let avail = m + (nn - n);
     r_sz \<leftarrow> rd16 b 3;
     let r_sz = u16 (r_sz + avail);
     skip \<leftarrow> find_ext_block b n;
     if skip = 0 then Some (-1, b, k)
     else do {
       sni_offs \<leftarrow> find_tls_ext_offset 0x00 b n skip;
       if sni_offs = 0 then Some (-1, b, k)
       else do {
         let new_sz = u16 (int (length host));
         sni_sz \<leftarrow> rd16 b (sni_offs + 2);
         if sni_offs + 4 + sni_sz > n then Some (-1, b, k)
         else do {
           let diff = new_sz - (sni_sz - 5);
           let avail = avail - diff;
           (b, diff) \<leftarrow> (if diff < 0 \<and> avail > 0
              then do { b \<leftarrow> resize_sni b n sni_offs sni_sz new_sz; Some (b, 0) }
              else Some (b, diff));
           (b, avail) \<leftarrow> (if avail \<noteq> 0
              then do { (b, d) \<leftarrow> resize_ech_ext b n skip avail; Some (b, avail - d) }
              else Some (b, avail));
           (b, avail) \<leftarrow> (if avail < -50
              then do { (b, d) \<leftarrow> remove_ks_group b n skip 0x11ec; Some (b, avail + d) }
              else Some (b, avail));
           (b, av) \<leftarrow> strip_exts sni_strip_exts b n skip avail;
           case av of None \<Rightarrow> Some (-1, b, k)
           | Some avail \<Rightarrow> do {
               sni_offs \<leftarrow> find_tls_ext_offset 0x00 b n skip;
               if sni_offs = 0 then Some (-1, b, k)
               else do {
                 b \<leftarrow> (if diff \<noteq> 0 then resize_sni b n sni_offs sni_sz new_sz else Some b);
                 let (name, k) = copy_name rand k (take (nat new_sz) host);
                 b \<leftarrow> wrn b (sni_offs + 9) name;
                 (b, avail) \<leftarrow> (if avail > 0
                    then do { (b, d) \<leftarrow> resize_ech_ext b n skip avail; Some (b, avail - d) }
                    else Some (b, avail));
                 b \<leftarrow> sni_finish b skip r_sz avail;
                 Some (0, b, k) } } } } } }"

subsection \<open>Randomising\<close>

definition gen_rand_array :: "(nat \<Rightarrow> nat) \<Rightarrow> nat \<Rightarrow> nat \<Rightarrow> byte list \<times> nat" where
  "gen_rand_array rand k len = (map (\<lambda>i. word_of_int (int (rand (k + i)) mod 256)) [0..<len], k + len)"

text \<open>\<open>gen_rand_array (buffer + i, len)\<close>\<close>

definition rand_fill :: "(nat \<Rightarrow> nat) \<Rightarrow> nat \<Rightarrow> buf \<Rightarrow> int \<Rightarrow> int \<Rightarrow> (buf \<times> nat) option" where
  "rand_fill rand k b i len = do {
     let (xs, k) = gen_rand_array rand k (nat len);
     b \<leftarrow> wrn b i xs;
     Some (b, k) }"

function rand_ks_loop ::
  "(nat \<Rightarrow> nat) \<Rightarrow> nat \<Rightarrow> buf \<Rightarrow> int \<Rightarrow> int \<Rightarrow> int \<Rightarrow> int \<Rightarrow> (buf \<times> nat) option"
where
  "rand_ks_loop rand k b n ks_offs ks_sz g_offs =
     (if g_offs + 4 < ks_offs + 4 + ks_sz then do {
        g_sz \<leftarrow> rd16 b (g_offs + 2);
        if ks_offs + 4 + g_sz > n then Some (b, k)
        else do {
          (b, k) \<leftarrow> rand_fill rand k b (g_offs + 4) g_sz;
          rand_ks_loop rand k b n ks_offs ks_sz (g_offs + (4 + g_sz)) } }
      else Some (b, k))"
  by pat_completeness auto
termination
  by (relation "measure (\<lambda>(rand, k, b, n, ks_offs, ks_sz, g_offs). nat (ks_offs + 4 + ks_sz - g_offs))")
    (auto dest: rd16_bounds)

declare rand_ks_loop.simps [simp del]

definition randomize_tls :: "(nat \<Rightarrow> nat) \<Rightarrow> nat \<Rightarrow> buf \<Rightarrow> int \<Rightarrow> (buf \<times> nat) option" where
  "randomize_tls rand k b n =
     (if n < 44 then Some (b, k)
      else do {
        c \<leftarrow> rd b 43;
        let sid_len = uint c;
        if n < 44 + sid_len + 2 then Some (b, k)
        else do {
          (b, k) \<leftarrow> rand_fill rand k b 11 32;
          (b, k) \<leftarrow> rand_fill rand k b 44 sid_len;
          skip \<leftarrow> find_ext_block b n;
          if skip = 0 then Some (b, k)
          else do {
            ks_offs \<leftarrow> find_tls_ext_offset 0x0033 b n skip;
            if ks_offs = 0 \<or> ks_offs + 6 \<ge> n then Some (b, k)
            else do {
              ks_sz \<leftarrow> antohs b (ks_offs + 2);
              if ks_offs + 4 + ks_sz > n then Some (b, k)
              else rand_ks_loop rand k b n ks_offs ks_sz (ks_offs + 4 + 2) } } } })"

end
