(* ===== verification/Kavl.thy ===== *)
theory Kavl
  imports Main "HOL-Library.Monad_Syntax"
begin

text \<open>
  The intrusive AVL tree of \<open>src/kavl.h\<close>. A node is the element with its two children, its
  balance factor and the size of its subtree; the path that the C code collects in its arrays
  \<open>path\<close> and \<open>stack\<close>/\<open>dir\<close> is a list of frames, innermost first. A direction is a \<open>bool\<close>:
  \<open>False\<close> for the child \<open>p[0]\<close>, \<open>True\<close> for \<open>p[1]\<close>. \<open>None\<close> stands for the use of a null
  pointer. The callers pass no counter, so the rank that the code can report is not modelled.
\<close>

section \<open>Trees and paths\<close>

datatype 'a kavl = Leaf | Node (kleft: "'a kavl") (kkey: 'a) (kbal: int) (ksz: int) (kright: "'a kavl")

datatype 'a frame = Frame (fdir: bool) (fkey: 'a) (fbal: int) (fsz: int) (foth: "'a kavl")

fun kavl_size :: "'a kavl \<Rightarrow> int" where
  "kavl_size Leaf = 0"
| "kavl_size (Node l k b s r) = s"

fun fill :: "'a frame \<Rightarrow> 'a kavl \<Rightarrow> 'a kavl" where
  "fill (Frame d k b s t') t = (if d then Node t' k b s t else Node t k b s t')"

fun plug :: "'a kavl \<Rightarrow> 'a frame list \<Rightarrow> 'a kavl" where
  "plug t [] = t"
| "plug t (f # fs) = plug (fill f t) fs"

fun add_size :: "int \<Rightarrow> 'a frame \<Rightarrow> 'a frame" where
  "add_size i (Frame d k b s t) = Frame d k b (s + i) t"

fun add_bal :: "'a frame \<Rightarrow> 'a frame" where
  "add_bal (Frame d k b s t) = Frame d k (if d then b + 1 else b - 1) s t"

section \<open>Search\<close>

fun kavl_find :: "('a \<Rightarrow> 'a \<Rightarrow> int) \<Rightarrow> 'a kavl \<Rightarrow> 'a \<Rightarrow> 'a option" where
  "kavl_find cmp Leaf x = None"
| "kavl_find cmp (Node l k b s r) x =
     (let c = cmp x k in
      if c < 0 then kavl_find cmp l x else if c > 0 then kavl_find cmp r x else Some k)"

text \<open>The search loop of insertion and deletion: the node that compares equal with the path to
  it, or the path to the place of a new node.\<close>

fun descend :: "('a \<Rightarrow> 'a \<Rightarrow> int) \<Rightarrow> 'a \<Rightarrow> 'a kavl \<Rightarrow> 'a frame list \<Rightarrow> 'a kavl \<times> 'a frame list" where
  "descend cmp x Leaf path = (Leaf, path)"
| "descend cmp x (Node l k b s r) path =
     (let c = cmp x k in
      if c = 0 then (Node l k b s r, path)
      else if c > 0 then descend cmp x r (Frame True k b s l # path)
      else descend cmp x l (Frame False k b s r # path))"

section \<open>Rotations\<close>

text \<open>One rotation: \<open>(a,(b,c)q)p => ((a,b)p,c)q\<close>, or its mirror image.\<close>

fun kavl_rotate1 :: "bool \<Rightarrow> 'a kavl \<Rightarrow> 'a kavl option" where
  "kavl_rotate1 False (Node a p bp sp (Node b q bq sq c)) =
     Some (Node (Node a p bp (sp - (sq - kavl_size b)) b) q bq sp c)"
| "kavl_rotate1 True (Node (Node c q bq sq b) p bp sp a) =
     Some (Node c q bq sp (Node b p bp (sp - (sq - kavl_size b)) a))"
| "kavl_rotate1 _ _ = None"

text \<open>Two rotations: \<open>(a,((b,c)r,d)q)p => ((a,b)p,(c,d)q)r\<close>, or its mirror image. The balance
  factors of \<open>p\<close> and \<open>q\<close> follow from that of \<open>r\<close>.\<close>

fun kavl_rotate2 :: "bool \<Rightarrow> 'a kavl \<Rightarrow> 'a kavl option" where
  "kavl_rotate2 False (Node a p bp sp (Node (Node b r br sr c) q bq sq d)) =
     (let sb = kavl_size b;
          (bq', bp') = (if br = 1 then (0, - 1) else if br = 0 then (0, 0) else (1, 0)) in
      Some (Node (Node a p bp' (sp - (sq - sb)) b) r 0 sp (Node c q bq' (sq - (sb + 1)) d)))"
| "kavl_rotate2 True (Node (Node d q bq sq (Node c r br sr b)) p bp sp a) =
     (let sb = kavl_size b;
          (bq', bp') = (if br = - 1 then (0, 1) else if br = 0 then (0, 0) else (- 1, 0)) in
      Some (Node (Node d q bq' (sq - (sb + 1)) c) r 0 sp (Node b p bp' (sp - (sq - sb)) a)))"
| "kavl_rotate2 _ _ = None"

text \<open>After \<open>r = kavl_rotate1 (p, dir)\<close>: the balance factors of \<open>r\<close> and of \<open>p\<close>, its child.\<close>

fun set_bals :: "bool \<Rightarrow> int \<Rightarrow> int \<Rightarrow> 'a kavl \<Rightarrow> 'a kavl" where
  "set_bals False br bp (Node (Node a p _ sp b) r _ sr c) = Node (Node a p bp sp b) r br sr c"
| "set_bals True br bp (Node c r _ sr (Node b p _ sp a)) = Node c r br sr (Node b p bp sp a)"
| "set_bals _ _ _ t = t"

section \<open>Insertion\<close>

definition kavl_rebalance :: "'a kavl \<Rightarrow> 'a kavl option" where
  "kavl_rebalance t =
     (let which = kbal t < 0;
          b1 = (if which then - 1 else 1);
          q = (if which then kleft t else kright t) in
      if q = Leaf then None
      else if kbal q = b1 then map_option (set_bals which 0 0) (kavl_rotate1 which t)
      else kavl_rotate2 which t)"

text \<open>\<open>bp\<close> is the innermost node of the path that is not balanced, or the root.\<close>

definition split_path :: "'a frame list \<Rightarrow> 'a frame list \<times> 'a frame \<times> 'a frame list" where
  "split_path path =
     (case dropWhile (\<lambda>f. fbal f = 0) path of
        [] \<Rightarrow> (butlast path, last path, [])
      | bp # upper \<Rightarrow> (takeWhile (\<lambda>f. fbal f = 0) path, bp, upper))"

text \<open>The result: the new root, and the node that is returned in place of \<open>x\<close>, if any.\<close>

definition kavl_insert :: "('a \<Rightarrow> 'a \<Rightarrow> int) \<Rightarrow> 'a kavl \<Rightarrow> 'a \<Rightarrow> ('a kavl \<times> 'a option) option" where
  "kavl_insert cmp root x =
     (case descend cmp x root [] of
        (Node _ p _ _ _, _) \<Rightarrow> Some (root, Some p)
      | (Leaf, []) \<Rightarrow> Some (Node Leaf x 0 1 Leaf, None)
      | (Leaf, path) \<Rightarrow>
          (let (inner, bp, upper) = split_path (map (add_size 1) path);
               t = plug (Node Leaf x 0 1 Leaf) (map add_bal (inner @ [bp])) in
           if kbal t > - 2 \<and> kbal t < 2 then Some (plug t upper, None)
           else do { r \<leftarrow> kavl_rebalance t; Some (plug r upper, None) }))"

section \<open>Deletion\<close>

text \<open>The loop \<open>while (--d > 0)\<close>: walk up from the shrunken subtree \<open>t\<close>.\<close>

fun erase_up :: "'a kavl \<Rightarrow> 'a frame list \<Rightarrow> 'a kavl option" where
  "erase_up t [] = Some t"
| "erase_up t (Frame d k b s t' # fs) =
     (let b1 = (if d then - 1 else 1);
          q = fill (Frame d k (b + b1) s t') t in
      if b + b1 = b1 then Some (plug q fs)
      else if b + b1 = 2 * b1 then
        (if t' = Leaf then None
         else if kbal t' = - b1 then do { r \<leftarrow> kavl_rotate2 d q; erase_up r fs }
         else do {
           r \<leftarrow> kavl_rotate1 d q;
           if kbal t' = 0 then Some (plug (set_bals d (- b1) b1 r) fs)
           else erase_up (set_bals d 0 0 r) fs })
      else erase_up q fs)"

text \<open>The path from \<open>t\<close> to its leftmost node, and that node.\<close>

fun leftmost :: "'a kavl \<Rightarrow> 'a frame list \<Rightarrow> 'a kavl \<times> 'a frame list" where
  "leftmost Leaf path = (Leaf, path)"
| "leftmost (Node l k b s r) path =
     (if l = Leaf then (Node l k b s r, path) else leftmost l (Frame False k b s r # path))"

definition kavl_unlink :: "'a kavl \<times> 'a frame list \<Rightarrow> ('a kavl \<times> 'a) option option" where
  "kavl_unlink found =
     (case found of
        (Leaf, _) \<Rightarrow> Some None
      | (Node l p b s r, path) \<Rightarrow>
          let path = map (add_size (- 1)) path in
          (case r of
             Leaf \<Rightarrow> map_option (\<lambda>t. Some (t, p)) (erase_up l path)
           | Node Leaf q _ _ qr \<Rightarrow>
               map_option (\<lambda>t. Some (t, p)) (erase_up qr (Frame True q b (s - 1) l # path))
           | _ \<Rightarrow>
               (case leftmost r [] of
                  (Node _ m _ _ mr, inner) \<Rightarrow>
                    map_option (\<lambda>t. Some (t, p))
                      (erase_up mr (map (add_size (- 1)) inner @ Frame True m b (s - 1) l # path))
                | _ \<Rightarrow> None)))"

text \<open>The result: the new root and the node taken out, if there was one.\<close>

definition kavl_erase :: "('a \<Rightarrow> 'a \<Rightarrow> int) \<Rightarrow> 'a kavl \<Rightarrow> 'a \<Rightarrow> ('a kavl \<times> 'a) option option" where
  "kavl_erase cmp root x = kavl_unlink (descend cmp x root [])"

definition kavl_erase_first :: "'a kavl \<Rightarrow> ('a kavl \<times> 'a) option option" where
  "kavl_erase_first root = (if root = Leaf then None else kavl_unlink (leftmost root []))"

section \<open>Iteration\<close>

text \<open>The iterator's stack, top first, and the right child of its top.\<close>

fun spine :: "'a kavl \<Rightarrow> 'a kavl list \<Rightarrow> 'a kavl list" where
  "spine Leaf st = st"
| "spine (Node l k b s r) st = spine l (Node l k b s r # st)"

type_synonym 'a itr = "'a kavl list \<times> 'a kavl"

definition kavl_itr_first :: "'a kavl \<Rightarrow> 'a itr option" where
  "kavl_itr_first root =
     (case spine root [] of [] \<Rightarrow> None | p # st \<Rightarrow> Some (p # st, kright p))"

text \<open>The iterator at the first element that is not below \<open>x\<close>. When there is none, the right child is not
  written: it stays what it was, \<open>old\<close>.\<close>

fun itr_descend :: "('a \<Rightarrow> 'a \<Rightarrow> int) \<Rightarrow> 'a \<Rightarrow> 'a kavl \<Rightarrow> 'a kavl list \<Rightarrow> 'a kavl \<times> 'a kavl list" where
  "itr_descend cmp x Leaf st = (Leaf, st)"
| "itr_descend cmp x (Node l k b s r) st =
     (let c = cmp x k in
      if c < 0 then itr_descend cmp x l (Node l k b s r # st)
      else if c > 0 then itr_descend cmp x r st
      else (Node l k b s r, st))"

definition kavl_itr_find :: "('a \<Rightarrow> 'a \<Rightarrow> int) \<Rightarrow> 'a kavl \<Rightarrow> 'a \<Rightarrow> 'a kavl \<Rightarrow> 'a itr \<times> bool" where
  "kavl_itr_find cmp root x old =
     (case itr_descend cmp x root [] of
        (Leaf, []) \<Rightarrow> (([], old), False)
      | (Leaf, q # st) \<Rightarrow> ((q # st, kright q), False)
      | (p, st) \<Rightarrow> ((p # st, kright p), True))"

definition kavl_itr_next :: "'a itr \<Rightarrow> 'a itr \<times> bool" where
  "kavl_itr_next itr =
     (case spine (snd itr) (tl (fst itr)) of
        [] \<Rightarrow> (([], snd itr), False)
      | p # st \<Rightarrow> ((p # st, kright p), True))"

definition kavl_at :: "'a itr \<Rightarrow> 'a option" where
  "kavl_at itr = (case fst itr of [] \<Rightarrow> None | p # _ \<Rightarrow> Some (kkey p))"

section \<open>Release\<close>

text \<open>The elements in the order in which \<open>kavl_free\<close> frees them. A node with a left child is rotated to the
  right first, with its balance and size as they were.\<close>

function kavl_free :: "'a kavl \<Rightarrow> 'a list" where
  "kavl_free Leaf = []"
| "kavl_free (Node Leaf k b s r) = k # kavl_free r"
| "kavl_free (Node (Node a q bq sq c) k b s r) = kavl_free (Node a q bq sq (Node c k b s r))"
  by pat_completeness auto
termination by (relation "measures [size, \<lambda>t. case t of Leaf \<Rightarrow> 0 | Node l k b s r \<Rightarrow> size l]") auto

end
