(* ===== verification/KavlSpec.thy ===== *)
theory KavlSpec
  imports Kavl
begin

text \<open>
  The AVL tree is correct: insertion and deletion never use a null pointer, keep the balance
  factors and the sizes right, and change the sequence of elements as they should. The order is
  the interface \<open>kavl_order\<close>.
\<close>

section \<open>The invariant\<close>

fun height :: "'a kavl \<Rightarrow> nat" where
  "height Leaf = 0"
| "height (Node l k b s r) = Suc (max (height l) (height r))"

fun avl :: "'a kavl \<Rightarrow> bool" where
  "avl Leaf = True"
| "avl (Node l k b s r) =
     (avl l \<and> avl r \<and> b = int (height r) - int (height l) \<and> \<bar>b\<bar> \<le> 1 \<and> s = kavl_size l + kavl_size r + 1)"

fun inorder :: "'a kavl \<Rightarrow> 'a list" where
  "inorder Leaf = []"
| "inorder (Node l k b s r) = inorder l @ k # inorder r"

lemma kavl_size_inorder: "avl t \<Longrightarrow> kavl_size t = int (length (inorder t))"
  by (induction t) auto

fun before :: "'a frame list \<Rightarrow> 'a list" where
  "before [] = []"
| "before (Frame d k b s t # fs) = before fs @ (if d then inorder t @ [k] else [])"

fun after :: "'a frame list \<Rightarrow> 'a list" where
  "after [] = []"
| "after (Frame d k b s t # fs) = (if d then [] else k # inorder t) @ after fs"

lemma plug_append: "plug t (fs @ gs) = plug (plug t fs) gs"
  by (induction fs arbitrary: t) auto

lemma before_append: "before (fs @ gs) = before gs @ before fs"
  by (induction fs rule: before.induct) auto

lemma after_append: "after (fs @ gs) = after fs @ after gs"
  by (induction fs rule: after.induct) auto

lemma inorder_plug: "inorder (plug t fs) = before fs @ inorder t @ after fs"
  by (induction fs arbitrary: t rule: before.induct) auto

lemma before_map [simp]:
  "before (map (add_size i) fs) = before fs" "before (map add_bal fs) = before fs"
  by (induction fs rule: before.induct) auto

lemma after_map [simp]:
  "after (map (add_size i) fs) = after fs" "after (map add_bal fs) = after fs"
  by (induction fs rule: after.induct) auto

lemma avl_plugD: "avl (plug t fs) \<Longrightarrow> avl t"
proof (induction fs arbitrary: t)
  case (Cons f fs)
  then have "avl (fill f t)" by simp
  then show ?case by (cases f) (auto split: if_splits)
qed simp

lemma frame_add [simp]:
  "fbal (add_size i f) = fbal f" "fdir (add_size i f) = fdir f" "foth (add_size i f) = foth f"
  "fkey (add_size i f) = fkey f"
  by (cases f; simp)+

lemma add_size_0: "add_size 0 f = f"
  by (cases f) simp

text \<open>A subtree may be exchanged for one of the same height with \<open>i\<close> more elements.\<close>

lemma avl_plug_same:
  "avl (plug t fs) \<Longrightarrow> avl t' \<Longrightarrow> height t' = height t \<Longrightarrow> kavl_size t' = kavl_size t + i \<Longrightarrow>
     avl (plug t' (map (add_size i) fs)) \<and> height (plug t' (map (add_size i) fs)) = height (plug t fs)"
proof (induction fs arbitrary: t t')
  case (Cons f fs)
  obtain d k b s o' where f: "f = Frame d k b s o'" by (cases f)
  have "avl (fill f t)" using Cons.prems(1) avl_plugD by simp
  then have "avl (fill (add_size i f) t')" "height (fill (add_size i f) t') = height (fill f t)"
    "kavl_size (fill (add_size i f) t') = kavl_size (fill f t) + i"
    using Cons.prems f by (auto split: if_splits)
  then show ?case using Cons.IH [of "fill f t" "fill (add_size i f) t'"] Cons.prems(1) by simp
qed simp

section \<open>Insertion\<close>

text \<open>Along balanced nodes a taller subtree only tips the balance factors.\<close>

lemma avl_plug_grow:
  "avl (plug t fs) \<Longrightarrow> \<forall>f\<in>set fs. fbal f = 0 \<Longrightarrow> avl t' \<Longrightarrow> height t' = height t + 1 \<Longrightarrow>
     kavl_size t' = kavl_size t + 1 \<Longrightarrow>
     avl (plug t' (map add_bal (map (add_size 1) fs))) \<and>
     height (plug t' (map add_bal (map (add_size 1) fs))) = height (plug t fs) + 1 \<and>
     kavl_size (plug t' (map add_bal (map (add_size 1) fs))) = kavl_size (plug t fs) + 1"
proof (induction fs arbitrary: t t')
  case (Cons f fs)
  obtain d k b s o' where f: "f = Frame d k b s o'" by (cases f)
  have "avl (fill f t)" using Cons.prems(1) avl_plugD by simp
  then have "avl (fill (add_bal (add_size 1 f)) t')"
    "height (fill (add_bal (add_size 1 f)) t') = height (fill f t) + 1"
    "kavl_size (fill (add_bal (add_size 1 f)) t') = kavl_size (fill f t) + 1"
    using Cons.prems f by (auto split: if_splits)
  then show ?case using Cons.IH [of "fill f t" "fill (add_bal (add_size 1 f)) t'"] Cons.prems by simp
qed simp

text \<open>A node whose subtrees are fine but differ by two levels, and its size is right.\<close>

definition tilted :: "int \<Rightarrow> 'a kavl \<Rightarrow> bool" where
  "tilted c t \<longleftrightarrow> (case t of Leaf \<Rightarrow> False | Node l k b s r \<Rightarrow>
     avl l \<and> avl r \<and> b = int (height r) - int (height l) \<and> b = c \<and> s = kavl_size l + kavl_size r + 1)"

lemma avl_kbal_cases: "avl t \<Longrightarrow> kbal t = - 1 \<or> kbal t = 0 \<or> kbal t = 1 \<or> t = Leaf"
  by (cases t) auto

lemma tilted_right:
  assumes "tilted 2 t"
  obtains a p s q where "t = Node a p 2 s q" "q \<noteq> Leaf" "avl a" "avl q" "height q = height a + 2"
    "s = kavl_size a + kavl_size q + 1"
  using assms by (cases t) (fastforce simp: tilted_def)+

lemma tilted_left:
  assumes "tilted (- 2) t"
  obtains a p s q where "t = Node q p (- 2) s a" "q \<noteq> Leaf" "avl a" "avl q" "height q = height a + 2"
    "s = kavl_size a + kavl_size q + 1"
  using assms by (cases t) (fastforce simp: tilted_def)+

text \<open>A single rotation when the tall child is tilted the same way or balanced.\<close>

lemma rotate1_outer:
  assumes "tilted (if d then - 2 else 2) t" "q = (if d then kleft t else kright t)"
    "kbal q = (if d then - 1 else 1)"
  shows "\<exists>u. kavl_rotate1 d t = Some u \<and> avl (set_bals d 0 0 u) \<and> height (set_bals d 0 0 u) + 1 = height t \<and>
    kavl_size (set_bals d 0 0 u) = kavl_size t \<and> inorder (set_bals d 0 0 u) = inorder t"
proof (cases d)
  case True
  with assms(1) have "tilted (- 2) t" by simp
  then obtain a p s q' where t: "t = Node q' p (- 2) s a" "q' \<noteq> Leaf" "avl a" "avl q'"
      "height q' = height a + 2" "s = kavl_size a + kavl_size q' + 1"
    by (rule tilted_left)
  with assms True show ?thesis by (cases q') auto
next
  case False
  with assms(1) have "tilted 2 t" by simp
  then obtain a p s q' where t: "t = Node a p 2 s q'" "q' \<noteq> Leaf" "avl a" "avl q'"
      "height q' = height a + 2" "s = kavl_size a + kavl_size q' + 1"
    by (rule tilted_right)
  with assms False show ?thesis by (cases q') auto
qed

lemma rotate1_level:
  assumes "tilted (if d then - 2 else 2) t" "q = (if d then kleft t else kright t)" "kbal q = 0"
  defines "b1 \<equiv> (if d then - 1 else 1)"
  shows "\<exists>u. kavl_rotate1 d t = Some u \<and> avl (set_bals d (- b1) b1 u) \<and> height (set_bals d (- b1) b1 u) = height t \<and>
    kavl_size (set_bals d (- b1) b1 u) = kavl_size t \<and> inorder (set_bals d (- b1) b1 u) = inorder t"
proof (cases d)
  case True
  with assms(1) have "tilted (- 2) t" by simp
  then obtain a p s q' where t: "t = Node q' p (- 2) s a" "q' \<noteq> Leaf" "avl a" "avl q'"
      "height q' = height a + 2" "s = kavl_size a + kavl_size q' + 1"
    by (rule tilted_left)
  with assms True show ?thesis by (cases q') auto
next
  case False
  with assms(1) have "tilted 2 t" by simp
  then obtain a p s q' where t: "t = Node a p 2 s q'" "q' \<noteq> Leaf" "avl a" "avl q'"
      "height q' = height a + 2" "s = kavl_size a + kavl_size q' + 1"
    by (rule tilted_right)
  with assms False show ?thesis by (cases q') auto
qed

text \<open>A double rotation when the tall child is tilted the other way.\<close>

lemma rotate2_ok:
  assumes "tilted (if d then - 2 else 2) t" "q = (if d then kleft t else kright t)"
    "kbal q = (if d then 1 else - 1)"
  shows "\<exists>u. kavl_rotate2 d t = Some u \<and> avl u \<and> height u + 1 = height t \<and>
    kavl_size u = kavl_size t \<and> inorder u = inorder t"
proof (cases d)
  case True
  with assms(1) have "tilted (- 2) t" by simp
  then obtain a p s q' where t: "t = Node q' p (- 2) s a" "q' \<noteq> Leaf" "avl a" "avl q'"
      "height q' = height a + 2" "s = kavl_size a + kavl_size q' + 1"
    by (rule tilted_left)
  obtain e qk qb qs r where q: "q' = Node e qk qb qs r" using t by (cases q') auto
  obtain c rk br sr b where r: "r = Node c rk br sr b"
    using assms True t q by (cases r) auto
  have "br = - 1 \<or> br = 0 \<or> br = 1" using t q r by auto
  with assms True t q r show ?thesis by (auto simp: Let_def)
next
  case False
  with assms(1) have "tilted 2 t" by simp
  then obtain a p s q' where t: "t = Node a p 2 s q'" "q' \<noteq> Leaf" "avl a" "avl q'"
      "height q' = height a + 2" "s = kavl_size a + kavl_size q' + 1"
    by (rule tilted_right)
  obtain r qk qb qs e where q: "q' = Node r qk qb qs e" using t by (cases q') auto
  obtain b rk br sr c where r: "r = Node b rk br sr c"
    using assms False t q by (cases r) auto
  have "br = - 1 \<or> br = 0 \<or> br = 1" using t q r by auto
  with assms False t q r show ?thesis by (auto simp: Let_def)
qed

lemma rebalance_ok:
  assumes "tilted (if d then - 2 else 2) t" "q = (if d then kleft t else kright t)" "kbal q \<noteq> 0"
  shows "\<exists>u. kavl_rebalance t = Some u \<and> avl u \<and> height u + 1 = height t \<and>
    kavl_size u = kavl_size t \<and> inorder u = inorder t"
proof -
  have q: "q \<noteq> Leaf" "avl q" "(kbal t < 0) = d"
    using assms(1,2) by (cases t; cases d; auto simp: tilted_def)+
  show ?thesis
  proof (cases "kbal q = (if d then - 1 else 1)")
    case True
    then show ?thesis
      using rotate1_outer [OF assms(1,2)] q assms(2) by (auto simp: kavl_rebalance_def Let_def)
  next
    case False
    then have "kbal q = (if d then 1 else - 1)"
      using avl_kbal_cases [OF q(2)] q(1) assms(3) by (auto split: if_splits)
    with False show ?thesis
      using rotate2_ok [OF assms(1,2)] q assms(2) by (auto simp: kavl_rebalance_def Let_def)
  qed
qed

lemma kbal_grow:
  "fs \<noteq> [] \<Longrightarrow> \<forall>f\<in>set fs. fbal f = 0 \<Longrightarrow> kbal (plug t (map add_bal (map (add_size i) fs))) \<noteq> 0"
proof (induction fs arbitrary: t)
  case (Cons f fs)
  then show ?case by (cases f; cases fs) auto
qed simp

lemma split_path_spec:
  assumes "path \<noteq> []" "split_path path = (inner, bp, upper)"
  shows "path = inner @ bp # upper \<and> (\<forall>f\<in>set inner. fbal f = 0) \<and> (fbal bp = 0 \<longrightarrow> upper = [])"
proof (cases "dropWhile (\<lambda>f. fbal f = 0) path")
  case Nil
  then have "\<forall>f\<in>set path. fbal f = 0" by (simp add: dropWhile_eq_Nil_conv)
  moreover have "inner = butlast path" "bp = last path" "upper = []"
    using assms(2) Nil by (simp_all add: split_path_def)
  ultimately show ?thesis using assms(1) by (auto dest: in_set_butlastD)
next
  case (Cons f fs)
  have "fbal f \<noteq> 0" using hd_dropWhile [of "\<lambda>f. fbal f = 0" path] Cons by simp
  moreover have "path = takeWhile (\<lambda>f. fbal f = 0) path @ f # fs"
    using takeWhile_dropWhile_id [of "\<lambda>f. fbal f = 0" path, symmetric] unfolding Cons .
  moreover have "inner = takeWhile (\<lambda>f. fbal f = 0) path" "bp = f" "upper = fs"
    using assms(2) Cons by (simp_all add: split_path_def)
  ultimately show ?thesis using set_takeWhileD by metis
qed

lemma insert_at:
  assumes "avl (plug Leaf path)" "path \<noteq> []"
    and sp: "split_path (map (add_size 1) path) = (inner, bp, upper)"
    and t: "t = plug (Node Leaf x 0 1 Leaf) (map add_bal (inner @ [bp]))"
  shows "\<exists>r. (if kbal t > - 2 \<and> kbal t < 2 then Some (plug t upper)
      else do { r \<leftarrow> kavl_rebalance t; Some (plug r upper) }) = Some r \<and>
    avl r \<and> inorder r = before path @ x # after path"
proof -
  have m: "map (add_size 1) path = inner @ bp # upper"
    and z: "\<forall>f\<in>set inner. fbal f = 0" "fbal bp = 0 \<longrightarrow> upper = []"
    using split_path_spec [OF _ sp] assms(2) by auto
  from m obtain i0 r0 where "path = i0 @ r0" "inner = map (add_size 1) i0" "map (add_size 1) r0 = bp # upper"
    unfolding map_eq_append_conv by metis
  then obtain b0 u0 where p: "path = i0 @ b0 # u0" "inner = map (add_size 1) i0"
      "bp = add_size 1 b0" "upper = map (add_size 1) u0"
    unfolding map_eq_Cons_conv by metis
  have z0: "\<forall>f\<in>set i0. fbal f = 0" "fbal b0 = 0 \<longrightarrow> u0 = []" using z p by auto
  obtain d k b s t' where b0: "b0 = Frame d k b s t'" by (cases b0)
  let ?s0 = "plug Leaf i0"
  let ?t1 = "plug (Node Leaf x 0 1 Leaf) (map add_bal (map (add_size 1) i0))"
  have root: "plug Leaf path = plug (fill b0 ?s0) u0" by (simp add: p plug_append)
  have a0: "avl (fill b0 ?s0)" using assms(1) root avl_plugD by metis
  then have as0: "avl ?s0" by (simp add: b0 split: if_splits)
  have grow: "avl ?t1" "height ?t1 = height ?s0 + 1" "kavl_size ?t1 = kavl_size ?s0 + 1"
    using avl_plug_grow [OF as0 z0(1), of "Node Leaf x 0 1 Leaf"] by auto
  have t': "t = fill (add_bal (add_size 1 b0)) ?t1" by (simp add: t p plug_append)
  have ino: "inorder (plug t upper) = before path @ x # after path"
    by (simp add: t p inorder_plug before_append after_append plug_append b0 del: map_map)
  have up: "avl (plug u upper)" "inorder (plug u upper) = before path @ x # after path"
    if "avl u" "height u = height (fill b0 ?s0)" "kavl_size u = kavl_size (fill b0 ?s0) + 1"
      "inorder u = inorder t" for u
  proof -
    show "avl (plug u upper)"
      using avl_plug_same [of "fill b0 ?s0" u0 u 1] assms(1) root that p by simp
    show "inorder (plug u upper) = before path @ x # after path"
      using ino that(4) by (simp add: inorder_plug)
  qed
  show ?thesis
  proof (cases "b = 0")
    case True
    then have "upper = []" using z0 b0 p by simp
    moreover have "avl t \<and> kbal t > - 2 \<and> kbal t < 2"
      using a0 grow True by (auto simp: t' b0 split: if_splits)
    ultimately show ?thesis using ino by simp
  next
    case False
    show ?thesis
    proof (cases "kbal t > - 2 \<and> kbal t < 2")
      case True
      then have "avl t \<and> height t = height (fill b0 ?s0) \<and> kavl_size t = kavl_size (fill b0 ?s0) + 1"
        using a0 grow False by (auto simp: t' b0 split: if_splits)
      with True show ?thesis using up [of t] by simp
    next
      case tilt: False
      have td: "tilted (if \<not> d then - 2 else 2) t" "height t = height (fill b0 ?s0) + 1"
          "kavl_size t = kavl_size (fill b0 ?s0) + 1" "?t1 = (if \<not> d then kleft t else kright t)"
        using a0 grow False tilt by (auto simp: t' b0 tilted_def split: if_splits)
      have "kbal ?t1 \<noteq> 0"
      proof (cases "i0 = []")
        case True
        then show ?thesis
          using td(1) by (auto simp: t' b0 tilted_def split: if_splits)
      next
        case False
        then show ?thesis using kbal_grow z0(1) by blast
      qed
      from rebalance_ok [OF td(1,4) this]
      obtain u where "kavl_rebalance t = Some u" "avl u" "height u + 1 = height t"
          "kavl_size u = kavl_size t" "inorder u = inorder t" by auto
      then show ?thesis unfolding if_not_P [OF tilt] using up [of u] td by simp
    qed
  qed
qed

lemma descend_plug: "descend cmp x t path = (u, path') \<Longrightarrow> plug u path' = plug t path"
  by (induction cmp x t path rule: descend.induct) (auto simp: Let_def split: if_splits)

lemma kavl_insert_new:
  assumes "avl root" "descend cmp x root [] = (Leaf, path)"
  shows "\<exists>t. kavl_insert cmp root x = Some (t, None) \<and> avl t \<and>
    inorder root = before path @ after path \<and> inorder t = before path @ x # after path"
proof -
  have root: "root = plug Leaf path" using descend_plug assms(2) by fastforce
  have ino: "inorder root = before path @ after path" by (simp add: root inorder_plug)
  show ?thesis
  proof (cases "path = []")
    case True
    then show ?thesis using assms root by (simp add: kavl_insert_def)
  next
    case False
    then obtain f fs where path: "path = f # fs" by (cases path) auto
    obtain inner bp upper where sp: "split_path (map (add_size 1) path) = (inner, bp, upper)"
      using prod_cases3 by blast
    obtain r where "(if kbal t > - 2 \<and> kbal t < 2 then Some (plug t upper)
      else do { r \<leftarrow> kavl_rebalance t; Some (plug r upper) }) = Some r"
      "avl r" "inorder r = before path @ x # after path"
      if "t = plug (Node Leaf x 0 1 Leaf) (map add_bal (inner @ [bp]))" for t
      using insert_at [OF _ False sp] assms(1) root by metis
    then show ?thesis
      using assms(2) path sp ino
      by (auto simp: kavl_insert_def Let_def bind_eq_Some_conv split: if_splits)
  qed
qed

section \<open>Deletion\<close>

lemma erase_up_ok:
  "avl (plug t fs) \<Longrightarrow> avl t' \<Longrightarrow> height t' + 1 = height t \<Longrightarrow> kavl_size t' = kavl_size t - 1 \<Longrightarrow>
     \<exists>u. erase_up t' (map (add_size (- 1)) fs) = Some u \<and> avl u \<and> inorder u = before fs @ inorder t' @ after fs"
proof (induction fs arbitrary: t t')
  case Nil
  then show ?case by simp
next
  case (Cons f fs)
  obtain d k b s ot where f: "f = Frame d k b s ot" by (cases f)
  let ?b1 = "if d then - 1 else 1 :: int"
  let ?q = "fill (Frame d k (b + ?b1) (s - 1) ot) t'"
  have af: "avl (fill f t)" and ap: "avl (plug (fill f t) fs)" using Cons.prems(1) avl_plugD by auto
  then have b: "b = - 1 \<or> b = 0 \<or> b = 1" "avl ot" by (auto simp: f split: if_splits)
  have ino: "before (f # fs) @ inorder t' @ after (f # fs) = before fs @ inorder ?q @ after fs"
    by (simp add: f)
  have stop: "avl (plug u (map (add_size (- 1)) fs)) \<and>
      inorder (plug u (map (add_size (- 1)) fs)) = before (f # fs) @ inorder t' @ after (f # fs)"
    if "avl u" "height u = height (fill f t)" "kavl_size u = kavl_size (fill f t) - 1" "inorder u = inorder ?q" for u
    using avl_plug_same [OF ap that(1,2), of "- 1"] that ino by (simp add: inorder_plug)
  have go: "\<exists>v. erase_up u (map (add_size (- 1)) fs) = Some v \<and> avl v \<and>
      inorder v = before (f # fs) @ inorder t' @ after (f # fs)"
    if "avl u" "height u + 1 = height (fill f t)" "kavl_size u = kavl_size (fill f t) - 1" "inorder u = inorder ?q" for u
    using Cons.IH [OF ap that(1-3)] that(4) ino by simp
  consider (level) "b = 0" | (lean) "b = ?b1" | (tilt) "b + ?b1 = 0"
    using b(1) by (cases d) auto
  then show ?case
  proof cases
    case level
    then have "avl ?q \<and> height ?q = height (fill f t) \<and> kavl_size ?q = kavl_size (fill f t) - 1"
      using af Cons.prems by (auto simp: f split: if_splits)
    then have "avl (plug ?q (map (add_size (- 1)) fs)) \<and>
        inorder (plug ?q (map (add_size (- 1)) fs)) = before (f # fs) @ inorder t' @ after (f # fs)"
      using stop by blast
    with level show ?thesis by (cases d) (simp_all add: f)
  next
    case tilt
    then have "avl ?q \<and> height ?q + 1 = height (fill f t) \<and> kavl_size ?q = kavl_size (fill f t) - 1"
      using af Cons.prems by (auto simp: f split: if_splits)
    then have "\<exists>v. erase_up ?q (map (add_size (- 1)) fs) = Some v \<and> avl v \<and>
        inorder v = before (f # fs) @ inorder t' @ after (f # fs)" using go by blast
    with tilt show ?thesis by (cases d) (simp_all add: f Let_def)
  next
    case lean
    then have q: "tilted (if d then - 2 else 2) ?q" "ot = (if d then kleft ?q else kright ?q)"
      "height ?q = height (fill f t)" "kavl_size ?q = kavl_size (fill f t) - 1" "ot \<noteq> Leaf"
      using af Cons.prems by (auto simp: f tilted_def split: if_splits)
    consider "kbal ot = (if d then 1 else - 1)" | "kbal ot = 0" | "kbal ot = ?b1"
      using avl_kbal_cases [OF b(2)] q(5) by (cases d) auto
    then show ?thesis
    proof cases
      case 1
      obtain u where "kavl_rotate2 d ?q = Some u" "avl u" "height u + 1 = height ?q"
          "kavl_size u = kavl_size ?q" "inorder u = inorder ?q"
        using rotate2_ok [OF q(1,2) 1] by auto
      then show ?thesis using go [of u] q lean 1 by (cases d) (simp_all add: f Let_def)
    next
      case 2
      obtain u where "kavl_rotate1 d ?q = Some u" "avl (set_bals d (- ?b1) ?b1 u)"
          "height (set_bals d (- ?b1) ?b1 u) = height ?q" "kavl_size (set_bals d (- ?b1) ?b1 u) = kavl_size ?q"
          "inorder (set_bals d (- ?b1) ?b1 u) = inorder ?q"
        using rotate1_level [OF q(1,2) 2] by auto
      then show ?thesis using stop [of "set_bals d (- ?b1) ?b1 u"] q lean 2
        by (cases d) (simp_all add: f Let_def)
    next
      case 3
      obtain u where "kavl_rotate1 d ?q = Some u" "avl (set_bals d 0 0 u)"
          "height (set_bals d 0 0 u) + 1 = height ?q" "kavl_size (set_bals d 0 0 u) = kavl_size ?q"
          "inorder (set_bals d 0 0 u) = inorder ?q"
        using rotate1_outer [OF q(1,2) 3] by auto
      then show ?thesis using go [of "set_bals d 0 0 u"] q lean 3
        by (cases d) (simp_all add: f Let_def)
    qed
  qed
qed

lemma leftmost_spec:
  "t \<noteq> Leaf \<Longrightarrow> leftmost t path = (u, path') \<Longrightarrow>
     \<exists>fs k b s r. path' = fs @ path \<and> u = Node Leaf k b s r \<and> plug u fs = t \<and> before fs = []"
proof (induction t path arbitrary: u path' rule: leftmost.induct)
  case (2 l k b s r path)
  show ?case
  proof (cases "l = Leaf")
    case True
    then show ?thesis using 2 by auto
  next
    case False
    obtain fs m c z v where "path' = fs @ Frame False k b s r # path" "u = Node Leaf m c z v"
        "plug u fs = l" "before fs = []"
      using "2.IH" [OF False] 2 False by auto
    then show ?thesis
      by (intro exI [of _ "fs @ [Frame False k b s r]"] exI)
        (auto simp: plug_append before_append)
  qed
qed simp

text \<open>The three shapes of \<open>kavl_erase\<close> make one case: the element of \<open>p\<close> is overwritten by its
  successor, whose own node, which has no left child, goes.\<close>

lemma unlink_ok:
  assumes avl: "avl (plug (Node l p b s r) path)"
  shows "\<exists>t. kavl_unlink (Node l p b s r, path) = Some (Some (t, p)) \<and> avl t \<and>
    inorder t = before path @ inorder l @ inorder r @ after path"
proof -
  have a: "avl (Node l p b s r)" using avl avl_plugD by blast
  consider (none) "r = Leaf" | (direct) q qb qs qr where "r = Node Leaf q qb qs qr"
    | (deep) "r \<noteq> Leaf" "kleft r \<noteq> Leaf" by (cases r) (case_tac [2] "x21", auto)
  then show ?thesis
  proof cases
    case none
    have "height l + 1 = height (Node l p b s r)" "kavl_size l = kavl_size (Node l p b s r) - 1"
      using a none by auto
    then show ?thesis
      using erase_up_ok [OF avl, of l] a none by (auto simp: kavl_unlink_def)
  next
    case direct
    let ?f = "Frame True q b s l"
    have "\<exists>u. erase_up qr (map (add_size (- 1)) (?f # path)) = Some u \<and> avl u \<and>
        inorder u = before (?f # path) @ inorder qr @ after (?f # path)"
    proof (rule erase_up_ok)
      have sub: "avl (Node l q b s r)" using a unfolding avl.simps .
      show "avl (plug r (?f # path))"
        using avl_plug_same [OF avl sub, of 0] by (simp add: map_idI add_size_0)
      show "avl qr" "height qr + 1 = height r" "kavl_size qr = kavl_size r - 1"
        using a direct by auto
    qed
    then show ?thesis using direct by (auto simp: kavl_unlink_def)
  next
    case deep
    obtain fs m mb ms mr where m: "leftmost r [] = (Node Leaf m mb ms mr, fs)"
        "plug (Node Leaf m mb ms mr) fs = r" "before fs = []"
      using leftmost_spec [OF deep(1), of "[]"] by (metis append_Nil2 prod.exhaust)
    let ?f = "Frame True m b s l"
    have sub: "avl (Node l m b s r)" using a unfolding avl.simps .
    have am: "avl (Node Leaf m mb ms mr)" using a m(2) avl_plugD by (metis avl.simps(2))
    have "\<exists>u. erase_up mr (map (add_size (- 1)) (fs @ ?f # path)) = Some u \<and> avl u \<and>
        inorder u = before (fs @ ?f # path) @ inorder mr @ after (fs @ ?f # path)"
    proof (rule erase_up_ok)
      show "avl (plug (Node Leaf m mb ms mr) (fs @ ?f # path))"
        using avl_plug_same [OF avl sub, of 0] m(2) by (simp add: plug_append map_idI add_size_0)
      show "avl mr" "height mr + 1 = height (Node Leaf m mb ms mr)" "kavl_size mr = kavl_size (Node Leaf m mb ms mr) - 1"
        using am by auto
    qed
    moreover have "inorder r = m # inorder mr @ after fs"
      using m(2,3) inorder_plug by (metis append.simps(1,2) inorder.simps)
    moreover obtain rl rk rb rs rr where r: "r = Node rl rk rb rs rr" "rl \<noteq> Leaf"
      using deep by (cases r) auto
    then obtain c1 c2 c3 c4 c5 where "rl = Node c1 c2 c3 c4 c5" by (cases rl) auto
    then have "kavl_unlink (Node l p b s r, path) = map_option (\<lambda>t. Some (t, p))
        (erase_up mr (map (add_size (- 1)) (fs @ ?f # path)))"
      using m(1) r by (simp add: kavl_unlink_def Let_def)
    ultimately show ?thesis
      using m(3) by (auto simp: before_append after_append)
  qed
qed

lemma descend_stop: "descend cmp x t path = (Node l k b s r, path') \<Longrightarrow> cmp x k = 0"
  by (induction cmp x t path rule: descend.induct) (auto simp: Let_def split: if_splits)

lemma kavl_insert_old:
  "descend cmp x root [] = (Node l k b s r, path) \<Longrightarrow> kavl_insert cmp root x = Some (root, Some k)"
  by (simp add: kavl_insert_def)

lemma descend_inorder:
  "descend cmp x root [] = (u, path) \<Longrightarrow> inorder root = before path @ inorder u @ after path"
  using descend_plug [of cmp x root "[]" u path] inorder_plug [of u path] by simp

lemma kavl_erase_some:
  assumes "avl root" "descend cmp x root [] = (Node l k b s r, path)"
  shows "\<exists>t. kavl_erase cmp root x = Some (Some (t, k)) \<and> avl t \<and>
    inorder t = before path @ inorder l @ inorder r @ after path"
proof -
  have "avl (plug (Node l k b s r) path)"
    using descend_plug [OF assms(2)] assms(1) by simp
  from unlink_ok [OF this] show ?thesis by (simp add: kavl_erase_def assms(2))
qed

lemma kavl_erase_none:
  "descend cmp x root [] = (Leaf, path) \<Longrightarrow> kavl_erase cmp root x = Some None"
  by (simp add: kavl_erase_def kavl_unlink_def)

lemma kavl_erase_first_ok:
  assumes "avl root" "root \<noteq> Leaf"
  shows "\<exists>t k. kavl_erase_first root = Some (Some (t, k)) \<and> avl t \<and> inorder root = k # inorder t"
proof -
  obtain path k b s r where m: "leftmost root [] = (Node Leaf k b s r, path)"
      "plug (Node Leaf k b s r) path = root" "before path = []"
    using leftmost_spec [OF assms(2), of "[]"] by (metis append_Nil2 prod.exhaust)
  then have "inorder root = k # inorder r @ after path"
    using inorder_plug by (metis append.simps(1,2) inorder.simps)
  moreover have "avl (plug (Node Leaf k b s r) path)" using m assms by simp
  ultimately show ?thesis
    using unlink_ok m assms(2) by (fastforce simp: kavl_erase_first_def)
qed

lemma find_descend_path:
  "kavl_find cmp t x = (case descend cmp x t path of (Leaf, _) \<Rightarrow> None | (Node _ k _ _ _, _) \<Rightarrow> Some k)"
  by (induction cmp x t path rule: descend.induct) (auto simp: Let_def)

lemmas find_descend = find_descend_path [where path = "[]"]

section \<open>The order of the elements\<close>

definition ordered :: "('a \<Rightarrow> 'a \<Rightarrow> int) \<Rightarrow> ('a \<Rightarrow> bool) \<Rightarrow> 'a kavl \<Rightarrow> bool" where
  "ordered cmp ok t \<longleftrightarrow>
     avl t \<and> sorted_wrt (\<lambda>a b. cmp a b < 0) (inorder t) \<and> (\<forall>a\<in>set (inorder t). ok a)"

text \<open>
  What the tree needs of its comparison: on the elements that are \<open>ok\<close>, its sign flips with the
  arguments and being less is transitive. Comparing equal need not be transitive.
\<close>

locale kavl_order =
  fixes cmp :: "'a \<Rightarrow> 'a \<Rightarrow> int" and ok :: "'a \<Rightarrow> bool"
  assumes flip: "ok a \<Longrightarrow> ok b \<Longrightarrow> cmp a b < 0 \<longleftrightarrow> cmp b a > 0"
    and less_trans: "ok a \<Longrightarrow> ok b \<Longrightarrow> ok c \<Longrightarrow> cmp a b < 0 \<Longrightarrow> cmp b c < 0 \<Longrightarrow> cmp a c < 0"
begin

lemma find_left:
  "sorted_wrt (\<lambda>a b. cmp a b < 0) (xs @ k # ys) \<Longrightarrow> \<forall>a\<in>set (xs @ k # ys). ok a \<Longrightarrow> ok x \<Longrightarrow>
     cmp x k < 0 \<Longrightarrow> a \<in> set (k # ys) \<Longrightarrow> cmp x a < 0"
  using less_trans [of x k a] by (auto simp: sorted_wrt_append)

lemma find_right:
  assumes "sorted_wrt (\<lambda>a b. cmp a b < 0) (xs @ k # ys)" "\<forall>a\<in>set (xs @ k # ys). ok a" "ok x"
    "cmp x k > 0" "a \<in> set (xs @ [k])"
  shows "cmp a x < 0"
proof -
  have "ok a" "ok k" using assms(2,5) by auto
  then have "cmp k x < 0" using flip assms(3,4) by blast
  then show ?thesis
    using less_trans [of a k x] assms \<open>ok a\<close> \<open>ok k\<close> by (auto simp: sorted_wrt_append)
qed

lemma descend_order:
  "sorted_wrt (\<lambda>a b. cmp a b < 0) (before path @ inorder t @ after path) \<Longrightarrow>
     \<forall>a\<in>set (before path @ inorder t @ after path). ok a \<Longrightarrow> ok x \<Longrightarrow>
     descend cmp x t path = (u, path') \<Longrightarrow> \<forall>a\<in>set (before path). cmp a x < 0 \<Longrightarrow>
     \<forall>a\<in>set (after path). cmp x a < 0 \<Longrightarrow>
     (\<forall>a\<in>set (before path'). cmp a x < 0) \<and> (\<forall>a\<in>set (after path'). cmp x a < 0)"
proof (induction t arbitrary: path)
  case Leaf
  then show ?case by simp
next
  case (Node l k b s r)
  let ?L = "before path @ inorder l" and ?R = "inorder r @ after path"
  have s: "sorted_wrt (\<lambda>a b. cmp a b < 0) (?L @ k # ?R)" "\<forall>a\<in>set (?L @ k # ?R). ok a"
    using Node.prems(1,2) by simp_all
  consider "cmp x k < 0" | "cmp x k > 0" | "cmp x k = 0" by linarith
  then show ?case
  proof cases
    case 1
    have "\<forall>a\<in>set (after (Frame False k b s r # path)). cmp x a < 0"
      using find_left [OF s Node.prems(3) 1] by auto
    then show ?thesis
      using Node.IH(1) [of "Frame False k b s r # path"] Node.prems 1 by (simp add: Let_def)
  next
    case 2
    have "\<forall>a\<in>set (before (Frame True k b s l # path)). cmp a x < 0"
      using find_right [OF s Node.prems(3) 2] by auto
    then show ?thesis
      using Node.IH(2) [of "Frame True k b s l # path"] Node.prems 2 by (simp add: Let_def)
  next
    case 3
    then show ?thesis using Node.prems by simp
  qed
qed

lemma descend_root:
  assumes "ordered cmp ok t" "ok x" "descend cmp x t [] = (u, path)"
  shows "(\<forall>a\<in>set (before path). cmp a x < 0) \<and> (\<forall>a\<in>set (after path). cmp x a < 0)"
  using descend_order [of "[]" t x u path] assms by (simp add: ordered_def)

lemma eq_unique:
  assumes "ok a" "ok x" "cmp a x < 0 \<or> cmp x a < 0"
  shows "cmp x a \<noteq> 0"
  using flip [of a x] assms by auto

lemma absent:
  assumes "ordered cmp ok t" "ok x" "descend cmp x t [] = (Leaf, path)" "a \<in> set (inorder t)"
  shows "cmp x a \<noteq> 0"
proof -
  have "a \<in> set (before path) \<or> a \<in> set (after path)"
    using descend_inorder [OF assms(3)] assms(4) by auto
  then show ?thesis
    using descend_root [OF assms(1-3)] eq_unique [of a x] assms by (auto simp: ordered_def)
qed

text \<open>Search finds an element that compares equal if there is one.\<close>

lemma find_correct:
  assumes "ordered cmp ok t" "ok x"
  shows "case kavl_find cmp t x of
      None \<Rightarrow> \<forall>a\<in>set (inorder t). cmp x a \<noteq> 0
    | Some k \<Rightarrow> k \<in> set (inorder t) \<and> cmp x k = 0"
proof -
  obtain u path where d: "descend cmp x t [] = (u, path)" by fastforce
  show ?thesis
  proof (cases u)
    case Leaf
    with d absent [OF assms] show ?thesis by (simp add: find_descend)
  next
    case (Node l k b s r)
    with d descend_inorder [OF d] descend_stop [of cmp x t "[]"] show ?thesis
      by (simp add: find_descend)
  qed
qed

lemma insert_correct:
  assumes "ordered cmp ok t" "ok x"
  shows "case kavl_find cmp t x of
      Some k \<Rightarrow> kavl_insert cmp t x = Some (t, Some k)
    | None \<Rightarrow> \<exists>t'. kavl_insert cmp t x = Some (t', None) \<and> ordered cmp ok t' \<and>
        (\<exists>xs ys. inorder t = xs @ ys \<and> inorder t' = xs @ x # ys)"
proof -
  obtain u path where d: "descend cmp x t [] = (u, path)" by fastforce
  show ?thesis
  proof (cases u)
    case Leaf
    with d obtain t' where t: "kavl_insert cmp t x = Some (t', None)" "avl t'"
        "inorder t = before path @ after path" "inorder t' = before path @ x # after path"
      using kavl_insert_new [of t cmp x path] assms by (auto simp: ordered_def)
    moreover have "ordered cmp ok t'"
      using descend_root [OF assms d] assms t by (auto simp: ordered_def sorted_wrt_append)
    ultimately show ?thesis using d Leaf by (auto simp: find_descend)
  next
    case (Node l k b s r)
    with d kavl_insert_old [of cmp x t] show ?thesis by (simp add: find_descend)
  qed
qed

lemma erase_correct:
  assumes "ordered cmp ok t" "ok x"
  shows "case kavl_find cmp t x of
      None \<Rightarrow> kavl_erase cmp t x = Some None
    | Some k \<Rightarrow> \<exists>t'. kavl_erase cmp t x = Some (Some (t', k)) \<and> ordered cmp ok t' \<and>
        (\<exists>xs ys. inorder t = xs @ k # ys \<and> inorder t' = xs @ ys)"
proof -
  obtain u path where d: "descend cmp x t [] = (u, path)" by fastforce
  show ?thesis
  proof (cases u)
    case Leaf
    with d kavl_erase_none [of cmp x t] show ?thesis by (simp add: find_descend)
  next
    case (Node l k b s r)
    with d obtain t' where t: "kavl_erase cmp t x = Some (Some (t', k))" "avl t'"
        "inorder t' = (before path @ inorder l) @ inorder r @ after path"
      using kavl_erase_some [of t cmp x l k b s r path] assms by (auto simp: ordered_def)
    have i: "inorder t = (before path @ inorder l) @ k # inorder r @ after path"
      using descend_inorder [OF d] Node by simp
    have "ordered cmp ok t'"
      using assms t(2,3) i by (auto simp: ordered_def sorted_wrt_append)
    moreover have "\<exists>xs ys. inorder t = xs @ k # ys \<and> inorder t' = xs @ ys"
      using t(3) i by blast
    ultimately show ?thesis using t(1) d Node by (simp add: find_descend)
  qed
qed

lemma erase_first_correct:
  assumes "ordered cmp ok t" "t \<noteq> Leaf"
  shows "\<exists>t' k. kavl_erase_first t = Some (Some (t', k)) \<and> ordered cmp ok t' \<and> inorder t = k # inorder t'"
  using kavl_erase_first_ok [of t] assms by (fastforce simp: ordered_def)

end

section \<open>The depth of the tree and the iterator\<close>

text \<open>The arrays of the code hold \<open>KAVL_MAX_DEPTH = 64\<close> entries; a deletion uses one more than
  the height. A tree of height \<open>h\<close> has at least \<open>2 ^ (h div 2) - 1\<close> elements.\<close>

lemma avl_height_size: "avl t \<Longrightarrow> 2 ^ (height t div 2) \<le> length (inorder t) + 1"
proof (induction t)
  case (Node l k b s r)
  let ?m = "min (height l) (height r)"
  have "height (Node l k b s r) \<le> ?m + 2" using Node.prems by auto
  then have "height (Node l k b s r) div 2 \<le> Suc (?m div 2)" by linarith
  then have "(2::nat) ^ (height (Node l k b s r) div 2) \<le> 2 ^ Suc (?m div 2)"
    by (rule power_increasing) simp
  moreover have "(2::nat) ^ (?m div 2) \<le> 2 ^ (height l div 2)" "(2::nat) ^ (?m div 2) \<le> 2 ^ (height r div 2)"
    by (rule power_increasing; simp add: div_le_mono)+
  moreover have "2 ^ (height l div 2) \<le> length (inorder l) + 1" "2 ^ (height r div 2) \<le> length (inorder r) + 1"
    using Node by simp_all
  ultimately have "2 ^ (height (Node l k b s r) div 2) \<le> length (inorder l) + 1 + (length (inorder r) + 1)"
    unfolding power_Suc by linarith
  then show ?case by simp
qed simp

lemma avl_depth:
  assumes "avl t" "length (inorder t) < 2 ^ 32 - 1"
  shows "height t < 64"
proof (rule ccontr)
  assume "\<not> height t < 64"
  then have "32 \<le> height t div 2" by simp
  then have "(2::nat) ^ 32 \<le> 2 ^ (height t div 2)" by (rule power_increasing) simp
  with avl_height_size [OF assms(1)] assms(2) show False by simp
qed

lemma descend_length: "descend cmp x t path = (u, path') \<Longrightarrow> length path' + height u \<le> length path + height t"
  by (induction cmp x t path rule: descend.induct) (fastforce simp: Let_def split: if_splits)+

lemma leftmost_length: "leftmost t path = (u, path') \<Longrightarrow> length path' + height u \<le> length path + height t"
  by (induction t path rule: leftmost.induct) (fastforce split: if_splits)+

text \<open>What an iterator still has to visit, its current element included.\<close>

fun stack_rest :: "'a kavl list \<Rightarrow> 'a list" where
  "stack_rest [] = []"
| "stack_rest (t # st) = kkey t # inorder (kright t) @ stack_rest st"

lemma stack_rest_spine: "stack_rest (spine t st) = inorder t @ stack_rest st"
  by (induction t st rule: spine.induct) auto

definition itr_rest :: "'a itr \<Rightarrow> 'a list" where
  "itr_rest itr = (case fst itr of [] \<Rightarrow> [] | p # st \<Rightarrow> kkey p # inorder (snd itr) @ stack_rest st)"

lemma spine_not_Leaf: "Leaf \<notin> set st \<Longrightarrow> Leaf \<notin> set (spine t st)"
  by (induction t st rule: spine.induct) auto

lemma itr_first_rest:
  "t \<noteq> Leaf \<Longrightarrow> \<exists>itr. kavl_itr_first t = Some itr \<and> itr_rest itr = inorder t"
  using stack_rest_spine [of t "[]"]
  by (cases "spine t []") (auto simp: kavl_itr_first_def itr_rest_def, cases t, auto)

lemma itr_next_rest:
  "fst itr \<noteq> [] \<Longrightarrow> itr_rest (fst (kavl_itr_next itr)) = tl (itr_rest itr) \<and>
     (snd (kavl_itr_next itr) \<longleftrightarrow> tl (itr_rest itr) \<noteq> []) \<and> kavl_at itr = Some (hd (itr_rest itr))"
  using stack_rest_spine [of "snd itr" "tl (fst itr)"]
  by (cases "fst itr"; cases "spine (snd itr) (tl (fst itr))")
    (auto simp: kavl_itr_next_def itr_rest_def kavl_at_def)

text \<open>A search for a position passes the smaller elements and keeps the larger ones on the stack.\<close>

lemma itr_descend_rest:
  "stack_rest st = after path \<Longrightarrow> descend cmp x t path = (u, path') \<Longrightarrow>
     \<exists>st'. itr_descend cmp x t st = (u, st') \<and> stack_rest st' = after path'"
proof (induction t arbitrary: st path)
  case (Node l k b s r)
  then show ?case
    using Node.IH(1) [of "Node l k b s r # st" "Frame False k b s r # path"] Node.IH(2) [of st "Frame True k b s l # path"]
    by (auto simp: Let_def split: if_splits)
qed simp

context kavl_order
begin

text \<open>\<open>kavl_itr_find\<close> leaves a part of the sequence of elements to be visited: from an element that compares
  equal on, if the search meets one, and else all that are above \<open>x\<close>.\<close>

lemma itr_find_rest:
  assumes t: "ordered cmp ok t" "ok x" and f: "kavl_itr_find cmp t x old = (itr, found)"
  shows "\<exists>xs. inorder t = xs @ itr_rest itr \<and>
    (if found then \<exists>k ys. itr_rest itr = k # ys \<and> cmp x k = 0
     else (\<forall>a\<in>set xs. cmp a x < 0) \<and> (\<forall>a\<in>set (itr_rest itr). cmp x a < 0))"
proof -
  obtain u path where d: "descend cmp x t [] = (u, path)" by fastforce
  obtain st where st: "itr_descend cmp x t [] = (u, st)" "stack_rest st = after path"
    using itr_descend_rest [of "[]" "[]" cmp x t u path] d by auto
  have io: "inorder t = before path @ inorder u @ after path" using descend_inorder [OF d] by simp
  show ?thesis
  proof (cases u)
    case Leaf
    have i: "itr_rest itr = after path" "\<not> found"
      using f st unfolding kavl_itr_find_def Leaf by (auto simp: itr_rest_def split: list.splits)
    then show ?thesis using io Leaf descend_root [OF t d] by auto
  next
    case (Node l k b s r)
    have i: "itr_rest itr = k # inorder r @ after path" "found"
      using f st unfolding kavl_itr_find_def Node by (auto simp: itr_rest_def)
    have "cmp x k = 0" by (rule descend_stop [OF d [unfolded Node]])
    then show ?thesis using io Node i by (intro exI [of _ "before path @ inorder l"]) simp
  qed
qed

end

lemma kavl_free_inorder: "kavl_free t = inorder t"
  by (induction t rule: kavl_free.induct) simp_all

end
