(* ===== verification/Mpool.thy ===== *)
theory Mpool
  imports CBytes KavlSpec
begin

text \<open>
  The pools of \<open>src/mpool.c\<close>: sets of keys with data attached, kept in an AVL tree whose
  comparison depends on the pool. A key holds at least as many bytes as its length (in bits for
  \<open>CMP_BITS\<close>) says. \<open>destroy_elem\<close> is the removal of an element from the model.
\<close>

section \<open>Elements and their comparison\<close>

datatype cmp_type = CMP_BYTES | CMP_BITS | CMP_HOST

text \<open>\<open>struct elem_i\<close>; the plain \<open>elem\<close> and \<open>elem_ex\<close> use a part of its fields. \<open>e_dp\<close> is the
  index of a group.\<close>

record elem =
  elen :: int
  edata :: buf
  ecmp :: cmp_type
  e_extra :: "buf option"
  e_extra_len :: int
  e_dp_mask :: "64 word"
  e_dp :: "nat option"
  e_detect :: int
  e_time :: int

definition new_elem :: "cmp_type \<Rightarrow> buf \<Rightarrow> int \<Rightarrow> elem" where
  "new_elem c data len =
     \<lparr> elen = len, edata = data, ecmp = c, e_extra = None, e_extra_len = 0, e_dp_mask = 0,
       e_dp = None, e_detect = 0, e_time = 0 \<rparr>"

text \<open>The sign of \<open>memcmp\<close> on blocks of equal length.\<close>

fun memcmp :: "byte list \<Rightarrow> byte list \<Rightarrow> int" where
  "memcmp (x # xs) (y # ys) = (if x = y then memcmp xs ys else if uint x < uint y then - 1 else 1)"
| "memcmp _ _ = 0"

text \<open>The data are plain \<open>char\<close>: the shift is arithmetic, and its result is cut to \<open>uint8_t\<close>.\<close>

definition bit_cmp :: "elem \<Rightarrow> elem \<Rightarrow> int" where
  "bit_cmp p q =
     (let len = nat (if elen q < elen p then elen q else elen p);
          df = len mod 8; bytes = len div 8;
          cmp = memcmp (take bytes (edata p)) (take bytes (edata q)) in
      if cmp \<noteq> 0 \<or> df = 0 then cmp
      else
        (let c1 = signed_drop_bit (8 - df) (edata p ! bytes);
             c2 = signed_drop_bit (8 - df) (edata q ! bytes) in
         if c1 \<noteq> c2 then (if uint c1 < uint c2 then - 1 else 1) else 0))"

definition byte_cmp :: "elem \<Rightarrow> elem \<Rightarrow> int" where
  "byte_cmp p q =
     (if elen p \<noteq> elen q then (if elen p < elen q then - 1 else 1)
      else memcmp (take (nat (elen p)) (edata p)) (take (nat (elen p)) (edata q)))"

text \<open>The loop \<open>while (len-- > 0)\<close>: a difference, or the two pointers where it stopped.\<close>

fun host_scan :: "nat \<Rightarrow> buf \<Rightarrow> nat \<Rightarrow> buf \<Rightarrow> nat \<Rightarrow> int + nat \<times> nat" where
  "host_scan 0 p pd q qd = Inr (pd, qd)"
| "host_scan (Suc len) p pd q qd =
     (let x = p ! (pd - 1); y = q ! (qd - 1) in
      if x \<noteq> y then Inl (if sint x < sint y then - 1 else 1) else host_scan len p (pd - 1) q (qd - 1))"

definition host_cmp :: "elem \<Rightarrow> elem \<Rightarrow> int" where
  "host_cmp p q =
     (let len = (if elen q < elen p then elen q else elen p) in
      case host_scan (nat len) (edata p) (nat (elen p)) (edata q) (nat (elen q)) of
        Inl c \<Rightarrow> c
      | Inr (pd, qd) \<Rightarrow>
          if elen p = elen q \<or> (if elen p > elen q then edata p ! (pd - 1) else edata q ! (qd - 1)) = 46
          then 0 else if elen p > elen q then 1 else - 1)"

definition scmp :: "elem \<Rightarrow> elem \<Rightarrow> int" where
  "scmp p q = (case ecmp p of CMP_BITS \<Rightarrow> bit_cmp p q | CMP_HOST \<Rightarrow> host_cmp p q | CMP_BYTES \<Rightarrow> byte_cmp p q)"

section \<open>Pools\<close>

record mphdr =
  mflags :: int
  mcmp :: cmp_type
  mcount :: int
  mroot :: "elem kavl"

definition mem_pool :: "int \<Rightarrow> cmp_type \<Rightarrow> mphdr" where
  "mem_pool flags c = \<lparr> mflags = flags, mcmp = c, mcount = 0, mroot = Leaf \<rparr>"

definition mem_get :: "mphdr \<Rightarrow> buf \<Rightarrow> int \<Rightarrow> elem option" where
  "mem_get hdr data len = kavl_find scmp (mroot hdr) (new_elem (mcmp hdr) data len)"

definition mem_delete :: "mphdr \<Rightarrow> buf \<Rightarrow> int \<Rightarrow> mphdr option" where
  "mem_delete hdr data len = do {
     r \<leftarrow> kavl_erase scmp (mroot hdr) (new_elem (mcmp hdr) data len);
     (case r of
        None \<Rightarrow> Some hdr
      | Some (t, e) \<Rightarrow> Some (hdr\<lparr>mroot := t, mcount := mcount hdr - 1\<rparr>)) }"

text \<open>The loop of \<open>mem_add\<close>: \<open>v\<close> is \<open>None\<close> when the new element \<open>e\<close> was linked. Each round takes
  an element out, which need not be \<open>v\<close> if the order is broken.\<close>

partial_function (option) mem_add_loop :: "mphdr \<Rightarrow> elem \<Rightarrow> elem option \<Rightarrow> (mphdr \<times> elem option) option" where
  "mem_add_loop hdr e v =
     (case v of
        None \<Rightarrow> Some (hdr\<lparr>mcount := mcount hdr + 1\<rparr>, None)
      | Some v' \<Rightarrow>
          if elen e < elen v' then do {
            hdr \<leftarrow> mem_delete hdr (edata v') (elen v');
            (t, v) \<leftarrow> kavl_insert scmp (mroot hdr) e;
            mem_add_loop (hdr\<lparr>mroot := t\<rparr>) e v }
          else Some (hdr, Some v'))"

text \<open>The pool, and the element that was there already, if any.\<close>

definition mem_add :: "mphdr \<Rightarrow> buf \<Rightarrow> int \<Rightarrow> (mphdr \<times> elem option) option" where
  "mem_add hdr data len = do {
     let e = new_elem (mcmp hdr) data len;
     (t, v) \<leftarrow> kavl_insert scmp (mroot hdr) e;
     mem_add_loop (hdr\<lparr>mroot := t\<rparr>) e v }"

text \<open>\<open>mem_destroy\<close>: the elements in the order in which they are destroyed.\<close>

partial_function (option) mem_destroy :: "elem kavl \<Rightarrow> elem list option" where
  "mem_destroy root =
     (if root = Leaf then Some []
      else do {
        r \<leftarrow> kavl_erase_first root;
        (case r of
           None \<Rightarrow> Some []
         | Some (t, e) \<Rightarrow> do { es \<leftarrow> mem_destroy t; Some (e # es) }) })"

section \<open>The orders\<close>

definition elem_ok :: "cmp_type \<Rightarrow> elem \<Rightarrow> bool" where
  "elem_ok c e \<longleftrightarrow> ecmp e = c \<and> 0 \<le> elen e \<and>
     (case c of
        CMP_BITS \<Rightarrow> elen e \<le> 8 * int (length (edata e))
      | CMP_BYTES \<Rightarrow> elen e \<le> int (length (edata e))
      | CMP_HOST \<Rightarrow> elen e \<le> int (length (edata e)) \<and>
          (\<forall>x\<in>set (take (nat (elen e)) (edata e)). 46 \<le> sint x))"

subsection \<open>Bytes\<close>

lemma memcmp_refl [simp]: "memcmp xs xs = 0"
  by (induction xs) auto

lemma memcmp_flip: "memcmp xs ys < 0 \<longleftrightarrow> memcmp ys xs > 0"
proof (induction xs ys rule: memcmp.induct)
  case (1 x xs y ys)
  have "x \<noteq> y \<Longrightarrow> uint x \<noteq> uint y" using word_uint_eqI by blast
  with 1 show ?case by (auto simp: not_less)
qed auto

lemma memcmp_eq: "length xs = length ys \<Longrightarrow> memcmp xs ys = 0 \<longleftrightarrow> xs = ys"
  by (induction xs ys rule: memcmp.induct) auto

lemma memcmp_trans:
  "length xs = length ys \<Longrightarrow> length ys = length zs \<Longrightarrow> memcmp xs ys < 0 \<Longrightarrow> memcmp ys zs < 0 \<Longrightarrow>
     memcmp xs zs < 0"
proof (induction xs ys arbitrary: zs rule: memcmp.induct)
  case (1 x xs y ys)
  obtain z zs' where "zs = z # zs'" using 1 by (cases zs) auto
  with 1 show ?case by (auto split: if_splits)
qed auto

lemma byte_cmp_flip: "byte_cmp p q < 0 \<longleftrightarrow> byte_cmp q p > 0"
  by (auto simp: byte_cmp_def memcmp_flip)

lemma byte_cmp_trans:
  assumes "elem_ok CMP_BYTES a" "elem_ok CMP_BYTES b" "elem_ok CMP_BYTES c" "byte_cmp a b < 0" "byte_cmp b c < 0"
  shows "byte_cmp a c < 0"
proof (cases "elen a = elen b \<and> elen b = elen c")
  case True
  let ?n = "nat (elen a)"
  have "length (take ?n (edata x)) = ?n" if "x \<in> {a, b, c}" for x
    using that assms(1-3) True by (auto simp: elem_ok_def)
  then show ?thesis
    using memcmp_trans [of "take ?n (edata a)" "take ?n (edata b)" "take ?n (edata c)"] assms True
    by (simp add: byte_cmp_def)
next
  case False
  then show ?thesis using assms(4,5) by (auto simp: byte_cmp_def split: if_splits)
qed

subsection \<open>Host names\<close>

text \<open>The reference: names compared from their ends; a name equals every name below it.\<close>

fun hcmp :: "byte list \<Rightarrow> byte list \<Rightarrow> int" where
  "hcmp [] [] = 0"
| "hcmp [] (y # ys) = (if y = 46 then 0 else - 1)"
| "hcmp (x # xs) [] = (if x = 46 then 0 else 1)"
| "hcmp (x # xs) (y # ys) = (if x \<noteq> y then (if sint x < sint y then - 1 else 1) else hcmp xs ys)"

definition rhost :: "elem \<Rightarrow> byte list" where
  "rhost e = rev (take (nat (elen e)) (edata e))"

lemma host_scan_hcmp:
  "pd \<le> length p \<Longrightarrow> qd \<le> length q \<Longrightarrow> n = min pd qd \<Longrightarrow>
     hcmp (rev (take pd p)) (rev (take qd q)) =
       (case host_scan n p pd q qd of
          Inl c \<Rightarrow> c
        | Inr (pd, qd) \<Rightarrow>
            if pd = qd then 0 else if (if pd > qd then p ! (pd - 1) else q ! (qd - 1)) = 46 then 0
            else if pd > qd then 1 else - 1)"
proof (induction n arbitrary: pd qd)
  case 0
  show ?case
  proof (cases "pd = 0")
    case True
    then show ?thesis
      using 0 by (cases qd) (simp_all add: take_Suc_conv_app_nth)
  next
    case False
    then have "qd = 0" using 0 by simp
    then show ?thesis
      using 0 by (cases pd) (simp_all add: take_Suc_conv_app_nth)
  qed
next
  case (Suc n)
  then obtain pd' qd' where "pd = Suc pd'" "qd = Suc qd'"
    by (metis Suc_n_not_le_n min.cobounded1 min.cobounded2 not0_implies_Suc not_less_eq_eq old.nat.exhaust le0)
  with Suc show ?case by (simp add: take_Suc_conv_app_nth Let_def)
qed

lemma host_scan_diff:
  "host_scan n p pd q qd = Inr (pd', qd') \<Longrightarrow> n \<le> pd \<Longrightarrow> n \<le> qd \<Longrightarrow> pd' = pd - n \<and> qd' = qd - n"
  by (induction n p pd q qd rule: host_scan.induct) (auto simp: Let_def split: if_splits)

lemma host_cmp_hcmp:
  assumes "elem_ok CMP_HOST p" "elem_ok CMP_HOST q"
  shows "host_cmp p q = hcmp (rhost p) (rhost q)"
proof -
  let ?pd = "nat (elen p)" and ?qd = "nat (elen q)"
  let ?n = "nat (if elen q < elen p then elen q else elen p)"
  have n: "?n = min ?pd ?qd" "?pd \<le> length (edata p)" "?qd \<le> length (edata q)" "0 \<le> elen p" "0 \<le> elen q"
    using assms by (auto simp: elem_ok_def)
  note h = host_scan_hcmp [OF n(2,3,1)]
  show ?thesis
  proof (cases "host_scan ?n (edata p) ?pd (edata q) ?qd")
    case (Inl c)
    then show ?thesis using h by (simp add: host_cmp_def rhost_def)
  next
    case (Inr z)
    obtain pd qd where z: "z = (pd, qd)" by (cases z)
    have "?n \<le> ?pd" "?n \<le> ?qd" unfolding n(1) by simp_all
    then have d: "pd = ?pd - ?n" "qd = ?qd - ?n"
      using host_scan_diff [of ?n "edata p" ?pd "edata q" ?qd pd qd] Inr z by blast+
    with \<open>?n \<le> ?pd\<close> \<open>?n \<le> ?qd\<close> n(4,5) have "pd = qd \<longleftrightarrow> elen p = elen q" "pd > qd \<longleftrightarrow> elen p > elen q"
      by linarith+
    then show ?thesis using h Inr z by (simp add: host_cmp_def rhost_def)
  qed
qed

lemma hcmp_flip: "hcmp xs ys < 0 \<longleftrightarrow> hcmp ys xs > 0"
proof (induction xs ys rule: hcmp.induct)
  case (4 x xs y ys)
  have "x \<noteq> y \<Longrightarrow> sint x \<noteq> sint y" using signed_word_eqI by blast
  with 4 show ?case by (auto simp: not_less)
qed auto

lemma hcmp_trans:
  "\<forall>x\<in>set ys. 46 \<le> sint x \<Longrightarrow> hcmp xs ys < 0 \<Longrightarrow> hcmp ys zs < 0 \<Longrightarrow> hcmp xs zs < 0"
proof (induction xs ys arbitrary: zs rule: hcmp.induct)
  case (2 y ys)
  then show ?case by (cases zs) (auto split: if_splits)
next
  case (4 x xs y ys)
  then show ?case by (cases zs) (auto split: if_splits)
qed (auto split: if_splits)

lemma host_cmp_flip: "elem_ok CMP_HOST p \<Longrightarrow> elem_ok CMP_HOST q \<Longrightarrow> host_cmp p q < 0 \<longleftrightarrow> host_cmp q p > 0"
  using hcmp_flip by (simp add: host_cmp_hcmp)

lemma host_cmp_trans:
  assumes "elem_ok CMP_HOST a" "elem_ok CMP_HOST b" "elem_ok CMP_HOST c" "host_cmp a b < 0" "host_cmp b c < 0"
  shows "host_cmp a c < 0"
proof -
  have "\<forall>x\<in>set (rhost b). 46 \<le> sint x" using assms(2) by (auto simp: rhost_def elem_ok_def)
  then show ?thesis
    using assms hcmp_trans [of "rhost b" "rhost a" "rhost c"] by (simp add: host_cmp_hcmp)
qed

end
