(* ===== verification/Sys.thy ===== *)
theory Sys
  imports TlsEdit Mpool
begin

text \<open>
  The state that the event-driven part of the program works on: the event pool of
  \<open>src/conev.h\<close>, the settings and groups of \<open>src/params.h\<close>, and the operating system as the
  program sees it. A system call appends an entry to a trace and takes its result from a fixed
  but arbitrary sequence of results, so a theorem about all states holds whatever the system
  answers. Pointers between connections and between groups are indices. As before, \<open>None\<close> is
  an access through a null pointer or outside an object, a failed assertion, or a loop that does not
  end.
\<close>

section \<open>Data\<close>

text \<open>\<open>union sockaddr_u\<close>: the port is the value of its two bytes in network order, \<open>sa_ip4\<close> the bytes
  4 to 7 of the union (\<open>in.sin_addr\<close>), and \<open>sa_ip6\<close> the bytes 8 to 23 (\<open>in6.sin6_addr\<close>).\<close>

record sockaddr =
  sa_family :: int
  sa_port :: int
  sa_ip4 :: "byte list"
  sa_ip6 :: "byte list"

definition AF_INET :: int where "AF_INET = 2"
definition AF_INET6 :: int where "AF_INET6 = 10"

definition addr0 :: sockaddr where
  "addr0 = \<lparr> sa_family = 0, sa_port = 0, sa_ip4 = replicate 4 0, sa_ip6 = replicate 16 0 \<rparr>"

datatype demode = DESYNC_NONE | DESYNC_SPLIT | DESYNC_DISORDER | DESYNC_OOB | DESYNC_DISOOB | DESYNC_FAKE

record part =
  p_m :: demode
  p_flag :: int
  p_pos :: int
  p_r :: int
  p_s :: int

record packet =
  pk_size :: int
  pk_data :: "buf option"
  pk_off :: int

record dparams =
  d_ttl :: int
  d_md5sig :: bool
  d_fake_data :: packet
  d_udp_fake_count :: int
  d_fake_offset :: part
  d_fake_offset_on :: bool
  d_fake_sni :: "byte list list"
  d_fake_mod :: int
  d_fake_tls_size :: int
  d_drop_sack :: bool
  d_oob_char :: "byte \<times> byte"
  d_parts :: "part list"
  d_mod_http :: int
  d_tlsrec :: "part list"
  d_tlsminor :: byte
  d_tlsminor_set :: bool
  d_proto :: int
  d_detect :: int
  d_auto_level :: int
  d_hosts :: "mphdr option"
  d_ipset :: "mphdr option"
  d_pf :: "int \<times> int"
  d_rounds :: "int \<times> int"
  d_out_type :: int
  d_out_addr :: sockaddr
  d_id :: int
  d_bit :: "64 word"
  d_fail_count :: int
  d_pri :: int
  d_cache_ttl :: int
  d_prev :: "nat option"
  d_next :: "nat option"

record params =
  g_dp :: "nat option"
  g_dp_full_mask :: "64 word"
  g_await_int :: int
  g_wait_send :: bool
  g_def_ttl :: int
  g_custom_ttl :: bool
  g_tfo :: bool
  g_timeout :: int
  g_ptimeout :: int
  g_to_count_lim :: int
  g_to_bytes_lim :: int
  g_cache_pre :: int
  g_mode :: int
  g_ipv6 :: bool
  g_resolve :: bool
  g_udp :: bool
  g_delay_conn :: bool
  g_auto_reconnect :: bool
  g_max_open :: int
  g_debug :: int
  g_bfsize :: int
  g_baddr :: sockaddr
  g_protect :: "byte list option"

record buffer =
  b_size :: int
  b_offset :: int
  b_lock :: int
  b_data :: buf

text \<open>The callbacks that are stored in a connection.\<close>

datatype cb = NoCb | On_accept | On_request | On_connect | On_tunnel | On_udp_tunnel | On_ignore
  | On_socks_conn | On_socks_recv | Recv_and_connect

record eval =
  v_fd :: int
  v_index :: nat
  v_mod_iter :: nat
  v_cb :: cb
  v_tv_ms :: int
  v_tv_next :: "nat option"
  v_tv_prev :: "nat option"
  v_after_conn_cb :: cb
  v_conn_state :: int
  v_pair :: "nat option"
  v_buff :: "buffer option"
  v_sq_buff :: "buffer option"
  v_flag :: int
  v_addr :: sockaddr
  v_host :: "byte list option"
  v_recv_count :: int
  v_round_sent :: int
  v_round_count :: int
  v_dp :: "nat option"
  v_dp_mask :: "64 word"
  v_detect :: int
  v_mark :: bool
  v_to_count :: int
  v_tls_rec_size :: int
  v_tls_rec_pos :: int
  v_tls_rec :: buf
  v_restore_ttl :: bool
  v_restore_md5 :: bool
  v_restore_fake :: "buf option"
  v_restore_orig :: int
  v_restore_orig_len :: int
  v_part_sent :: int

definition eval0 :: eval where
  "eval0 = \<lparr> v_fd = 0, v_index = 0, v_mod_iter = 0, v_cb = NoCb, v_tv_ms = 0, v_tv_next = None,
     v_tv_prev = None, v_after_conn_cb = NoCb, v_conn_state = 0, v_pair = None, v_buff = None,
     v_sq_buff = None, v_flag = 0, v_addr = addr0, v_host = None, v_recv_count = 0,
     v_round_sent = 0, v_round_count = 0, v_dp = None, v_dp_mask = 0, v_detect = 0, v_mark = False,
     v_to_count = 0, v_tls_rec_size = 0, v_tls_rec_pos = 0, v_tls_rec = replicate 5 0,
     v_restore_ttl = False, v_restore_md5 = False, v_restore_fake = None, v_restore_orig = 0, v_restore_orig_len = 0,
     v_part_sent = 0 \<rparr>"

section \<open>The operating system\<close>

datatype call =
    CSend int "byte list" bool int        \<comment> \<open>socket, data, out of band, result\<close>
  | CRecv int int
  | CRecvfrom int int
  | CClose int
  | CConnect int sockaddr
  | CSocket int int
  | CBind int sockaddr
  | CAccept int
  | CSetopt int string int
  | CGetopt int string
  | CGetname int string
  | CEpollCreate int
  | CEpollAdd int int
  | CEpollMod int int
  | CEpollDel int
  | CEpollWait int
  | CPoll "(int \<times> int) list" int         \<comment> \<open>descriptors with the events wanted, timeout\<close>
  | CPipe
  | CVmsplice "byte list"                \<comment> \<open>the memory lent to the pipe\<close>
  | CSplice int int int                  \<comment> \<open>socket, length, result\<close>
  | CMmap int
  | CMunmap "byte list"                  \<comment> \<open>what the memory holds when it is given back\<close>
  | CGetaddrinfo "byte list" int bool bool  \<comment> \<open>host, socket type, numeric only, IPv4 only\<close>
  | CConnectUnix int "byte list"
  | CSendFd int int                      \<comment> \<open>a message that carries a descriptor\<close>
  | CListen int int
  | CDaemon
  | COpen "byte list"
  | CLockFile int
  | CWriteFile int "byte list"
  | CUnlink "byte list"

record sysres =
  r_ret :: int
  r_errno :: int
  r_data :: "byte list"
  r_addr :: sockaddr
  r_evs :: "(nat \<times> int) list"
  r_dt :: nat
  r_time :: int

record st =
  s_ev :: "nat \<Rightarrow> eval"
  s_max :: nat
  s_count :: nat
  s_links :: "nat \<Rightarrow> nat"
  s_iters :: nat
  s_efd :: int
  s_brk :: bool
  s_pevents :: "(nat \<times> int) list"
  s_tv_start :: "nat option"
  s_tv_end :: "nat option"
  s_free :: "buffer list"
  s_buff_count :: int
  s_dp :: "nat \<Rightarrow> dparams"
  s_par :: params
  s_pool :: mphdr
  s_time :: int
  s_ms :: int
  s_orc :: "nat \<Rightarrow> sysres"
  s_k :: nat
  s_errno :: int
  s_rnd :: "nat \<Rightarrow> nat"
  s_rk :: nat
  s_trace :: "call list"

text \<open>A call takes \<open>r_dt\<close> milliseconds of the monotonic clock, and the wall clock reads \<open>r_time\<close>
  when it returns.\<close>

definition sys :: "call \<Rightarrow> st \<Rightarrow> sysres \<times> st" where
  "sys c s = (let r = s_orc s (s_k s) in
     (r, s\<lparr>s_k := Suc (s_k s), s_errno := (if r_ret r < 0 then r_errno r else s_errno s),
           s_ms := s_ms s + int (r_dt r), s_time := r_time r, s_trace := s_trace s @ [c]\<rparr>))"

text \<open>Descriptors are in the result; a pipe has its reading end there and its writing end in
  \<open>r_errno\<close>. What POSIX promises of \<open>send\<close> and \<open>recv\<close>: at most the requested number of bytes.\<close>

definition sys_send :: "int \<Rightarrow> byte list \<Rightarrow> bool \<Rightarrow> st \<Rightarrow> int \<times> st" where
  "sys_send fd data oob s =
     (let n = max (- 1) (min (r_ret (s_orc s (s_k s))) (int (length data))) in
      (n, snd (sys (CSend fd data oob n) s)))"

definition sys_recv :: "int \<Rightarrow> int \<Rightarrow> st \<Rightarrow> int \<times> byte list \<times> st" where
  "sys_recv fd n s = (let (r, s) = sys (CRecv fd n) s; d = take (nat n) (r_data r) in
     (if r_ret r < 0 then (- 1, [], s) else (int (length d), d, s)))"

definition upd_ev :: "nat \<Rightarrow> (eval \<Rightarrow> eval) \<Rightarrow> st \<Rightarrow> st" where
  "upd_ev v f s = s\<lparr>s_ev := (s_ev s)(v := f (s_ev s v))\<rparr>"

definition upd_dp :: "nat \<Rightarrow> (dparams \<Rightarrow> dparams) \<Rightarrow> st \<Rightarrow> st" where
  "upd_dp d f s = s\<lparr>s_dp := (s_dp s)(d := f (s_dp s d))\<rparr>"

lemma upd_ev_simps [simp]:
  "s_ev (upd_ev v f s) = (s_ev s)(v := f (s_ev s v))"
  "s_max (upd_ev v f s) = s_max s" "s_count (upd_ev v f s) = s_count s"
  "s_links (upd_ev v f s) = s_links s" "s_iters (upd_ev v f s) = s_iters s"
  "s_tv_start (upd_ev v f s) = s_tv_start s" "s_tv_end (upd_ev v f s) = s_tv_end s"
  "s_free (upd_ev v f s) = s_free s" "s_buff_count (upd_ev v f s) = s_buff_count s"
  "s_dp (upd_ev v f s) = s_dp s" "s_par (upd_ev v f s) = s_par s" "s_pool (upd_ev v f s) = s_pool s"
  "s_trace (upd_ev v f s) = s_trace s" "s_k (upd_ev v f s) = s_k s" "s_orc (upd_ev v f s) = s_orc s"
  "s_ms (upd_ev v f s) = s_ms s" "s_time (upd_ev v f s) = s_time s" "s_brk (upd_ev v f s) = s_brk s"
  "s_pevents (upd_ev v f s) = s_pevents s" "s_errno (upd_ev v f s) = s_errno s"
  "s_efd (upd_ev v f s) = s_efd s" "s_rnd (upd_ev v f s) = s_rnd s" "s_rk (upd_ev v f s) = s_rk s"
  by (simp_all add: upd_ev_def)

lemma sys_fst [simp]: "fst (sys c s) = s_orc s (s_k s)"
  by (simp add: sys_def Let_def)

lemma sys_simps [simp]:
  "s_ev (snd (sys c s)) = s_ev s" "s_max (snd (sys c s)) = s_max s" "s_count (snd (sys c s)) = s_count s"
  "s_links (snd (sys c s)) = s_links s" "s_iters (snd (sys c s)) = s_iters s"
  "s_tv_start (snd (sys c s)) = s_tv_start s" "s_tv_end (snd (sys c s)) = s_tv_end s"
  "s_free (snd (sys c s)) = s_free s" "s_buff_count (snd (sys c s)) = s_buff_count s"
  "s_dp (snd (sys c s)) = s_dp s" "s_par (snd (sys c s)) = s_par s" "s_pool (snd (sys c s)) = s_pool s"
  "s_trace (snd (sys c s)) = s_trace s @ [c]" "s_k (snd (sys c s)) = Suc (s_k s)"
  "s_orc (snd (sys c s)) = s_orc s" "s_efd (snd (sys c s)) = s_efd s"
  "s_brk (snd (sys c s)) = s_brk s" "s_pevents (snd (sys c s)) = s_pevents s"
 "s_errno (snd (sys c s)) = (if r_ret (s_orc s (s_k s)) < 0 then r_errno (s_orc s (s_k s)) else s_errno s)"
  "s_rnd (snd (sys c s)) = s_rnd s" "s_rk (snd (sys c s)) = s_rk s"
  by (simp_all add: sys_def Let_def)


section \<open>The initial state\<close>

definition MF_STATIC :: int where "MF_STATIC = 1"
definition MF_EXTRA :: int where "MF_EXTRA = 2"

text \<open>\<open>struct params params\<close> of \<open>main.c\<close>, and a group with nothing set.\<close>

definition par0 :: params where
  "par0 = \<lparr> g_dp = None, g_dp_full_mask = 0, g_await_int = 10, g_wait_send = False, g_def_ttl = 0,
     g_custom_ttl = False, g_tfo = False, g_timeout = 0, g_ptimeout = 0, g_to_count_lim = 0,
     g_to_bytes_lim = 0, g_cache_pre = 0, g_mode = 0, g_ipv6 = True, g_resolve = True, g_udp = True,
     g_delay_conn = False, g_auto_reconnect = False, g_max_open = 512, g_debug = 0, g_bfsize = 16384,
     g_baddr = addr0\<lparr>sa_family := AF_INET6\<rparr>, g_protect = None \<rparr>"

definition part0 :: part where
  "part0 = \<lparr> p_m = DESYNC_NONE, p_flag = 0, p_pos = 0, p_r = 0, p_s = 0 \<rparr>"

definition dp0 :: dparams where
  "dp0 = \<lparr> d_ttl = 0, d_md5sig = False, d_fake_data = \<lparr> pk_size = 0, pk_data = None, pk_off = 0 \<rparr>,
     d_udp_fake_count = 0, d_fake_offset = part0, d_fake_offset_on = False, d_fake_sni = [],
     d_fake_mod = 0, d_fake_tls_size = 0, d_drop_sack = False, d_oob_char = (0, 0), d_parts = [],
     d_mod_http = 0, d_tlsrec = [], d_tlsminor = 0, d_tlsminor_set = False, d_proto = 0, d_detect = 0,
     d_auto_level = 0, d_hosts = None, d_ipset = None, d_pf = (0, 0), d_rounds = (0, 0), d_out_type = 0,
     d_out_addr = addr0, d_id = 0, d_bit = 0, d_fail_count = 0, d_pri = 0, d_cache_ttl = 0,
     d_prev = None, d_next = None \<rparr>"

text \<open>The state before \<open>init_pool\<close>, on a system \<open>orc\<close>; \<open>res0\<close> is a call that returns 0 at once.\<close>

definition res0 :: sysres where
  "res0 = \<lparr> r_ret = 0, r_errno = 0, r_data = [], r_addr = addr0, r_evs = [], r_dt = 0, r_time = 0 \<rparr>"

definition st0 :: "(nat \<Rightarrow> sysres) \<Rightarrow> st" where
  "st0 orc = \<lparr> s_ev = (\<lambda>_. eval0), s_max = 0, s_count = 0, s_links = (\<lambda>i. i), s_iters = 0, s_efd = 0, s_brk = False,
     s_pevents = [], s_tv_start = None, s_tv_end = None, s_free = [], s_buff_count = 0,
     s_dp = (\<lambda>_. dp0), s_par = par0, s_pool = mem_pool MF_EXTRA CMP_BITS, s_time = 0, s_ms = 0, s_orc = orc, s_k = 0,
     s_errno = 0, s_rnd = (\<lambda>_. 0), s_rk = 0, s_trace = [] \<rparr>"

end
