(* ===== verification/Conev.thy ===== *)
theory Conev
  imports Sys
begin

text \<open>
  The event pool of \<open>src/conev.c\<close> as it is built on Linux (epoll): the connections and the
  permutation \<open>links\<close> that keeps the live ones in front, the doubly linked list of timers, the stack
  of spare buffers, and the event loop. The loop takes the callbacks as a parameter.
\<close>

definition MAX_BUFF_INP :: int where "MAX_BUFF_INP = 8"
definition POLLIN :: int where "POLLIN = 1"
definition POLLOUT :: int where "POLLOUT = 4"
definition POLLERR :: int where "POLLERR = 8"
definition POLLHUP :: int where "POLLHUP = 16"
definition POLLRDHUP :: int where "POLLRDHUP = 0x2000"
definition POLLTIMEOUT :: int where "POLLTIMEOUT = 0"
definition EINTR :: int where "EINTR = 4"

section \<open>Buffers\<close>

text \<open>A new buffer has fresh contents, here zeros; a spare one keeps its contents and its size,
  whatever size is asked for.\<close>

definition buff_pop :: "int \<Rightarrow> st \<Rightarrow> buffer \<times> st" where
  "buff_pop n s =
     (case s_free s of
        b # bs \<Rightarrow> (b, s\<lparr>s_free := bs, s_buff_count := s_buff_count s - 1\<rparr>)
      | [] \<Rightarrow> (\<lparr> b_size = n, b_offset = 0, b_lock = 0, b_data = replicate (nat n) 0 \<rparr>, s))"

definition buff_push :: "buffer option \<Rightarrow> st \<Rightarrow> st" where
  "buff_push buff s =
     (case buff of
        None \<Rightarrow> s
      | Some b \<Rightarrow>
          if s_buff_count s \<ge> MAX_BUFF_INP then s
          else s\<lparr>s_free := b\<lparr>b_lock := 0, b_offset := 0\<rparr> # s_free s, s_buff_count := s_buff_count s + 1\<rparr>)"

text \<open>\<open>buff_ppop\<close>: the buffer on top of the stack, which stays there.\<close>

definition buff_ppop :: "int \<Rightarrow> st \<Rightarrow> buffer \<times> st" where
  "buff_ppop n s = (let (b, s) = buff_pop n s in (b, buff_push (Some b) s))"

definition buff_destroy :: "st \<Rightarrow> st" where
  "buff_destroy s = s\<lparr>s_free := [], s_buff_count := 0\<rparr>"

section \<open>Timers\<close>

text \<open>\<open>while (prev && prev->tv_ms >= val->tv_ms)\<close>\<close>

partial_function (option) tv_scan ::
  "(nat \<Rightarrow> eval) \<Rightarrow> int \<Rightarrow> nat option \<Rightarrow> nat option \<Rightarrow> (nat option \<times> nat option) option" where
  "tv_scan ev t prev next =
     (case prev of
        None \<Rightarrow> Some (prev, next)
      | Some p \<Rightarrow> if v_tv_ms (ev p) \<ge> t then tv_scan ev t (v_tv_prev (ev p)) (Some p)
                  else Some (prev, next))"

definition set_timer :: "nat \<Rightarrow> int \<Rightarrow> st \<Rightarrow> st option" where
  "set_timer v ms s =
     (if v_tv_ms (s_ev s v) \<noteq> 0 then Some s
      else do {
        let s = upd_ev v (\<lambda>e. e\<lparr>v_tv_ms := s_ms s + ms\<rparr>) s;
        (prev, next) \<leftarrow> tv_scan (s_ev s) (v_tv_ms (s_ev s v)) (s_tv_end s) None;
        let s = upd_ev v (\<lambda>e. e\<lparr>v_tv_next := next, v_tv_prev := prev\<rparr>) s;
        let s = (case next of None \<Rightarrow> s | Some n \<Rightarrow> upd_ev n (\<lambda>e. e\<lparr>v_tv_prev := Some v\<rparr>) s);
        let s = (case prev of None \<Rightarrow> s | Some p \<Rightarrow> upd_ev p (\<lambda>e. e\<lparr>v_tv_next := Some v\<rparr>) s);
        let s = (if s_tv_start s = None \<or> next = s_tv_start s then s\<lparr>s_tv_start := Some v\<rparr> else s);
        let s = (if s_tv_end s = None \<or> prev = s_tv_end s then s\<lparr>s_tv_end := Some v\<rparr> else s);
        Some s })"

definition remove_timer :: "nat \<Rightarrow> st \<Rightarrow> st" where
  "remove_timer v s =
     (let s = (case v_tv_prev (s_ev s v) of
                 None \<Rightarrow> s | Some p \<Rightarrow> upd_ev p (\<lambda>e. e\<lparr>v_tv_next := v_tv_next (s_ev s v)\<rparr>) s);
          s = (case v_tv_next (s_ev s v) of
                 None \<Rightarrow> s | Some n \<Rightarrow> upd_ev n (\<lambda>e. e\<lparr>v_tv_prev := v_tv_prev (s_ev s v)\<rparr>) s);
          s = (if s_tv_start s = Some v then s\<lparr>s_tv_start := v_tv_next (s_ev s v)\<rparr> else s);
          s = (if s_tv_end s = Some v then s\<lparr>s_tv_end := v_tv_prev (s_ev s v)\<rparr> else s) in
      upd_ev v (\<lambda>e. e\<lparr>v_tv_ms := 0, v_tv_next := None, v_tv_prev := None\<rparr>) s)"

section \<open>Connections\<close>

text \<open>The arrays come from \<open>malloc\<close>; only the first item is cleared, the others keep what
  \<open>s_ev\<close> holds. Memory does not run out in the model.\<close>

definition init_pool :: "nat \<Rightarrow> st \<Rightarrow> bool \<times> st" where
  "init_pool n s =
     (let (r, s) = sys (CEpollCreate (int n)) s in
      if r_ret r < 0 then (False, s)
      else (True, s\<lparr>s_max := n, s_count := 0, s_iters := 0, s_efd := r_ret r, s_links := (\<lambda>i. i),
              s_ev := (s_ev s)(0 := eval0), s_brk := False, s_tv_start := None, s_tv_end := None,
              s_free := [], s_buff_count := 0\<rparr>))"

definition add_event :: "cb \<Rightarrow> int \<Rightarrow> int \<Rightarrow> st \<Rightarrow> (nat option \<times> st) option" where
  "add_event cb fd e s =
     (if \<not> fd > 0 then None
      else if s_count s \<ge> s_max s then Some (None, s)
      else
        (let v = s_links s (s_count s);
             s = upd_ev v (\<lambda>_. eval0\<lparr>v_mod_iter := s_iters s, v_fd := fd, v_index := s_count s, v_cb := cb\<rparr>) s;
             (r, s) = sys (CEpollAdd fd e) s in
         if r_ret r \<noteq> 0 then Some (None, s)
         else Some (Some v, s\<lparr>s_count := s_count s + 1\<rparr>)))"

text \<open>What \<open>del_event\<close> releases before it closes the socket.\<close>

definition release_event :: "nat \<Rightarrow> st \<Rightarrow> st" where
  "release_event v s =
     (let s = buff_push (v_buff (s_ev s v)) s;
          s = upd_ev v (\<lambda>e. e\<lparr>v_buff := None\<rparr>) s;
          s = buff_push (v_sq_buff (s_ev s v)) s;
          s = upd_ev v (\<lambda>e. e\<lparr>v_sq_buff := None\<rparr>) s;
          s = (case v_restore_fake (s_ev s v) of
                 None \<Rightarrow> s
               | Some d \<Rightarrow> upd_ev v (\<lambda>e. e\<lparr>v_restore_fake := None\<rparr>) (snd (sys (CMunmap d) s))) in
      upd_ev v (\<lambda>e. e\<lparr>v_host := None\<rparr>) s)"

text \<open>\<open>del_event\<close> up to the update of \<open>pool->count\<close>; \<open>close_event\<close> is what follows once the system does not
  watch the socket any more.\<close>

definition close_event :: "nat \<Rightarrow> st \<Rightarrow> st" where
  "close_event v s =
     (let s = release_event v s;
          s = snd (sys (CClose (v_fd (s_ev s v))) s);
          s = upd_ev v (\<lambda>e. e\<lparr>v_fd := - 1, v_mod_iter := s_iters s\<rparr>) s in
      remove_timer v s)"

definition shut_event :: "nat \<Rightarrow> st \<Rightarrow> st" where
  "shut_event v s = close_event v (snd (sys (CEpollDel (v_fd (s_ev s v))) s))"

text \<open>The swap that keeps the live connections in front.\<close>

definition unlink_event :: "nat \<Rightarrow> st \<Rightarrow> st" where
  "unlink_event v s =
     (let s = s\<lparr>s_count := s_count s - 1\<rparr>; ev = s_links s (s_count s) in
      if ev \<noteq> v then
        (let index = v_index (s_ev s v) in
         upd_ev ev (\<lambda>e. e\<lparr>v_index := index\<rparr>) (s\<lparr>s_links := (s_links s)(index := ev, s_count s := v)\<rparr>))
      else s)"

text \<open>The pair of a closed connection is separated from it, before it is closed as well.\<close>

definition unpair :: "nat \<Rightarrow> nat \<Rightarrow> st \<Rightarrow> st" where
  "unpair v p s =
     (let s = (if v_pair (s_ev s p) = Some v then upd_ev p (\<lambda>e. e\<lparr>v_pair := None\<rparr>) s else s) in
      upd_ev v (\<lambda>e. e\<lparr>v_pair := None\<rparr>) s)"

partial_function (option) del_event :: "nat \<Rightarrow> st \<Rightarrow> st option" where
  "del_event v s =
     (if \<not> (v_fd (s_ev s v) \<ge> - 1 \<and> v_mod_iter (s_ev s v) \<le> s_iters s) then None
      else if v_fd (s_ev s v) = - 1 then Some s
      else
        (let s = shut_event v s in
         if s_count s = 0 then None
         else
           (let s = unlink_event v s in
            case v_pair (s_ev s v) of
              None \<Rightarrow> Some s
            | Some p \<Rightarrow> del_event p (unpair v p s))))"

partial_function (option) del_all :: "st \<Rightarrow> st option" where
  "del_all s = (if s_count s = 0 then Some s else do { s \<leftarrow> del_event (s_links s 0) s; del_all s })"

definition destroy_pool :: "st \<Rightarrow> st option" where
  "destroy_pool s = do {
     s \<leftarrow> del_all s;
     let s = (if s_efd s \<noteq> 0 then snd (sys (CClose (s_efd s)) s) else s);
     Some (buff_destroy s) }"

definition mod_etype :: "nat \<Rightarrow> int \<Rightarrow> st \<Rightarrow> (int \<times> st) option" where
  "mod_etype v ty s =
     (if \<not> v_fd (s_ev s v) > 0 then None
      else let (r, s) = sys (CEpollMod (v_fd (s_ev s v)) ty) s in Some (r_ret r, s))"

section \<open>The event loop\<close>

text \<open>The result of \<open>next_event\<close>: the connection, the new \<open>*offs\<close> and \<open>*type\<close>. The events that
  \<open>epoll_wait\<close> reports are taken from the last to the first, and those of connections that were
  closed or opened since are skipped.\<close>

definition epoll_refill :: "int \<Rightarrow> st \<Rightarrow> int \<times> st" where
  "epoll_refill ms s =
     (let (r, s) = sys (CEpollWait ms) s; evs = take (s_max s) (r_evs r) in
      if r_ret r < 0 then (- 1, s)
      else if evs = [] then (0, s)
      else (int (length evs), s\<lparr>s_pevents := evs, s_iters := s_iters s + 1\<rparr>))"

partial_function (option) next_event ::
  "int \<Rightarrow> int \<Rightarrow> int \<Rightarrow> st \<Rightarrow> (nat option \<times> int \<times> int \<times> st) option" where
  "next_event offs ty ms s =
     (if \<not> (- 1 \<le> offs \<and> offs < int (s_max s)) then None
      else
        (let (i, s) = (if offs < 0 then (let (ret, s) = epoll_refill ms s in (ret - 1, s)) else (offs, s)) in
         if i < 0 then Some (None, offs, if i = - 1 then POLLTIMEOUT else ty, s)
         else if \<not> i < int (length (s_pevents s)) then None
         else
           (let (v, e) = s_pevents s ! nat i in
            if v_mod_iter (s_ev s v) = s_iters s then next_event (i - 1) ty ms s
            else Some (Some v, i - 1, e, s))))"

definition next_event_tv :: "int \<Rightarrow> int \<Rightarrow> st \<Rightarrow> (nat option \<times> int \<times> int \<times> st) option" where
  "next_event_tv offs ty s =
     (case s_tv_start s of
        None \<Rightarrow> next_event offs ty (- 1) s
      | Some t \<Rightarrow> do {
          let ms = v_tv_ms (s_ev s t) - s_ms s;
          (v, offs, ty, s) \<leftarrow>
            (if ms > 0 then next_event offs ty ms s else Some (None, offs, POLLTIMEOUT, s));
          (case s_tv_start s of
             Some t \<Rightarrow>
               if v = None \<and> ty = POLLTIMEOUT then Some (Some t, offs, ty, remove_timer t s)
               else Some (v, offs, ty, s)
           | None \<Rightarrow> Some (v, offs, ty, s)) })"

partial_function (option) loop_event ::
  "(cb \<Rightarrow> nat \<Rightarrow> int \<Rightarrow> st \<Rightarrow> (int \<times> st) option) \<Rightarrow> int \<Rightarrow> int \<Rightarrow> st \<Rightarrow> st option" where
  "loop_event call i etype s =
     (if s_brk s then Some s
      else do {
        (v, i, etype, s) \<leftarrow> next_event_tv i etype s;
        (case v of
           None \<Rightarrow> if s_errno s = EINTR then loop_event call i etype s else Some s
         | Some v \<Rightarrow> do {
             (ret, s) \<leftarrow> call (v_cb (s_ev s v)) v etype s;
             s \<leftarrow> (if ret < 0 then del_event v s else Some s);
             loop_event call i etype s }) })"

end
