(* ===== verification/ConevTimers.thy ===== *)
theory ConevTimers
  imports Conev
begin

text \<open>
  The timers of the event pool: the doubly linked list through \<open>tv_next\<close> and \<open>tv_prev\<close> refines a
  list of connections that is sorted by deadline.
\<close>

section \<open>Linked lists\<close>

definition hdO :: "'a list \<Rightarrow> 'a option" where
  "hdO xs = (case xs of [] \<Rightarrow> None | x # _ \<Rightarrow> Some x)"

definition lastO :: "'a list \<Rightarrow> 'a option" where
  "lastO xs = (if xs = [] then None else Some (last xs))"

lemma hdO_simps [simp]: "hdO [] = None" "hdO (x # xs) = Some x" "hdO (x # xs @ ys) = Some x"
  by (simp_all add: hdO_def)

lemma hdO_append: "hdO (xs @ ys) = (if xs = [] then hdO ys else hdO xs)"
  by (cases xs) auto

lemma lastO_simps [simp]: "lastO [] = None" "lastO [x] = Some x" "lastO (xs @ [x]) = Some x" "lastO (xs @ x # ys) = lastO (x # ys)"
  by (simp_all add: lastO_def)

lemma lastO_append: "lastO (xs @ ys) = (if ys = [] then lastO xs else lastO ys)"
  by (simp add: lastO_def)

lemma lastO_Cons: "lastO (x # xs) = Some (if xs = [] then x else last xs)"
  by (simp add: lastO_def)

lemma hdO_None [simp]: "hdO xs = None \<longleftrightarrow> xs = []"
  by (cases xs) auto

lemma lastO_None [simp]: "lastO xs = None \<longleftrightarrow> xs = []"
  by (simp add: lastO_def)

lemma hdO_SomeD: "hdO xs = Some x \<Longrightarrow> x \<in> set xs"
  by (cases xs) auto

lemma lastO_SomeD: "lastO xs = Some x \<Longrightarrow> x \<in> set xs"
  by (auto simp: lastO_def split: if_splits)

lemma split_cases:
  assumes "xs @ v # ys = as @ w # bs"
  shows "(w = v \<and> as = xs \<and> bs = ys) \<or> (\<exists>cs. xs = as @ w # cs \<and> bs = cs @ v # ys) \<or>
    (\<exists>cs. ys = cs @ w # bs \<and> as = xs @ v # cs)"
  using assms
proof (induction xs arbitrary: as)
  case Nil
  then show ?case by (cases as) auto
next
  case (Cons x xs)
  then show ?case by (cases as) auto
qed

lemma split_cases2:
  assumes "xs @ ys = as @ w # bs"
  shows "(\<exists>cs. xs = as @ w # cs \<and> bs = cs @ ys) \<or> (\<exists>cs. ys = cs @ w # bs \<and> as = xs @ cs)"
  using assms
proof (induction xs arbitrary: as)
  case Nil
  then show ?case by simp
next
  case (Cons x xs)
  then show ?case by (cases as) auto
qed

definition linked :: "(nat \<Rightarrow> eval) \<Rightarrow> nat list \<Rightarrow> bool" where
  "linked ev ts \<longleftrightarrow>
     (\<forall>xs v ys. ts = xs @ v # ys \<longrightarrow> v_tv_prev (ev v) = lastO xs \<and> v_tv_next (ev v) = hdO ys)"

lemma linkedD: "linked ev (xs @ v # ys) \<Longrightarrow> v_tv_prev (ev v) = lastO xs \<and> v_tv_next (ev v) = hdO ys"
  by (simp add: linked_def)

text \<open>Linking \<open>v\<close> in between, and taking it out.\<close>

lemma linked_insert:
  assumes l: "linked ev (xs @ ys)" and d: "distinct (xs @ ys)" "v \<notin> set (xs @ ys)"
    and v: "v_tv_prev (ev' v) = lastO xs" "v_tv_next (ev' v) = hdO ys"
    and nxt: "\<And>u. u \<noteq> v \<Longrightarrow> v_tv_next (ev' u) = (if lastO xs = Some u then Some v else v_tv_next (ev u))"
    and prv: "\<And>u. u \<noteq> v \<Longrightarrow> v_tv_prev (ev' u) = (if hdO ys = Some u then Some v else v_tv_prev (ev u))"
  shows "linked ev' (xs @ v # ys)"
  unfolding linked_def
proof (intro allI impI)
  fix as w bs
  assume "xs @ v # ys = as @ w # bs"
  from split_cases [OF this] consider "w = v" "as = xs" "bs = ys"
    | cs where "xs = as @ w # cs" "bs = cs @ v # ys" | cs where "ys = cs @ w # bs" "as = xs @ v # cs" by blast
  then show "v_tv_prev (ev' w) = lastO as \<and> v_tv_next (ev' w) = hdO bs"
  proof cases
    case 1
    then show ?thesis using v by simp
  next
    case 2
    then have "w \<noteq> v" "hdO ys \<noteq> Some w" using d hdO_SomeD [of ys w] by auto
    moreover have "lastO xs = Some w \<longleftrightarrow> cs = []"
      using 2 d by (auto simp: lastO_def split: if_splits)
    moreover have "v_tv_prev (ev w) = lastO as \<and> v_tv_next (ev w) = hdO (cs @ ys)"
      using linkedD [of ev as w "cs @ ys"] l 2 by simp
    ultimately show ?thesis using nxt prv 2 by (auto simp: hdO_append)
  next
    case 3
    then have "w \<noteq> v" "lastO xs \<noteq> Some w" using d lastO_SomeD [of xs w] by auto
    moreover have "hdO ys = Some w \<longleftrightarrow> cs = []"
      using 3 d by (cases cs) auto
    moreover have "v_tv_prev (ev w) = lastO (xs @ cs) \<and> v_tv_next (ev w) = hdO bs"
      using linkedD [of ev "xs @ cs" w bs] l 3 by simp
    ultimately show ?thesis using nxt prv 3 by (auto simp: lastO_append lastO_Cons lastO_def)
  qed
qed

lemma linked_remove:
  assumes l: "linked ev (xs @ v # ys)" and d: "distinct (xs @ v # ys)"
    and nxt: "\<And>u. u \<noteq> v \<Longrightarrow> v_tv_next (ev' u) = (if lastO xs = Some u then hdO ys else v_tv_next (ev u))"
    and prv: "\<And>u. u \<noteq> v \<Longrightarrow> v_tv_prev (ev' u) = (if hdO ys = Some u then lastO xs else v_tv_prev (ev u))"
  shows "linked ev' (xs @ ys)"
  unfolding linked_def
proof (intro allI impI)
  fix as w bs
  assume eq: "xs @ ys = as @ w # bs"
  from split_cases2 [OF eq] consider cs where "xs = as @ w # cs" "bs = cs @ ys"
    | cs where "ys = cs @ w # bs" "as = xs @ cs" by blast
  then show "v_tv_prev (ev' w) = lastO as \<and> v_tv_next (ev' w) = hdO bs"
  proof cases
    case 1
    then have "w \<noteq> v" "hdO ys \<noteq> Some w" using d hdO_SomeD [of ys w] by auto
    moreover have "lastO xs = Some w \<longleftrightarrow> cs = []"
      using 1 d by (auto simp: lastO_def split: if_splits)
    moreover have "v_tv_prev (ev w) = lastO as \<and> v_tv_next (ev w) = hdO (cs @ v # ys)"
      using linkedD [of ev as w "cs @ v # ys"] l 1 by simp
    ultimately show ?thesis using nxt prv 1 by (auto simp: hdO_append)
  next
    case 2
    then have "w \<noteq> v" "lastO xs \<noteq> Some w" using d lastO_SomeD [of xs w] by auto
    moreover have "hdO ys = Some w \<longleftrightarrow> cs = []"
      using 2 d by (cases cs) auto
    moreover have "v_tv_prev (ev w) = lastO (xs @ v # cs) \<and> v_tv_next (ev w) = hdO bs"
      using linkedD [of ev "xs @ v # cs" w bs] l 2 by simp
    ultimately show ?thesis using nxt prv 2 by (auto simp: lastO_append lastO_Cons lastO_def)
  qed
qed

section \<open>The abstraction\<close>

definition deadline :: "st \<Rightarrow> nat \<Rightarrow> int" where
  "deadline s v = v_tv_ms (s_ev s v)"

definition live :: "st \<Rightarrow> nat \<Rightarrow> bool" where
  "live s v \<longleftrightarrow> v \<in> s_links s ` {..< s_count s}"

definition timers :: "st \<Rightarrow> nat list \<Rightarrow> bool" where
  "timers s ts \<longleftrightarrow> distinct ts \<and> sorted (map (deadline s) ts) \<and> linked (s_ev s) ts \<and>
     s_tv_start s = hdO ts \<and> s_tv_end s = lastO ts \<and>
     (\<forall>v\<in>set ts. live s v) \<and> (\<forall>v. live s v \<longrightarrow> (v \<in> set ts \<longleftrightarrow> deadline s v \<noteq> 0)) \<and>
     (\<forall>v. live s v \<longrightarrow> v \<notin> set ts \<longrightarrow> v_tv_next (s_ev s v) = None \<and> v_tv_prev (s_ev s v) = None)"

lemma tv_scan_spec:
  assumes "linked ev (xs @ ys)"
  shows "\<exists>as bs. xs = as @ bs \<and> tv_scan ev t (lastO xs) (hdO ys) = Some (lastO as, hdO (bs @ ys)) \<and>
    (\<forall>b\<in>set bs. v_tv_ms (ev b) \<ge> t) \<and> (as \<noteq> [] \<longrightarrow> v_tv_ms (ev (last as)) < t)"
  using assms
proof (induction xs arbitrary: ys rule: rev_induct)
  case Nil
  then show ?case by (auto simp: tv_scan.simps)
next
  case (snoc p xs)
  show ?case
  proof (cases "v_tv_ms (ev p) \<ge> t")
    case True
    have "v_tv_prev (ev p) = lastO xs" using linkedD [of ev xs p ys] snoc.prems by simp
    moreover obtain as bs where "xs = as @ bs"
        "tv_scan ev t (lastO xs) (hdO (p # ys)) = Some (lastO as, hdO (bs @ p # ys))"
        "\<forall>b\<in>set bs. v_tv_ms (ev b) \<ge> t" "as \<noteq> [] \<longrightarrow> v_tv_ms (ev (last as)) < t"
      using snoc.IH [of "p # ys"] snoc.prems by auto
    ultimately show ?thesis using True
      by - (rule exI [of _ as], rule exI [of _ "bs @ [p]"], simp add: tv_scan.simps [of ev t "Some p"] lastO_append)
  next
    case False
    then show ?thesis
      by - (rule exI [of _ "xs @ [p]"], rule exI [of _ "[]"], simp add: tv_scan.simps)
  qed
qed

section \<open>Removal\<close>

lemma remove_timer_ev:
  "v_tv_ms (s_ev (remove_timer v s) u) = (if u = v then 0 else v_tv_ms (s_ev s u))"
  "v_tv_next (s_ev (remove_timer v s) u) = (if u = v then None
     else if v_tv_prev (s_ev s v) = Some u then v_tv_next (s_ev s v) else v_tv_next (s_ev s u))"
  "v_tv_prev (s_ev (remove_timer v s) u) = (if u = v then None
     else if v_tv_next (s_ev s v) = Some u then v_tv_prev (s_ev s v) else v_tv_prev (s_ev s u))"
  if "v_tv_prev (s_ev s v) \<noteq> Some v" "v_tv_next (s_ev s v) \<noteq> Some v"
  using that by (auto simp: remove_timer_def Let_def split: option.splits)

lemma remove_timer_frame [simp]:
  "v_fd (s_ev (remove_timer v s) u) = v_fd (s_ev s u)"
  "v_index (s_ev (remove_timer v s) u) = v_index (s_ev s u)"
  "v_mod_iter (s_ev (remove_timer v s) u) = v_mod_iter (s_ev s u)"
  "v_pair (s_ev (remove_timer v s) u) = v_pair (s_ev s u)"
  "v_buff (s_ev (remove_timer v s) u) = v_buff (s_ev s u)"
  "v_sq_buff (s_ev (remove_timer v s) u) = v_sq_buff (s_ev s u)"
  "s_count (remove_timer v s) = s_count s" "s_max (remove_timer v s) = s_max s"
  "s_links (remove_timer v s) = s_links s" "s_iters (remove_timer v s) = s_iters s"
  "s_free (remove_timer v s) = s_free s" "s_buff_count (remove_timer v s) = s_buff_count s"
  "s_trace (remove_timer v s) = s_trace s" "s_par (remove_timer v s) = s_par s"
  "s_dp (remove_timer v s) = s_dp s" "s_efd (remove_timer v s) = s_efd s" "s_pevents (remove_timer v s) = s_pevents s"
  by (auto simp: remove_timer_def Let_def split: option.splits)

lemma remove_timer_ends:
  "s_tv_start (remove_timer v s) = (if s_tv_start s = Some v then v_tv_next (s_ev s v) else s_tv_start s)"
  "s_tv_end (remove_timer v s) = (if s_tv_end s = Some v then v_tv_prev (s_ev s v) else s_tv_end s)"
  if "v_tv_prev (s_ev s v) \<noteq> Some v" "v_tv_next (s_ev s v) \<noteq> Some v"
  using that by (auto simp: remove_timer_def Let_def split: option.splits)

lemma removeAll_mid: "distinct (xs @ v # ys) \<Longrightarrow> removeAll v (xs @ v # ys) = xs @ ys"
  by (simp add: removeAll_id)

lemma live_remove_timer [simp]: "live (remove_timer v s) u = live s u"
  by (simp add: live_def)

lemma remove_timer_refines:
  assumes t: "timers s ts" and v: "live s v"
  shows "timers (remove_timer v s) (removeAll v ts)"
    and "u \<noteq> v \<Longrightarrow> deadline (remove_timer v s) u = deadline s u"
proof -
  have d: "distinct ts" using t by (simp add: timers_def)
  have self: "v_tv_prev (s_ev s v) \<noteq> Some v" "v_tv_next (s_ev s v) \<noteq> Some v"
  proof -
    show "v_tv_prev (s_ev s v) \<noteq> Some v"
    proof (cases "v \<in> set ts")
      case True
      then obtain xs ys where ts: "ts = xs @ v # ys" by (auto simp: in_set_conv_decomp)
      then have "v_tv_prev (s_ev s v) = lastO xs" using t linkedD by (auto simp: timers_def)
      then show ?thesis using d ts lastO_SomeD [of xs v] by auto
    qed (use t v in \<open>auto simp: timers_def\<close>)
    show "v_tv_next (s_ev s v) \<noteq> Some v"
    proof (cases "v \<in> set ts")
      case True
      then obtain xs ys where ts: "ts = xs @ v # ys" by (auto simp: in_set_conv_decomp)
      then have "v_tv_next (s_ev s v) = hdO ys" using t linkedD by (auto simp: timers_def)
      then show ?thesis using d ts hdO_SomeD [of ys v] by auto
    qed (use t v in \<open>auto simp: timers_def\<close>)
  qed
  note ev = remove_timer_ev [OF self]
  show dl: "u \<noteq> v \<Longrightarrow> deadline (remove_timer v s) u = deadline s u" for u
    by (simp add: deadline_def ev)
  show "timers (remove_timer v s) (removeAll v ts)"
  proof (cases "v \<in> set ts")
    case False
    then have n: "v_tv_next (s_ev s v) = None" "v_tv_prev (s_ev s v) = None" "deadline s v = 0"
      using t v by (auto simp: timers_def)
    have same: "v_tv_next (s_ev (remove_timer v s) u) = v_tv_next (s_ev s u)"
        "v_tv_prev (s_ev (remove_timer v s) u) = v_tv_prev (s_ev s u)"
        "deadline (remove_timer v s) u = deadline s u" for u
      using n by (auto simp: ev deadline_def)
    have "linked (s_ev (remove_timer v s)) ts" using t by (simp add: timers_def linked_def same)
    moreover have "hdO ts \<noteq> Some v" "lastO ts \<noteq> Some v" using False hdO_SomeD lastO_SomeD by fast+
    ultimately show ?thesis
      using t False same remove_timer_ends [OF self]
      by (simp add: timers_def removeAll_id cong: map_cong)
  next
    case True
    then obtain xs ys where ts: "ts = xs @ v # ys" by (auto simp: in_set_conv_decomp)
    have l: "v_tv_prev (s_ev s v) = lastO xs" "v_tv_next (s_ev s v) = hdO ys"
      using t ts linkedD by (auto simp: timers_def)
    have rm: "removeAll v ts = xs @ ys" using removeAll_mid d ts by simp
    have "linked (s_ev (remove_timer v s)) (xs @ ys)"
    proof (rule linked_remove)
      show "linked (s_ev s) (xs @ v # ys)" "distinct (xs @ v # ys)" using t ts by (simp_all add: timers_def)
    qed (simp_all add: ev l)
    moreover have m: "map (deadline (remove_timer v s)) (xs @ ys) = map (deadline s) (xs @ ys)"
      using d ts by (intro map_cong) (auto intro!: dl)
    have "sorted (map (deadline (remove_timer v s)) (xs @ ys))"
      unfolding m using t ts by (simp add: timers_def sorted_append)
    moreover have "s_tv_start (remove_timer v s) = hdO (xs @ ys)"
      using t ts l remove_timer_ends [OF self] d by (cases xs) (auto simp: timers_def)
    moreover have "s_tv_end (remove_timer v s) = lastO (xs @ ys)"
      using t ts l remove_timer_ends [OF self] d by (cases ys rule: rev_cases) (auto simp: timers_def lastO_append lastO_Cons)
    moreover have "\<forall>u\<in>set (xs @ ys). live s u" using t ts by (simp add: timers_def)
    moreover have "\<forall>u. live s u \<longrightarrow> (u \<in> set (xs @ ys) \<longleftrightarrow> deadline (remove_timer v s) u \<noteq> 0)"
      using t ts d by (auto simp: timers_def deadline_def ev)
    moreover have "\<forall>u. live s u \<longrightarrow> u \<notin> set (xs @ ys) \<longrightarrow>
        v_tv_next (s_ev (remove_timer v s) u) = None \<and> v_tv_prev (s_ev (remove_timer v s) u) = None"
      using t ts lastO_SomeD [of xs] hdO_SomeD [of ys] by (auto simp: timers_def ev l)
    ultimately show ?thesis using d ts rm by (simp add: timers_def)
  qed
qed

section \<open>Setting a timer\<close>

lemma set_timer_ev:
  assumes "v_tv_ms (s_ev s v) = 0" "tv_scan (s_ev (upd_ev v (\<lambda>e. e\<lparr>v_tv_ms := s_ms s + ms\<rparr>) s))
      (s_ms s + ms) (s_tv_end s) None = Some (prev, next)"
    and "prev \<noteq> Some v" "next \<noteq> Some v"
  shows "\<exists>s'. set_timer v ms s = Some s' \<and>
    v_tv_prev (s_ev s' v) = prev \<and> v_tv_next (s_ev s' v) = next \<and>
    s_count s' = s_count s \<and> s_links s' = s_links s \<and>
    (\<forall>u. v_tv_ms (s_ev s' u) = (if u = v then s_ms s + ms else v_tv_ms (s_ev s u))) \<and>
    (\<forall>u. u \<noteq> v \<longrightarrow> v_tv_next (s_ev s' u) = (if prev = Some u then Some v else v_tv_next (s_ev s u))) \<and>
    (\<forall>u. u \<noteq> v \<longrightarrow> v_tv_prev (s_ev s' u) = (if next = Some u then Some v else v_tv_prev (s_ev s u))) \<and>
    s_tv_start s' = (if s_tv_start s = None \<or> next = s_tv_start s then Some v else s_tv_start s) \<and>
    s_tv_end s' = (if s_tv_end s = None \<or> prev = s_tv_end s then Some v else s_tv_end s)"
  using assms by (cases prev; cases "next") (auto simp: set_timer_def Let_def)

lemma linked_cong:
  "(\<And>u. u \<in> set ts \<Longrightarrow> v_tv_next (ev u) = v_tv_next (ev' u) \<and> v_tv_prev (ev u) = v_tv_prev (ev' u)) \<Longrightarrow>
     linked ev ts = linked ev' ts"
  by (fastforce simp: linked_def)

lemma insort_key_split:
  assumes "\<forall>a\<in>set as. f a < f v" "\<forall>b\<in>set bs. f v \<le> f b"
  shows "insort_key f v (as @ bs) = as @ v # bs"
  using assms by (induction as) (cases bs; auto)+

lemma set_timer_refines:
  assumes t: "timers s ts" and lv: "live s v" and v: "v \<notin> set ts" and ms: "s_ms s + ms \<noteq> 0"
  shows "\<exists>s'. set_timer v ms s = Some s' \<and> timers s' (insort_key (deadline s') v ts) \<and>
    deadline s' v = s_ms s + ms \<and> (\<forall>u. u \<noteq> v \<longrightarrow> deadline s' u = deadline s u) \<and> s_links s' = s_links s \<and> s_count s' = s_count s"
proof -
  let ?ev = "s_ev (upd_ev v (\<lambda>e. e\<lparr>v_tv_ms := s_ms s + ms\<rparr>) s)"
  have d: "distinct ts" and so: "sorted (map (deadline s) ts)" and l: "linked (s_ev s) ts"
    and ends: "s_tv_start s = hdO ts" "s_tv_end s = lastO ts" using t by (auto simp: timers_def)
  have z: "v_tv_ms (s_ev s v) = 0" using t v lv by (auto simp: timers_def deadline_def)
  have "linked ?ev (ts @ [])" using l v linked_cong [of ts ?ev "s_ev s"] by auto
  from tv_scan_spec [OF this, of "s_ms s + ms"] obtain as bs where
    sc: "ts = as @ bs" "tv_scan ?ev (s_ms s + ms) (lastO ts) None = Some (lastO as, hdO bs)"
      "\<forall>b\<in>set bs. v_tv_ms (?ev b) \<ge> s_ms s + ms" "as \<noteq> [] \<longrightarrow> v_tv_ms (?ev (last as)) < s_ms s + ms"
    by auto
  have nv: "v \<notin> set as" "v \<notin> set bs" using v sc(1) by auto
  have hi: "\<forall>b\<in>set bs. deadline s b \<ge> s_ms s + ms"
  proof
    fix b assume b: "b \<in> set bs"
    then have "b \<noteq> v" using nv by auto
    then have "deadline s b = v_tv_ms (?ev b)" by (simp add: deadline_def)
    then show "deadline s b \<ge> s_ms s + ms" using sc(3) b by simp
  qed
  have lo: "\<forall>a\<in>set as. deadline s a < s_ms s + ms"
  proof
    fix a assume a: "a \<in> set as"
    then have "as \<noteq> []" by auto
    then obtain ys where as: "as = ys @ [last as]" by (metis append_butlast_last_id)
    have "last as \<in> set as" using \<open>as \<noteq> []\<close> by simp
    then have "last as \<noteq> v" using nv by auto
    then have "deadline s (last as) < s_ms s + ms" using sc(4) \<open>as \<noteq> []\<close> by (simp add: deadline_def)
    moreover have "deadline s a \<le> deadline s (last as)"
    proof -
      have "sorted (map (deadline s) (ys @ [last as]))" using so sc(1) as by (simp add: sorted_append)
      moreover have "a = last as \<or> a \<in> set ys" using a as by (metis Un_iff empty_iff empty_set set_ConsD set_append)
      ultimately show ?thesis by (auto simp: sorted_append)
    qed
    ultimately show "deadline s a < s_ms s + ms" by simp
  qed
  have ne: "lastO as \<noteq> Some v" "hdO bs \<noteq> Some v" using nv lastO_SomeD hdO_SomeD by fast+
  have scan: "tv_scan (s_ev (upd_ev v (\<lambda>e. e\<lparr>v_tv_ms := s_ms s + ms\<rparr>) s)) (s_ms s + ms) (s_tv_end s) None
      = Some (lastO as, hdO bs)" using sc(2) ends(2) by simp
  obtain s' where s': "set_timer v ms s = Some s'" "v_tv_prev (s_ev s' v) = lastO as"
      "v_tv_next (s_ev s' v) = hdO bs" "s_count s' = s_count s" "s_links s' = s_links s"
      "\<And>u. v_tv_ms (s_ev s' u) = (if u = v then s_ms s + ms else v_tv_ms (s_ev s u))"
      "\<And>u. u \<noteq> v \<Longrightarrow> v_tv_next (s_ev s' u) = (if lastO as = Some u then Some v else v_tv_next (s_ev s u))"
      "\<And>u. u \<noteq> v \<Longrightarrow> v_tv_prev (s_ev s' u) = (if hdO bs = Some u then Some v else v_tv_prev (s_ev s u))"
      "s_tv_start s' = (if s_tv_start s = None \<or> hdO bs = s_tv_start s then Some v else s_tv_start s)"
      "s_tv_end s' = (if s_tv_end s = None \<or> lastO as = s_tv_end s then Some v else s_tv_end s)"
    using set_timer_ev [OF z scan ne] by auto
  have lv': "live s' u = live s u" for u by (simp add: live_def s'(4,5))
  have dl: "deadline s' u = (if u = v then s_ms s + ms else deadline s u)" for u
    by (simp add: deadline_def s'(6))
  have ins: "insort_key (deadline s') v ts = as @ v # bs"
    unfolding sc(1) using lo hi nv by (intro insort_key_split) (auto simp: dl)
  have "linked (s_ev s') (as @ v # bs)"
    by (rule linked_insert [of "s_ev s"]) (use l sc(1) d nv s' in auto)
  moreover have "sorted (map (deadline s') (as @ v # bs))"
  proof -
    have "map (deadline s') ts = map (deadline s) ts" using v by (auto simp: dl)
    then have "sorted (map (deadline s') ts)" using so by metis
    then have "sorted (map (deadline s') (insort_key (deadline s') v ts))" by (simp only: sorted_insort_key)
    then show ?thesis by (simp only: ins)
  qed
  moreover have "distinct (as @ v # bs)" using d sc(1) nv by auto
  moreover have "s_tv_start s' = hdO (as @ v # bs)"
  proof (cases as)
    case (Cons a as')
    then have "hdO bs \<noteq> Some a" using d sc(1) hdO_SomeD [of bs a] by auto
    with Cons show ?thesis using s'(9) ends(1) sc(1) by simp
  qed (use s'(9) ends(1) sc(1) in \<open>auto simp: hdO_append\<close>)
  moreover have "s_tv_end s' = lastO (as @ v # bs)"
  proof (cases bs rule: rev_cases)
    case (snoc bs' b)
    then have "lastO as \<noteq> Some b" using d sc(1) lastO_SomeD [of as b] by auto
    with snoc show ?thesis using s'(10) ends(2) sc(1) by (simp add: lastO_append lastO_Cons)
  qed (use s'(10) ends(2) sc(1) in \<open>auto simp: lastO_append\<close>)
  moreover have "\<forall>u\<in>set (as @ v # bs). live s' u" using t lv sc(1) by (auto simp: timers_def lv')
  moreover have "\<forall>u. live s' u \<longrightarrow> (u \<in> set (as @ v # bs) \<longleftrightarrow> deadline s' u \<noteq> 0)"
    using t ms sc(1) nv by (auto simp: timers_def dl lv')
  moreover have "\<forall>u. live s' u \<longrightarrow> u \<notin> set (as @ v # bs) \<longrightarrow> v_tv_next (s_ev s' u) = None \<and> v_tv_prev (s_ev s' u) = None"
  proof (intro allI impI)
    fix u assume u: "live s' u" "u \<notin> set (as @ v # bs)"
    then have "v_tv_next (s_ev s u) = None \<and> v_tv_prev (s_ev s u) = None"
      using t sc(1) lv' [of u] unfolding timers_def by simp
    moreover have "lastO as \<noteq> Some u" "hdO bs \<noteq> Some u" "u \<noteq> v"
      using u(2) lastO_SomeD [of as u] hdO_SomeD [of bs u] by auto
    ultimately show "v_tv_next (s_ev s' u) = None \<and> v_tv_prev (s_ev s' u) = None" using s'(7,8) by simp
  qed
  ultimately have "timers s' (insort_key (deadline s') v ts)" unfolding ins timers_def by blast
  then show ?thesis using s'(1,4,5) dl by auto
qed

end
