(* ===== verification/ConevSpec.thy ===== *)
theory ConevSpec
  imports ConevTimers
begin

text \<open>
  The invariant of the event pool: the array of links is a permutation of the items, the live
  connections are the first \<open>count\<close> of them and know their place, a pair points to a live or a
  closed connection, the timers are a sorted list of live connections, and the stack of spare buffers
  has at most eight unlocked ones. Opening and closing connections keep it, and closing always ends.
\<close>

section \<open>The invariant\<close>

definition closed :: "st \<Rightarrow> nat \<Rightarrow> bool" where
  "closed s v \<longleftrightarrow> v_fd (s_ev s v) = - 1 \<and> v_mod_iter (s_ev s v) \<le> s_iters s"

definition links_ok :: "st \<Rightarrow> bool" where
  "links_ok s \<longleftrightarrow> s_count s \<le> s_max s \<and> bij_betw (s_links s) {..< s_max s} {..< s_max s} \<and>
     (\<forall>i < s_count s. v_index (s_ev s (s_links s i)) = i)"

definition evs_ok :: "st \<Rightarrow> bool" where
  "evs_ok s \<longleftrightarrow> (\<forall>v. live s v \<longrightarrow> v_fd (s_ev s v) > 0 \<and> v_mod_iter (s_ev s v) \<le> s_iters s \<and>
     (\<forall>p. v_pair (s_ev s v) = Some p \<longrightarrow> live s p \<or> closed s p))"

definition bufs_ok :: "st \<Rightarrow> bool" where
  "bufs_ok s \<longleftrightarrow> s_buff_count s = int (length (s_free s)) \<and> length (s_free s) \<le> 8 \<and>
     (\<forall>b\<in>set (s_free s). b_lock b = 0 \<and> b_offset b = 0)"

definition pool_ok :: "st \<Rightarrow> bool" where
  "pool_ok s \<longleftrightarrow> links_ok s \<and> evs_ok s \<and> bufs_ok s \<and> (\<exists>ts. timers s ts)"

section \<open>Buffers\<close>

lemma bufs_ok_push: "bufs_ok s \<Longrightarrow> bufs_ok (buff_push b s)"
  by (auto simp: bufs_ok_def buff_push_def MAX_BUFF_INP_def split: option.splits)

lemma bufs_ok_pop: "bufs_ok s \<Longrightarrow> bufs_ok (snd (buff_pop n s)) \<and>
    b_lock (fst (buff_pop n s)) = 0 \<and> b_offset (fst (buff_pop n s)) = 0"
  by (auto simp: bufs_ok_def buff_pop_def split: list.splits)

lemma buff_push_frame [simp]:
  "s_ev (buff_push b s) = s_ev s" "s_count (buff_push b s) = s_count s" "s_max (buff_push b s) = s_max s"
  "s_links (buff_push b s) = s_links s" "s_iters (buff_push b s) = s_iters s"
  "s_tv_start (buff_push b s) = s_tv_start s" "s_tv_end (buff_push b s) = s_tv_end s"
  "s_efd (buff_push b s) = s_efd s" "s_pevents (buff_push b s) = s_pevents s" "s_trace (buff_push b s) = s_trace s"
  by (auto simp: buff_push_def split: option.splits)

section \<open>Closing one connection\<close>

text \<open>What \<open>release_event\<close> leaves alone.\<close>

lemma release_frame [simp]:
  "s_count (release_event v s) = s_count s" "s_max (release_event v s) = s_max s"
  "s_links (release_event v s) = s_links s" "s_iters (release_event v s) = s_iters s"
  "s_tv_start (release_event v s) = s_tv_start s" "s_tv_end (release_event v s) = s_tv_end s"
  "s_efd (release_event v s) = s_efd s" "s_pevents (release_event v s) = s_pevents s"
  "v_fd (s_ev (release_event v s) u) = v_fd (s_ev s u)" "v_index (s_ev (release_event v s) u) = v_index (s_ev s u)"
  "v_mod_iter (s_ev (release_event v s) u) = v_mod_iter (s_ev s u)"
  "v_pair (s_ev (release_event v s) u) = v_pair (s_ev s u)"
  "v_tv_ms (s_ev (release_event v s) u) = v_tv_ms (s_ev s u)"
  "v_tv_next (s_ev (release_event v s) u) = v_tv_next (s_ev s u)"
  "v_tv_prev (s_ev (release_event v s) u) = v_tv_prev (s_ev s u)"
  by (auto simp: release_event_def Let_def split: option.splits)

lemma bufs_ok_release: "bufs_ok s \<Longrightarrow> bufs_ok (release_event v s)"
proof -
  have cong: "bufs_ok s = bufs_ok s'" if "s_free s = s_free s'" "s_buff_count s = s_buff_count s'" for s s'
    using that by (simp add: bufs_ok_def)
  have u: "bufs_ok (upd_ev v f s) = bufs_ok s" "bufs_ok (snd (sys c s)) = bufs_ok s" for f s c
    by (rule cong; simp)+
  show "bufs_ok s \<Longrightarrow> bufs_ok (release_event v s)"
    by (simp add: release_event_def Let_def u bufs_ok_push split: option.split)
qed

text \<open>The timers depend on few fields.\<close>

lemma timers_cong:
  assumes "timers s ts" "s_links s' = s_links s" "s_count s' = s_count s"
    "s_tv_start s' = s_tv_start s" "s_tv_end s' = s_tv_end s"
    "\<And>u. v_tv_ms (s_ev s' u) = v_tv_ms (s_ev s u) \<and> v_tv_next (s_ev s' u) = v_tv_next (s_ev s u) \<and>
       v_tv_prev (s_ev s' u) = v_tv_prev (s_ev s u)"
  shows "timers s' ts"
proof -
  have "linked (s_ev s') ts = linked (s_ev s) ts" using assms(6) by (intro linked_cong) simp
  moreover have "deadline s' = deadline s" using assms(6) by (simp add: deadline_def fun_eq_iff)
  moreover have "live s' = live s" using assms(2,3) by (simp add: live_def fun_eq_iff)
  ultimately show ?thesis using assms by (simp add: timers_def)
qed

lemma shut_event_frame:
  "s_count (shut_event v s) = s_count s" "s_max (shut_event v s) = s_max s"
  "s_links (shut_event v s) = s_links s" "s_iters (shut_event v s) = s_iters s"
  "s_efd (shut_event v s) = s_efd s" "s_pevents (shut_event v s) = s_pevents s"
  "v_index (s_ev (shut_event v s) u) = v_index (s_ev s u)" "v_pair (s_ev (shut_event v s) u) = v_pair (s_ev s u)"
  "v_fd (s_ev (shut_event v s) u) = (if u = v then - 1 else v_fd (s_ev s u))"
  "v_mod_iter (s_ev (shut_event v s) u) = (if u = v then s_iters s else v_mod_iter (s_ev s u))"
  by (auto simp: shut_event_def close_event_def Let_def)

lemma shut_event_bufs: "bufs_ok s \<Longrightarrow> bufs_ok (shut_event v s)"
proof -
  assume a: "bufs_ok s"
  have cong: "bufs_ok s = bufs_ok s'" if "s_free s = s_free s'" "s_buff_count s = s_buff_count s'" for s s'
    using that by (simp add: bufs_ok_def)
  have u: "bufs_ok (upd_ev v f s) = bufs_ok s" "bufs_ok (snd (sys c s)) = bufs_ok s"
    "bufs_ok (remove_timer v s) = bufs_ok s" for f s c
    by (rule cong; simp)+
  show ?thesis using a by (simp add: shut_event_def close_event_def Let_def u bufs_ok_release)
qed

lemma shut_event_timers:
  assumes "timers s ts" "live s v"
  shows "timers (shut_event v s) (removeAll v ts)"
proof -
  let ?s = "snd (sys (CClose (v_fd (s_ev s v))) (release_event v (snd (sys (CEpollDel (v_fd (s_ev s v))) s))))"
  let ?t = "upd_ev v (\<lambda>e. e\<lparr>v_fd := - 1, v_mod_iter := s_iters ?s\<rparr>) ?s"
  have "timers ?t ts" by (rule timers_cong [OF assms(1)]) simp_all
  moreover have "live ?t v" using assms(2) by (simp add: live_def)
  ultimately have "timers (remove_timer v ?t) (removeAll v ts)" by (rule remove_timer_refines)
  then show ?thesis by (simp add: shut_event_def close_event_def Let_def)
qed


section \<open>Taking a connection out of the array\<close>

lemma links_inj: "links_ok s \<Longrightarrow> i < s_max s \<Longrightarrow> j < s_max s \<Longrightarrow> s_links s i = s_links s j \<longleftrightarrow> i = j"
  by (auto simp: links_ok_def bij_betw_def inj_on_def)

lemma links_index:
  assumes "links_ok s" "live s v"
  shows "v_index (s_ev s v) < s_count s \<and> s_links s (v_index (s_ev s v)) = v"
  using assms by (auto simp: links_ok_def live_def)

lemma links_ok_swap:
  assumes "bij_betw f {..<m::nat} {..<m}" "i < m" "j < m"
  shows "bij_betw (f(i := f j, j := f i)) {..<m} {..<m}"
proof -
  have inj: "\<forall>x<m. \<forall>y<m. f x = f y \<longrightarrow> x = y" and im: "\<forall>x<m. f x < m"
    using assms(1) by (auto simp: bij_betw_def inj_on_def)
  have "inj_on (f(i := f j, j := f i)) {..<m}" using inj assms(2,3) by (auto simp: inj_on_def)
  moreover have "(f(i := f j, j := f i)) ` {..<m} \<subseteq> {..<m}" using im assms(2,3) by auto
  ultimately show ?thesis unfolding bij_betw_def using endo_inj_surj [of "{..<m}"] by blast
qed

lemma unlink_frame:
  "s_max (unlink_event v s) = s_max s" "s_iters (unlink_event v s) = s_iters s"
  "s_tv_start (unlink_event v s) = s_tv_start s" "s_tv_end (unlink_event v s) = s_tv_end s"
  "s_free (unlink_event v s) = s_free s" "s_buff_count (unlink_event v s) = s_buff_count s"
  "s_count (unlink_event v s) = s_count s - 1" "s_efd (unlink_event v s) = s_efd s"
  "s_pevents (unlink_event v s) = s_pevents s"
  "v_fd (s_ev (unlink_event v s) u) = v_fd (s_ev s u)" "v_mod_iter (s_ev (unlink_event v s) u) = v_mod_iter (s_ev s u)"
  "v_pair (s_ev (unlink_event v s) u) = v_pair (s_ev s u)" "v_tv_ms (s_ev (unlink_event v s) u) = v_tv_ms (s_ev s u)"
  "v_tv_next (s_ev (unlink_event v s) u) = v_tv_next (s_ev s u)"
  "v_tv_prev (s_ev (unlink_event v s) u) = v_tv_prev (s_ev s u)"
  by (auto simp: unlink_event_def Let_def)

lemma unlink_links:
  assumes l: "links_ok s" and v: "live s v"
  shows "links_ok (unlink_event v s)" and "live (unlink_event v s) u \<longleftrightarrow> live s u \<and> u \<noteq> v"
proof -
  define n where "n = s_count s - 1"
  define i where "i = v_index (s_ev s v)"
  have i: "i < s_count s" "s_links s i = v" using links_index [OF l v] by (simp_all add: i_def)
  have c: "s_count s = Suc n" "n < s_max s" "i < s_max s" "s_count s \<le> s_max s"
    using i(1) l by (auto simp: n_def links_ok_def)
  have inj: "\<And>x y. x < s_max s \<Longrightarrow> y < s_max s \<Longrightarrow> s_links s x = s_links s y \<longleftrightarrow> x = y"
    by (rule links_inj [OF l])
  have ix: "\<forall>k < s_count s. v_index (s_ev s (s_links s k)) = k" using l by (simp add: links_ok_def)
  have "links_ok (unlink_event v s) \<and> (live (unlink_event v s) u \<longleftrightarrow> live s u \<and> u \<noteq> v)"
  proof (cases "s_links s n = v")
    case True
    have un: "unlink_event v s = s\<lparr>s_count := n\<rparr>" using True by (simp add: unlink_event_def Let_def n_def)
    have "links_ok (s\<lparr>s_count := n\<rparr>)" using l c ix by (simp add: links_ok_def)
    moreover have "live (s\<lparr>s_count := n\<rparr>) u \<longleftrightarrow> live s u \<and> u \<noteq> v"
      using c inj True by (auto simp: live_def lessThan_Suc)
    ultimately show ?thesis by (simp add: un)
  next
    case False
    let ?L = "(s_links s)(i := s_links s n, n := s_links s i)"
    have un: "s_links (unlink_event v s) = ?L" "s_count (unlink_event v s) = n" "s_max (unlink_event v s) = s_max s"
        "\<And>u. v_index (s_ev (unlink_event v s) u) = (if u = s_links s n then i else v_index (s_ev s u))"
      using False i by (auto simp: unlink_event_def Let_def n_def i_def)
    have ne: "i \<noteq> n" using False i by auto
    then have ni: "i \<noteq> n" "i < n" using i c by auto
    have "v_index (s_ev (unlink_event v s) (?L k)) = k" if k: "k < n" for k
    proof (cases "k = i")
      case True
      then show ?thesis using ni by (simp add: un)
    next
      case False
      then have "s_links s k \<noteq> s_links s n" using inj [of k n] k c by simp
      then show ?thesis using False k ix c by (simp add: un)
    qed
    then have "links_ok (unlink_event v s)"
      using links_ok_swap [of "s_links s" "s_max s" i n] l c by (simp add: links_ok_def un)
    moreover have "live (unlink_event v s) u \<longleftrightarrow> live s u \<and> u \<noteq> v"
    proof
      assume "live (unlink_event v s) u"
      then obtain k where k: "k < n" "u = ?L k" by (auto simp: live_def un)
      show "live s u \<and> u \<noteq> v"
      proof (cases "k = i")
        case True
        then have "u = s_links s n" using k ni by simp
        then show ?thesis using \<open>s_links s n \<noteq> v\<close> c by (auto simp: live_def)
      next
        case False
        then have "u = s_links s k" "k < s_max s" using k c by simp_all
        then show ?thesis using False inj [of k i] i c k by (auto simp: live_def)
      qed
    next
      assume u: "live s u \<and> u \<noteq> v"
      then obtain k where k: "k < Suc n" "u = s_links s k" using c by (auto simp: live_def)
      have "k \<noteq> i" using u k i by auto
      show "live (unlink_event v s) u"
      proof (cases "k = n")
        case True
        then have "u = ?L i" using k ni by simp
        then show ?thesis using ni by (auto simp: live_def un)
      next
        case False
        then have "u = ?L k" "k < n" using k \<open>k \<noteq> i\<close> by simp_all
        then show ?thesis by (auto simp: live_def un)
      qed
    qed
    ultimately show ?thesis by simp
  qed
  then show "links_ok (unlink_event v s)" "live (unlink_event v s) u \<longleftrightarrow> live s u \<and> u \<noteq> v" by simp_all
qed

text \<open>Both steps together.\<close>

lemma shut_unlink_ok:
  assumes p: "pool_ok s" and v: "live s v"
  shows "pool_ok (unlink_event v (shut_event v s))"
    and "live (unlink_event v (shut_event v s)) u \<longleftrightarrow> live s u \<and> u \<noteq> v"
    and "closed (unlink_event v (shut_event v s)) v"
    and "u \<noteq> v \<Longrightarrow> closed s u \<Longrightarrow> closed (unlink_event v (shut_event v s)) u"
proof -
  let ?s = "shut_event v s" and ?t = "unlink_event v (shut_event v s)"
  have lv: "live ?s u = live s u" for u by (simp add: live_def shut_event_frame)
  have l: "links_ok ?s" using p by (auto simp: pool_ok_def links_ok_def shut_event_frame)
  have v': "live ?s v" using v lv by simp
  note lt = unlink_links [OF l v']
  show live: "live ?t u \<longleftrightarrow> live s u \<and> u \<noteq> v" for u using lt(2) lv by simp
  show cl: "closed ?t v" by (simp add: closed_def unlink_frame shut_event_frame)
  show cu: "u \<noteq> v \<Longrightarrow> closed s u \<Longrightarrow> closed ?t u" for u
    by (simp add: closed_def unlink_frame shut_event_frame)
  have e: "evs_ok ?t"
    unfolding evs_ok_def
  proof (intro allI impI)
    fix u assume "live ?t u"
    then have u: "live s u" "u \<noteq> v" using live by simp_all
    have eu: "v_fd (s_ev s u) > 0 \<and> v_mod_iter (s_ev s u) \<le> s_iters s \<and>
        (\<forall>p. v_pair (s_ev s u) = Some p \<longrightarrow> live s p \<or> closed s p)"
      using p u(1) by (simp add: pool_ok_def evs_ok_def)
    have "live ?t q \<or> closed ?t q" if "live s q \<or> closed s q" for q
      using that live [of q] cl cu [of q] by (cases "q = v") auto
    then show "v_fd (s_ev ?t u) > 0 \<and> v_mod_iter (s_ev ?t u) \<le> s_iters ?t \<and>
        (\<forall>p. v_pair (s_ev ?t u) = Some p \<longrightarrow> live ?t p \<or> closed ?t p)"
      using eu u(2) by (simp add: unlink_frame shut_event_frame)
  qed
  have b: "bufs_ok ?t" using p shut_event_bufs [of s v] by (simp add: pool_ok_def bufs_ok_def unlink_frame)
  obtain ts where ts: "timers s ts" using p by (auto simp: pool_ok_def)
  have "timers ?s (removeAll v ts)" using shut_event_timers [OF ts v] .
  then have "timers ?t (removeAll v ts)"
    using lt(2) by (auto simp: timers_def deadline_def linked_def unlink_frame cong: map_cong)
  then show "pool_ok ?t" using lt(1) e b by (auto simp: pool_ok_def)
qed

section \<open>Closing a connection and its pair\<close>

lemma unpair_ok:
  fixes p :: nat
  defines "f \<equiv> upd_ev p (\<lambda>e. e\<lparr>v_pair := None\<rparr>)"
  shows "pool_ok s \<Longrightarrow> pool_ok (f s)" "live (f s) u = live s u" "closed (f s) u = closed s u"
    "s_count (f s) = s_count s" "s_max (f s) = s_max s" "v_mod_iter (s_ev (f s) u) = v_mod_iter (s_ev s u)"
proof -
  show l: "live (f s) u = live s u" for u by (simp add: f_def live_def)
  show c: "closed (f s) u = closed s u" for u by (simp add: f_def closed_def)
  assume p: "pool_ok s"
  have "links_ok (f s)" using p by (auto simp: pool_ok_def links_ok_def f_def)
  moreover have "evs_ok (f s)" using p by (auto simp: pool_ok_def evs_ok_def l c) (auto simp: f_def split: if_splits)
  moreover have "bufs_ok (f s)" using p by (simp add: pool_ok_def bufs_ok_def f_def)
  moreover have "timers s ts \<Longrightarrow> timers (f s) ts" for ts
    by (erule timers_cong) (simp_all add: f_def)
  ultimately show "pool_ok (f s)" using p by (auto simp: pool_ok_def)
qed (simp_all add: f_def)

definition shrunk :: "st \<Rightarrow> st \<Rightarrow> bool" where
  "shrunk s s' \<longleftrightarrow> s_count s' \<le> s_count s \<and> s_max s' = s_max s \<and> s_efd s' = s_efd s \<and>
     s_iters s' = s_iters s \<and> s_pevents s' = s_pevents s \<and>
     (\<forall>u. live s' u \<longrightarrow> live s u) \<and> (\<forall>u. closed s u \<longrightarrow> closed s' u) \<and>
     (\<forall>u. v_mod_iter (s_ev s u) = s_iters s \<or> live s u \<longrightarrow>
        v_mod_iter (s_ev s' u) = s_iters s \<or> live s' u)"

lemma shrunk_trans: "shrunk s t \<Longrightarrow> shrunk t u \<Longrightarrow> shrunk s u"
  by (auto simp: shrunk_def)

lemma live_not_closed: "pool_ok s \<Longrightarrow> live s v \<Longrightarrow> \<not> closed s v"
  by (auto simp: pool_ok_def evs_ok_def closed_def)

lemma del_event_closed: "closed s v \<Longrightarrow> del_event v s = Some s"
  by (simp add: closed_def del_event.simps)

lemma del_event_ok:
  assumes "pool_ok s" "live s v \<or> closed s v"
  shows "\<exists>s'. del_event v s = Some s' \<and> pool_ok s' \<and> closed s' v \<and> shrunk s s' \<and>
    (live s v \<longrightarrow> s_count s' < s_count s \<and> (\<forall>p. v_pair (s_ev s v) = Some p \<longrightarrow> closed s' p))"
  using assms
proof (induction "s_count s" arbitrary: s v rule: less_induct)
  case less
  show ?case
  proof (cases "live s v")
    case False
    with less.prems have "closed s v" by simp
    with less.prems(1) False show ?thesis by (simp add: del_event_closed shrunk_def)
  next
    case v: True
    let ?t = "unlink_event v (shut_event v s)"
    have ev: "v_fd (s_ev s v) > 0" "v_mod_iter (s_ev s v) \<le> s_iters s"
        "\<And>p. v_pair (s_ev s v) = Some p \<Longrightarrow> live s p \<or> closed s p"
      using less.prems(1) v by (auto simp: pool_ok_def evs_ok_def)
    have c: "s_count s > 0" using v by (auto simp: live_def)
    note t = shut_unlink_ok [OF less.prems(1) v]
    have tc: "s_count ?t < s_count s" using c by (simp add: unlink_frame shut_event_frame)
    have cl: "closed s u \<Longrightarrow> closed ?t u" for u using t(3) t(4) [of u] by (cases "u = v") auto
    have st: "shrunk s ?t"
      using t(2) cl by (auto simp: shrunk_def unlink_frame shut_event_frame)
    have pt: "v_pair (s_ev ?t v) = v_pair (s_ev s v)" by (simp add: unlink_frame shut_event_frame)
    show ?thesis
    proof (cases "v_pair (s_ev s v)")
      case None
      then have "del_event v s = Some ?t"
        using ev c pt by (subst del_event.simps) (simp add: Let_def shut_event_frame)
      then show ?thesis using t st tc None by auto
    next
      case (Some p)
      let ?u = "if v_pair (s_ev ?t p) = Some v then upd_ev p (\<lambda>e. e\<lparr>v_pair := None\<rparr>) ?t else ?t"
      let ?w = "upd_ev v (\<lambda>e. e\<lparr>v_pair := None\<rparr>) ?u"
      have w: "pool_ok ?w" "\<And>u. live ?w u = live ?t u" "\<And>u. closed ?w u = closed ?t u"
          "s_count ?w = s_count ?t" "s_max ?w = s_max ?t" "s_efd ?w = s_efd ?t"
          "s_iters ?w = s_iters ?t" "s_pevents ?w = s_pevents ?t" "\<And>u. v_mod_iter (s_ev ?w u) = v_mod_iter (s_ev ?t u)"
        using t(1) by (auto simp: unpair_ok split: if_splits)
      have "live ?t p \<or> closed ?t p" using ev(3) [OF Some] t(2) [of p] t(3) t(4) [of p] by (cases "p = v") auto
      then have "live ?w p \<or> closed ?w p" using w by simp
      from less.hyps [OF _ w(1) this] tc obtain s' where s': "del_event p ?w = Some s'"
          "pool_ok s'" "closed s' p" "shrunk ?w s'" unfolding w(4) by auto
      have "del_event v s = del_event p ?w"
        using ev c pt Some by (subst del_event.simps) (simp add: Let_def unpair_def shut_event_frame)
      moreover have "shrunk s ?w" using st w by (simp add: shrunk_def)
      moreover have "closed s' v" using s'(4) t(3) w by (simp add: shrunk_def)
      moreover have "s_count s' < s_count s" using s'(4) tc w by (simp add: shrunk_def)
      ultimately show ?thesis using s' Some shrunk_trans by auto
    qed
  qed
qed

section \<open>Opening\<close>

lemma timers_empty: "s_tv_start s = None \<Longrightarrow> s_tv_end s = None \<Longrightarrow> s_count s = 0 \<Longrightarrow> timers s []"
  by (simp add: timers_def linked_def live_def)

lemma init_pool_ok:
  assumes "init_pool n s = (True, s')"
  shows "pool_ok s' \<and> s_count s' = 0 \<and> s_max s' = n"
proof -
  have "links_ok s'" "bufs_ok s'" "evs_ok s'" "s_count s' = 0" "s_max s' = n" "timers s' []"
    using assms by (auto simp: init_pool_def Let_def links_ok_def bufs_ok_def evs_ok_def live_def bij_betw_def
      split: prod.splits if_splits intro: timers_empty)
  then show ?thesis by (auto simp: pool_ok_def)
qed

text \<open>A free item is taken into use: \<open>w\<close> is the pool with the item behind the live ones filled in.\<close>

lemma slot_taken_ok:
  fixes s w :: st
  defines "v \<equiv> s_links s (s_count s)"
  assumes p: "pool_ok s" and fd: "fd > 0" and c: "s_count s < s_max s"
    and evw: "\<And>x. s_ev w x = (if x = v then eval0\<lparr>v_mod_iter := s_iters s, v_fd := fd, v_index := s_count s, v_cb := cb\<rparr>
        else s_ev s x)"
    and fr: "s_count w = s_count s + 1" "s_max w = s_max s" "s_links w = s_links s" "s_iters w = s_iters s"
      "s_free w = s_free s" "s_buff_count w = s_buff_count s" "s_tv_start w = s_tv_start s" "s_tv_end w = s_tv_end s"
  shows "\<not> live s v" "live w x \<longleftrightarrow> live s x \<or> x = v" "pool_ok w"
proof -
  show nl: "\<not> live s v"
  proof
    assume "live s v"
    then obtain k where "k < s_count s" "s_links s k = s_links s (s_count s)" by (auto simp: live_def v_def)
    then show False using links_inj [of s k "s_count s"] c p by (auto simp: pool_ok_def)
  qed
  show lw: "live w x \<longleftrightarrow> live s x \<or> x = v" for x by (auto simp: live_def fr v_def lessThan_Suc)
  obtain ts where ts: "timers s ts" using p by (auto simp: pool_ok_def)
  have nts: "v \<notin> set ts" using ts nl by (auto simp: timers_def)
  have dl: "deadline w x = (if x = v then 0 else deadline s x)" for x by (simp add: deadline_def evw eval0_def)
  have "linked (s_ev w) ts = linked (s_ev s) ts" using nts by (intro linked_cong) (auto simp: evw)
  then have lk: "linked (s_ev w) ts" using ts by (simp add: timers_def)
  have m: "map (deadline w) ts = map (deadline s) ts" using nts by (auto simp: dl)
  have so: "sorted (map (deadline w) ts)" unfolding m using ts by (simp add: timers_def)
  have tw: "timers w ts" using ts nl nts so lk by (auto simp: timers_def fr lw dl evw eval0_def)
  have ix: "\<forall>k < s_count s. v_index (s_ev s (s_links s k)) = k \<and> s_links s k \<noteq> v"
    using p nl by (auto simp: pool_ok_def links_ok_def live_def)
  have lk: "links_ok w" using p ix c by (auto simp: pool_ok_def links_ok_def fr evw v_def less_Suc_eq)
  have ew: "v_fd (s_ev s x) > 0 \<and> v_mod_iter (s_ev s x) \<le> s_iters s \<and>
      (\<forall>q. v_pair (s_ev s x) = Some q \<longrightarrow> live s q \<or> closed s q) \<and> x \<noteq> v" if "live s x" for x
    using p that nl by (auto simp: pool_ok_def evs_ok_def)
  have cw: "closed w q" if "closed s q" "q \<noteq> v" for q using that by (simp add: closed_def evw fr)
  have "evs_ok w"
    unfolding evs_ok_def
  proof (intro allI impI)
    fix x assume "live w x"
    then consider "x = v" | "live s x" using lw by blast
    then show "v_fd (s_ev w x) > 0 \<and> v_mod_iter (s_ev w x) \<le> s_iters w \<and>
        (\<forall>q. v_pair (s_ev w x) = Some q \<longrightarrow> live w q \<or> closed w q)"
    proof cases
      case 1
      then show ?thesis using fd by (simp add: evw fr eval0_def)
    next
      case 2
      have "live w q \<or> closed w q" if "live s q \<or> closed s q" for q using that lw cw [of q] by (cases "q = v") auto
      then show ?thesis using ew [OF 2] by (simp add: evw fr)
    qed
  qed
  moreover have "bufs_ok w" using p by (simp add: pool_ok_def bufs_ok_def fr)
  ultimately show "pool_ok w" using lk tw by (auto simp: pool_ok_def)
qed

lemma add_event_ok:
  assumes p: "pool_ok s" and fd: "fd > 0"
    and pl: "\<And>u q. live s u \<Longrightarrow> v_pair (s_ev s u) = Some q \<Longrightarrow> live s q"
  shows "\<exists>r s'. add_event cb fd e s = Some (r, s') \<and> pool_ok s' \<and> s_max s' = s_max s \<and>
    (r = None \<longrightarrow> s_count s' = s_count s \<and> (\<forall>u. live s' u \<longleftrightarrow> live s u)) \<and>
    (\<forall>v. r = Some v \<longrightarrow> \<not> live s v \<and> (\<forall>u. live s' u \<longleftrightarrow> live s u \<or> u = v) \<and>
       s_count s' = s_count s + 1 \<and> v_fd (s_ev s' v) = fd \<and> v_cb (s_ev s' v) = cb \<and>
       v_pair (s_ev s' v) = None \<and> v_mod_iter (s_ev s' v) = s_iters s)"
proof (cases "s_count s \<ge> s_max s")
  case True
  then show ?thesis using p fd by (simp add: add_event_def)
next
  case False
  define v where "v = s_links s (s_count s)"
  define t where "t = upd_ev v (\<lambda>_. eval0\<lparr>v_mod_iter := s_iters s, v_fd := fd, v_index := s_count s, v_cb := cb\<rparr>) s"
  define u where "u = snd (sys (CEpollAdd fd e) t)"
  define w where "w = u\<lparr>s_count := s_count s + 1\<rparr>"
  have evu: "s_ev u x = (if x = v then eval0\<lparr>v_mod_iter := s_iters s, v_fd := fd, v_index := s_count s, v_cb := cb\<rparr>
      else s_ev s x)" for x by (simp add: u_def t_def)
  have fr: "s_count u = s_count s" "s_max u = s_max s" "s_links u = s_links s" "s_iters u = s_iters s"
      "s_free u = s_free s" "s_buff_count u = s_buff_count s" "s_tv_start u = s_tv_start s" "s_tv_end u = s_tv_end s"
    by (simp_all add: u_def t_def)
  have "\<not> live s v \<and> (\<forall>x. live w x \<longleftrightarrow> live s x \<or> x = v) \<and> pool_ok w"
    using slot_taken_ok [of s fd w cb] p fd False evu by (simp add: v_def w_def fr)
  then have nl: "\<not> live s v" and lw: "\<And>x. live w x \<longleftrightarrow> live s x \<or> x = v" and wok: "pool_ok w" by simp_all
  have lu: "live u x = live s x" for x by (simp add: live_def fr)
  obtain ts where ts: "timers s ts" using p by (auto simp: pool_ok_def)
  have nts: "v \<notin> set ts" using ts nl by (auto simp: timers_def)
  have dl: "deadline u x = (if x = v then 0 else deadline s x)" for x
    by (simp add: deadline_def evu eval0_def)
  have "linked (s_ev u) ts = linked (s_ev s) ts" using nts by (intro linked_cong) (auto simp: evu)
  then have lk: "linked (s_ev u) ts" using ts by (simp add: timers_def)
  have m: "map (deadline u) ts = map (deadline s) ts" using nts by (auto simp: dl)
  have so: "sorted (map (deadline u) ts)" unfolding m using ts by (simp add: timers_def)
  have tu: "timers u ts" using ts nl nts so lk by (auto simp: timers_def fr lu dl evu)
  have ix: "\<forall>k < s_count s. v_index (s_ev s (s_links s k)) = k \<and> s_links s k \<noteq> v"
    using p nl by (auto simp: pool_ok_def links_ok_def live_def)
  have lku: "links_ok u" using p ix by (auto simp: pool_ok_def links_ok_def fr evu)
  have evs: "v_fd (s_ev s x) > 0 \<and> v_mod_iter (s_ev s x) \<le> s_iters s" if "live s x" for x
    using p that by (auto simp: pool_ok_def evs_ok_def)
  have neq: "x \<noteq> v" if "live s x" for x using that nl by auto
  have eu: "evs_ok u" unfolding evs_ok_def
    using evs pl neq by (auto simp: lu evu fr)
  have bu: "bufs_ok u" using p by (simp add: pool_ok_def bufs_ok_def fr)
  have ok: "pool_ok u" using lku eu bu tu by (auto simp: pool_ok_def)
  have "add_event cb fd e s = (if r_ret (s_orc t (s_k t)) \<noteq> 0 then Some (None, u) else Some (Some v, w))"
    using fd False by (simp add: add_event_def Let_def v_def [symmetric] t_def [symmetric] w_def u_def fr case_prod_unfold)
      (simp add: t_def)
  then show ?thesis using ok wok nl lu lw fr evu by (auto simp: w_def eval0_def)
qed

section \<open>Closing everything\<close>

lemma del_all_ok: "pool_ok s \<Longrightarrow> \<exists>s'. del_all s = Some s' \<and> pool_ok s' \<and> s_count s' = 0 \<and> shrunk s s'"
proof (induction "s_count s" arbitrary: s rule: less_induct)
  case less
  show ?case
  proof (cases "s_count s = 0")
    case True
    then show ?thesis using less.prems by (simp add: del_all.simps shrunk_def)
  next
    case False
    then have v: "live s (s_links s 0)" by (auto simp: live_def)
    from del_event_ok [OF less.prems] v obtain t where
      t: "del_event (s_links s 0) s = Some t" "pool_ok t" "shrunk s t" "s_count t < s_count s" by blast
    from less.hyps [OF t(4) t(2)] obtain s' where "del_all t = Some s'" "pool_ok s'" "s_count s' = 0" "shrunk t s'"
      by auto
    then show ?thesis using False t shrunk_trans by (auto simp: del_all.simps [of s])
  qed
qed

section \<open>Dispatching\<close>

text \<open>The reported events that are still to be handled belong to live connections, or to ones
  that were touched since the report.\<close>

definition pending_ok :: "int \<Rightarrow> st \<Rightarrow> bool" where
  "pending_ok offs s \<longleftrightarrow> - 1 \<le> offs \<and> offs < int (length (s_pevents s)) \<and> offs < int (s_max s) \<and>
     (\<forall>i < nat (offs + 1). let v = fst (s_pevents s ! i) in v_mod_iter (s_ev s v) = s_iters s \<or> live s v)"

lemma pending_ok_None: "pending_ok (- 1) s"
  by (simp add: pending_ok_def)

lemma pending_ok_dec: "pending_ok offs s \<Longrightarrow> 0 \<le> offs \<Longrightarrow> pending_ok (offs - 1) s"
  by (auto simp: pending_ok_def Let_def)

text \<open>Only registered descriptors are reported.\<close>

definition epoll_law :: "st \<Rightarrow> bool" where
  "epoll_law s \<longleftrightarrow> (\<forall>x\<in>set (r_evs (s_orc s (s_k s))). live s (fst x))"

lemma epoll_refill_live:
  assumes p: "pool_ok s" and e: "epoll_law s" and r: "epoll_refill ms s = (i, s')" "i > 0"
  shows "pending_ok (i - 1) s' \<and> (\<forall>k < nat i. live s' (fst (s_pevents s' ! k)) \<and>
      v_mod_iter (s_ev s' (fst (s_pevents s' ! k))) \<noteq> s_iters s') \<and>
    s_ev s' = s_ev s \<and> (\<forall>v. live s' v \<longleftrightarrow> live s v) \<and> s_iters s' = s_iters s + 1 \<and> length (s_pevents s') = nat i"
proof -
  let ?evs = "take (s_max s) (r_evs (s_orc s (s_k s)))"
  have i: "i = int (length ?evs)" "s_ev s' = s_ev s" "s_iters s' = s_iters s + 1" "s_pevents s' = ?evs"
      "s_links s' = s_links s" "s_count s' = s_count s" "s_max s' = s_max s"
    using r by (auto simp: epoll_refill_def Let_def case_prod_unfold split: if_splits)
  have l: "live s' v = live s v" for v by (simp add: live_def i)
  have lv: "live s (fst (?evs ! k))" if "k < length ?evs" for k
    using e that nth_mem [of k ?evs] set_take_subset by (fastforce simp: epoll_law_def)
  have mi: "v_mod_iter (s_ev s v) \<noteq> s_iters s + 1" if "live s v" for v
    using p that by (auto simp: pool_ok_def evs_ok_def)
  have k: "live s' (fst (s_pevents s' ! k)) \<and> v_mod_iter (s_ev s' (fst (s_pevents s' ! k))) \<noteq> s_iters s'"
    if "k < nat i" for k
    using lv [of k] mi that i by (simp add: l)
  have "pending_ok (i - 1) s'" unfolding pending_ok_def Let_def
    using k i r(2) by (auto simp: i(4,7))
  then show ?thesis using k i l by simp
qed

lemma epoll_refill_none:
  "epoll_refill ms s = (i, s') \<Longrightarrow> i \<le> 0 \<Longrightarrow> s' = snd (sys (CEpollWait ms) s) \<and> - 1 \<le> i"
  by (auto simp: epoll_refill_def Let_def case_prod_unfold min_def split: if_splits)

text \<open>An event is only handed to a live connection, and the search ends.\<close>

definition dispatched :: "st \<Rightarrow> (nat option \<times> int \<times> int \<times> st) option \<Rightarrow> bool" where
  "dispatched s r \<longleftrightarrow> (\<exists>v offs ty s'. r = Some (v, offs, ty, s') \<and> pending_ok offs s' \<and>
     s_ev s' = s_ev s \<and> (\<forall>u. live s' u \<longleftrightarrow> live s u) \<and> (\<forall>u. v = Some u \<longrightarrow> live s' u))"

lemma next_event_refill:
  assumes p: "pool_ok s" and e: "epoll_law s"
  shows "dispatched s (next_event (- 1) ty ms s)"
proof -
  obtain i s' where r: "epoll_refill ms s = (i, s')" by fastforce
  show ?thesis
  proof (cases "i > 0")
    case True
    note l = epoll_refill_live [OF p e r True]
    let ?v = "fst (s_pevents s' ! nat (i - 1))"
    have k: "nat (i - 1) < nat i" using True by simp
    then have v: "live s' ?v" "v_mod_iter (s_ev s' ?v) \<noteq> s_iters s'" using l by blast+
    have "next_event (- 1) ty ms s = Some (Some ?v, i - 2, snd (s_pevents s' ! nat (i - 1)), s')"
      using l v(2) True by (subst next_event.simps) (simp add: r case_prod_unfold Let_def)
    moreover have "pending_ok (i - 2) s'" using pending_ok_dec [of "i - 1" s'] l True by simp
    ultimately show ?thesis using v l by (auto simp: dispatched_def)
  next
    case False
    have s': "s' = snd (sys (CEpollWait ms) s)" using epoll_refill_none [OF r] False by simp
    have "next_event (- 1) ty ms s = Some (None, - 1, if i = 0 then POLLTIMEOUT else ty, s')"
      using False by (subst next_event.simps) (simp add: r)
    then show ?thesis by (simp add: dispatched_def pending_ok_None s' live_def)
  qed
qed

lemma next_event_live:
  assumes p: "pool_ok s" and e: "epoll_law s" and o: "pending_ok offs s"
  shows "dispatched s (next_event offs ty ms s)"
  using o
proof (induction "nat (offs + 1)" arbitrary: offs)
  case 0
  then have "offs = - 1" by (simp add: pending_ok_def)
  then show ?case using next_event_refill [OF p e] by simp
next
  case (Suc n)
  then have offs: "0 \<le> offs" by simp
  let ?v = "fst (s_pevents s ! nat offs)"
  have d: "pending_ok (offs - 1) s" using pending_ok_dec [OF Suc.prems offs] .
  have b: "offs < int (length (s_pevents s))" "offs < int (s_max s)" using Suc.prems by (simp_all add: pending_ok_def)
  have lv: "v_mod_iter (s_ev s ?v) = s_iters s \<or> live s ?v"
    using Suc.prems offs by (simp add: pending_ok_def Let_def)
  show ?case
  proof (cases "v_mod_iter (s_ev s ?v) = s_iters s")
    case True
    have "next_event offs ty ms s = next_event (offs - 1) ty ms s"
      using offs b True by (subst next_event.simps) (simp add: case_prod_unfold Let_def)
    then show ?thesis using Suc.hyps(1) [OF _ d] Suc.hyps(2) by simp
  next
    case False
    have "next_event offs ty ms s = Some (Some ?v, offs - 1, snd (s_pevents s ! nat offs), s)"
      using offs b False by (subst next_event.simps) (simp add: case_prod_unfold Let_def)
    then show ?thesis using d lv False by (simp add: dispatched_def)
  qed
qed

text \<open>Closing a connection keeps what is pending.\<close>

lemma pending_ok_shrunk: "pending_ok offs s \<Longrightarrow> shrunk s s' \<Longrightarrow> pending_ok offs s'"
  unfolding pending_ok_def Let_def by (auto simp: shrunk_def)

section \<open>The properties\<close>

lemma set_timer_ms: "set_timer v ms s = Some s' \<Longrightarrow> s_ms s' = s_ms s"
  by (auto simp: set_timer_def Let_def split: if_splits option.splits bind_splits)

definition pool_ex :: st where
  "pool_ex = snd (init_pool 3 (st0 (\<lambda>_. res0)))"

definition conn_ex :: st where
  "conn_ex = snd (the (add_event On_request 5 POLLIN pool_ex))"

lemma pool_ex_ok: "pool_ok pool_ex"
proof -
  have "init_pool 3 (st0 (\<lambda>_. res0)) = (True, pool_ex)"
    by (simp add: pool_ex_def init_pool_def sys_def st0_def res0_def Let_def)
  then show ?thesis using init_pool_ok by blast
qed

lemma pool_ex_empty: "s_count pool_ex = 0" "\<not> live pool_ex v"
  by (simp_all add: pool_ex_def init_pool_def sys_def st0_def res0_def Let_def live_def)

lemma conn_ex_eq: "add_event On_request 5 POLLIN pool_ex = Some (Some 0, conn_ex)"
  by (simp add: conn_ex_def pool_ex_def init_pool_def add_event_def sys_def st0_def res0_def Let_def)

lemma conn_ex_ok: "pool_ok conn_ex" "live conn_ex 0" "s_ms conn_ex = 0"
proof -
  have "\<exists>r s'. add_event On_request 5 POLLIN pool_ex = Some (r, s') \<and> pool_ok s' \<and>
      (\<forall>v. r = Some v \<longrightarrow> (\<forall>u. live s' u \<longleftrightarrow> live pool_ex u \<or> u = v))"
    using add_event_ok [OF pool_ex_ok, of 5 On_request POLLIN] pool_ex_empty by fastforce
  then show "pool_ok conn_ex" "live conn_ex 0" unfolding conn_ex_eq by auto
  show "s_ms conn_ex = 0"
    by (simp add: conn_ex_def pool_ex_def init_pool_def add_event_def sys_def st0_def res0_def Let_def upd_ev_def)
qed

lemma conn_ex_timers: "timers conn_ex []"
  by (auto simp: timers_def linked_def live_def deadline_def conn_ex_def pool_ex_def init_pool_def add_event_def sys_def
      st0_def res0_def Let_def upd_ev_def eval0_def)

text \<open>C28: the doubly linked timer list of conev.c implements a list of connections sorted by
  deadline: \<open>remove_timer\<close> takes a connection out of it, and \<open>set_timer\<close> on a connection without a
  timer ends and inserts it in front of the first one that is not earlier, without touching the other
  deadlines.\<close>

theorem timer_list_refines:
  assumes "timers s ts" "live s v"
  shows "timers (remove_timer v s) (removeAll v ts) \<and>
    (v \<notin> set ts \<longrightarrow> s_ms s + ms \<noteq> 0 \<longrightarrow>
      (\<exists>s'. set_timer v ms s = Some s' \<and> timers s' (insort_key (deadline s') v ts) \<and>
         deadline s' v = s_ms s + ms \<and> (\<forall>u. u \<noteq> v \<longrightarrow> deadline s' u = deadline s u)))"
  using remove_timer_refines(1) [OF assms] set_timer_refines [OF assms] by blast

theorem timer_list_refines_witness:
  "timers (remove_timer 0 conn_ex) [] \<and> (\<exists>s'. set_timer 0 7 conn_ex = Some s' \<and> deadline s' 0 = 7)"
proof -
  from timer_list_refines [OF conn_ex_timers conn_ex_ok(2), of 7]
  show ?thesis by (auto simp: conn_ex_ok(3))
qed

text \<open>C29: when the first timer of the list is due, \<open>next_event_tv\<close> reports a timeout of its
  connection without waiting for events, the timer is the earliest one, and it is taken off the
  list.\<close>

theorem due_timer_fires:
  assumes "timers s (t # ts)" "deadline s t \<le> s_ms s"
  shows "\<exists>s'. next_event_tv offs ty s = Some (Some t, offs, POLLTIMEOUT, s') \<and> timers s' ts \<and>
    s_trace s' = s_trace s \<and> (\<forall>u\<in>set ts. deadline s t \<le> deadline s u)"
proof -
  have "live s t" "t \<notin> set ts" "s_tv_start s = Some t" "\<forall>u\<in>set ts. deadline s t \<le> deadline s u"
    using assms(1) by (auto simp: timers_def)
  then show ?thesis using assms remove_timer_refines(1) [OF assms(1), of t]
    by (auto simp: next_event_tv_def deadline_def removeAll_id POLLTIMEOUT_def)
qed

theorem due_timer_fires_witness:
  "\<exists>s s'. next_event_tv (- 1) 0 s = Some (Some 0, - 1, POLLTIMEOUT, s') \<and> timers s' []"
proof -
  obtain s where s: "set_timer 0 (- 3) conn_ex = Some s" "timers s (insort_key (deadline s) 0 [])"
      "deadline s 0 = - 3"
    using set_timer_refines [OF conn_ex_timers conn_ex_ok(2), of "- 3"] conn_ex_ok(3) by auto
  have "s_ms s = 0" using set_timer_ms [OF s(1)] conn_ex_ok(3) by simp
  then show ?thesis using due_timer_fires [of s 0 "[]" "- 1" 0] s(2,3) by auto
qed



text \<open>C31: closing a live or already closed connection ends, keeps the invariant of the pool and
  opens nothing; afterwards the connection is closed, and so is the one it was paired with. The
  events that are still pending keep belonging to live connections or to ones that are skipped.\<close>

theorem del_event_closes:
  assumes "pool_ok s" "live s v \<or> closed s v"
  shows "\<exists>s'. del_event v s = Some s' \<and> pool_ok s' \<and> closed s' v \<and> \<not> live s' v \<and>
    (\<forall>u. live s' u \<longrightarrow> live s u) \<and> (live s v \<longrightarrow> s_count s' < s_count s) \<and>
    (\<forall>p. live s v \<and> v_pair (s_ev s v) = Some p \<longrightarrow> closed s' p) \<and>
    (pending_ok offs s \<longrightarrow> pending_ok offs s')"
proof -
  obtain s' where s': "del_event v s = Some s'" "pool_ok s'" "closed s' v" "shrunk s s'"
      "live s v \<longrightarrow> s_count s' < s_count s \<and> (\<forall>p. v_pair (s_ev s v) = Some p \<longrightarrow> closed s' p)"
    using del_event_ok [OF assms] by blast
  have "\<not> live s' v" using live_not_closed [OF s'(2)] s'(3) by blast
  moreover have "\<forall>u. live s' u \<longrightarrow> live s u" using s'(4) by (simp add: shrunk_def)
  ultimately show ?thesis using s' pending_ok_shrunk by blast
qed

theorem del_event_closes_witness:
  "\<exists>s'. del_event 0 conn_ex = Some s' \<and> pool_ok s' \<and> closed s' 0 \<and> s_count s' < s_count conn_ex"
  using del_event_closes [OF conn_ex_ok(1), of 0 "- 1"] conn_ex_ok(2) by blast

text \<open>\<open>destroy_pool\<close> ends with every connection closed and no spare buffer left.\<close>

theorem destroy_pool_ends:
  assumes "pool_ok s"
  shows "\<exists>s'. destroy_pool s = Some s' \<and> s_count s' = 0 \<and> s_free s' = [] \<and> (\<forall>v. live s v \<longrightarrow> \<not> live s' v)"
proof -
  obtain t where t: "del_all s = Some t" "s_count t = 0" using del_all_ok [OF assms] by blast
  then show ?thesis by (simp add: destroy_pool_def buff_destroy_def live_def)
qed

theorem destroy_pool_ends_witness: "\<exists>s'. destroy_pool conn_ex = Some s' \<and> s_count s' = 0"
  using destroy_pool_ends [OF conn_ex_ok(1)] by blast

text \<open>\<open>next_event\<close> ends and hands out only live connections, if the system reports events only
  for registered descriptors: events that were reported for a connection closed since, or for an item
  reused since, are skipped, and what stays pending keeps that property.\<close>

theorem next_event_dispatches_live:
  assumes "pool_ok s" "epoll_law s" "pending_ok offs s"
  shows "dispatched s (next_event offs ty ms s)"
  using assms by (rule next_event_live)

theorem next_event_dispatches_live_witness:
  "dispatched conn_ex (next_event (- 1) 0 5 conn_ex)"
proof (rule next_event_dispatches_live)
  show "epoll_law conn_ex"
    by (simp add: epoll_law_def conn_ex_def pool_ex_def init_pool_def add_event_def sys_def st0_def res0_def Let_def upd_ev_def)
qed (simp_all add: conn_ex_ok pending_ok_None)

end
