(* ===== verification/Http.thy ===== *)
theory Http
  imports CString TlsParse
begin

text \<open>
  The HTTP half of \<open>src/packets.c\<close>: recognising a request, locating the value of its Host
  header, rewriting that header (\<open>mod_http\<close>) and telling whether a response redirects to
  another site (\<open>is_http_redirect\<close>).
\<close>

unbundle bit_operations_syntax

section \<open>Definitions\<close>

text \<open>\<open>strncasestr (b + a, n, pat)\<close>; \<open>p\<close> is the loop variable.\<close>

function strncasestr_from :: "buf \<Rightarrow> int \<Rightarrow> int \<Rightarrow> byte list \<Rightarrow> int \<Rightarrow> int option option" where
  "strncasestr_from b a n pat p = do {
     r \<leftarrow> memchr b p (hd pat) (n - (p - a));
     (case r of
        None \<Rightarrow> Some None
      | Some p' \<Rightarrow>
          if p' + int (length pat) > a + n then Some None
          else do {
            e \<leftarrow> strncasecmp_eq b p' pat;
            if e then Some (Some p') else strncasestr_from b a n pat (p' + 1) }) }"
  by pat_completeness auto
termination
  by (relation "measure (\<lambda>(b, a, n, pat, p). nat (int (length b) - p))")
    (auto dest!: memchr_range)

declare strncasestr_from.simps [simp del]

definition strncasestr :: "buf \<Rightarrow> int \<Rightarrow> int \<Rightarrow> byte list \<Rightarrow> int option option" where
  "strncasestr b a n pat = strncasestr_from b a n pat a"

definition http_methods :: "byte list list" where
  "http_methods = map str [''HEAD'', ''GET'', ''POST'', ''PUT'', ''DELETE'',
     ''OPTIONS'', ''CONNECT'', ''TRACE'', ''PATCH'']"

fun any_prefix :: "buf \<Rightarrow> int \<Rightarrow> byte list list \<Rightarrow> bool option" where
  "any_prefix b i [] = Some False"
| "any_prefix b i (m # ms) = do { e \<leftarrow> strncmp_eq b i m; if e then Some True else any_prefix b i ms }"

definition is_http :: "buf \<Rightarrow> int \<Rightarrow> bool option" where
  "is_http b n =
     (if n < 16 then Some False
      else do {
        c \<leftarrow> rd b 0;
        if sint c > 84 \<or> sint c < 67 then Some False else any_prefix b 0 http_methods })"

text \<open>\<open>for (; host < buff_end && *host == ' '; host++);\<close>\<close>

function skip_spaces :: "buf \<Rightarrow> int \<Rightarrow> int \<Rightarrow> int option" where
  "skip_spaces b i e =
     (if i < e then do { x \<leftarrow> rd b i; if x = 32 then skip_spaces b (i + 1) e else Some i } else Some i)"
  by pat_completeness auto
termination
  by (relation "measure (\<lambda>(b, i, e). nat (e - i))") auto

text \<open>\<open>for (; isspace (*(l_end - 1)); l_end--);\<close>\<close>

function back_space :: "buf \<Rightarrow> int \<Rightarrow> int option" where
  "back_space b i = do { x \<leftarrow> rd b (i - 1); if isspace x then back_space b (i - 1) else Some i }"
  by pat_completeness auto
termination
  by (relation "measure (\<lambda>(b, i). nat i)") (auto simp: rd_eq_Some)

text \<open>\<open>while (isdigit (*--h_end));\<close>\<close>

function back_digits :: "buf \<Rightarrow> int \<Rightarrow> int option" where
  "back_digits b i = do { x \<leftarrow> rd b (i - 1); if isdigit x then back_digits b (i - 1) else Some (i - 1) }"
  by pat_completeness auto
termination
  by (relation "measure (\<lambda>(b, i). nat i)") (auto simp: rd_eq_Some)

declare skip_spaces.simps [simp del] back_space.simps [simp del] back_digits.simps [simp del]

text \<open>
  \<open>parse_http (b, n, &hs, port)\<close>: the return value, the host pointer if it was stored, and the
  port if \<open>want\<close> (the pointer \<open>port\<close> is not null) and one was stored.
\<close>

definition parse_http :: "buf \<Rightarrow> int \<Rightarrow> bool \<Rightarrow> (int \<times> int option \<times> int option) option" where
  "parse_http b n want = do {
     h \<leftarrow> is_http b n;
     if \<not> h then Some (0, None, None)
     else do {
       f \<leftarrow> strncasestr b 0 n (str (CHR 0x0A # ''Host:''));
       (case f of
          None \<Rightarrow> Some (0, None, None)
        | Some p \<Rightarrow> do {
            host \<leftarrow> skip_spaces b (p + 6) n;
            le \<leftarrow> memchr b host 10 (n - host);
            (case le of
               None \<Rightarrow> Some (0, None, None)
             | Some l \<Rightarrow> do {
                 l_end \<leftarrow> back_space b l;
                 h_end \<leftarrow> back_digits b (l_end - 1);
                 c \<leftarrow> rd b h_end;
                 r \<leftarrow> (if c \<noteq> 58 then Some (Some (l_end, if want then Some 80 else None))
                      else if \<not> want then Some (Some (h_end, None))
                      else do {
                        (i, e) \<leftarrow> strtol10 b (h_end + 1);
                        Some (if i \<le> 0 \<or> e \<noteq> l_end \<or> i > 0xffff then None
                              else Some (h_end, Some i)) });
                 (case r of
                    None \<Rightarrow> Some (0, None, None)
                  | Some (h_end, port) \<Rightarrow> do {
                      d \<leftarrow> rd b host;
                      if d \<noteq> 91 then Some (h_end - host, Some host, port)
                      else do {
                        x \<leftarrow> rd b (h_end - 1);
                        if x \<noteq> 93 then Some (0, None, port)
                        else Some (h_end - 1 - (host + 1), Some (host + 1), port) } }) }) }) } }"

text \<open>\<open>for (par = host - 1; *par != ':'; par--)\<close>\<close>

function back_colon :: "buf \<Rightarrow> int \<Rightarrow> int option" where
  "back_colon b i = do { x \<leftarrow> rd b i; if x \<noteq> 58 then back_colon b (i - 1) else Some i }"
  by pat_completeness auto
termination
  by (relation "measure (\<lambda>(b, i). nat (i + 1))") (auto simp: rd_eq_Some)

text \<open>\<open>for (; !isspace (host[hlen]); hlen++)\<close>\<close>

function fwd_space :: "buf \<Rightarrow> int \<Rightarrow> int option" where
  "fwd_space b i = do { x \<leftarrow> rd b i; if \<not> isspace x then fwd_space b (i + 1) else Some i }"
  by pat_completeness auto
termination
  by (relation "measure (\<lambda>(b, i). nat (int (length b) - i))") (auto simp: rd_eq_Some)

text \<open>\<open>for (int i = 0; i < hlen; i += 2) host[i] = toupper (host[i])\<close>\<close>

function upper_even :: "buf \<Rightarrow> int \<Rightarrow> int \<Rightarrow> int \<Rightarrow> buf option" where
  "upper_even b host i hlen =
     (if i < hlen then do {
        x \<leftarrow> rd b (host + i);
        b \<leftarrow> wr b (host + i) (to_upper x);
        upper_even b host (i + 2) hlen }
      else Some b)"
  by pat_completeness auto
termination
  by (relation "measure (\<lambda>(b, host, i, hlen). nat (hlen - i))") auto

declare back_colon.simps [simp del] fwd_space.simps [simp del] upper_even.simps [simp del]

definition MH_HMIX :: int where "MH_HMIX = 1"
definition MH_SPACE :: int where "MH_SPACE = 2"
definition MH_DMIX :: int where "MH_DMIX = 4"

definition recase :: "(byte \<Rightarrow> byte) \<Rightarrow> buf \<Rightarrow> int \<Rightarrow> buf option" where
  "recase f b i = do { x \<leftarrow> rd b i; wr b i (f x) }"

definition mod_http :: "buf \<Rightarrow> int \<Rightarrow> int \<Rightarrow> (int \<times> buf) option" where
  "mod_http b n m = do {
     (hlen, hs, _) \<leftarrow> parse_http b n False;
     (case hs of
        None \<Rightarrow> Some (-1, b)
      | Some host \<Rightarrow>
     if hlen = 0 then Some (-1, b)
     else do {
       par \<leftarrow> back_colon b (host - 1);
       let par = par - 4;
       b \<leftarrow> (if m AND MH_HMIX \<noteq> 0 then do {
               b \<leftarrow> recase to_lower b par;
               b \<leftarrow> recase to_upper b (par + 1);
               recase to_upper b (par + 3) }
             else Some b);
       b \<leftarrow> (if m AND MH_DMIX \<noteq> 0 then upper_even b host 0 hlen else Some b);
       b \<leftarrow> (if m AND MH_SPACE \<noteq> 0 then do {
               e \<leftarrow> fwd_space b (host + hlen);
               let sc = host - (par + 5);
               b \<leftarrow> memmove b (par + 5) host (e - host);
               memset b (par + 5 + (e - host)) 9 sc }
             else Some b);
       Some (0, b) }) }"

definition get_http_code :: "buf \<Rightarrow> int \<Rightarrow> int option" where
  "get_http_code b n =
     (if n < 13 then Some 0
      else do {
        e \<leftarrow> strncmp_eq b 0 (str ''HTTP/1.'');
        if \<not> e then Some 0
        else do {
          l \<leftarrow> memchr b 12 10 (n - 12);
          if l = None then Some 0
          else do {
            (num, e) \<leftarrow> strtol10 b 9;
            if num < 100 \<or> num > 511 then Some 0
            else do { x \<leftarrow> rd b e; Some (if \<not> isspace x then 0 else num) } } } })"

text \<open>\<open>while (h != host && *(--h - 1) != '.');\<close>\<close>

function back_dot :: "buf \<Rightarrow> int \<Rightarrow> int \<Rightarrow> int option" where
  "back_dot b host h =
     (if h = host then Some h
      else do { x \<leftarrow> rd b (h - 2); if x \<noteq> 46 then back_dot b host (h - 1) else Some (h - 1) })"
  by pat_completeness auto
termination
  by (relation "measure (\<lambda>(b, host, h). nat h)") (auto simp: rd_eq_Some)

declare back_dot.simps [simp del]

definition skip_scheme :: "buf \<Rightarrow> int \<Rightarrow> int \<Rightarrow> int option" where
  "skip_scheme b loc l_end =
     (if l_end - loc > 7 then do {
        e \<leftarrow> strncmp_eq b loc (str ''http://'');
        if e then Some (loc + 7)
        else do {
          e \<leftarrow> strncmp_eq b loc (str ''https://'');
          Some (if e then loc + 8 else loc) } }
      else Some loc)"

definition is_http_redirect :: "buf \<Rightarrow> int \<Rightarrow> buf \<Rightarrow> int \<Rightarrow> bool option" where
  "is_http_redirect req qn resp sn = do {
     (len, hs, _) \<leftarrow> parse_http req qn False;
     (case hs of
        None \<Rightarrow> Some False
      | Some host \<Rightarrow>
     if len \<le> 0 \<or> sn < 29 then Some False
     else do {
       code \<leftarrow> get_http_code resp sn;
       if code > 308 \<or> code < 300 then Some False
       else do {
         lo \<leftarrow> strncasestr resp 0 sn (str (CHR 0x0A # ''Location:''));
         (case lo of
            None \<Rightarrow> Some False
          | Some p \<Rightarrow>
              let location = p + 11 in
              if location + 8 \<ge> sn then Some False
              else do {
                l \<leftarrow> memchr resp location 10 (sn - location);
                (case l of
                   None \<Rightarrow> Some False
                 | Some l_end \<Rightarrow> do {
                     l_end \<leftarrow> back_space resp l_end;
                     location \<leftarrow> skip_scheme resp location l_end;
                     le \<leftarrow> memchr resp location 47 (l_end - location);
                     let le = (case le of None \<Rightarrow> l_end | Some q \<Rightarrow> q);
                     let he = host + len;
                     h \<leftarrow> back_dot req host he;
                     h \<leftarrow> back_dot req host h;
                     if le - location < he - h then Some True
                     else memcmp_ne resp (le - (he - h)) req h (he - h) }) }) } }) }"

end
