(* ===== verification/Desync.thy ===== *)
theory Desync
  imports ConevSpec TlsEdit Http
begin

unbundle bit_operations_syntax

text \<open>
  \<open>src/desync.c\<close> as it is built on Linux: where a request is cut, how it is changed, and how its
  parts are sent. Positions are offsets from the start of the request, and \<open>buffer + lp\<close> is written
  with the offset \<open>lp\<close>. A part with \<open>r\<close> repeats stands for \<open>max 1 r\<close> steps, which the loops of the code
  count down; a step is the part with the number \<open>part.r - r\<close> of the repeat.
\<close>

section \<open>Constants and fake packets\<close>

definition OFFSET_END :: int where "OFFSET_END = 1"
definition OFFSET_MID :: int where "OFFSET_MID = 2"
definition OFFSET_RAND :: int where "OFFSET_RAND = 4"
definition OFFSET_SNI :: int where "OFFSET_SNI = 8"
definition OFFSET_HOST :: int where "OFFSET_HOST = 16"
definition OFFSET_START :: int where "OFFSET_START = 32"
definition IS_TCP :: int where "IS_TCP = 1"
definition IS_UDP :: int where "IS_UDP = 2"
definition IS_HTTP :: int where "IS_HTTP = 4"
definition IS_HTTPS :: int where "IS_HTTPS = 8"
definition IS_IPV4 :: int where "IS_IPV4 = 16"
definition FM_RAND :: int where "FM_RAND = 1"
definition FM_ORIG :: int where "FM_ORIG = 2"
definition DEFAULT_TTL :: int where "DEFAULT_TTL = 8"
definition ERR_WAIT :: int where "ERR_WAIT = - 12"
definition EAGAIN :: int where "EAGAIN = 11"

definition has_flag :: "int \<Rightarrow> int \<Rightarrow> bool" where
  "has_flag x m \<longleftrightarrow> x AND m \<noteq> 0"

text \<open>The array has 517 bytes; those after the initialiser are zero.\<close>

definition tls_data :: buf where
  "tls_data = [
     22, 3, 1, 2, 0, 1, 0, 1, 252, 3, 3, 3, 95, 111, 44, 237, 19, 34, 248, 220,
     178, 242, 96, 72, 45, 114, 102, 111, 87, 221, 19, 157, 27, 55, 220, 250, 54, 46, 186, 249,
     146, 153, 58, 32, 249, 223, 12, 46, 138, 85, 137, 130, 49, 99, 26, 239, 168, 190, 8, 88,
     167, 163, 90, 24, 211, 150, 95, 4, 92, 180, 98, 175, 137, 215, 15, 139, 0, 62, 19, 2,
     19, 3, 19, 1, 192, 44, 192, 48, 0, 159, 204, 169, 204, 168, 204, 170, 192, 43, 192, 47,
     0, 158, 192, 36, 192, 40, 0, 107, 192, 35, 192, 39, 0, 103, 192, 10, 192, 20, 0, 57,
     192, 9, 192, 19, 0, 51, 0, 157, 0, 156, 0, 61, 0, 60, 0, 53, 0, 47, 0, 255,
     1, 0, 1, 117, 0, 0, 0, 22, 0, 20, 0, 0, 17, 119, 119, 119, 46, 119, 105, 107,
     105, 112, 101, 100, 105, 97, 46, 111, 114, 103, 0, 11, 0, 4, 3, 0, 1, 2, 0, 10,
     0, 22, 0, 20, 0, 29, 0, 23, 0, 30, 0, 25, 0, 24, 1, 0, 1, 1, 1, 2,
     1, 3, 1, 4, 0, 16, 0, 14, 0, 12, 2, 104, 50, 8, 104, 116, 116, 112, 47, 49,
     46, 49, 0, 22, 0, 0, 0, 23, 0, 0, 0, 49, 0, 0, 0, 13, 0, 42, 0, 40,
     4, 3, 5, 3, 6, 3, 8, 7, 8, 8, 8, 9, 8, 10, 8, 11, 8, 4, 8, 5,
     8, 6, 4, 1, 5, 1, 6, 1, 3, 3, 3, 1, 3, 2, 4, 2, 5, 2, 6, 2,
     0, 43, 0, 9, 8, 3, 4, 3, 3, 3, 2, 3, 1, 0, 45, 0, 2, 1, 1, 0,
     51, 0, 38, 0, 36, 0, 29, 0, 32, 17, 140, 184, 140, 232, 138, 8, 144, 30, 238, 25,
     217, 221, 232, 212, 6, 177, 209, 226, 171, 224, 22, 99, 214, 220, 218, 132, 164, 184, 75, 251,
     14, 0, 21, 0, 172, 0, 0, 0, 0, 0, 0] @ replicate 166 0"

definition http_data :: buf where
  "http_data = str ''GET / HTTP/1.1'' @ [13, 10] @ str ''Host: www.wikipedia.org'' @ [13, 10, 13, 10]"

definition udp_data :: buf where
  "udp_data = replicate 64 0"

definition fake_tls :: packet where
  "fake_tls = \<lparr> pk_size = int (length tls_data), pk_data = Some tls_data, pk_off = 0 \<rparr>"

definition fake_http :: packet where
  "fake_http = \<lparr> pk_size = int (length http_data), pk_data = Some http_data, pk_off = 0 \<rparr>"

definition fake_udp :: packet where
  "fake_udp = \<lparr> pk_size = int (length udp_data), pk_data = Some udp_data, pk_off = 0 \<rparr>"

section \<open>Socket options\<close>

definition setttl :: "int \<Rightarrow> int \<Rightarrow> st \<Rightarrow> int \<times> st" where
  "setttl fd ttl s =
     (let (ret6, s) = sys (CSetopt fd ''IPV6_UNICAST_HOPS'' ttl) s;
          (ret4, s) = sys (CSetopt fd ''IP_TTL'' ttl) s in
      (if r_ret ret4 \<noteq> 0 \<and> r_ret ret6 \<noteq> 0 then - 1 else 0, s))"

text \<open>The filter program: opcode, jump offsets and operand.\<close>

definition drop_sack_code :: "(int \<times> int \<times> int \<times> int) list" where
  "drop_sack_code =
     [(0x30, 0, 0, 0x0000000c), (0x74, 0, 0, 0x00000004), (0x35, 0, 3, 0x0000000b),
      (0x30, 0, 0, 0x00000022), (0x15, 0, 1, 0x00000005), (0x6, 0, 0, 0x00000000),
      (0x6, 0, 0, 0x00040000)]"

definition drop_sack :: "int \<Rightarrow> st \<Rightarrow> int \<times> st" where
  "drop_sack fd s =
     (let (r, s) = sys (CSetopt fd ''SO_ATTACH_FILTER'' (int (length drop_sack_code))) s in
      (if r_ret r = - 1 then - 1 else 0, s))"

text \<open>\<open>struct tcp_info\<close> starts with the state and has \<open>tcpi_notsent_bytes\<close> at offset 144; the system
  returns a prefix of it.\<close>

definition notsent_offs :: nat where
  "notsent_offs = 144"

definition sock_has_notsent :: "int \<Rightarrow> st \<Rightarrow> bool \<times> st" where
  "sock_has_notsent fd s =
     (let (r, s) = sys (CGetopt fd ''TCP_INFO'') s; tcpi = r_data r in
      if r_ret r < 0 then (False, s)
      else if length tcpi \<le> notsent_offs then (False, s)
      else if tcpi ! 0 \<noteq> 1 then (False, s)
      else (list_ex (\<lambda>x. x \<noteq> 0) (take 4 (drop notsent_offs tcpi)), s))"

definition set_md5sig :: "int \<Rightarrow> int \<Rightarrow> st \<Rightarrow> int \<times> st" where
  "set_md5sig fd key_len s =
     (let (r, s) = sys (CGetname fd ''getpeername'') s in
      if r_ret r < 0 then (- 1, s)
      else (let (r, s) = sys (CSetopt fd ''TCP_MD5SIG'' key_len) s in
            (if r_ret r < 0 then - 1 else 0, s)))"

definition pre_desync :: "int \<Rightarrow> dparams \<Rightarrow> st \<Rightarrow> int \<times> st" where
  "pre_desync fd dp s =
     (if d_drop_sack dp then (let (r, s) = drop_sack fd s in (if r \<noteq> 0 then - 1 else 0, s)) else (0, s))"

definition post_desync :: "int \<Rightarrow> dparams \<Rightarrow> st \<Rightarrow> int \<times> st" where
  "post_desync fd dp s =
     (if d_drop_sack dp then
        (let (r, s) = sys (CSetopt fd ''SO_DETACH_FILTER'' 0) s in (if r_ret r = - 1 then - 1 else 0, s))
      else (0, s))"

section \<open>Positions\<close>

record pinfo =
  pi_init :: bool
  pi_type :: int
  pi_host_len :: int
  pi_host_pos :: int

definition pinfo0 :: pinfo where
  "pinfo0 = \<lparr> pi_init = False, pi_type = 0, pi_host_len = 0, pi_host_pos = 0 \<rparr>"

definition init_proto_info :: "buf \<Rightarrow> int \<Rightarrow> pinfo \<Rightarrow> pinfo option" where
  "init_proto_info buffer n info =
     (if pi_init info then Some info
      else do {
        (len, host) \<leftarrow> parse_tls buffer n;
        (len, ty, host) \<leftarrow>
          (if len \<noteq> 0 then Some (len, IS_HTTPS, host)
           else do {
             (len, host', _) \<leftarrow> parse_http buffer n False;
             Some (len, if len \<noteq> 0 then IS_HTTP else pi_type info, if host' = None then host else host') });
        Some \<lparr> pi_init = True, pi_type = ty, pi_host_len = len,
               pi_host_pos = (case host of None \<Rightarrow> 0 | Some h \<Rightarrow> h) \<rparr> })"

definition rand :: "st \<Rightarrow> int \<times> st" where
  "rand s = (int (s_rnd s (s_rk s)), s\<lparr>s_rk := s_rk s + 1\<rparr>)"

text \<open>Division by zero has no result. \<open>n - lp\<close> is a \<open>size_t\<close>.\<close>

definition gen_offset ::
  "int \<Rightarrow> int \<Rightarrow> buf \<Rightarrow> int \<Rightarrow> int \<Rightarrow> pinfo \<Rightarrow> st \<Rightarrow> (int \<times> pinfo \<times> st) option"
where
  "gen_offset pos flag buffer n lp info s =
     (if has_flag flag (OFFSET_SNI OR OFFSET_HOST) then do {
        info \<leftarrow> init_proto_info buffer n info;
        if pi_host_pos info = 0 \<or> (has_flag flag OFFSET_SNI \<and> pi_type info \<noteq> IS_HTTPS)
        then Some (- 1, info, s)
        else
          (let pos = pos + pi_host_pos info; len = pi_host_len info in
           if has_flag flag OFFSET_END then Some (pos + len, info, s)
           else if has_flag flag OFFSET_MID then Some (pos + sgn len * (abs len div 2), info, s)
           else if has_flag flag OFFSET_RAND then
             (if len = 0 then None
              else (let (x, s) = rand s in Some (pos + x mod abs len, info, s)))
           else Some (pos, info, s)) }
      else if has_flag flag OFFSET_RAND then
        (let d = (n - lp) mod 2 ^ 64 in
         if d = 0 then None else (let (x, s) = rand s in Some (pos + lp + x mod d, info, s)))
      else if has_flag flag OFFSET_MID then Some (pos + n div 2, info, s)
      else if pos < 0 \<or> has_flag flag OFFSET_END then Some (pos + n, info, s)
      else Some (pos, info, s))"

definition steps :: "part list \<Rightarrow> (part \<times> int) list" where
  "steps ps = concat (map (\<lambda>p. map (\<lambda>k. (p, int k)) [0..< max 1 (nat (p_r p))]) ps)"

section \<open>Changing the request\<close>

text \<open>The loop over \<open>dp->tlsrec\<close>: the buffer, the new length and the rest of the state.\<close>

fun tlsrec_loop ::
  "int \<Rightarrow> (part \<times> int) list \<Rightarrow> int \<Rightarrow> int \<Rightarrow> buf \<Rightarrow> int \<Rightarrow> pinfo \<Rightarrow> st \<Rightarrow> (buf \<times> int \<times> pinfo \<times> st) option"
where
  "tlsrec_loop bfsize [] rc lp b n info s = Some (b, n, info, s)"
| "tlsrec_loop bfsize ((part, k) # ps) rc lp b n info s = do {
     let pos = rc * 5;
     (g, info, s) \<leftarrow> gen_offset (p_pos part) (p_flag part) b (n - pos) lp info s;
     let pos = pos + g;
     let pos = (if p_pos part < 0 \<or> p_flag part \<noteq> 0 then pos - 5 else pos);
     let pos = pos + p_s part * k;
     if pos < lp then Some (b, n, info, s)
     else do {
       (r, b') \<leftarrow> part_tls (drop (nat lp) b) (bfsize - lp) (n - lp) (pos - lp);
       let b = take (nat lp) b @ b';
       if r = 0 then Some (b, n, info, s)
       else tlsrec_loop bfsize ps (rc + 1) (pos + 5) b (n + 5) info s } }"

definition tamp :: "buf \<Rightarrow> int \<Rightarrow> int \<Rightarrow> dparams \<Rightarrow> pinfo \<Rightarrow> st \<Rightarrow> (buf \<times> int \<times> pinfo \<times> st) option" where
  "tamp b bfsize n dp info s = do {
     h \<leftarrow> (if d_mod_http dp \<noteq> 0 then is_http b n else Some False);
     b \<leftarrow> (if h then map_option snd (mod_http b n (d_mod_http dp)) else Some b);
     t \<leftarrow> (if d_tlsminor_set dp then is_tls_chello b n else Some False);
     b \<leftarrow> (if t then wr b 2 (d_tlsminor dp) else Some b);
     t \<leftarrow> (if d_tlsrec dp \<noteq> [] then is_tls_chello b n else Some False);
     if t then tlsrec_loop bfsize (steps (d_tlsrec dp)) 0 0 b n info s else Some (b, n, info, s) }"

section \<open>Fake packets\<close>

text \<open>\<open>alloc_pktd\<close>: fresh pages are zero.\<close>

definition alloc_pktd :: "int \<Rightarrow> st \<Rightarrow> buf option \<times> st" where
  "alloc_pktd n s =
     (let (r, s) = sys (CMmap n) s in (if r_ret r < 0 then None else Some (replicate (nat n) 0), s))"

definition change_sni :: "byte list \<Rightarrow> buf \<Rightarrow> int \<Rightarrow> int \<Rightarrow> st \<Rightarrow> (int \<times> buf \<times> st) option" where
  "change_sni sni b n nn s = do {
     (r, b, k) \<leftarrow> change_tls_sni (s_rnd s) (s_rk s) sni b n nn;
     Some (r, b, s\<lparr>s_rk := k\<rparr>) }"

text \<open>The body of \<open>do ... while (0)\<close>: what is written to the new pages.\<close>

definition fill_fake ::
  "buf \<Rightarrow> int \<Rightarrow> int \<Rightarrow> dparams \<Rightarrow> buf \<Rightarrow> int \<Rightarrow> byte list option \<Rightarrow> buf \<Rightarrow> st \<Rightarrow> (buf \<times> st) option"
where
  "fill_fake buffer n ty opt data sz sni p s = do {
     let f_size = (if d_fake_tls_size opt < 0 then n + d_fake_tls_size opt else d_fake_tls_size opt);
     let f_size = (if f_size > n \<or> f_size \<le> 0 then n else f_size);
     (done, p, s) \<leftarrow>
       (if has_flag (d_fake_mod opt) FM_ORIG \<and> ty = IS_HTTPS then do {
          orig \<leftarrow> rdn buffer 0 n;
          p \<leftarrow> wrn p 0 orig;
          (case sni of
             None \<Rightarrow> Some (True, p, s)
           | Some sni \<Rightarrow> do {
               (r, p, s) \<leftarrow> change_sni sni p n f_size s;
               Some (r = 0, p, s) }) }
        else Some (False, p, s));
     if done then Some (p, s)
     else do {
       d \<leftarrow> rdn data 0 sz;
       p \<leftarrow> wrn p 0 d;
       (case sni of
          None \<Rightarrow> Some (p, s)
        | Some sni \<Rightarrow> do { (r, p, s) \<leftarrow> change_sni sni p sz f_size s; Some (p, s) }) } }"

definition pick_fake :: "buf \<Rightarrow> int \<Rightarrow> pinfo \<Rightarrow> dparams \<Rightarrow> (packet \<times> pinfo) option" where
  "pick_fake buffer n info opt =
     (if pk_data (d_fake_data opt) \<noteq> None then Some (d_fake_data opt, info)
      else do {
        ty \<leftarrow>
          (if pi_type info \<noteq> 0 then Some (pi_type info)
           else do {
             t \<leftarrow> is_tls_chello buffer n;
             h \<leftarrow> (if t then Some False else is_http buffer n);
             Some (if t then IS_HTTPS else if h then IS_HTTP else 0) });
        Some (if ty = IS_HTTP then fake_http else fake_tls, info\<lparr>pi_type := ty\<rparr>) })"

definition pick_sni :: "dparams \<Rightarrow> st \<Rightarrow> byte list option \<times> st" where
  "pick_sni opt s =
     (if d_fake_sni opt = [] then (None, s)
      else (let (x, s) = rand s in (Some (d_fake_sni opt ! (nat x mod length (d_fake_sni opt))), s)))"

definition pick_off ::
  "buf \<Rightarrow> int \<Rightarrow> dparams \<Rightarrow> int \<Rightarrow> int \<Rightarrow> pinfo \<Rightarrow> st \<Rightarrow> (int \<times> pinfo \<times> st) option"
where
  "pick_off buffer n opt off ps info s =
     (if d_fake_offset_on opt then do {
        (off, info, s) \<leftarrow>
          gen_offset (p_pos (d_fake_offset opt)) (p_flag (d_fake_offset opt)) buffer n 0 info s;
        Some (if off > ps \<or> off < 0 then 0 else off, info, s) }
      else Some (off, info, s))"

text \<open>\<open>pk_data = None\<close> in the result: no memory.\<close>

definition get_tcp_fake ::
  "buf \<Rightarrow> int \<Rightarrow> pinfo \<Rightarrow> dparams \<Rightarrow> st \<Rightarrow> (packet \<times> pinfo \<times> st) option"
where
  "get_tcp_fake buffer n info opt s = do {
     (pkt, info) \<leftarrow> pick_fake buffer n info opt;
     let ps = (if n > pk_size pkt then n else pk_size pkt);
     let (p, s) = alloc_pktd ps s;
     (case p of
        None \<Rightarrow> Some (pkt\<lparr>pk_data := None\<rparr>, info, s)
      | Some p \<Rightarrow> do {
          data \<leftarrow> pk_data pkt;
          let (sni, s) = pick_sni opt s;
          (p, s) \<leftarrow> fill_fake buffer n (pi_type info) opt data (pk_size pkt) sni p s;
          (p, k) \<leftarrow>
            (if has_flag (d_fake_mod opt) FM_RAND then randomize_tls (s_rnd s) (s_rk s) p ps
             else Some (p, s_rk s));
          (off, info, s) \<leftarrow> pick_off buffer n opt (pk_off pkt) ps info (s\<lparr>s_rk := k\<rparr>);
          Some (\<lparr> pk_size = ps, pk_data = Some p, pk_off = off \<rparr>, info, s) }) }"

text \<open>\<open>send_fake\<close> lends the pages of the fake to a pipe and moves them from there to the socket: the
  first \<open>pos\<close> bytes from \<open>p\<close> on leave with the low TTL. The bytes at \<open>orig\<close> in the request replace
  them later, before the pages are given back.\<close>

definition splice_fake :: "nat \<Rightarrow> int \<Rightarrow> int \<Rightarrow> buf \<Rightarrow> st \<Rightarrow> (int \<times> st) option" where
  "splice_fake v fd pos p s = do {
     lent \<leftarrow> rdn p 0 pos;
     let (r, s) = sys (CVmsplice lent) s;
     let len = min (r_ret r) pos;
     if len < 0 then Some (- 1, s)
     else
       (let ret = max (- 1) (min (r_ret (s_orc s (s_k s))) len) in
        Some (ret, snd (sys (CSplice fd len ret) s))) }"

text \<open>The body of \<open>while (1)\<close>.\<close>

definition lend_fake :: "nat \<Rightarrow> int \<Rightarrow> int \<Rightarrow> dparams \<Rightarrow> buf \<Rightarrow> st \<Rightarrow> (int \<times> st) option" where
  "lend_fake v fd pos opt p s =
     (let s = upd_ev v (\<lambda>e. e\<lparr>v_restore_fake := Some p\<rparr>) s;
          (t, s) = setttl fd (if d_ttl opt \<noteq> 0 then d_ttl opt else DEFAULT_TTL) s in
      if t < 0 then Some (- 1, s)
      else
        (let s = upd_ev v (\<lambda>e. e\<lparr>v_restore_ttl := True\<rparr>) s;
             (m, s) = (if d_md5sig opt then set_md5sig fd 5 s else (0, s)) in
         if m \<noteq> 0 then Some (- 1, s)
         else splice_fake v fd pos p (upd_ev v (\<lambda>e. e\<lparr>v_restore_md5 := d_md5sig opt\<rparr>) s)))"

definition send_fake :: "nat \<Rightarrow> int \<Rightarrow> int \<Rightarrow> dparams \<Rightarrow> packet \<Rightarrow> st \<Rightarrow> (int \<times> st) option" where
  "send_fake v orig pos opt pkt s =
     (let (r, s) = sys CPipe s in
      if r_ret r < 0 then Some (- 1, s)
      else do {
        let s = upd_ev v (\<lambda>e. e\<lparr>v_restore_orig := orig, v_restore_orig_len := pos\<rparr>) s;
        data \<leftarrow> pk_data pkt;
        (ret, s) \<leftarrow> lend_fake v (v_fd (s_ev s v)) pos opt (drop (nat (pk_off pkt)) data) s;
        let s = snd (sys (CClose (r_ret r)) s);
        let s = snd (sys (CClose (r_errno r)) s);
        Some (ret, s) })"

definition restore_opts :: "nat \<Rightarrow> st \<Rightarrow> st" where
  "restore_opts v s =
     (let s = (if v_restore_md5 (s_ev s v)
               then upd_ev v (\<lambda>e. e\<lparr>v_restore_md5 := False\<rparr>) (snd (set_md5sig (v_fd (s_ev s v)) 0 s)) else s) in
      if v_restore_ttl (s_ev s v)
      then upd_ev v (\<lambda>e. e\<lparr>v_restore_ttl := False\<rparr>)
         (snd (setttl (v_fd (s_ev s v)) (g_def_ttl (s_par s)) s)) else s)"

definition restore_state :: "nat \<Rightarrow> buf \<Rightarrow> st \<Rightarrow> st option" where
  "restore_state v b s = do {
     s \<leftarrow> (case v_restore_fake (s_ev s v) of
            None \<Rightarrow> Some s
          | Some p \<Rightarrow> do {
              orig \<leftarrow> rdn b (v_restore_orig (s_ev s v)) (v_restore_orig_len (s_ev s v));
              p \<leftarrow> wrn p 0 orig;
              Some (upd_ev v (\<lambda>e. e\<lparr>v_restore_fake := None\<rparr>) (snd (sys (CMunmap p) s))) });
     Some (restore_opts v s) }"

text \<open>The byte behind the part is replaced for the call only.\<close>

definition send_oob :: "int \<Rightarrow> buf \<Rightarrow> int \<Rightarrow> int \<Rightarrow> int \<Rightarrow> byte \<times> byte \<Rightarrow> st \<Rightarrow> (int \<times> st) option" where
  "send_oob fd b lp n pos c s =
     (if n \<le> pos then Some (- 1, s)
      else do {
        d \<leftarrow> rdn b lp pos;
        rchar \<leftarrow> rd b (lp + pos);
        let (len, s) = sys_send fd (d @ [if snd c \<noteq> 0 then fst c else 97]) True s;
        Some (if len < 0 then - 1 else len - 1, s) })"

section \<open>Sending a request in parts\<close>

text \<open>One part, from \<open>lp\<close> to \<open>pos\<close>. The outer option of the first component is the \<open>return -1\<close>
  of a failed allocation.\<close>

definition desync_part ::
  "nat \<Rightarrow> dparams \<Rightarrow> buf \<Rightarrow> int \<Rightarrow> int \<Rightarrow> part \<Rightarrow> int \<Rightarrow> int \<Rightarrow> int \<Rightarrow> pinfo \<Rightarrow> st \<Rightarrow>
    (int option \<times> pinfo \<times> st) option"
where
  "desync_part v dp b bfsize n part k lp pos info s =
     (let fd = v_fd (s_ev s v) in
      case p_m part of
        DESYNC_FAKE \<Rightarrow> do {
          (pkt, info, s) \<leftarrow> get_tcp_fake b n info dp s;
          if pk_data pkt = None then Some (None, info, s)
          else if pos \<noteq> lp then do { (r, s) \<leftarrow> send_fake v lp (pos - lp) dp pkt s; Some (Some r, info, s) }
          else Some (Some 0, info, s) }
      | DESYNC_OOB \<Rightarrow> do {
          (r, s) \<leftarrow> send_oob fd b lp (bfsize - lp) (pos - lp) (d_oob_char dp) s;
          Some (Some r, info, s) }
      | m \<Rightarrow>
          if m = DESYNC_DISORDER \<or> m = DESYNC_DISOOB then do {
            let (t, s) = (if k mod 2 = 0 then setttl fd 1 s else (0, s));
            if t < 0 then Some (Some (- 1), info, s)
            else do {
              let s = upd_ev v (\<lambda>e. e\<lparr>v_restore_ttl := True\<rparr>) s;
              (r, s) \<leftarrow>
                (if m = DESYNC_DISOOB then send_oob fd b lp (bfsize - lp) (pos - lp) (d_oob_char dp) s
                 else do { d \<leftarrow> rdn b lp (pos - lp); Some (sys_send fd d False s) });
              Some (Some r, info, s) } }
          else do {
            d \<leftarrow> rdn b lp (pos - lp);
            let (r, s) = sys_send fd d False s;
            Some (Some r, info, s) })"

text \<open>How the loop over the parts ends: an early return with its value and \<open>*wait\<close>, or with the
  position up to which the request was handled.\<close>

datatype outcome = Returned int bool | Reached int

text \<open>What happens after a part: \<open>r\<close> is the number of bytes that left.\<close>

definition after_part ::
  "nat \<Rightarrow> buf \<Rightarrow> int \<Rightarrow> int \<Rightarrow> int \<Rightarrow> int \<Rightarrow> int \<Rightarrow> int \<Rightarrow> st \<Rightarrow> (outcome option \<times> st) option"
where
  "after_part v b offset lp pos cpart part_skip r s =
     (let await = g_await_int (s_par s) in
      if r = ERR_WAIT then do {
        s \<leftarrow> set_timer v await s;
        Some (Some (Returned (lp - offset) True), s) }
      else if r < 0 then
        Some (Some (Returned (if s_errno s = EAGAIN then lp - offset else - 1) False), s)
      else if r \<noteq> pos - lp then Some (Some (Returned (lp + r - offset) False), s)
      else do {
        let (ns, s) = sock_has_notsent (v_fd (s_ev s v)) s;
        if ns \<or> (g_wait_send (s_par s) \<and> cpart > part_skip) then do {
          s \<leftarrow> set_timer v await s;
          Some (Some (Returned (pos - offset) True), s) }
        else do {
          s \<leftarrow> restore_state v b s;
          Some (None, s) } })"

fun desync_loop ::
  "nat \<Rightarrow> nat \<Rightarrow> dparams \<Rightarrow> buf \<Rightarrow> int \<Rightarrow> int \<Rightarrow> int \<Rightarrow> int \<Rightarrow> int \<Rightarrow> (part \<times> int) list \<Rightarrow> int \<Rightarrow> int \<Rightarrow>
    pinfo \<Rightarrow> st \<Rightarrow> (outcome \<times> st) option"
where
  "desync_loop v c dp b bfsize n offset skip part_skip [] cpart lp info s = Some (Reached lp, s)"
| "desync_loop v c dp b bfsize n offset skip part_skip ((part, k) # ps) cpart lp info s = do {
     let cpart = cpart + 1;
     (pos, info, s) \<leftarrow> gen_offset (p_pos part) (p_flag part) b n lp info s;
     let pos = pos + p_s part * k;
     if ((skip \<noteq> 0 \<and> pos < skip) \<or> cpart < part_skip) \<and> \<not> has_flag (p_flag part) OFFSET_START
     then desync_loop v c dp b bfsize n offset skip part_skip ps cpart lp info s
     else if offset \<noteq> 0 \<and> pos < offset
     then desync_loop v c dp b bfsize n offset skip part_skip ps cpart lp info s
     else if pos < 0 \<or> pos < lp then Some (Reached lp, s)
     else do {
       let pos = min pos n;
       (r, info, s) \<leftarrow>
         (if cpart = part_skip then Some (Some (pos - lp), info, s)
          else desync_part v dp b bfsize n part k lp pos info s);
       (case r of
          None \<Rightarrow> Some (Returned (- 1) False, s)
        | Some r \<Rightarrow> do {
            (out, s) \<leftarrow> after_part v b offset lp pos cpart part_skip r
              (upd_ev c (\<lambda>e. e\<lparr>v_part_sent := cpart\<rparr>) s);
            (case out of
               Some out \<Rightarrow> Some (out, s)
             | None \<Rightarrow> desync_loop v c dp b bfsize n offset skip part_skip ps cpart pos info s) }) } }"

text \<open>What is left after the loop is sent at once.\<close>

definition send_rest :: "int \<Rightarrow> buf \<Rightarrow> int \<Rightarrow> int \<Rightarrow> int \<Rightarrow> st \<Rightarrow> (int \<times> st) option" where
  "send_rest fd b offset n lp s =
     (if lp < n then do {
        d \<leftarrow> rdn b lp (n - lp);
        let (r, s) = sys_send fd d False s;
        Some (if r < 0 then (if s_errno s = EAGAIN then lp - offset else - 1) else n - offset, s) }
      else Some (n - offset, s))"

text \<open>\<open>desync\<close> on the connection \<open>v\<close> to the server, whose pair is \<open>c\<close>: the result, the buffer,
  \<open>*np\<close> and \<open>*wait\<close>.\<close>

record desync_res =
  ds_ret :: int
  ds_buff :: buffer
  ds_n :: int
  ds_wait :: bool

text \<open>The loop and the rest, for the changed request \<open>b\<close> of \<open>n\<close> bytes.\<close>

definition desync_run ::
  "nat \<Rightarrow> nat \<Rightarrow> dparams \<Rightarrow> buffer \<Rightarrow> buf \<Rightarrow> int \<Rightarrow> bool \<Rightarrow> pinfo \<Rightarrow> st \<Rightarrow> (desync_res \<times> st) option"
where
  "desync_run v c dp buff b n wait info s = do {
     let offset = b_offset buff;
     (out, s) \<leftarrow> desync_loop v c dp b (b_size buff) n offset (v_round_sent (s_ev s c)) (v_part_sent (s_ev s c))
       (steps (d_parts dp)) 0 offset info s;
     (ret, w, s) \<leftarrow>
       (case out of
          Returned r w \<Rightarrow> Some (r, w \<or> wait, s)
        | Reached lp \<Rightarrow> do {
            (r, s) \<leftarrow> send_rest (v_fd (s_ev s v)) b offset n lp s;
            Some (r, wait, s) });
     Some (\<lparr> ds_ret = ret, ds_buff = buff\<lparr>b_data := b\<rparr>, ds_n = n, ds_wait = w \<rparr>, s) }"

definition desync :: "nat \<Rightarrow> buffer \<Rightarrow> int \<Rightarrow> bool \<Rightarrow> st \<Rightarrow> (desync_res \<times> st) option" where
  "desync v buff np wait s = do {
     c \<leftarrow> v_pair (s_ev s v);
     d \<leftarrow> v_dp (s_ev s c);
     let dp = s_dp s d;
     let b = b_data buff;
     let skip = v_round_sent (s_ev s c);
     info \<leftarrow> (if skip = 0 \<and> g_debug (s_par s) \<ge> 1 then init_proto_info b np pinfo0 else Some pinfo0);
     (b, n, info, s) \<leftarrow> (if skip = 0 then tamp b (b_size buff) np dp info s else Some (b, np, info, s));
     desync_run v c dp buff b n wait info s }"

section \<open>Datagrams\<close>

fun send_fakes :: "nat \<Rightarrow> int \<Rightarrow> byte list \<Rightarrow> st \<Rightarrow> int \<times> st" where
  "send_fakes 0 fd d s = (0, s)"
| "send_fakes (Suc i) fd d s =
     (let (len, s) = sys_send fd d False s in if len < 0 then (- 1, s) else send_fakes i fd d s)"

definition udp_fake :: "dparams \<Rightarrow> byte list option" where
  "udp_fake dp =
     (let pkt = (if pk_data (d_fake_data dp) \<noteq> None then d_fake_data dp else fake_udp);
          pos = p_pos (d_fake_offset dp) in do {
        d \<leftarrow> pk_data pkt;
        if d_fake_offset_on dp then
          (if pk_size pkt > pos then rdn d pos (pk_size pkt - pos) else Some [])
        else rdn d 0 (pk_size pkt) })"

definition desync_udp :: "int \<Rightarrow> buf \<Rightarrow> int \<Rightarrow> int \<Rightarrow> dparams \<Rightarrow> st \<Rightarrow> (int \<times> st) option" where
  "desync_udp fd buffer off n dp s = do {
     (ok, s) \<leftarrow>
       (if d_udp_fake_count dp \<noteq> 0 then do {
          d \<leftarrow> udp_fake dp;
          let (t, s) = setttl fd (if d_ttl dp \<noteq> 0 then d_ttl dp else DEFAULT_TTL) s;
          if t < 0 then Some (False, s)
          else
            (let (r, s) = send_fakes (nat (d_udp_fake_count dp)) fd d s in
             if r < 0 then Some (False, s)
             else (let (t, s) = setttl fd (g_def_ttl (s_par s)) s in Some (t \<ge> 0, s))) }
        else Some (True, s));
     if ok then do {
       d \<leftarrow> rdn buffer off n;
       Some (sys_send fd d False s) }
     else Some (- 1, s) }"

end
