(* ===== verification/Conn.thy ===== *)
theory Conn
  imports Desync
begin

unbundle bit_operations_syntax

text \<open>
  Addresses, sockets and new connections: the lower half of \<open>src/proxy.c\<close>, with \<open>socket_mod\<close>,
  \<open>set_timeout\<close> and \<open>protect\<close> of \<open>src/extend.c\<close>.
\<close>

section \<open>Constants\<close>

definition FLAG_S4 :: int where "FLAG_S4 = 1"
definition FLAG_S5 :: int where "FLAG_S5 = 2"
definition FLAG_CONN :: int where "FLAG_CONN = 4"
definition FLAG_HTTP :: int where "FLAG_HTTP = 8"
definition S_AUTH_NONE :: byte where "S_AUTH_NONE = 0x00"
definition S_AUTH_BAD :: byte where "S_AUTH_BAD = 0xff"
definition S_ATP_I4 :: byte where "S_ATP_I4 = 0x01"
definition S_ATP_ID :: byte where "S_ATP_ID = 0x03"
definition S_ATP_I6 :: byte where "S_ATP_I6 = 0x04"
definition S_CMD_CONN :: byte where "S_CMD_CONN = 0x01"
definition S_CMD_AUDP :: byte where "S_CMD_AUDP = 0x03"
definition S_ER_OK :: int where "S_ER_OK = 0x00"
definition S_ER_GEN :: int where "S_ER_GEN = 0x01"
definition S_ER_NET :: int where "S_ER_NET = 0x03"
definition S_ER_HOST :: int where "S_ER_HOST = 0x04"
definition S_ER_CONN :: int where "S_ER_CONN = 0x05"
definition S_ER_CMD :: int where "S_ER_CMD = 0x07"
definition S_ER_ATP :: int where "S_ER_ATP = 0x08"
definition S4_OK :: byte where "S4_OK = 0x5a"
definition S4_ER :: byte where "S4_ER = 0x5b"
definition S_VER5 :: byte where "S_VER5 = 0x05"
definition S_VER4 :: byte where "S_VER4 = 0x04"
definition S_SIZE_MIN :: int where "S_SIZE_MIN = 8"
definition S_SIZE_I4 :: int where "S_SIZE_I4 = 10"
definition S_SIZE_I6 :: int where "S_SIZE_I6 = 22"
definition S_SIZE_ID :: int where "S_SIZE_ID = 7"

text \<open>Of the system.\<close>

definition SOCK_STREAM :: int where "SOCK_STREAM = 1"
definition SOCK_DGRAM :: int where "SOCK_DGRAM = 2"
definition SOCK_NONBLOCK :: int where "SOCK_NONBLOCK = 0x800"
definition AF_UNIX :: int where "AF_UNIX = 1"
definition ENOENT :: int where "ENOENT = 2"
definition EMSGSIZE :: int where "EMSGSIZE = 90"
definition ENETUNREACH :: int where "ENETUNREACH = 101"
definition ECONNRESET :: int where "ECONNRESET = 104"
definition ETIMEDOUT :: int where "ETIMEDOUT = 110"
definition ECONNREFUSED :: int where "ECONNREFUSED = 111"
definition EHOSTUNREACH :: int where "EHOSTUNREACH = 113"
definition EINPROGRESS :: int where "EINPROGRESS = 115"

section \<open>Addresses\<close>

text \<open>An IPv4 address as an IPv6 one, and back.\<close>

definition v4_prefix :: "byte list" where
  "v4_prefix = replicate 10 0 @ [0xff, 0xff]"

definition map_fix :: "sockaddr \<Rightarrow> int \<Rightarrow> sockaddr" where
  "map_fix a f6 =
     (if sa_family a = AF_INET \<and> f6 \<noteq> 0
      then a\<lparr>sa_family := AF_INET6, sa_ip6 := v4_prefix @ sa_ip4 a\<rparr>
      else if take 12 (sa_ip6 a) = v4_prefix \<and> f6 = 0
      then a\<lparr>sa_family := AF_INET, sa_ip4 := drop 12 (sa_ip6 a)\<rparr>
      else a)"

definition addr_equ :: "sockaddr \<Rightarrow> sockaddr \<Rightarrow> bool" where
  "addr_equ a b = (if sa_family a = AF_INET then sa_ip4 a = sa_ip4 b else sa_ip6 a = sa_ip6 b)"

text \<open>\<open>memcpy (dst, src, SA_SIZE (src))\<close>\<close>

definition sa_copy :: "sockaddr \<Rightarrow> sockaddr \<Rightarrow> sockaddr" where
  "sa_copy dst src =
     (if sa_family src = AF_INET6 then src
      else src\<lparr>sa_ip6 := take 8 (sa_ip6 src) @ drop 8 (sa_ip6 dst)\<rparr>)"

text \<open>\<open>getaddrinfo\<close> sees the host up to its first zero byte.\<close>

definition resolve :: "byte list \<Rightarrow> sockaddr \<Rightarrow> int \<Rightarrow> st \<Rightarrow> int \<times> sockaddr \<times> st" where
  "resolve host addr type s =
     (let (r, s) = sys (CGetaddrinfo (takeWhile (\<lambda>c. c \<noteq> 0) host) type
            (\<not> g_resolve (s_par s)) (\<not> g_ipv6 (s_par s))) s in
      if r_ret r \<noteq> 0 then (- 1, addr, s) else (0, sa_copy addr (r_addr r), s))"

section \<open>Sockets\<close>

definition nb_socket :: "int \<Rightarrow> int \<Rightarrow> st \<Rightarrow> int \<times> st" where
  "nb_socket domain type s =
     (let (r, s) = sys (CSocket domain (type OR SOCK_NONBLOCK)) s in
      if r_ret r < 0 then (- 1, s) else (r_ret r, s))"

definition close_fd :: "int \<Rightarrow> st \<Rightarrow> st" where
  "close_fd fd s = snd (sys (CClose fd) s)"

definition set_timeout :: "int \<Rightarrow> int \<Rightarrow> st \<Rightarrow> int \<times> st" where
  "set_timeout fd t s =
     (let (r, s) = sys (CSetopt fd ''TCP_USER_TIMEOUT'' t) s in (if r_ret r \<noteq> 0 then - 1 else 0, s))"

text \<open>\<open>sun_path\<close> has 108 bytes: \<open>strcpy\<close> of a longer path leaves it.\<close>

definition protect :: "int \<Rightarrow> byte list \<Rightarrow> st \<Rightarrow> (int \<times> st) option" where
  "protect conn_fd path s =
     (if length path \<ge> 108 then None
      else
        (let (r, s) = sys (CSocket AF_UNIX SOCK_STREAM) s; fd = r_ret r in
         if fd < 0 then Some (- 1, s)
         else
           (let (_, s) = sys (CSetopt fd ''SO_RCVTIMEO'' 1) s;
                (_, s) = sys (CSetopt fd ''SO_SNDTIMEO'' 1) s;
                (e, s) = sys (CConnectUnix fd path) s in
            if r_ret e \<noteq> 0 then Some (- 1, close_fd fd s)
            else
              (let (e, s) = sys (CSendFd fd conn_fd) s in
               if r_ret e < 0 then Some (- 1, close_fd fd s)
               else
                 (let (n, _, s) = sys_recv fd 1 s in
                  if n < 1 then Some (- 1, close_fd fd s) else Some (0, close_fd fd s))))))"

definition socket_mod :: "int \<Rightarrow> st \<Rightarrow> (int \<times> st) option" where
  "socket_mod fd s =
     (let (t, s) = (if g_custom_ttl (s_par s) then setttl fd (g_def_ttl (s_par s)) s else (0, s)) in
      if t < 0 then Some (- 1, s)
      else
        (case g_protect (s_par s) of None \<Rightarrow> Some (0, s) | Some path \<Rightarrow> protect fd path s))"

text \<open>The socket, and the address as it was converted.\<close>

definition remote_sock :: "sockaddr \<Rightarrow> int \<Rightarrow> st \<Rightarrow> (int \<times> sockaddr \<times> st) option" where
  "remote_sock dst type s =
     (let baddr = g_baddr (s_par s);
          dst = map_fix dst (if sa_family baddr = AF_INET6 then 6 else 0) in
      if sa_family dst \<noteq> sa_family baddr then Some (- 1, dst, s)
      else
        (let (sfd, s) = nb_socket (sa_family dst) type s in
         if sfd < 0 then Some (- 1, dst, s)
         else do {
           (m, s) \<leftarrow> socket_mod sfd s;
           if m < 0 then Some (- 1, dst, close_fd sfd s)
           else
             (let (v6, s) = (if sa_family dst = AF_INET6
                  then (let (r, s) = sys (CSetopt sfd ''IPV6_V6ONLY'' 0) s in (r_ret r, s)) else (0, s)) in
              if v6 \<noteq> 0 then Some (- 1, dst, close_fd sfd s)
              else
                (let (r, s) = sys (CBind sfd baddr) s in
                 if r_ret r < 0 then Some (- 1, dst, close_fd sfd s) else Some (sfd, dst, s))) }))"

text \<open>A sequence of socket options, each of which must be accepted.\<close>

fun set_opts :: "int \<Rightarrow> (string \<times> int) list \<Rightarrow> st \<Rightarrow> bool \<times> st" where
  "set_opts fd [] s = (True, s)"
| "set_opts fd ((opt, x) # opts) s =
     (let (r, s) = sys (CSetopt fd opt x) s in if r_ret r \<noteq> 0 then (False, s) else set_opts fd opts s)"

definition link_pair :: "nat \<Rightarrow> nat \<Rightarrow> sockaddr \<Rightarrow> st \<Rightarrow> st" where
  "link_pair v p dst s =
     upd_ev v (\<lambda>e. e\<lparr>v_pair := Some p, v_cb := On_ignore\<rparr>)
       (upd_ev p (\<lambda>e. e\<lparr>v_pair := Some v, v_addr := dst, v_flag := FLAG_CONN\<rparr>) s)"

definition create_conn :: "nat \<Rightarrow> sockaddr \<Rightarrow> cb \<Rightarrow> st \<Rightarrow> (int \<times> st) option" where
  "create_conn v dst next s = do {
     (sfd, addr, s) \<leftarrow> remote_sock dst SOCK_STREAM s;
     if sfd < 0 then Some (- 1, s)
     else
       (let (ok, s) = set_opts sfd
          ([(''TCP_SYNCNT'', 1)] @ (if g_tfo (s_par s) then [(''TCP_FASTOPEN_CONNECT'', 1)] else []) @
           [(''TCP_NODELAY'', 1)]) s in
        if \<not> ok then Some (- 1, close_fd sfd s)
        else
          (let (r, s) = sys (CConnect sfd addr) s in
           if r_ret r < 0 \<and> s_errno s \<noteq> EINPROGRESS \<and> s_errno s \<noteq> EAGAIN then Some (- 1, close_fd sfd s)
           else do {
             (pair, s) \<leftarrow> add_event next sfd POLLOUT s;
             (case pair of
                None \<Rightarrow> Some (- 1, close_fd sfd s)
              | Some p \<Rightarrow> do {
                  (m, s) \<leftarrow> mod_etype v 0 s;
                  if m < 0 then Some (- 1, s)
                  else Some (0, link_pair v p dst s) }) })) }"

section \<open>Answers to the client\<close>

definition resp_s5_error :: "int \<Rightarrow> int \<Rightarrow> st \<Rightarrow> int \<times> st" where
  "resp_s5_error fd e s = sys_send fd ([5, word_of_int e, 0, S_ATP_I4] @ replicate 6 0) False s"

text \<open>The codes of \<open>switch (unie (e))\<close>.\<close>

definition s5_code :: "int \<Rightarrow> int" where
  "s5_code e =
     (if e = 0 then S_ER_OK
      else if e = ECONNREFUSED then S_ER_CONN
      else if e = EHOSTUNREACH \<or> e = ETIMEDOUT then S_ER_HOST
      else if e = ENETUNREACH then S_ER_NET
      else S_ER_GEN)"

definition resp_error :: "int \<Rightarrow> int \<Rightarrow> int \<Rightarrow> st \<Rightarrow> int \<times> st" where
  "resp_error fd e flag s =
     (if flag = FLAG_S4 then
        sys_send fd ([0, if e \<noteq> 0 then S4_ER else S4_OK] @ replicate 6 0) False s
      else if flag = FLAG_S5 then resp_s5_error fd (s5_code e) s
      else if flag = FLAG_HTTP then
        sys_send fd (str (if e = 0 then ''HTTP/1.1 200 OK'' else ''HTTP/1.1 503 Fail'') @ [13, 10, 13, 10]) False s
      else if e \<noteq> 0 then
        (let (r, s) = sys (CSetopt fd ''SO_LINGER'' 1) s in (if r_ret r < 0 then - 1 else 0, s))
      else (0, s))"

end
