(* ===== verification/MpoolBits.thy ===== *)
theory MpoolBits
  imports Mpool
begin

text \<open>
  The order \<open>bit_cmp\<close> of the pools of addresses: it compares the numbers that the leading bits of
  two keys form, at the length of the shorter key.
\<close>

definition bval :: "byte list \<Rightarrow> int" where
  "bval bs = foldl (\<lambda>v b. v * 256 + uint b) 0 bs"

lemma bval_foldl: "foldl (\<lambda>v b. v * 256 + uint b) a bs = a * 256 ^ length bs + bval bs"
  unfolding bval_def
proof (induction bs arbitrary: a)
  case (Cons b bs)
  show ?case using Cons [of "a * 256 + uint b"] Cons [of "uint b"] by (simp add: algebra_simps)
qed simp

lemma bval_append: "bval (xs @ ys) = bval xs * 256 ^ length ys + bval ys"
  using bval_foldl [of "bval xs" ys] by (simp add: bval_def)

lemma bval_Cons: "bval (b # bs) = uint b * 256 ^ length bs + bval bs"
  using bval_append [of "[b]" bs] by (simp add: bval_def)

lemma bval_bounds: "0 \<le> bval bs \<and> bval bs < 256 ^ length bs"
proof (induction bs)
  case (Cons b bs)
  have "uint b + 1 \<le> 256" using uint_byte_bounds(2) [of b] by linarith
  then have "(uint b + 1) * 256 ^ length bs \<le> 256 * 256 ^ length bs"
    by (rule mult_right_mono) simp
  then have "uint b * 256 ^ length bs + 256 ^ length bs \<le> 256 * 256 ^ length bs"
    by (simp only: distrib_right mult_1)
  moreover have "0 \<le> uint b * 256 ^ length bs" by simp
  ultimately show ?case using Cons unfolding bval_Cons length_Cons power_Suc by linarith
qed (simp add: bval_def)

lemma scale_less: "(a :: int) < b \<Longrightarrow> 0 \<le> x \<Longrightarrow> x < m \<Longrightarrow> 0 \<le> y \<Longrightarrow> a * m + x < b * m + y"
proof -
  assume a: "a < b" "0 \<le> x" "x < m" "0 \<le> y"
  then have "(a + 1) * m \<le> b * m" by (intro mult_right_mono) auto
  with a show ?thesis by (simp add: algebra_simps)
qed

lemma memcmp_bval:
  "length xs = length ys \<Longrightarrow> (memcmp xs ys < 0 \<longleftrightarrow> bval xs < bval ys) \<and> (memcmp xs ys = 0 \<longleftrightarrow> bval xs = bval ys)"
proof (induction xs ys rule: memcmp.induct)
  case (1 x xs y ys)
  show ?case
  proof (cases "x = y")
    case True
    then show ?thesis using 1 by (simp add: bval_Cons)
  next
    case False
    then have "uint x < uint y \<or> uint y < uint x" using word_uint_eqI by (metis linorder_neqE)
    then show ?thesis
      using scale_less [of "uint x" "uint y" "bval xs" "256 ^ length ys" "bval ys"]
        scale_less [of "uint y" "uint x" "bval ys" "256 ^ length ys" "bval xs"]
        bval_bounds [of xs] bval_bounds [of ys] 1(2) False
      by (auto simp: bval_Cons)
  qed
qed (auto simp: bval_def)

lemma div_less_mult:
  fixes a :: int
  assumes "0 < m" "a < h * m"
  shows "a div m < h"
proof (rule ccontr)
  assume "\<not> a div m < h"
  then have "h * m \<le> a div m * m" using assms(1) by simp
  also have "\<dots> \<le> a" using assms(1) by (simp add: minus_mod_eq_div_mult [symmetric])
  finally show False using assms(2) by simp
qed

text \<open>The number formed by the first \<open>k\<close> bits.\<close>

definition lead :: "byte list \<Rightarrow> nat \<Rightarrow> int" where
  "lead bs k = bval bs div 2 ^ (8 * length bs - k)"

lemma lead_shorter:
  assumes "k \<le> l" "l \<le> 8 * length bs"
  shows "lead bs k = lead bs l div 2 ^ (l - k)"
proof -
  have "8 * length bs - k = (8 * length bs - l) + (l - k)" using assms by simp
  then show ?thesis by (simp add: lead_def power_add zdiv_zmult2_eq)
qed

lemma lead_bytes:
  assumes "by \<le> length bs"
  shows "lead bs (8 * by) = bval (take by bs)"
proof -
  let ?r = "length bs - by"
  have "(2 :: int) ^ (8 * length bs - 8 * by) = 256 ^ ?r"
    using power_mult [of "2 :: int" 8 ?r] assms by (simp add: diff_mult_distrib2)
  moreover have "bval bs = bval (take by bs) * 256 ^ ?r + bval (drop by bs)"
    using bval_append [of "take by bs" "drop by bs"] by simp
  moreover have "bval (drop by bs) div 256 ^ ?r = 0"
    using bval_bounds [of "drop by bs"] by simp
  ultimately show ?thesis by (simp add: lead_def)
qed

lemma lead_partial:
  assumes "by < length bs" "df < 8"
  shows "lead bs (8 * by + df) = bval (take by bs) * 2 ^ df + uint (bs ! by) div 2 ^ (8 - df)"
proof -
  have "lead bs (8 * by + df) = lead bs (8 * Suc by) div 2 ^ (8 - df)"
    using lead_shorter [of "8 * by + df" "8 * Suc by" bs] assms by simp
  also have "lead bs (8 * Suc by) = bval (take by bs) * 256 + uint (bs ! by)"
    using lead_bytes [of "Suc by" bs] assms by (simp add: take_Suc_conv_app_nth bval_append bval_Cons bval_def)
  also have "(256 :: int) = 2 ^ df * 2 ^ (8 - df)"
    using assms(2) by (simp flip: power_add)
  finally have e: "lead bs (8 * by + df) =
      (uint (bs ! by) + bval (take by bs) * 2 ^ df * 2 ^ (8 - df)) div 2 ^ (8 - df)"
    by (simp only: mult.assoc add.commute)
  show ?thesis unfolding e by simp
qed

text \<open>The sign extension of the arithmetic shift keeps the order.\<close>

lemma sint_byte: "sint (x :: byte) = (if uint x < 128 then uint x else uint x - 256)"
proof -
  have b: "- 128 \<le> sint x" "sint x < 128"
    using sint_ge [of x] sint_lt [of x] by simp_all
  show ?thesis
  proof (cases "0 \<le> sint x")
    case True
    then have "sint x mod 256 = sint x" using b by simp
    with sint_mod_256 [of x] b show ?thesis by simp
  next
    case False
    then have "(sint x + 256) mod 256 = sint x + 256" using b by (intro mod_pos_pos_trivial) auto
    then have "sint x mod 256 = sint x + 256" by simp
    with sint_mod_256 [of x] b False show ?thesis by simp
  qed
qed

lemma signed_shift_uint:
  assumes "0 < df" "df < 8"
  shows "uint (signed_drop_bit (8 - df) (x :: byte)) =
    (if uint x < 128 then uint x div 2 ^ (8 - df) else uint x div 2 ^ (8 - df) + (256 - 2 ^ df))"
proof -
  let ?m = "2 ^ (8 - df) :: int"
  have "sint (signed_drop_bit (8 - df) x) = sint x div ?m"
    by (simp add: sint_signed_drop_bit_eq drop_bit_eq_div)
  then have s: "uint (signed_drop_bit (8 - df) x) = (sint x div ?m) mod 256"
    using sint_mod_256 by metis
  have p: "(256 :: int) = 2 ^ df * ?m" using assms(2) by (simp flip: power_add)
  have d: "0 \<le> uint x div ?m" "uint x div ?m < 2 ^ df"
    using uint_byte_bounds [of x] unfolding p by (simp_all add: pos_imp_zdiv_nonneg_iff div_less_mult)
  have pw: "(2 :: int) ^ df \<le> 256" using power_increasing [of df 8 "2 :: int"] assms by simp
  show ?thesis
  proof (cases "uint x < 128")
    case True
    then have "sint x div ?m = uint x div ?m" by (simp add: sint_byte)
    moreover have "uint x div ?m mod 256 = uint x div ?m" using d pw by (intro mod_pos_pos_trivial) auto
    ultimately show ?thesis using s True by simp
  next
    case False
    then have "sint x = uint x + (- (2 ^ df)) * ?m" by (simp add: sint_byte flip: p)
    then have "sint x div ?m = uint x div ?m - 2 ^ df"
      using div_mult_self1 [of ?m "uint x" "- (2 ^ df)"] by (simp only:) simp
    moreover have "(uint x div ?m - 2 ^ df) mod 256 = uint x div ?m - 2 ^ df + 256"
    proof -
      have "(uint x div ?m - 2 ^ df + 256) mod 256 = uint x div ?m - 2 ^ df + 256"
        using d pw by (intro mod_pos_pos_trivial) auto
      then show ?thesis by simp
    qed
    ultimately show ?thesis using s False by simp
  qed
qed

lemma signed_shift_mono:
  assumes "0 < df" "df < 8"
  shows "(uint (signed_drop_bit (8 - df) (x :: byte)) < uint (signed_drop_bit (8 - df) (y :: byte)) \<longleftrightarrow>
      uint x div 2 ^ (8 - df) < uint y div 2 ^ (8 - df)) \<and>
    (signed_drop_bit (8 - df) x = signed_drop_bit (8 - df) y \<longleftrightarrow>
      uint x div 2 ^ (8 - df) = uint y div 2 ^ (8 - df))"
proof -
  let ?m = "2 ^ (8 - df) :: int" and ?h = "2 ^ (df - 1) :: int"
  have p: "(128 :: int) = ?h * ?m" using assms by (simp flip: power_add)
  have lo: "uint z div ?m < ?h" if "uint z < 128" for z :: byte
    using that unfolding p by (simp add: div_less_mult)
  have hi: "?h \<le> uint z div ?m" if "\<not> uint z < 128" for z :: byte
    using that zdiv_mono1 [of 128 "uint z" ?m] unfolding p by simp
  have pw: "(2 :: int) ^ df \<le> 256" using power_increasing [of df 8 "2 :: int"] assms by simp
  have eq: "(c = d) = (uint c = uint d)" for c d :: byte using word_uint_eqI by auto
  show ?thesis
    unfolding eq signed_shift_uint [OF assms]
    using lo [of x] lo [of y] hi [of x] hi [of y] pw by auto
qed

section \<open>\<open>bit_cmp\<close>\<close>

abbreviation elead :: "elem \<Rightarrow> int \<Rightarrow> int" where
  "elead e k \<equiv> lead (edata e) (nat k)"

lemma bit_cmp_lead:
  assumes p: "elem_ok CMP_BITS p" and q: "elem_ok CMP_BITS q"
  defines "l \<equiv> min (elen p) (elen q)"
  shows "(bit_cmp p q < 0 \<longleftrightarrow> elead p l < elead q l) \<and> (bit_cmp p q = 0 \<longleftrightarrow> elead p l = elead q l)"
proof -
  have len: "nat (if elen q < elen p then elen q else elen p) = nat l" by (simp add: l_def)
  define n where "n = nat l"
  define by' where "by' = n div 8"
  define df where "df = n mod 8"
  have n: "n = 8 * by' + df" "df < 8" by (simp_all add: by'_def df_def)
  have bp: "n \<le> 8 * length (edata p)" "n \<le> 8 * length (edata q)"
    using p q by (auto simp: elem_ok_def n_def l_def)
  let ?P = "take by' (edata p)" and ?Q = "take by' (edata q)"
  have le: "by' \<le> length (edata p)" "by' \<le> length (edata q)" using bp n by linarith+
  then have "length ?P = length ?Q" by simp
  note m = memcmp_bval [OF this]
  show ?thesis
  proof (cases "df = 0")
    case True
    then have "bit_cmp p q = memcmp ?P ?Q"
      by (simp add: bit_cmp_def len Let_def flip: n_def by'_def df_def)
    then show ?thesis using m lead_bytes [OF le(1)] lead_bytes [OF le(2)] n True
      by (simp flip: n_def)
  next
    case False
    then have lt: "by' < length (edata p)" "by' < length (edata q)" using bp n by linarith+
    define x where "x = edata p ! by'"
    define y where "y = edata q ! by'"
    have L: "elead p l = bval ?P * 2 ^ df + uint x div 2 ^ (8 - df)"
        "elead q l = bval ?Q * 2 ^ df + uint y div 2 ^ (8 - df)"
      using lead_partial lt n by (simp_all add: x_def y_def flip: n_def)
    have small: "0 \<le> uint z div 2 ^ (8 - df)" "uint z div 2 ^ (8 - df) < 2 ^ df" for z :: byte
    proof -
      have "(256 :: int) = 2 ^ df * 2 ^ (8 - df)" using n(2) by (simp flip: power_add)
      then show "uint z div 2 ^ (8 - df) < 2 ^ df"
        using uint_byte_bounds(2) [of z] by (simp add: div_less_mult)
    qed (simp add: pos_imp_zdiv_nonneg_iff)
    note sh = signed_shift_mono [of df x y]
    have cmp: "bit_cmp p q = (if memcmp ?P ?Q \<noteq> 0 then memcmp ?P ?Q
        else if signed_drop_bit (8 - df) x \<noteq> signed_drop_bit (8 - df) y
        then (if uint (signed_drop_bit (8 - df) x) < uint (signed_drop_bit (8 - df) y) then - 1 else 1) else 0)"
      using False by (simp add: bit_cmp_def len Let_def x_def y_def flip: n_def by'_def df_def)
    consider "bval ?P < bval ?Q" | "bval ?Q < bval ?P" | "bval ?P = bval ?Q" by linarith
    then show ?thesis
    proof cases
      case 1
      then have "elead p l < elead q l" unfolding L using small by (intro scale_less) auto
      with 1 show ?thesis using m cmp by simp
    next
      case 2
      then have "elead q l < elead p l" unfolding L using small by (intro scale_less) auto
      with 2 show ?thesis using m cmp by auto
    next
      case 3
      then have "memcmp ?P ?Q = 0" using m by simp
      with 3 show ?thesis using sh False n(2) unfolding cmp L by auto
    qed
  qed
qed

lemma bit_cmp_flip:
  assumes "elem_ok CMP_BITS p" "elem_ok CMP_BITS q"
  shows "bit_cmp p q < 0 \<longleftrightarrow> bit_cmp q p > 0"
  using bit_cmp_lead [OF assms] bit_cmp_lead [OF assms(2,1)] by (auto simp: min.commute not_less)

lemma bit_cmp_trans:
  assumes ok: "elem_ok CMP_BITS a" "elem_ok CMP_BITS b" "elem_ok CMP_BITS c"
    and lt: "bit_cmp a b < 0" "bit_cmp b c < 0"
  shows "bit_cmp a c < 0"
proof -
  define m where "m = min (elen a) (min (elen b) (elen c))"
  have bnd: "0 \<le> elen x \<and> elen x \<le> 8 * int (length (edata x))" if "x \<in> {a, b, c}" for x
    using that ok by (auto simp: elem_ok_def)
  have short: "elead x m = elead x k div 2 ^ (nat k - nat m)" if "x \<in> {a, b, c}" "m \<le> k" "k \<le> elen x" for x k
  proof (rule lead_shorter)
    show "nat m \<le> nat k" using that by simp
    show "nat k \<le> 8 * length (edata x)" using bnd [OF that(1)] that(3) by linarith
  qed
  have mono: "elead x m \<le> elead y m" if "elead x k < elead y k" "x \<in> {a, b, c}" "y \<in> {a, b, c}" "m \<le> k"
      "k \<le> elen x" "k \<le> elen y" for x y k
    using that by (simp add: short [of x k] short [of y k] zdiv_mono1)
  let ?ab = "min (elen a) (elen b)" and ?bc = "min (elen b) (elen c)" and ?ac = "min (elen a) (elen c)"
  have l: "elead a ?ab < elead b ?ab" "elead b ?bc < elead c ?bc"
    using bit_cmp_lead ok lt by blast+
  have "elead a m \<le> elead b m" "elead b m \<le> elead c m"
    by (rule mono [OF l(1)]; simp add: m_def) (rule mono [OF l(2)]; simp add: m_def min_le_iff_disj)
  moreover have "?ab = m \<or> ?bc = m" unfolding m_def by linarith
  ultimately have less: "elead a m < elead c m" using l by auto
  have "elead a ?ac < elead c ?ac"
  proof (rule ccontr)
    assume "\<not> elead a ?ac < elead c ?ac"
    then have "elead c ?ac div 2 ^ (nat ?ac - nat m) \<le> elead a ?ac div 2 ^ (nat ?ac - nat m)"
      by (simp add: zdiv_mono1)
    moreover have le: "m \<le> ?ac" "?ac \<le> elen a" "?ac \<le> elen c" unfolding m_def by linarith+
    have "elead a m = elead a ?ac div 2 ^ (nat ?ac - nat m)" by (rule short [OF _ le(1,2)]) simp
    moreover have "elead c m = elead c ?ac div 2 ^ (nat ?ac - nat m)" by (rule short [OF _ le(1,3)]) simp
    ultimately show False using less by linarith
  qed
  then show ?thesis using bit_cmp_lead [OF ok(1,3)] by simp
qed

section \<open>The interpretations\<close>

lemma scmp_eq: "elem_ok c p \<Longrightarrow> scmp p q =
    (case c of CMP_BITS \<Rightarrow> bit_cmp p q | CMP_HOST \<Rightarrow> host_cmp p q | CMP_BYTES \<Rightarrow> byte_cmp p q)"
  by (cases c) (auto simp: scmp_def elem_ok_def)

text \<open>The tree of every pool has the order that its lemmas need, as long as the names in a pool of
  hosts have no byte below the dot.\<close>

interpretation pool: kavl_order scmp "elem_ok c" for c
proof
  fix a b :: elem
  assume "elem_ok c a" "elem_ok c b"
  then show "scmp a b < 0 \<longleftrightarrow> scmp b a > 0"
    using bit_cmp_flip host_cmp_flip byte_cmp_flip by (cases c) (simp_all add: scmp_eq)
next
  fix a b d :: elem
  assume "elem_ok c a" "elem_ok c b" "elem_ok c d" "scmp a b < 0" "scmp b d < 0"
  then show "scmp a d < 0"
    using bit_cmp_trans [of a b d] host_cmp_trans [of a b d] byte_cmp_trans [of a b d]
    by (cases c) (simp_all add: scmp_eq)
qed

end
