(* ===== verification/MpoolSpec.thy ===== *)
theory MpoolSpec
  imports MpoolBits
begin

text \<open>
  What a pool promises: it keeps an antichain of keys, finds a key that covers a query whenever
  one was added, and drops the keys that a new, shorter one makes redundant.
\<close>

section \<open>Covering\<close>

text \<open>\<open>a\<close> compares equal with \<open>b\<close> and is not longer: an equal string, a shorter prefix of the bits,
  the same host or a domain above it.\<close>

definition covers :: "elem \<Rightarrow> elem \<Rightarrow> bool" where
  "covers a b \<longleftrightarrow> scmp a b = 0 \<and> elen a \<le> elen b"

lemma scmp_zero_flip:
  assumes "elem_ok c a" "elem_ok c b"
  shows "scmp a b = 0 \<longleftrightarrow> scmp b a = 0"
  using pool.flip [OF assms] pool.flip [OF assms(2,1)] by linarith

lemma hcmp_below:
  "length xs \<le> length ys \<Longrightarrow> hcmp xs ys = 0 \<longleftrightarrow> ys = xs \<or> (\<exists>zs. ys = xs @ 46 # zs)"
  by (induction xs ys rule: hcmp.induct) auto

lemma length_rhost: "elem_ok CMP_HOST e \<Longrightarrow> length (rhost e) = nat (elen e)"
  by (simp add: rhost_def elem_ok_def nat_le_iff)

lemma covers_host_iff:
  assumes "elem_ok CMP_HOST a" "elem_ok CMP_HOST b"
  shows "covers a b \<longleftrightarrow> rhost b = rhost a \<or> (\<exists>zs. rhost b = rhost a @ 46 # zs)"
proof -
  have l: "elen a \<le> elen b \<longleftrightarrow> length (rhost a) \<le> length (rhost b)"
    using assms length_rhost by (simp add: elem_ok_def nat_le_eq_zle)
  have "covers a b \<longleftrightarrow> hcmp (rhost a) (rhost b) = 0 \<and> length (rhost a) \<le> length (rhost b)"
    using assms by (simp add: covers_def scmp_eq host_cmp_hcmp l)
  then show ?thesis using hcmp_below [of "rhost a" "rhost b"] by auto
qed

lemma covers_bits_iff:
  assumes "elem_ok CMP_BITS a" "elem_ok CMP_BITS b"
  shows "covers a b \<longleftrightarrow> elen a \<le> elen b \<and> elead a (elen a) = elead b (elen a)"
  using bit_cmp_lead [OF assms] assms(1) by (auto simp: covers_def scmp_eq min_def)

lemma covers_bytes_iff:
  assumes "elem_ok CMP_BYTES a" "elem_ok CMP_BYTES b"
  shows "covers a b \<longleftrightarrow> elen a = elen b \<and> take (nat (elen a)) (edata a) = take (nat (elen a)) (edata b)"
proof -
  have "elen a = elen b \<Longrightarrow>
      length (take (nat (elen a)) (edata a)) = length (take (nat (elen a)) (edata b))"
    using assms by (auto simp: elem_ok_def min_def)
  then show ?thesis
    using assms memcmp_eq by (auto simp: covers_def scmp_eq byte_cmp_def)
qed

lemma covers_trans:
  assumes ok: "elem_ok c x" "elem_ok c y" "elem_ok c z" and "covers x y" "covers y z"
  shows "covers x z"
proof (cases c)
  case CMP_BYTES
  then show ?thesis using assms covers_bytes_iff by auto
next
  case CMP_HOST
  then show ?thesis using assms covers_host_iff by auto
next
  case CMP_BITS
  have le: "nat (elen x) \<le> nat (elen y)" "nat (elen y) \<le> 8 * length (edata y)"
      "nat (elen y) \<le> nat (elen z)" "nat (elen z) \<le> 8 * length (edata z)"
    using assms CMP_BITS by (auto simp: covers_def elem_ok_def)
  have "elead y (elen x) = elead y (elen y) div 2 ^ (nat (elen y) - nat (elen x))"
    "elead z (elen x) = elead z (elen y) div 2 ^ (nat (elen y) - nat (elen x))"
    using lead_shorter le by auto
  then show ?thesis using assms CMP_BITS by (auto simp: covers_bits_iff)
qed

section \<open>The invariant\<close>

definition elems :: "mphdr \<Rightarrow> elem set" where
  "elems hdr = set (inorder (mroot hdr))"

definition pool_inv :: "mphdr \<Rightarrow> bool" where
  "pool_inv hdr \<longleftrightarrow> ordered scmp (elem_ok (mcmp hdr)) (mroot hdr) \<and>
     mcount hdr = int (length (inorder (mroot hdr)))"

definition covered :: "mphdr \<Rightarrow> elem \<Rightarrow> bool" where
  "covered hdr q \<longleftrightarrow> (\<exists>a\<in>elems hdr. covers a q)"

lemma pool_inv_empty: "pool_inv (mem_pool flags c)"
  by (simp add: pool_inv_def mem_pool_def ordered_def)

lemma elems_ok: "pool_inv hdr \<Longrightarrow> a \<in> elems hdr \<Longrightarrow> elem_ok (mcmp hdr) a"
  by (simp add: pool_inv_def ordered_def elems_def)

text \<open>No two elements of a pool compare equal.\<close>

lemma antichain:
  assumes "pool_inv hdr" "a \<in> elems hdr" "b \<in> elems hdr" "scmp a b = 0"
  shows "a = b"
proof (rule ccontr)
  assume ne: "a \<noteq> b"
  have ok: "elem_ok (mcmp hdr) a" "elem_ok (mcmp hdr) b" using elems_ok assms by auto
  obtain i j where ij: "i < length (inorder (mroot hdr))" "j < length (inorder (mroot hdr))"
      "inorder (mroot hdr) ! i = a" "inorder (mroot hdr) ! j = b"
    using assms(2,3) by (auto simp: elems_def in_set_conv_nth)
  have s: "sorted_wrt (\<lambda>a b. scmp a b < 0) (inorder (mroot hdr))"
    using assms(1) by (simp add: pool_inv_def ordered_def)
  consider "i < j" | "j < i" using ne ij by (cases i j rule: linorder_cases) auto
  then show False
  proof cases
    case 1
    then show ?thesis using sorted_wrt_nth_less [OF s, of i j] ij assms(4) by simp
  next
    case 2
    then have "scmp b a < 0" using sorted_wrt_nth_less [OF s, of j i] ij by simp
    then show ?thesis using pool.flip ok assms(4) by fastforce
  qed
qed

lemma scmp_same_key:
  assumes "elen p = elen p'" "edata p = edata p'" "ecmp p = ecmp p'"
  shows "scmp p q = scmp p' q" "elem_ok c p = elem_ok c p'"
  by (simp_all only: scmp_def bit_cmp_def byte_cmp_def host_cmp_def elem_ok_def assms)

lemma scmp_refl: "elem_ok c e \<Longrightarrow> scmp e e = 0"
  using pool.flip [of c e e] by linarith

lemma sorted_wrt_irrefl_distinct:
  "sorted_wrt P xs \<Longrightarrow> (\<And>a. a \<in> set xs \<Longrightarrow> \<not> P a a) \<Longrightarrow> distinct xs"
  by (induction xs) auto

section \<open>Lookup, deletion, insertion\<close>

lemma mem_get_spec:
  assumes "pool_inv hdr" "elem_ok (mcmp hdr) (new_elem (mcmp hdr) data len)"
  shows "case mem_get hdr data len of
      None \<Rightarrow> \<forall>a\<in>elems hdr. scmp (new_elem (mcmp hdr) data len) a \<noteq> 0
    | Some a \<Rightarrow> a \<in> elems hdr \<and> scmp (new_elem (mcmp hdr) data len) a = 0"
  using pool.find_correct [of "mcmp hdr" "mroot hdr" "new_elem (mcmp hdr) data len"] assms
  by (auto simp: pool_inv_def mem_get_def elems_def split: option.splits)

text \<open>The test that the callers make on the result of \<open>mem_get\<close> decides whether the pool covers
  the query.\<close>

lemma mem_get_covered:
  assumes inv: "pool_inv hdr" and ok: "elem_ok (mcmp hdr) (new_elem (mcmp hdr) data len)"
  shows "covered hdr (new_elem (mcmp hdr) data len) \<longleftrightarrow>
    (\<exists>v. mem_get hdr data len = Some v \<and> elen v \<le> len)"
proof -
  let ?q = "new_elem (mcmp hdr) data len"
  have len: "elen ?q = len" by (simp add: new_elem_def)
  note get = mem_get_spec [OF inv ok]
  show ?thesis
  proof
    assume "covered hdr ?q"
    then obtain a where a: "a \<in> elems hdr" "covers a ?q" by (auto simp: covered_def)
    note oka = elems_ok [OF inv a(1)]
    have "scmp ?q a = 0" using a(2) scmp_zero_flip [OF oka ok] by (simp add: covers_def)
    then obtain v where v: "mem_get hdr data len = Some v" "v \<in> elems hdr" "scmp ?q v = 0"
      using get a(1) by (auto split: option.splits)
    have "elen v \<le> len"
    proof (rule ccontr)
      assume long: "\<not> elen v \<le> len"
      then have "covers ?q v" using v(3) len by (simp add: covers_def)
      then have "covers a v" using covers_trans oka ok elems_ok [OF inv v(2)] a(2) by blast
      then have "a = v" using antichain [OF inv a(1) v(2)] by (simp add: covers_def)
      then show False using a(2) long len by (simp add: covers_def)
    qed
    then show "\<exists>v. mem_get hdr data len = Some v \<and> elen v \<le> len" using v by blast
  next
    assume "\<exists>v. mem_get hdr data len = Some v \<and> elen v \<le> len"
    then obtain v where v: "v \<in> elems hdr" "scmp ?q v = 0" "elen v \<le> len" using get by auto
    then show "covered hdr ?q"
      using scmp_zero_flip [OF ok elems_ok [OF inv v(1)]] len by (auto simp: covered_def covers_def)
  qed
qed

lemma mem_delete_spec:
  assumes inv: "pool_inv hdr" and ok: "elem_ok (mcmp hdr) (new_elem (mcmp hdr) data len)"
  shows "\<exists>hdr'. mem_delete hdr data len = Some hdr' \<and> pool_inv hdr' \<and> mcmp hdr' = mcmp hdr \<and>
    (case mem_get hdr data len of
       None \<Rightarrow> hdr' = hdr
     | Some v \<Rightarrow> elems hdr' = elems hdr - {v} \<and> mcount hdr' = mcount hdr - 1)"
proof -
  let ?q = "new_elem (mcmp hdr) data len"
  have o: "ordered scmp (elem_ok (mcmp hdr)) (mroot hdr)" using inv by (simp add: pool_inv_def)
  note er = pool.erase_correct [OF o ok]
  show ?thesis
  proof (cases "kavl_find scmp (mroot hdr) ?q")
    case None
    then show ?thesis using er inv by (simp add: mem_delete_def mem_get_def)
  next
    case (Some k)
    with er obtain t xs ys where t: "kavl_erase scmp (mroot hdr) ?q = Some (Some (t, k))"
        "ordered scmp (elem_ok (mcmp hdr)) t" "inorder (mroot hdr) = xs @ k # ys" "inorder t = xs @ ys"
      by auto
    have "k \<notin> set (xs @ ys)"
    proof
      assume k: "k \<in> set (xs @ ys)"
      have s: "sorted_wrt (\<lambda>a b. scmp a b < 0) (xs @ k # ys)" "elem_ok (mcmp hdr) k"
        using o t(3) by (auto simp: ordered_def)
      then have "scmp k k < 0" using k by (auto simp: sorted_wrt_append)
      then show False using scmp_refl s(2) by fastforce
    qed
    then have "set (xs @ ys) = set (xs @ k # ys) - {k}" by auto
    then show ?thesis
      using t inv Some by (auto simp: mem_delete_def mem_get_def pool_inv_def elems_def)
  qed
qed

lemma mem_delete_own:
  assumes inv: "pool_inv hdr" and v: "v \<in> elems hdr"
  shows "\<exists>hdr'. mem_delete hdr (edata v) (elen v) = Some hdr' \<and> pool_inv hdr' \<and> mcmp hdr' = mcmp hdr \<and>
    elems hdr' = elems hdr - {v} \<and> mcount hdr' = mcount hdr - 1"
proof -
  let ?q = "new_elem (mcmp hdr) (edata v) (elen v)"
  note okv = elems_ok [OF inv v]
  have same: "elen ?q = elen v" "edata ?q = edata v" "ecmp ?q = ecmp v"
    using okv by (simp_all add: new_elem_def elem_ok_def)
  have ok: "elem_ok (mcmp hdr) ?q" and cmp: "\<And>a. scmp ?q a = scmp v a"
    using scmp_same_key [OF same] okv by simp_all
  have "mem_get hdr (edata v) (elen v) = Some v"
  proof (cases "mem_get hdr (edata v) (elen v)")
    case None
    then show ?thesis using mem_get_spec [OF inv ok] v scmp_refl [OF okv] cmp by simp
  next
    case (Some a)
    then show ?thesis using mem_get_spec [OF inv ok] antichain [OF inv v, of a] cmp by simp
  qed
  then show ?thesis using mem_delete_spec [OF inv ok] by simp
qed

lemma mem_add_loop_spec:
  assumes "pool_inv hdr" "elem_ok (mcmp hdr) e" "kavl_insert scmp (mroot hdr) e = Some (t, v)"
  shows "\<exists>hdr' v'. mem_add_loop (hdr\<lparr>mroot := t\<rparr>) e v = Some (hdr', v') \<and> pool_inv hdr' \<and>
    mcmp hdr' = mcmp hdr \<and>
    (\<forall>q. elem_ok (mcmp hdr) q \<longrightarrow> covered hdr' q \<longleftrightarrow> covered hdr q \<or> covers e q) \<and>
    elems hdr' \<subseteq> insert e (elems hdr) \<and> (case v' of None \<Rightarrow> e \<in> elems hdr' | Some a \<Rightarrow> a \<in> elems hdr' \<and> covers a e)"
  using assms
proof (induction "length (inorder (mroot hdr))" arbitrary: hdr t v rule: less_induct)
  case less
  note inv = less.prems(1) and ok = less.prems(2)
  have o: "ordered scmp (elem_ok (mcmp hdr)) (mroot hdr)" using inv by (simp add: pool_inv_def)
  note ins = pool.insert_correct [OF o ok]
  show ?case
  proof (cases "kavl_find scmp (mroot hdr) e")
    case None
    with ins less.prems(3) obtain xs ys where t: "v = None" "ordered scmp (elem_ok (mcmp hdr)) t"
        "inorder (mroot hdr) = xs @ ys" "inorder t = xs @ e # ys" by auto
    let ?h = "hdr\<lparr>mroot := t, mcount := mcount hdr + 1\<rparr>"
    have "elems ?h = insert e (elems hdr)" by (auto simp: elems_def t)
    moreover have "pool_inv ?h" using inv t by (simp add: pool_inv_def)
    ultimately show ?thesis using t(1)
      by (subst mem_add_loop.simps) (auto simp: covered_def)
  next
    case (Some k)
    with ins less.prems(3) have t: "v = Some k" "t = mroot hdr" by auto
    have k: "k \<in> elems hdr" "scmp e k = 0"
      using pool.find_correct [OF o ok] Some by (simp_all add: elems_def)
    note okk = elems_ok [OF inv k(1)]
    show ?thesis
    proof (cases "elen e < elen k")
      case False
      then have ck: "covers k e" using k scmp_zero_flip [OF ok okk] by (simp add: covers_def)
      have "covers e q \<Longrightarrow> covered hdr q" if "elem_ok (mcmp hdr) q" for q
        using covers_trans [OF okk ok that ck] k(1) by (auto simp: covered_def)
      with False t inv k ck show ?thesis
        by (subst mem_add_loop.simps) (auto simp: covered_def)
    next
      case True
      then have ek: "covers e k" using k by (simp add: covers_def)
      obtain h where h: "mem_delete hdr (edata k) (elen k) = Some h" "pool_inv h" "mcmp h = mcmp hdr"
          "elems h = elems hdr - {k}" "mcount h = mcount hdr - 1"
        using mem_delete_own [OF inv k(1)] by auto
      have sm: "length (inorder (mroot h)) < length (inorder (mroot hdr))"
        using h(2,5) inv by (simp add: pool_inv_def)
      obtain t2 v2 where i2: "kavl_insert scmp (mroot h) e = Some (t2, v2)"
        using pool.insert_correct [of "mcmp h" "mroot h" e] h(2,3) ok
        by (auto simp: pool_inv_def split: option.splits)
      obtain hdr' v' where r: "mem_add_loop (h\<lparr>mroot := t2\<rparr>) e v2 = Some (hdr', v')" "pool_inv hdr'"
          "mcmp hdr' = mcmp h" "\<forall>q. elem_ok (mcmp h) q \<longrightarrow> covered hdr' q \<longleftrightarrow> covered h q \<or> covers e q"
          "elems hdr' \<subseteq> insert e (elems h)"
          "case v' of None \<Rightarrow> e \<in> elems hdr' | Some a \<Rightarrow> a \<in> elems hdr' \<and> covers a e"
        using less.hyps [OF sm h(2) _ i2] ok h(3) by auto
      have step: "mem_add_loop (hdr\<lparr>mroot := t\<rparr>) e v = Some (hdr', v')"
        using True t h(1) i2 r(1) by (subst mem_add_loop.simps) simp
      have cov: "covered hdr' q \<longleftrightarrow> covered hdr q \<or> covers e q" if q: "elem_ok (mcmp hdr) q" for q
      proof -
        have "covers k q \<Longrightarrow> covers e q" using covers_trans [OF ok okk q ek] .
        then have "covered hdr q \<or> covers e q \<longleftrightarrow> covered h q \<or> covers e q"
          using h(4) by (auto simp: covered_def)
        then show ?thesis using r(4) h(3) q by auto
      qed
      show ?thesis
        using step r(2,3,5,6) h(3,4) cov by (intro exI [of _ hdr'] exI [of _ v']) auto
    qed
  qed
qed

lemma mem_add_spec:
  assumes inv: "pool_inv hdr" and ok: "elem_ok (mcmp hdr) (new_elem (mcmp hdr) data len)"
  defines "e \<equiv> new_elem (mcmp hdr) data len"
  shows "\<exists>hdr' v. mem_add hdr data len = Some (hdr', v) \<and> pool_inv hdr' \<and> mcmp hdr' = mcmp hdr \<and>
    (\<forall>q. elem_ok (mcmp hdr) q \<longrightarrow> covered hdr' q \<longleftrightarrow> covered hdr q \<or> covers e q) \<and>
    elems hdr' \<subseteq> insert e (elems hdr) \<and> (case v of None \<Rightarrow> e \<in> elems hdr' | Some a \<Rightarrow> a \<in> elems hdr' \<and> covers a e)"
proof -
  obtain t v where i: "kavl_insert scmp (mroot hdr) e = Some (t, v)"
    using pool.insert_correct [of "mcmp hdr" "mroot hdr" e] inv ok
    by (auto simp: pool_inv_def e_def split: option.splits)
  show ?thesis
    using mem_add_loop_spec [OF inv ok [folded e_def] i] i by (simp add: mem_add_def e_def)
qed

lemma mem_destroy_spec:
  "ordered scmp (elem_ok c) t \<Longrightarrow> mem_destroy t = Some (inorder t)"
proof (induction "length (inorder t)" arbitrary: t rule: less_induct)
  case less
  show ?case
  proof (cases "t = Leaf")
    case True
    then show ?thesis by (subst mem_destroy.simps) simp
  next
    case False
    obtain t' k where e: "kavl_erase_first t = Some (Some (t', k))" "ordered scmp (elem_ok c) t'"
        "inorder t = k # inorder t'"
      using pool.erase_first_correct [OF less.prems False] by auto
    then have "mem_destroy t' = Some (inorder t')" using less.hyps by simp
    with e False show ?thesis by (subst mem_destroy.simps) simp
  qed
qed

text \<open>\<open>mem_destroy\<close> releases the elements one by one in the order in which \<open>kavl_free\<close> would.\<close>

lemma mem_destroy_free: "ordered scmp (elem_ok c) t \<Longrightarrow> mem_destroy t = Some (kavl_free t)"
  by (simp add: mem_destroy_spec kavl_free_inorder)

section \<open>The properties\<close>

text \<open>A pool of one host for the examples.\<close>

definition host_ex :: mphdr where
  "host_ex = \<lparr> mflags = 1, mcmp = CMP_HOST, mcount = 1,
     mroot = Node Leaf (new_elem CMP_HOST [97, 46, 98] 3) 0 1 Leaf \<rparr>"

lemma host_ex [simp]: "mcmp host_ex = CMP_HOST" "pool_inv host_ex" "elems host_ex = {new_elem CMP_HOST [97, 46, 98] 3}"
  by (simp_all add: host_ex_def pool_inv_def ordered_def elems_def elem_ok_def new_elem_def)

lemma host_ex_key: "elem_ok CMP_HOST (new_elem CMP_HOST [119, 46, 97, 46, 98] 5)"
  by (simp add: elem_ok_def new_elem_def)





text \<open>C25: deletion from a pool takes out the element that lookup would find, and only that, and
  keeps the tree, its order and the count.\<close>

theorem mem_pool_delete:
  assumes "pool_inv hdr" "elem_ok (mcmp hdr) (new_elem (mcmp hdr) data len)"
  shows "\<exists>hdr'. mem_delete hdr data len = Some hdr' \<and> pool_inv hdr' \<and>
    elems hdr' = (case mem_get hdr data len of None \<Rightarrow> elems hdr | Some v \<Rightarrow> elems hdr - {v}) \<and>
    mcount hdr' = (case mem_get hdr data len of None \<Rightarrow> mcount hdr | Some v \<Rightarrow> mcount hdr - 1)"
  using mem_delete_spec [OF assms] by (auto split: option.splits)

lemma mem_pool_delete_witness:
  "\<exists>hdr'. mem_delete host_ex [97, 46, 98] 3 = Some hdr' \<and> pool_inv hdr' \<and> elems hdr' = {}"
proof -
  have "elem_ok CMP_HOST (new_elem CMP_HOST [97, 46, 98] 3)" by (simp add: elem_ok_def new_elem_def)
  moreover have "mem_get host_ex [97, 46, 98] 3 = Some (new_elem CMP_HOST [97, 46, 98] 3)"
    by (simp add: mem_get_def host_ex_def Let_def scmp_refl [OF calculation])
  ultimately show ?thesis using mem_pool_delete [of host_ex "[97, 46, 98]" 3] by auto
qed

text \<open>C26: \<open>mem_destroy\<close> returns and destroys every element of the pool exactly once.\<close>

theorem mem_pool_destroy:
  assumes "pool_inv hdr"
  shows "\<exists>es. mem_destroy (mroot hdr) = Some es \<and> distinct es \<and> set es = elems hdr \<and>
    int (length es) = mcount hdr"
proof -
  have o: "ordered scmp (elem_ok (mcmp hdr)) (mroot hdr)" using assms by (simp add: pool_inv_def)
  then have s: "sorted_wrt (\<lambda>a b. scmp a b < 0) (inorder (mroot hdr))"
    and ok: "\<forall>a\<in>set (inorder (mroot hdr)). elem_ok (mcmp hdr) a" by (simp_all add: ordered_def)
  have "distinct (inorder (mroot hdr))"
  proof (rule sorted_wrt_irrefl_distinct)
    show "sorted_wrt (\<lambda>a b. scmp a b < 0) (inorder (mroot hdr))" by (rule s)
    show "a \<in> set (inorder (mroot hdr)) \<Longrightarrow> \<not> scmp a a < 0" for a
      using ok scmp_refl by fastforce
  qed
  then show ?thesis
    using mem_destroy_spec [OF o] assms by (simp add: elems_def pool_inv_def)
qed

lemma mem_pool_destroy_witness:
  "\<exists>es. mem_destroy (mroot host_ex) = Some es \<and> distinct es \<and> set es = elems host_ex \<and>
    int (length es) = mcount host_ex"
  by (rule mem_pool_destroy) simp



text \<open>C40: with a hyphen, which sorts below the dot, the order of host names is not transitive and
  lookup fails: after the hosts \<open>b-a.com\<close> and \<open>a.com\<close> were added, \<open>a.com\<close> covers \<open>www.a.com\<close> but
  \<open>mem_get\<close> does not find it.\<close>

theorem host_pool_hyphen_misses:
  "\<exists>h1 h2 a. mem_add (mem_pool 1 CMP_HOST) [98, 45, 97, 46, 99, 111, 109] 7 = Some (h1, None) \<and>
    mem_add h1 [97, 46, 99, 111, 109] 5 = Some (h2, None) \<and> a \<in> elems h2 \<and>
    covers a (new_elem CMP_HOST [119, 119, 119, 46, 97, 46, 99, 111, 109] 9) \<and>
    mem_get h2 [119, 119, 119, 46, 97, 46, 99, 111, 109] 9 = None"
proof -
  let ?b = "new_elem CMP_HOST [98, 45, 97, 46, 99, 111, 109] 7"
    and ?a = "new_elem CMP_HOST [97, 46, 99, 111, 109] 5"
    and ?q = "new_elem CMP_HOST [119, 119, 119, 46, 97, 46, 99, 111, 109] 9"
  have c: "scmp ?a ?b = - 1" "scmp ?q ?b = 1" "scmp ?a ?q = 0" by code_simp+
  let ?h1 = "\<lparr> mflags = 1, mcmp = CMP_HOST, mcount = 1, mroot = Node Leaf ?b 0 1 Leaf \<rparr>"
    and ?h2 = "\<lparr> mflags = 1, mcmp = CMP_HOST, mcount = 2, mroot = Node (Node Leaf ?a 0 1 Leaf) ?b (- 1) 2 Leaf \<rparr>"
  have "mem_add (mem_pool 1 CMP_HOST) [98, 45, 97, 46, 99, 111, 109] 7 = Some (?h1, None)"
    by (simp add: mem_add_def mem_pool_def kavl_insert_def mem_add_loop.simps)
  moreover have "mem_add ?h1 [97, 46, 99, 111, 109] 5 = Some (?h2, None)"
    using c by (simp add: mem_add_def kavl_insert_def split_path_def mem_add_loop.simps)
  moreover have "mem_get ?h2 [119, 119, 119, 46, 97, 46, 99, 111, 109] 9 = None"
    using c by (simp add: mem_get_def)
  moreover have "covers ?a ?q" using c by (simp add: covers_def new_elem_def)
  moreover have "?a \<in> elems ?h2" by (simp add: elems_def)
  ultimately show ?thesis by blast
qed

end
