(* ===== verification/Extend.thy ===== *)
theory Extend
  imports Conn MpoolSpec
begin

unbundle bit_operations_syntax

text \<open>
  \<open>src/extend.c\<close>: the cache of addresses that need another group, the choice of a group for a request,
  what happens when a group fails, and the hooks around sending and receiving. A pointer to a group
  is an index into \<open>s_dp\<close>, and the list of groups runs along \<open>d_next\<close> from \<open>params.dp\<close>.
\<close>

definition DETECT_HTTP_LOCAT :: int where "DETECT_HTTP_LOCAT = 1"
definition DETECT_TLS_ERR :: int where "DETECT_TLS_ERR = 2"
definition DETECT_TORST :: int where "DETECT_TORST = 8"
definition DETECT_CONNECT :: int where "DETECT_CONNECT = 16"
definition AUTO_ONRECONN :: int where "AUTO_ONRECONN = 1"
definition AUTO_NORECONN :: int where "AUTO_NORECONN = 2"
definition AUTO_SORT :: int where "AUTO_SORT = 4"
definition MODE_SOCKS5 :: int where "MODE_SOCKS5 = 1"

section \<open>The cache\<close>

text \<open>\<open>struct cache_key\<close> (20 bytes) for an address, and the number of its bytes that count. The family
  is stored in the order of the machine, here little endian.\<close>

definition serialize_addr :: "sockaddr \<Rightarrow> int \<times> buf" where
  "serialize_addr dst =
     (let head = [word_of_int (sa_family dst mod 256), word_of_int (sa_family dst div 256)] @ be16 (sa_port dst) in
      if sa_family dst = AF_INET then (8, head @ sa_ip4 dst @ replicate 12 0)
      else (20, head @ sa_ip6 dst))"

function eq_bytes :: "buf \<Rightarrow> buf \<Rightarrow> int \<Rightarrow> int \<Rightarrow> int option" where
  "eq_bytes a b n by =
     (if by < n then do {
        x \<leftarrow> rd a by; y \<leftarrow> rd b by;
        if x = y then eq_bytes a b n (by + 1) else Some by }
      else Some by)"
  by pat_completeness auto
termination
  by (relation "measure (\<lambda>(a, b, n, by). nat (n - by))") auto

declare eq_bytes.simps [simp del]

text \<open>How far two different bytes must be shifted to be equal, at most 8.\<close>

definition diff_bits :: "byte \<Rightarrow> byte \<Rightarrow> nat" where
  "diff_bits x y =
     length (takeWhile (\<lambda>i. sint x div 2 ^ i \<noteq> sint y div 2 ^ i) [0..<8])"

definition eq_bitlen :: "buf \<Rightarrow> buf \<Rightarrow> int \<Rightarrow> int option" where
  "eq_bitlen a b n = do {
     by \<leftarrow> eq_bytes a b n 0;
     bi \<leftarrow> (if by \<noteq> n then do { x \<leftarrow> rd a by; y \<leftarrow> rd b by; Some (int (diff_bits x y)) } else Some 0);
     Some (by * 8 + 8 - bi) }"

text \<open>Writing to an element of the pool through a pointer.\<close>

definition pool_set :: "elem \<Rightarrow> elem \<Rightarrow> st \<Rightarrow> st" where
  "pool_set e e' s =
     s\<lparr>s_pool := (s_pool s)\<lparr>mroot := map_kavl (\<lambda>x. if x = e then e' else x) (mroot (s_pool s))\<rparr>\<rparr>"

definition cache_get :: "sockaddr \<Rightarrow> st \<Rightarrow> (elem option \<times> st) option" where
  "cache_get dst s =
     (let (len, key) = serialize_addr dst in
      case mem_get (s_pool s) key (len * 8) of
        None \<Rightarrow> Some (None, s)
      | Some val \<Rightarrow> do {
          d \<leftarrow> e_dp val;
          let ttl = d_cache_ttl (s_dp s d);
          if ttl \<noteq> 0 \<and> s_time s > e_time val + ttl then do {
            pool \<leftarrow> mem_delete (s_pool s) key len;
            Some (None, s\<lparr>s_pool := pool\<rparr>) }
          else Some (Some val, s) })"

text \<open>The element, and what is left of \<open>*host\<close>.\<close>

definition cache_add :: "sockaddr \<Rightarrow> byte list option \<Rightarrow> st \<Rightarrow> (elem \<times> byte list option \<times> st) option" where
  "cache_add dst host s =
     (let (bytes, key) = serialize_addr dst; cmp_len = bytes * 8; pre = g_cache_pre (s_par s) in do {
      cmp_len \<leftarrow>
        (if sa_family dst = AF_INET \<and> pre \<noteq> 0 then
           (case mem_get (s_pool s) key (cmp_len - pre) of
              None \<Rightarrow> Some cmp_len
            | Some val \<Rightarrow> eq_bitlen key (edata val) bytes)
         else Some cmp_len);
      let data = take (nat bytes) key;
      (pool, old) \<leftarrow> mem_add (s_pool s) data cmp_len;
      let val = (case old of None \<Rightarrow> new_elem (mcmp pool) data cmp_len | Some v \<Rightarrow> v);
      let new = val\<lparr>e_time := s_time s\<rparr>;
      let (new, host) =
        (if e_extra new = None \<and> host \<noteq> None
         then (new\<lparr>e_extra := host, e_extra_len := int (length (the host))\<rparr>, None) else (new, host));
      Some (new, host, pool_set val new (s\<lparr>s_pool := pool\<rparr>)) })"

section \<open>The choice of a group\<close>

definition check_host :: "mphdr \<Rightarrow> buf \<Rightarrow> int \<Rightarrow> bool option" where
  "check_host hosts b n = do {
     (len, host) \<leftarrow> parse_tls b n;
     (len, host) \<leftarrow>
       (if len \<noteq> 0 then Some (len, host)
        else do {
          (len, host', _) \<leftarrow> parse_http b n False;
          Some (len, if host' = None then host else host') });
     if \<not> (len = 0 \<or> host \<noteq> None) then None
     else if len \<le> 0 then Some False
     else do {
       h \<leftarrow> host;
       name \<leftarrow> rdn b h len;
       Some (case mem_get hosts name len of None \<Rightarrow> False | Some v \<Rightarrow> elen v \<le> len) } }"

definition check_ip :: "mphdr \<Rightarrow> sockaddr \<Rightarrow> bool" where
  "check_ip ipset dst =
     (let data = (if sa_family dst = AF_INET6 then sa_ip6 dst else sa_ip4 dst) in
      mem_get ipset data (int (length data) * 8) \<noteq> None)"

definition check_proto_tcp :: "int \<Rightarrow> buf \<Rightarrow> int \<Rightarrow> bool option" where
  "check_proto_tcp proto b n =
     (if proto AND NOT IS_IPV4 = 0 then Some True
      else do {
        h \<leftarrow> (if has_flag proto IS_HTTP then is_http b n else Some False);
        if h then Some True
        else if has_flag proto IS_HTTPS then is_tls_chello b n
        else Some False })"

text \<open>\<open>pf\<close> holds ports as \<open>htons\<close> left them, and is compared with \<open>sin_port\<close> as a number of the
  machine.\<close>

definition swap16 :: "int \<Rightarrow> int" where
  "swap16 x = x mod 256 * 256 + x div 256"

definition check_l34 :: "dparams \<Rightarrow> int \<Rightarrow> sockaddr \<Rightarrow> bool" where
  "check_l34 dp st dst =
     (if has_flag (d_proto dp) IS_UDP \<and> st \<noteq> SOCK_DGRAM then False
      else if has_flag (d_proto dp) IS_TCP \<and> st \<noteq> SOCK_STREAM then False
      else if has_flag (d_proto dp) IS_IPV4 \<and> sa_family dst \<noteq> AF_INET \<and> take 12 (sa_ip6 dst) \<noteq> v4_prefix then False
      else if fst (d_pf dp) \<noteq> 0 \<and>
        (swap16 (sa_port dst) < fst (d_pf dp) \<or> swap16 (sa_port dst) > snd (d_pf dp)) then False
      else (case d_ipset dp of None \<Rightarrow> True | Some ipset \<Rightarrow> check_ip ipset dst))"

definition check_round :: "int \<times> int \<Rightarrow> int \<Rightarrow> bool" where
  "check_round nr r \<longleftrightarrow> (snd nr = 0 \<and> r \<le> 1) \<or> (r \<ge> fst nr \<and> r \<le> snd nr)"

text \<open>The condition of \<open>find_dp\<close> for one group; \<open>data\<close> is \<open>buff\<close> with its length.\<close>

definition dp_suits ::
  "st \<Rightarrow> nat \<Rightarrow> nat option \<Rightarrow> 64 word \<Rightarrow> int \<Rightarrow> (buf \<times> int) option \<Rightarrow> sockaddr \<Rightarrow> bool option"
where
  "dp_suits s d init mk detect data dst =
     (let dp = s_dp s d in
      if d_bit dp AND mk = 0 \<and> (Some d = init \<or> d_detect dp = 0 \<or> has_flag detect (d_detect dp)) \<and>
         check_l34 dp SOCK_STREAM dst
      then
        (case data of
           None \<Rightarrow> Some True
         | Some (b, n) \<Rightarrow> do {
             p \<leftarrow> (if d_proto dp = 0 then Some True else check_proto_tcp (d_proto dp) b n);
             if \<not> p then Some False
             else (case d_hosts dp of None \<Rightarrow> Some True | Some hosts \<Rightarrow> check_host hosts b n) })
      else Some False)"

partial_function (option) find_dp_loop ::
  "st \<Rightarrow> int \<Rightarrow> (buf \<times> int) option \<Rightarrow> sockaddr \<Rightarrow> nat option \<Rightarrow> nat option \<Rightarrow> 64 word \<Rightarrow>
    (nat option \<times> 64 word) option"
where
  "find_dp_loop s detect data dst init dp mk =
     (let dp = (if dp = None then g_dp (s_par s) else dp) in
      if mk = g_dp_full_mask (s_par s) then Some (None, mk)
      else do {
        d \<leftarrow> dp;
        ok \<leftarrow> dp_suits s d init mk detect data dst;
        if ok then Some (Some d, mk)
        else find_dp_loop s detect data dst init (d_next (s_dp s d)) (mk OR d_bit (s_dp s d)) })"

definition find_dp :: "nat \<Rightarrow> (buf \<times> int) option \<Rightarrow> sockaddr \<Rightarrow> st \<Rightarrow> (nat option \<times> st) option" where
  "find_dp c data dst s =
     (let e = s_ev s c;
          data = (case data of Some x \<Rightarrow> Some x
                  | None \<Rightarrow> map_option (\<lambda>b. (b_data b, b_lock b)) (v_buff e)) in do {
      (dp, mk) \<leftarrow> find_dp_loop s (v_detect e) data dst (v_dp e) (v_dp e) (v_dp_mask e);
      Some (dp, upd_ev c (\<lambda>e. e\<lparr>v_dp_mask := mk\<rparr>) s) })"

section \<open>New connections\<close>

definition connect_hook :: "nat \<Rightarrow> sockaddr \<Rightarrow> cb \<Rightarrow> st \<Rightarrow> (int \<times> st) option" where
  "connect_hook v dst next s = do {
     s \<leftarrow> (if v_dp (s_ev s v) = None then do {
             (e, s) \<leftarrow> cache_get dst s;
             (case e of
                None \<Rightarrow> Some s
              | Some e \<Rightarrow>
                  Some (upd_ev v (\<lambda>x. x\<lparr>v_dp_mask := e_dp_mask e, v_detect := e_detect e, v_dp := e_dp e\<rparr>) s)) }
           else Some s);
     (dp, s) \<leftarrow> find_dp v None dst s;
     (case dp of
        None \<Rightarrow> Some (- 1, s)
      | Some d \<Rightarrow>
          (let s = upd_ev v (\<lambda>x. x\<lparr>v_dp := Some d\<rparr>) s; dp = s_dp s d in
           if (d_hosts dp \<noteq> None \<or> d_proto dp \<noteq> 0) \<and> v_buff (s_ev s v) = None \<and> g_delay_conn (s_par s) then
             (let (r, s) = resp_error (v_fd (s_ev s v)) 0 (v_flag (s_ev s v)) s in
              if r < 0 then Some (- 1, s)
              else Some (0, upd_ev v (\<lambda>x. x\<lparr>v_cb := Recv_and_connect, v_addr := dst\<rparr>) s))
           else if d_out_type dp \<noteq> 0 then do {
             (e, s) \<leftarrow> create_conn v (d_out_addr dp)
               (if d_out_type dp = MODE_SOCKS5 then On_socks_conn else next) s;
             if e = 0 then do {
               p \<leftarrow> v_pair (s_ev s v);
               Some (e, upd_ev p (\<lambda>x. x\<lparr>v_after_conn_cb := next, v_addr := dst\<rparr>) s) }
             else Some (e, s) }
           else create_conn v dst next s)) }"

text \<open>\<open>reconnect\<close> on the connection \<open>v\<close> to the server: the first request is put back and sent to
  the same address again.\<close>

definition restore_first_req :: "nat \<Rightarrow> st \<Rightarrow> st option" where
  "restore_first_req c s =
     (case v_sq_buff (s_ev s c) of
        None \<Rightarrow> Some s
      | Some sq \<Rightarrow>
          (let (b, s) = (case v_buff (s_ev s c) of Some b \<Rightarrow> (b, s) | None \<Rightarrow> buff_pop (b_size sq) s) in do {
           d \<leftarrow> rdn (b_data sq) 0 (b_lock sq);
           data \<leftarrow> wrn (b_data b) 0 d;
           Some (upd_ev c (\<lambda>e. e\<lparr>v_buff := Some (b\<lparr>b_lock := b_lock sq, b_data := data, b_offset := 0\<rparr>)\<rparr>) s) }))"

definition reconnect :: "nat \<Rightarrow> st \<Rightarrow> (int \<times> st) option" where
  "reconnect v s =
     (if v_flag (s_ev s v) \<noteq> FLAG_CONN then None
      else do {
        c \<leftarrow> v_pair (s_ev s v);
        s \<leftarrow> restore_first_req c s;
        let s = upd_ev c (\<lambda>e. e\<lparr>v_round_sent := 0, v_part_sent := 0\<rparr>) s;
        (r, s) \<leftarrow> connect_hook c (v_addr (s_ev s v)) On_connect s;
        if r \<noteq> 0 then Some (- 1, s)
        else do {
          s \<leftarrow> del_event v (upd_ev v (\<lambda>e. e\<lparr>v_pair := None\<rparr>) s);
          Some (0, s) } })"

end
