(* ===== verification/Args.thy ===== *)
theory Args
  imports CNumber Extend
begin

unbundle bit_operations_syntax

text \<open>
  The parsers of \<open>src/main.c\<close>: escapes in data, lists of hosts and of addresses, an address with a port,
  and the offsets of parts. An argument is a buffer with a zero byte at its end, as \<open>getopt\<close> gives it.
  \<open>malloc\<close> does not fail. The files that options name and \<open>inet_pton\<close> are parameters.
\<close>

section \<open>Data\<close>

text \<open>The table \<open>esca\<close>.\<close>

definition esca :: "(byte \<times> byte) list" where
  "esca = [(114, 13), (110, 10), (116, 9), (92, 92), (102, 12), (98, 8), (118, 11), (97, 7)]"

text \<open>The two calls of \<open>sscanf\<close>: a byte and where the escape ends.\<close>

definition scan_esc :: "buf \<Rightarrow> int \<Rightarrow> (int \<times> int) option option" where
  "scan_esc s p = do {
     c \<leftarrow> rd s p;
     r \<leftarrow> (if c = 120 then scan_num 16 2 s (p + 1) else Some None);
     (case r of Some x \<Rightarrow> Some (Some x) | None \<Rightarrow> scan_num 8 3 s p) }"

text \<open>The loop of \<open>parse_cform\<close>. A backslash that starts no escape is dropped: \<open>i--; p--;\<close> and the next
  round takes the character behind it.\<close>

partial_function (option) cform_loop :: "buf \<Rightarrow> int \<Rightarrow> int \<Rightarrow> buf \<Rightarrow> int \<Rightarrow> int \<Rightarrow> (buf \<times> int) option" where
  "cform_loop s slen blen d i p =
     (if \<not> (p < slen \<and> i < blen) then Some (d, i)
      else do {
        c \<leftarrow> rd s p;
        if c \<noteq> 92 then do {
          d \<leftarrow> wr d i c;
          cform_loop s slen blen d (i + 1) (p + 1) }
        else do {
          c \<leftarrow> rd s (p + 1);
          (case map_of esca c of
             Some x \<Rightarrow> do {
               d \<leftarrow> wr d i x;
               cform_loop s slen blen d (i + 1) (p + 2) }
           | None \<Rightarrow> do {
               r \<leftarrow> scan_esc s (p + 1);
               (case r of
                  Some (v, e) \<Rightarrow> do {
                    d \<leftarrow> wr d i (word_of_int v);
                    cform_loop s slen blen d (i + 1) e }
                | None \<Rightarrow> cform_loop s slen blen d i (p + 1)) }) } })"

text \<open>The buffer, and how much of it is used.\<close>

definition parse_cform :: "buf \<Rightarrow> int \<Rightarrow> buf \<Rightarrow> int \<Rightarrow> (buf \<times> int) option" where
  "parse_cform d blen s slen = cform_loop s slen blen d 0 0"

definition data_from_str :: "buf \<Rightarrow> buf option option" where
  "data_from_str s = do {
     len \<leftarrow> strlen s 0;
     if len = 0 then Some None
     else do {
       (d, i) \<leftarrow> parse_cform (replicate (nat len) 0) len s len;
       Some (if i = 0 then None else Some (take (nat i) d)) } }"

text \<open>The contents of a file, \<open>None\<close> when it cannot be read.\<close>

type_synonym files = "byte list \<Rightarrow> byte list option"

definition ftob :: "files \<Rightarrow> buf \<Rightarrow> buf option option" where
  "ftob files s = do {
     c \<leftarrow> rd s 0;
     if c = 58 then data_from_str (tl s)
     else Some (case files (cstr s) of None \<Rightarrow> None | Some d \<Rightarrow> if d = [] then None else Some d) }"

section \<open>Lists of hosts and addresses\<close>

text \<open>\<open>None\<close>: the character is not allowed in a host. Plain \<open>char\<close> is signed.\<close>

definition lower_char :: "byte \<Rightarrow> byte option" where
  "lower_char c =
     (let x = sint c in
      if x < 65 then (if x > 57 \<or> x < 45 then None else Some c)
      else if x < 97 then (if x > 90 then None else Some (c + 32))
      else if x > 122 then None else Some c)"

definition is_sep :: "byte \<Rightarrow> bool" where
  "is_sep c \<longleftrightarrow> c = 32 \<or> c = 10 \<or> c = 13"

text \<open>The loop of \<open>parse_hosts\<close>; the letters are changed in place, and the elements of the pool point to
  the words in the buffer.\<close>

partial_function (option) hosts_loop ::
  "mphdr \<Rightarrow> buf \<Rightarrow> int \<Rightarrow> int \<Rightarrow> int \<Rightarrow> bool \<Rightarrow> (mphdr \<times> buf) option"
where
  "hosts_loop hdr b n e s bad =
     (if e > n then Some (hdr, b)
      else do {
        c \<leftarrow> (if e = n then Some 32 else rd b e);
        if e \<noteq> n \<and> \<not> is_sep c then
          (case lower_char c of
             None \<Rightarrow> hosts_loop hdr b n (e + 1) s True
           | Some y \<Rightarrow> do {
               b \<leftarrow> wr b e y;
               hosts_loop hdr b n (e + 1) s bad })
        else if s = e then hosts_loop hdr b n (e + 1) (s + 1) bad
        else if bad then hosts_loop hdr b n (e + 1) (e + 1) False
        else do {
          w \<leftarrow> rdn b s (e - s);
          (hdr, _) \<leftarrow> mem_add hdr w (e - s);
          hosts_loop hdr b n (e + 1) (e + 1) bad } })"

definition parse_hosts :: "mphdr \<Rightarrow> buf \<Rightarrow> int \<Rightarrow> (mphdr \<times> buf) option" where
  "parse_hosts hdr b n = hosts_loop hdr b n 0 0 False"

text \<open>\<open>inet_pton (family, host)\<close>: the bytes of the address.\<close>

type_synonym pton = "int \<Rightarrow> byte list \<Rightarrow> byte list option"

definition ip_bits :: "pton \<Rightarrow> buf \<Rightarrow> int \<Rightarrow> int \<times> byte list" where
  "ip_bits pton b bits =
     (case (case pton AF_INET (cstr b) of Some a \<Rightarrow> Some (4, a)
            | None \<Rightarrow> map_option (\<lambda>a. (16, a)) (pton AF_INET6 (cstr b))) of
        None \<Rightarrow> (0, [])
      | Some (len, a) \<Rightarrow> (if bits = 0 \<or> bits > len * 8 then len * 8 else bits, a))"

definition parse_ip :: "pton \<Rightarrow> buf \<Rightarrow> int \<Rightarrow> (int \<times> byte list) option" where
  "parse_ip pton b n = do {
     sep \<leftarrow> memchr b 0 47 n;
     (case sep of
        None \<Rightarrow> Some (ip_bits pton b 0)
      | Some p \<Rightarrow> do {
          (bits, _) \<leftarrow> strtol10 b (p + 1);
          if bits \<le> 0 then Some (0, [])
          else do {
            b \<leftarrow> wr b p 0;
            Some (ip_bits pton b bits) } }) }"

partial_function (option) ipset_loop :: "pton \<Rightarrow> mphdr \<Rightarrow> buf \<Rightarrow> int \<Rightarrow> int \<Rightarrow> int \<Rightarrow> mphdr option" where
  "ipset_loop pton hdr b n e s =
     (if e > n then Some hdr
      else do {
        c \<leftarrow> (if e = n then Some 32 else rd b e);
        if e \<noteq> n \<and> \<not> is_sep c then ipset_loop pton hdr b n (e + 1) s
        else if s = e then ipset_loop pton hdr b n (e + 1) (s + 1)
        else do {
          w \<leftarrow> rdn b s (e - s);
          (bits, ip) \<leftarrow> parse_ip pton (w @ [0]) (e - s + 1);
          if bits \<le> 0 then ipset_loop pton hdr b n (e + 1) (e + 1)
          else do {
            let len = bits div 8 + (if bits mod 8 \<noteq> 0 then 1 else 0);
            raw \<leftarrow> rdn ip 0 len;
            (hdr, _) \<leftarrow> mem_add hdr raw bits;
            ipset_loop pton hdr b n (e + 1) (e + 1) } } })"

definition parse_ipset :: "pton \<Rightarrow> mphdr \<Rightarrow> buf \<Rightarrow> int \<Rightarrow> mphdr option" where
  "parse_ipset pton hdr b n = ipset_loop pton hdr b n 0 0"

section \<open>Addresses\<close>

text \<open>The part of \<open>get_addr\<close> behind the colon at \<open>p\<close>: \<open>None\<close> is an error, otherwise the port (0 without one)
  and \<open>e\<close>.\<close>

definition addr_port :: "buf \<Rightarrow> int option \<Rightarrow> int option \<Rightarrow> (int \<times> int option) option option" where
  "addr_port b p e =
     (case p of
        None \<Rightarrow> Some (Some (0, e))
      | Some p \<Rightarrow> do {
          x \<leftarrow> rd b (p + 1);
          if \<not> isdigit x then Some (Some (0, e))
          else do {
            (v, end) \<leftarrow> strtol0 b (p + 1);
            z \<leftarrow> rd b end;
            Some (if v \<le> 0 \<or> v > 0xffff \<or> z \<noteq> 0 then None
                  else Some (v, if e = None then Some p else e)) } })"

text \<open>The part that asks \<open>getaddrinfo\<close> for the numeric host between \<open>s\<close> and \<open>e\<close>.\<close>

definition addr_host :: "buf \<Rightarrow> int \<Rightarrow> int \<Rightarrow> sockaddr \<Rightarrow> st \<Rightarrow> (sockaddr option \<times> st) option" where
  "addr_host b i e addr s =
     (if e = i then Some (Some addr, s)
      else do {
        host \<leftarrow> rdn b i (e - i);
        let (r, s) = sys (CGetaddrinfo host SOCK_STREAM True False) s;
        let a = r_addr r;
        Some (if r_ret r \<noteq> 0 then (None, s)
              else if sa_family a = AF_INET6 then (Some (addr\<lparr>sa_ip6 := sa_ip6 a, sa_family := sa_family a\<rparr>), s)
              else (Some (addr\<lparr>sa_ip4 := sa_ip4 a, sa_family := sa_family a\<rparr>), s)) })"

definition get_addr :: "buf \<Rightarrow> sockaddr \<Rightarrow> st \<Rightarrow> (int \<times> sockaddr \<times> st) option" where
  "get_addr b addr s = do {
     c \<leftarrow> rd b 0;
     e \<leftarrow> (if c = 91 then strchr b 0 93 else Some None);
     if c = 91 \<and> e = None then Some (- 1, addr, s)
     else do {
       p \<leftarrow> strchr b (case e of None \<Rightarrow> 0 | Some e \<Rightarrow> e + 1) 58;
       pe \<leftarrow> addr_port b p e;
       (case pe of
          None \<Rightarrow> Some (- 1, addr, s)
        | Some (port, e) \<Rightarrow> do {
            e \<leftarrow> (if e = None then strchr b 0 0 else Some e);
            e \<leftarrow> e;
            (a, s) \<leftarrow> addr_host b (if c = 91 then 1 else 0) e addr s;
            Some (case a of
                None \<Rightarrow> (- 1, addr, s)
              | Some a \<Rightarrow> (0, if port \<noteq> 0 then a\<lparr>sa_port := port\<rparr> else a, s)) }) } }"

text \<open>Modes, as bits.\<close>

definition schemes :: "(byte list \<times> int) list" where
  "schemes = [(str ''socks4://'', 2), (str ''socks5://'', 1), (str ''socks://'', 3), (str ''ss://'', 16),
     (str ''http://'', 4), (str ''sni://'', 32), (str ''tcp://'', 64), (str ''red://'', 8)]"

fun find_scheme :: "buf \<Rightarrow> (byte list \<times> int) list \<Rightarrow> (int \<times> buf) option" where
  "find_scheme b [] = Some (0, b)"
| "find_scheme b ((x, m) # xs) = do {
     r \<leftarrow> strncmp_eq b 0 x;
     if r then Some (m, drop (length x) b) else find_scheme b xs }"

definition get_addr_scheme :: "buf \<Rightarrow> sockaddr \<Rightarrow> st \<Rightarrow> (int \<times> sockaddr \<times> st) option" where
  "get_addr_scheme b addr s = do {
     (mode, b) \<leftarrow> find_scheme b schemes;
     (r, addr, s) \<leftarrow> get_addr b addr s;
     Some (if r \<noteq> 0 then - 1 else mode, addr, s) }"

text \<open>The time to live is stored by \<open>getsockopt\<close>, here in \<open>r_errno\<close>.\<close>

definition get_default_ttl :: "st \<Rightarrow> int \<times> st" where
  "get_default_ttl s =
     (let (r, s) = sys (CSocket AF_INET SOCK_STREAM) s; fd = r_ret r in
      if fd < 0 then (- 1, s)
      else
        (let (r, s) = sys (CGetopt fd ''IP_TTL'') s in
         (if r_ret r < 0 then - 1 else r_errno r, close_fd fd s)))"

definition ipv6_support :: "st \<Rightarrow> bool \<times> st" where
  "ipv6_support s =
     (let (r, s) = sys (CSocket AF_INET6 SOCK_STREAM) s in
      if r_ret r < 0 then (False, s) else (True, close_fd (r_ret r) s))"

section \<open>Offsets\<close>

text \<open>The repeats and the skip; the position behind them, \<open>None\<close> for an error.\<close>

partial_function (option) repeats_loop :: "buf \<Rightarrow> part \<Rightarrow> int \<Rightarrow> (part \<times> int option) option" where
  "repeats_loop b pt end = do {
     c \<leftarrow> rd b end;
     if c \<noteq> 58 then Some (pt, Some end)
     else do {
       (rs, end) \<leftarrow> strtol0 b (end + 1);
       if rs < 0 \<or> rs > 2 ^ 31 - 1 then Some (pt, None)
       else if p_r pt = 0 then
         (if rs = 0 then Some (pt, None) else repeats_loop b (pt\<lparr>p_r := rs\<rparr>) end)
       else Some (pt\<lparr>p_s := rs\<rparr>, Some end) } }"

definition offset_flags :: "buf \<Rightarrow> part \<Rightarrow> int \<Rightarrow> part option option" where
  "offset_flags b pt end = do {
     c \<leftarrow> rd b (end + 1);
     (if c = 115 \<or> c = 104 \<or> c = 110 then do {
        let pt = (if c = 115 then pt\<lparr>p_flag := OFFSET_SNI\<rparr> else if c = 104 then pt\<lparr>p_flag := OFFSET_HOST\<rparr> else pt);
        x \<leftarrow> rd b (end + 2);
        Some (Some
          (if x = 101 then pt\<lparr>p_flag := p_flag pt OR OFFSET_END\<rparr>
           else if x = 109 then pt\<lparr>p_flag := p_flag pt OR OFFSET_MID\<rparr>
           else if x = 114 then pt\<lparr>p_flag := p_flag pt OR OFFSET_RAND\<rparr>
           else if x = 115 then pt\<lparr>p_flag := p_flag pt OR OFFSET_START\<rparr>
           else pt)) }
      else Some None) }"

text \<open>The part, \<open>None\<close> for an error.\<close>

definition parse_offset :: "part \<Rightarrow> buf \<Rightarrow> part option option" where
  "parse_offset pt b = do {
     (v, end) \<leftarrow> strtol0 b 0;
     (pt, r) \<leftarrow> repeats_loop b pt end;
     (case r of
        None \<Rightarrow> Some None
      | Some end \<Rightarrow> do {
          c \<leftarrow> rd b end;
          r \<leftarrow> (if c = 43 then offset_flags b pt end else Some (if c \<noteq> 0 then None else Some pt));
          Some (map_option (\<lambda>pt. pt\<lparr>p_pos := v\<rparr>) r) }) }"

declare cform_loop.simps [code] hosts_loop.simps [code] ipset_loop.simps [code] repeats_loop.simps [code]

end
