(* ===== verification/CacheFile.thy ===== *)
theory CacheFile
  imports CNumber Extend
begin

unbundle bit_operations_syntax

text \<open>
  The cache files of \<open>src/mpool.c\<close>: \<open>dump_cache\<close> writes the entries of one group as lines of text, and
  \<open>load_cache\<close> reads them with \<open>fscanf\<close>. \<open>inet_ntop\<close> and \<open>inet_pton\<close> are parameters.
\<close>

type_synonym ntop = "int \<Rightarrow> byte list \<Rightarrow> byte list"
type_synonym pton = "int \<Rightarrow> byte list \<Rightarrow> byte list option"

section \<open>Writing\<close>

text \<open>\<open>struct cache_key\<close>: the family in the order of the machine, the port in network order, the address.\<close>

definition dump_line :: "ntop \<Rightarrow> elem \<Rightarrow> byte list option" where
  "dump_line ntop e = do {
     let key = edata e;
     f0 \<leftarrow> rd key 0;
     f1 \<leftarrow> rd key 1;
     port \<leftarrow> rdn key 2 2;
     addr \<leftarrow>
       (if uint f0 + 256 * uint f1 = AF_INET then map_option (ntop AF_INET) (rdn key 4 4)
        else map_option (ntop AF_INET6) (rdn key 4 16));
     let prec = (if e_extra_len e \<noteq> 0 then e_extra_len e else 1);
     let host = (case e_extra e of None \<Rightarrow> [45] | Some x \<Rightarrow> cstr (take (nat prec) x));
     Some ([48, 32] @ addr @ [32] @ dec_int (elen e - 32) @ [32] @
       dec_int (256 * uint (port ! 0) + uint (port ! 1)) @ [32] @ dec_int (e_time e) @ [32] @ host @ [10]) }"

partial_function (option) dump_loop :: "ntop \<Rightarrow> nat \<Rightarrow> elem itr \<Rightarrow> byte list option" where
  "dump_loop ntop d itr = do {
     p \<leftarrow> kavl_at itr;
     line \<leftarrow> (if e_dp p \<noteq> Some d then Some [] else dump_line ntop p);
     let (itr, more) = kavl_itr_next itr;
     if more then do { rest \<leftarrow> dump_loop ntop d itr; Some (line @ rest) } else Some line }"

definition dump_cache :: "ntop \<Rightarrow> mphdr \<Rightarrow> nat \<Rightarrow> byte list option" where
  "dump_cache ntop hdr d =
     (if mroot hdr = Leaf then Some []
      else do { itr \<leftarrow> kavl_itr_first (mroot hdr); dump_loop ntop d itr })"

section \<open>Reading\<close>

text \<open>The directives of \<open>fscanf\<close> on the rest of the file: white space, \<open>%<n>s\<close>, and the decimal conversions,
  whose result is \<open>None\<close> when they fail. A sign is taken even then.\<close>

definition skip_space :: "byte list \<Rightarrow> byte list" where
  "skip_space = dropWhile isspace"

definition scan_word :: "nat \<Rightarrow> byte list \<Rightarrow> byte list \<times> byte list" where
  "scan_word n xs =
     (let xs = skip_space xs; w = takeWhile (\<lambda>c. \<not> isspace c) (take n xs) in (w, drop (length w) xs))"

definition dec_value :: "byte list \<Rightarrow> int" where
  "dec_value = foldl (\<lambda>v c. 10 * v + (uint c - 48)) 0"

definition scan_dec :: "byte list \<Rightarrow> int option \<times> byte list" where
  "scan_dec xs =
     (let xs = skip_space xs;
          sgn = (case xs of c # _ \<Rightarrow> c = 43 \<or> c = 45 | [] \<Rightarrow> False);
          ds = takeWhile isdigit (if sgn then tl xs else xs);
          rest = drop (length ds) (if sgn then tl xs else xs) in
      (if ds = [] then None
       else Some (clamp_long (if sgn \<and> hd xs = 45 then - dec_value ds else dec_value ds)), rest))"

text \<open>What one call of \<open>fscanf\<close> stores: a variable it does not reach is \<open>None\<close>, and \<open>host\<close> stays empty.\<close>

record line =
  l_addr :: "byte list"
  l_bits :: "int option"
  l_port :: "int option"
  l_time :: "int option"
  l_host :: "byte list"

text \<open>\<open>None\<close>: not even the address was read.\<close>

definition scan_line :: "byte list \<Rightarrow> (line \<times> byte list) option" where
  "scan_line xs =
     (if xs = [] \<or> hd xs \<noteq> 48 then None
      else
        (let (addr, xs) = scan_word 39 (tl xs);
             ln = \<lparr> l_addr = addr, l_bits = None, l_port = None, l_time = None, l_host = [] \<rparr> in
         if addr = [] then None
         else
           (let (bits, xs) = scan_dec xs; ln = ln\<lparr>l_bits := map_option to_int bits\<rparr> in
            if bits = None then Some (ln, xs)
            else
              (let (port, xs) = scan_dec xs; ln = ln\<lparr>l_port := map_option u16 port\<rparr> in
               if port = None then Some (ln, xs)
               else
                 (let (time, xs) = scan_dec xs; ln = ln\<lparr>l_time := time\<rparr> in
                  if time = None then Some (ln, xs)
                  else
                    (let (host, xs) = scan_word 255 xs; ln = ln\<lparr>l_host := host\<rparr> in
                     Some (ln, if host = [] then xs else skip_space xs)))))))"

text \<open>The key and its length in bits from one line, \<open>None\<close> to skip the line; a use of a variable that was not
  read has no defined result, and neither has a negative length, which \<open>memcmp\<close> would get.\<close>

definition line_key :: "pton \<Rightarrow> line \<Rightarrow> (buf \<times> int) option option" where
  "line_key pton ln = do {
     bits \<leftarrow> l_bits ln;
     let bitlen = bits + 32;
     (case (case pton AF_INET (cstr (l_addr ln)) of Some a \<Rightarrow> Some (AF_INET, 8, a)
            | None \<Rightarrow> map_option (\<lambda>a. (AF_INET6, 20, a)) (pton AF_INET6 (cstr (l_addr ln)))) of
        None \<Rightarrow> Some None
      | Some (family, ks, ip) \<Rightarrow>
          if ks * 8 < bitlen then Some None
          else do {
            port \<leftarrow> l_port ln;
            if bitlen < 0 then None
            else
              Some (Some ([word_of_int (family mod 256), word_of_int (family div 256)] @ be16 port @ ip, bitlen)) }) }"

definition load_line :: "pton \<Rightarrow> mphdr \<Rightarrow> line \<Rightarrow> nat \<Rightarrow> mphdr option" where
  "load_line pton hdr ln d = do {
     k \<leftarrow> line_key pton ln;
     (case k of
        None \<Rightarrow> Some hdr
      | Some (data, bitlen) \<Rightarrow> do {
          (hdr, old) \<leftarrow> mem_add hdr data bitlen;
          let e = (case old of None \<Rightarrow> new_elem (mcmp hdr) data bitlen | Some v \<Rightarrow> v);
          t \<leftarrow> l_time ln;
          let host = cstr (l_host ln);
          let e' = e\<lparr>e_time := t, e_extra_len := int (length host), e_dp := Some d\<rparr>;
          let e' = (if e_extra_len e' > 1 then e'\<lparr>e_extra := Some (host @ [0])\<rparr> else e');
          Some (hdr\<lparr>mroot := map_kavl (\<lambda>x. if x = e then e' else x) (mroot hdr)\<rparr>) }) }"

partial_function (option) load_cache :: "pton \<Rightarrow> mphdr \<Rightarrow> byte list \<Rightarrow> nat \<Rightarrow> mphdr option" where
  "load_cache pton hdr xs d =
     (case scan_line xs of
        None \<Rightarrow> Some hdr
      | Some (ln, xs) \<Rightarrow> do {
          hdr \<leftarrow> load_line pton hdr ln d;
          load_cache pton hdr xs d })"

declare dump_loop.simps [code] load_cache.simps [code]

end
