(* ===== verification/Options.thy ===== *)
theory Options
  imports Args CacheFile
begin

unbundle bit_operations_syntax

text \<open>
  The options of the program: \<open>add_group\<close> and \<open>parse_args\<close> of \<open>src/main.c\<close>, one definition for every
  kind of option. \<open>getopt_long\<close> is a parameter: a function from its state to the next option with its
  argument, and \<open>optind\<close>, which the program reads and sets to repeat the options of a group (\<open>-B\<close>).
  \<open>strtof\<close> and the arithmetic on \<open>float\<close> are a parameter too.
\<close>

section \<open>State\<close>

text \<open>\<open>e_getopt\<close> takes the short and the long options, and gives the character of the next option and its
  argument. \<open>e_float k text\<close> is \<open>strtof\<close> of a text,
  times \<open>k\<close> and cut to an integer, and how many characters it read.\<close>

record 'g env =
  e_getopt :: "byte list \<Rightarrow> (string \<times> nat \<times> char) list \<Rightarrow> 'g \<Rightarrow> (byte \<times> buf) option \<times> 'g"
  e_optind :: "'g \<Rightarrow> int"
  e_set_optind :: "int \<Rightarrow> 'g \<Rightarrow> 'g"
  e_files :: files
  e_pton :: pton
  e_ntop :: ntop
  e_float :: "int \<Rightarrow> byte list \<Rightarrow> int \<times> nat"

text \<open>\<open>params\<close> and the groups are in \<open>a_st\<close>; here are the fields that only the start and the end of the program
  use (\<open>dp_n\<close>, \<open>laddr\<close>, \<open>daemonize\<close>, \<open>pid_file\<close>, \<open>pid_fd\<close>, of a group \<open>_optind\<close>, \<open>str\<close> and \<open>cache_file\<close>), and the
  variables of \<open>parse_args\<close>: the group \<open>dp\<close>, \<open>invalid\<close>, \<open>all_limited\<close> and \<open>curr_optind\<close>.\<close>

record opts =
  a_st :: st
  a_dpn :: int
  a_laddr :: sockaddr
  a_daemonize :: bool
  a_pid_file :: "buf option"
  a_pid_fd :: int
  a_optind :: "nat \<Rightarrow> int"
  a_str :: "nat \<Rightarrow> buf"
  a_cache_file :: "nat \<Rightarrow> buf option"
  a_dp :: nat
  a_invalid :: bool
  a_all_limited :: bool
  a_curr_optind :: int

definition opts0 :: "st \<Rightarrow> opts" where
  "opts0 s = \<lparr> a_st = s, a_dpn = 0, a_laddr = addr0\<lparr>sa_family := AF_INET\<rparr>, a_daemonize = False, a_pid_file = None,
     a_pid_fd = 0, a_optind = (\<lambda>_. 0), a_str = (\<lambda>_. []), a_cache_file = (\<lambda>_. None), a_dp = 0, a_invalid = False,
     a_all_limited = True, a_curr_optind = 1 \<rparr>"

definition bad :: "opts \<Rightarrow> opts" where
  "bad a = a\<lparr>a_invalid := True\<rparr>"

definition upd_st :: "(st \<Rightarrow> st) \<Rightarrow> opts \<Rightarrow> opts" where
  "upd_st f a = a\<lparr>a_st := f (a_st a)\<rparr>"

definition upd_par :: "(params \<Rightarrow> params) \<Rightarrow> opts \<Rightarrow> opts" where
  "upd_par f = upd_st (\<lambda>s. s\<lparr>s_par := f (s_par s)\<rparr>)"

text \<open>The current group.\<close>

definition cur :: "opts \<Rightarrow> dparams" where
  "cur a = s_dp (a_st a) (a_dp a)"

definition upd_cur :: "(dparams \<Rightarrow> dparams) \<Rightarrow> opts \<Rightarrow> opts" where
  "upd_cur f a = upd_st (upd_dp (a_dp a) f) a"

definition ch :: "char \<Rightarrow> byte" where
  "ch c = of_char c"

section \<open>The table of options\<close>

text \<open>\<open>options\<close> as built on Linux, without the empty entry at its end: the long name, \<open>has_arg\<close> and the letter.\<close>

definition options :: "(string \<times> nat \<times> char) list" where
  "options =
    [(''daemon'', 0, CHR ''D''), (''pidfile'', 1, CHR ''w''), (''no-domain'', 0, CHR ''N''),
     (''no-ipv6'', 0, CHR ''X''), (''no-udp'', 0, CHR ''U''), (''help'', 0, CHR ''h''),
     (''version'', 0, CHR ''v''), (''ip'', 1, CHR ''i''), (''port'', 1, CHR ''p''),
     (''transparent'', 0, CHR ''E''), (''conn-ip'', 1, CHR ''I''), (''buf-size'', 1, CHR ''b''),
     (''max-conn'', 1, CHR ''c''), (''debug'', 1, CHR ''x''), (''tfo'', 0, CHR ''F''),
     (''auto'', 1, CHR ''A''), (''auto-mode'', 1, CHR ''L''), (''cache-ttl'', 1, CHR ''u''),
     (''timeout'', 1, CHR ''T''), (''copy'', 1, CHR ''B''), (''cache-file'', 1, CHR ''y''),
     (''proto'', 1, CHR ''K''), (''hosts'', 1, CHR ''H''), (''pf'', 1, CHR ''V''),
     (''round'', 1, CHR ''R''), (''split'', 1, CHR ''s''), (''disorder'', 1, CHR ''d''),
     (''oob'', 1, CHR ''o''), (''disoob'', 1, CHR ''q''), (''fake'', 1, CHR ''f''),
     (''md5sig'', 0, CHR ''S''), (''fake-sni'', 1, CHR ''n''), (''ttl'', 1, CHR ''t''),
     (''fake-data'', 1, CHR ''l''), (''fake-offset'', 1, CHR ''O''), (''fake-tls-mod'', 1, CHR ''Q''),
     (''oob-data'', 1, CHR ''e''), (''mod-http'', 1, CHR ''M''), (''tlsrec'', 1, CHR ''r''),
     (''tlsminor'', 1, CHR ''m''), (''udp-fake'', 1, CHR ''a''), (''def-ttl'', 1, CHR ''g''),
     (''wait-send'', 0, CHR ''Z''), (''await-int'', 1, CHR ''W''), (''drop-sack'', 0, CHR ''Y''),
     (''protect-path'', 1, CHR ''P''), (''ipset'', 1, CHR ''j''), (''connect-to'', 1, CHR ''C''),
     (''comment'', 1, CHR ''#''), (''cache-merge'', 1, CHR ''/'')]"

text \<open>The string of the short options; the empty entry adds a zero byte.\<close>

fun short_loop :: "(string \<times> nat \<times> char) list \<Rightarrow> byte list" where
  "short_loop [] = [0]"
| "short_loop ((_, n, c) # xs) = ch c # replicate n 58 @ short_loop xs"

definition short_opts :: "byte list" where
  "short_opts = short_loop options"

section \<open>Groups\<close>

text \<open>\<open>1 << dp->id\<close> is a shift of an \<open>int\<close>: the sign bit and what is above it have no defined result. The
  index of a new group is its \<open>id\<close>.\<close>

definition add_group :: "nat option \<Rightarrow> opts \<Rightarrow> opts option" where
  "add_group prev a =
     (let id = a_dpn a; d = nat id in
      if id \<ge> 31 then None
      else
        (let s = upd_dp d (\<lambda>_. dp0\<lparr>d_prev := prev, d_id := id, d_bit := 2 ^ d\<rparr>) (a_st a);
             s = (case prev of None \<Rightarrow> s | Some p \<Rightarrow> upd_dp p (\<lambda>g. g\<lparr>d_next := Some d\<rparr>) s);
             g = s_par s; s = s\<lparr>s_par := g\<lparr>g_dp_full_mask := g_dp_full_mask g OR 2 ^ d\<rparr>\<rparr> in
         Some (a\<lparr>a_st := s, a_dpn := id + 1, a_dp := d, a_str := (a_str a)(d := [0])\<rparr>)))"

section \<open>Lists of letters\<close>

text \<open>\<open>while (end && !invalid) { switch (*end) ... end = strchr (end, ','); if (end) end++; }\<close>: \<open>f\<close> is the
  \<open>switch\<close>, which gives \<open>None\<close> for an invalid letter and may move \<open>end\<close>, also to null. The result tells
  whether the list was invalid.\<close>

partial_function (option) comma_loop ::
  "(buf \<Rightarrow> int \<Rightarrow> 'a \<Rightarrow> ('a \<times> int option) option option) \<Rightarrow> buf \<Rightarrow> int \<Rightarrow> 'a \<Rightarrow> (bool \<times> 'a) option"
where
  "comma_loop f b e a = do {
     r \<leftarrow> f b e a;
     (case r of
        None \<Rightarrow> Some (True, a)
      | Some (a, e) \<Rightarrow> do {
          e \<leftarrow> e;
          p \<leftarrow> strchr b e 44;
          (case p of None \<Rightarrow> Some (False, a) | Some p \<Rightarrow> comma_loop f b (p + 1) a) }) }"

definition flag_switch :: "(char \<times> int) list \<Rightarrow> buf \<Rightarrow> int \<Rightarrow> int \<Rightarrow> (int \<times> int option) option option" where
  "flag_switch tbl b e m = do {
     c \<leftarrow> rd b e;
     Some (map_option (\<lambda>x. (m OR x, Some e)) (map_of (map (\<lambda>(k, x). (ch k, x)) tbl) c)) }"

definition flag_list :: "(char \<times> int) list \<Rightarrow> buf \<Rightarrow> int \<Rightarrow> (bool \<times> int) option" where
  "flag_list tbl b m = comma_loop (flag_switch tbl) b 0 m"

definition auto_flags :: "(char \<times> int) list" where
  "auto_flags = [(CHR ''o'', AUTO_ONRECONN), (CHR ''s'', AUTO_SORT), (CHR ''n'', AUTO_NORECONN)]"

definition detect_flags :: "(char \<times> int) list" where
  "detect_flags = [(CHR ''t'', DETECT_TORST), (CHR ''r'', DETECT_HTTP_LOCAT), (CHR ''s'', DETECT_TLS_ERR),
     (CHR ''c'', DETECT_CONNECT), (CHR ''n'', 0)]"

definition proto_flags :: "(char \<times> int) list" where
  "proto_flags = [(CHR ''t'', IS_TCP OR IS_HTTPS), (CHR ''h'', IS_TCP OR IS_HTTP), (CHR ''u'', IS_UDP), (CHR ''i'', IS_IPV4)]"

definition http_flags :: "(char \<times> int) list" where
  "http_flags = [(CHR ''r'', MH_SPACE), (CHR ''h'', MH_HMIX), (CHR ''d'', MH_DMIX)]"

definition fake_flags :: "(char \<times> int) list" where
  "fake_flags = [(CHR ''r'', FM_RAND), (CHR ''o'', FM_ORIG)]"

text \<open>\<open>-A\<close>: the triggers, and \<open>p=<number>\<close>, the priority of the group before.\<close>

definition auto_switch :: "'g env \<Rightarrow> buf \<Rightarrow> int \<Rightarrow> opts \<Rightarrow> (opts \<times> int option) option option" where
  "auto_switch env b e a = do {
     c \<leftarrow> rd b e;
     if c = ch CHR ''p'' then do {
       p \<leftarrow> strchr b e 61;
       (case p of
          None \<Rightarrow> Some (Some (a, None))
        | Some p \<Rightarrow>
            (let (v, k) = e_float env 1 (drop (nat p + 1) b); end = p + 1 + int k in do {
             z \<leftarrow> rd b end;
             if z \<noteq> 0 then Some None
             else do {
               q \<leftarrow> d_prev (cur a);
               Some (Some (upd_st (upd_dp q (\<lambda>g. g\<lparr>d_pri := v\<rparr>)) a, Some end)) } })) }
     else do {
       r \<leftarrow> flag_switch detect_flags b e (d_detect (cur a));
       Some (map_option (\<lambda>(m, e). (upd_cur (\<lambda>g. g\<lparr>d_detect := m\<rparr>) a, e)) r) } }"

text \<open>\<open>-Q\<close>: the flags of the fake, and \<open>m=<size>\<close>.\<close>

definition fake_switch :: "buf \<Rightarrow> int \<Rightarrow> dparams \<Rightarrow> (dparams \<times> int option) option option" where
  "fake_switch b e g = do {
     c \<leftarrow> rd b e;
     if c = ch CHR ''m'' then do {
       p \<leftarrow> strchr b e 61;
       (case p of
          None \<Rightarrow> Some None
        | Some p \<Rightarrow> do {
            (v, end) \<leftarrow> strtol0 b (p + 1);
            z \<leftarrow> rd b end;
            Some (if v > 2 ^ 31 - 1 \<or> (z \<noteq> 0 \<and> z \<noteq> 44) then None
                  else Some (g\<lparr>d_fake_tls_size := to_int v\<rparr>, Some end)) }) }
     else do {
       r \<leftarrow> flag_switch fake_flags b e (d_fake_mod g);
       Some (map_option (\<lambda>(m, e). (g\<lparr>d_fake_mod := m\<rparr>, e)) r) } }"

text \<open>The options \<open>-L\<close>, \<open>-K\<close>, \<open>-M\<close> and \<open>-Q\<close>.\<close>

definition opt_auto_mode :: "buf \<Rightarrow> opts \<Rightarrow> opts option" where
  "opt_auto_mode b a = do {
     (x, m) \<leftarrow> flag_list auto_flags b (d_auto_level (cur a));
     Some ((if x then bad else id) (upd_cur (\<lambda>g. g\<lparr>d_auto_level := m\<rparr>) a)) }"

definition opt_proto :: "buf \<Rightarrow> opts \<Rightarrow> opts option" where
  "opt_proto b a = do {
     (x, m) \<leftarrow> flag_list proto_flags b (d_proto (cur a));
     Some ((if x then bad else id) (upd_cur (\<lambda>g. g\<lparr>d_proto := m\<rparr>) a)) }"

definition opt_mod_http :: "buf \<Rightarrow> opts \<Rightarrow> opts option" where
  "opt_mod_http b a = do {
     (x, m) \<leftarrow> flag_list http_flags b (d_mod_http (cur a));
     Some ((if x then bad else id) (upd_cur (\<lambda>g. g\<lparr>d_mod_http := m\<rparr>) a)) }"

definition opt_fake_mod :: "buf \<Rightarrow> opts \<Rightarrow> opts option" where
  "opt_fake_mod b a = do {
     (x, g) \<leftarrow> comma_loop fake_switch b 0 (cur a);
     Some ((if x then bad else id) (upd_cur (\<lambda>_. g) a)) }"

declare comma_loop.simps [code]

section \<open>Options without an argument, and those that keep theirs\<close>

definition opt_flag :: "byte \<Rightarrow> buf \<Rightarrow> opts \<Rightarrow> opts" where
  "opt_flag c b a =
     (if c = ch CHR ''N'' then upd_par (\<lambda>g. g\<lparr>g_resolve := False\<rparr>) a
      else if c = ch CHR ''X'' then upd_par (\<lambda>g. g\<lparr>g_ipv6 := False\<rparr>) a
      else if c = ch CHR ''U'' then upd_par (\<lambda>g. g\<lparr>g_udp := False\<rparr>) a
      else if c = ch CHR ''E'' then upd_par (\<lambda>g. g\<lparr>g_mode := 8\<rparr>) a
      else if c = ch CHR ''D'' then a\<lparr>a_daemonize := True\<rparr>
      else if c = ch CHR ''w'' then a\<lparr>a_pid_file := Some b\<rparr>
      else if c = ch CHR ''F'' then upd_par (\<lambda>g. g\<lparr>g_tfo := True\<rparr>) a
      else if c = ch CHR ''S'' then upd_cur (\<lambda>g. g\<lparr>d_md5sig := True\<rparr>) a
      else if c = ch CHR ''Y'' then upd_cur (\<lambda>g. g\<lparr>d_drop_sack := True\<rparr>) a
      else if c = ch CHR ''Z'' then upd_par (\<lambda>g. g\<lparr>g_wait_send := True\<rparr>) a
      else if c = ch CHR ''P'' then upd_par (\<lambda>g. g\<lparr>g_protect := Some (cstr b)\<rparr>) a
      else if c = ch CHR ''#'' then a\<lparr>a_str := (a_str a)(a_dp a := b)\<rparr>
      else a)"

section \<open>Numbers\<close>

text \<open>The options with one number: the value and the character behind it decide. \<open>-x\<close> and \<open>-W\<close> take any
  text.\<close>

definition set_port :: "int \<Rightarrow> byte \<Rightarrow> opts \<Rightarrow> opts" where
  "set_port v z a =
     (if v \<le> 0 \<or> v > 0xffff \<or> z \<noteq> 0 then bad a else a\<lparr>a_laddr := (a_laddr a)\<lparr>sa_port := v\<rparr>\<rparr>)"

definition set_sizes :: "byte \<Rightarrow> int \<Rightarrow> byte \<Rightarrow> opts \<Rightarrow> opts" where
  "set_sizes c v z a =
     (if c = ch CHR ''b'' then
        (if v \<le> 0 \<or> v > (2 ^ 31 - 1) div 4 \<or> z \<noteq> 0 then bad a else upd_par (\<lambda>g. g\<lparr>g_bfsize := v\<rparr>) a)
      else if c = ch CHR ''c'' then
        (if v \<le> 0 \<or> v \<ge> 0xffff div 2 \<or> z \<noteq> 0 then bad a else upd_par (\<lambda>g. g\<lparr>g_max_open := v\<rparr>) a)
      else
        (let a = upd_par (\<lambda>g. g\<lparr>g_debug := to_int v\<rparr>) a in if to_int v < 0 then bad a else a))"

definition set_cache :: "byte \<Rightarrow> int \<Rightarrow> byte \<Rightarrow> opts \<Rightarrow> opts" where
  "set_cache c v z a =
     (if c = ch CHR ''u'' then
        (if v \<le> 0 \<or> z \<noteq> 0 then bad a else upd_cur (\<lambda>g. g\<lparr>d_cache_ttl := v\<rparr>) a)
      else
        (if v < 0 \<or> v > 32 \<or> z \<noteq> 0 then bad a else upd_par (\<lambda>g. g\<lparr>g_cache_pre := 32 - v\<rparr>) a))"

definition set_ttl :: "int \<Rightarrow> byte \<Rightarrow> opts \<Rightarrow> opts" where
  "set_ttl v z a =
     (if v \<le> 0 \<or> v > 255 \<or> z \<noteq> 0 then bad a else upd_cur (\<lambda>g. g\<lparr>d_ttl := v\<rparr>) a)"

definition set_tls_udp :: "byte \<Rightarrow> int \<Rightarrow> byte \<Rightarrow> opts \<Rightarrow> opts" where
  "set_tls_udp c v z a =
     (if c = ch CHR ''m'' then
        (if v \<le> 0 \<or> v > 255 \<or> z \<noteq> 0 then bad a
         else upd_cur (\<lambda>g. g\<lparr>d_tlsminor := word_of_int v, d_tlsminor_set := True\<rparr>) a)
      else
        (if v < 0 \<or> v > 2 ^ 31 - 1 \<or> z \<noteq> 0 then bad a else upd_cur (\<lambda>g. g\<lparr>d_udp_fake_count := v\<rparr>) a))"

definition set_def_ttl :: "int \<Rightarrow> byte \<Rightarrow> opts \<Rightarrow> opts" where
  "set_def_ttl v z a =
     (if v \<le> 0 \<or> v > 255 \<or> z \<noteq> 0 then bad a
      else upd_par (\<lambda>g. g\<lparr>g_def_ttl := v, g_custom_ttl := True\<rparr>) a)"

definition set_number :: "byte \<Rightarrow> int \<Rightarrow> byte \<Rightarrow> opts \<Rightarrow> opts" where
  "set_number c v z a =
     (if c = ch CHR ''p'' then set_port v z a
      else if c \<in> {ch CHR ''b'', ch CHR ''c'', ch CHR ''x''} then set_sizes c v z a
      else if c \<in> {ch CHR ''u'', ch CHR ''/''} then set_cache c v z a
      else if c = ch CHR ''t'' then set_ttl v z a
      else if c \<in> {ch CHR ''m'', ch CHR ''a''} then set_tls_udp c v z a
      else set_def_ttl v z a)"

definition opt_number :: "byte \<Rightarrow> buf \<Rightarrow> opts \<Rightarrow> opts option" where
  "opt_number c b a = do {
     (v, end) \<leftarrow> strtol0 b 0;
     z \<leftarrow> rd b end;
     Some (set_number c v z a) }"

text \<open>\<open>-W\<close>, with \<open>atoi\<close>.\<close>

definition opt_await :: "buf \<Rightarrow> opts \<Rightarrow> opts option" where
  "opt_await b a = do {
     (v, _) \<leftarrow> strtol10 b 0;
     Some (upd_par (\<lambda>g. g\<lparr>g_await_int := to_int v\<rparr>) a) }"

text \<open>\<open>-V\<close> and \<open>-R\<close>: a number or a range. Without a second number the first counts for both.\<close>

definition opt_range :: "int \<Rightarrow> (int \<Rightarrow> int \<Rightarrow> dparams \<Rightarrow> dparams) \<Rightarrow> (int \<Rightarrow> dparams \<Rightarrow> dparams) \<Rightarrow> buf \<Rightarrow> opts \<Rightarrow> opts option" where
  "opt_range lim both one b a = do {
     (v, end) \<leftarrow> strtol0 b 0;
     if v \<le> 0 \<or> v > lim then Some (bad a)
     else do {
       c \<leftarrow> rd b end;
       (w, end) \<leftarrow> (if c = 45 then strtol0 b (end + 1) else Some (v, end));
       let a = (if w \<le> 0 \<or> w > lim then bad a else a);
       z \<leftarrow> rd b end;
       Some (if z \<noteq> 0 then bad (upd_cur (one v) a) else upd_cur (both v w) a) } }"

definition opt_ports :: "buf \<Rightarrow> opts \<Rightarrow> opts option" where
  "opt_ports = opt_range 65535
     (\<lambda>v w g. g\<lparr>d_pf := (swap16 v, swap16 (u16 w))\<rparr>) (\<lambda>v g. g\<lparr>d_pf := (swap16 v, snd (d_pf g))\<rparr>)"

definition opt_rounds :: "buf \<Rightarrow> opts \<Rightarrow> opts option" where
  "opt_rounds = opt_range (2 ^ 31 - 1)
     (\<lambda>v w g. g\<lparr>d_rounds := (v, to_int w)\<rparr>) (\<lambda>v g. g\<lparr>d_rounds := (v, snd (d_rounds g))\<rparr>)"

text \<open>\<open>-T\<close>: seconds, seconds between answers, how often and how many bytes.\<close>

definition float_at :: "'g env \<Rightarrow> int \<Rightarrow> buf \<Rightarrow> int \<Rightarrow> int \<times> int" where
  "float_at env k b i = (let (v, n) = e_float env k (drop (nat i) b) in (v, i + int n))"

text \<open>\<open>if (*end == ':') ... = strtof (end + 1, &end)\<close>\<close>

definition float_field ::
  "'g env \<Rightarrow> int \<Rightarrow> (int \<Rightarrow> params \<Rightarrow> params) \<Rightarrow> buf \<Rightarrow> int \<Rightarrow> opts \<Rightarrow> (opts \<times> int) option"
where
  "float_field env k f b end a = do {
     c \<leftarrow> rd b end;
     Some (if c = 58 then (let (v, end) = float_at env k b (end + 1) in (upd_par (f v) a, end)) else (a, end)) }"

definition opt_timeout :: "'g env \<Rightarrow> buf \<Rightarrow> opts \<Rightarrow> opts option" where
  "opt_timeout env b a = do {
     let (v, end) = float_at env 1000 b 0;
     let a = upd_par (\<lambda>g. g\<lparr>g_timeout := v mod 2 ^ 32\<rparr>) a;
     (a, end) \<leftarrow> float_field env 1000 (\<lambda>v g. g\<lparr>g_ptimeout := v mod 2 ^ 32\<rparr>) b end a;
     (a, end) \<leftarrow> float_field env 1 (\<lambda>v g. g\<lparr>g_to_count_lim := v\<rparr>) b end a;
     (a, end) \<leftarrow> float_field env 1 (\<lambda>v g. g\<lparr>g_to_bytes_lim := v\<rparr>) b end a;
     z \<leftarrow> rd b end;
     Some (if z \<noteq> 0 then bad a else a) }"

section \<open>Parts, data and files\<close>

text \<open>The options \<open>-s\<close>, \<open>-d\<close>, \<open>-o\<close>, \<open>-q\<close> and \<open>-f\<close>, \<open>-r\<close>, \<open>-O\<close>. After an error the options are not used, and
  what \<open>parse_offset\<close> left in the new part does not matter.\<close>

definition part_mode :: "byte \<Rightarrow> demode" where
  "part_mode c =
     (if c = ch CHR ''s'' then DESYNC_SPLIT
      else if c = ch CHR ''d'' then DESYNC_DISORDER
      else if c = ch CHR ''o'' then DESYNC_OOB
      else if c = ch CHR ''q'' then DESYNC_DISOOB
      else DESYNC_FAKE)"

definition opt_part :: "byte \<Rightarrow> buf \<Rightarrow> opts \<Rightarrow> opts option" where
  "opt_part c b a = do {
     r \<leftarrow> parse_offset part0 b;
     Some (case r of
         None \<Rightarrow> bad (upd_cur (\<lambda>g. g\<lparr>d_parts := d_parts g @ [part0]\<rparr>) a)
       | Some p \<Rightarrow> upd_cur (\<lambda>g. g\<lparr>d_parts := d_parts g @ [p\<lparr>p_m := part_mode c\<rparr>]\<rparr>) a) }"

definition opt_tlsrec :: "buf \<Rightarrow> opts \<Rightarrow> opts option" where
  "opt_tlsrec b a = do {
     r \<leftarrow> parse_offset part0 b;
     Some (case r of
         None \<Rightarrow> bad (upd_cur (\<lambda>g. g\<lparr>d_tlsrec := d_tlsrec g @ [part0]\<rparr>) a)
       | Some p \<Rightarrow>
           (let a = upd_cur (\<lambda>g. g\<lparr>d_tlsrec := d_tlsrec g @ [p]\<rparr>) a in if p_pos p > 0xffff then bad a else a)) }"

definition opt_fake_offset :: "buf \<Rightarrow> opts \<Rightarrow> opts option" where
  "opt_fake_offset b a = do {
     r \<leftarrow> parse_offset (d_fake_offset (cur a)) b;
     Some (case r of
         None \<Rightarrow> bad a
       | Some p \<Rightarrow> upd_cur (\<lambda>g. g\<lparr>d_fake_offset := p, d_fake_offset_on := True\<rparr>) a) }"

text \<open>\<open>-n\<close>, \<open>-l\<close> and \<open>-e\<close>.\<close>

definition opt_data :: "'g env \<Rightarrow> byte \<Rightarrow> buf \<Rightarrow> opts \<Rightarrow> opts option" where
  "opt_data env c b a =
     (if c = ch CHR ''n'' then Some (upd_cur (\<lambda>g. g\<lparr>d_fake_sni := d_fake_sni g @ [cstr b]\<rparr>) a)
      else if c = ch CHR ''l'' then
        (if pk_data (d_fake_data (cur a)) \<noteq> None then Some a
         else do {
           r \<leftarrow> ftob (e_files env) b;
           Some (case r of
               None \<Rightarrow> bad a
             | Some d \<Rightarrow> upd_cur (\<lambda>g. g\<lparr>d_fake_data := (d_fake_data g)\<lparr>pk_size := int (length d), pk_data := Some d\<rparr>\<rparr>) a) })
      else do {
        len \<leftarrow> strlen b 0;
        (d, n) \<leftarrow> parse_cform [fst (d_oob_char (cur a)), snd (d_oob_char (cur a))] 1 b len;
        Some (if n \<noteq> 1 then bad a else upd_cur (\<lambda>g. g\<lparr>d_oob_char := (d ! 0, 1)\<rparr>) a) })"

text \<open>\<open>-H\<close>, \<open>-j\<close> and \<open>-y\<close>.\<close>

definition opt_hosts :: "'g env \<Rightarrow> buf \<Rightarrow> opts \<Rightarrow> opts option" where
  "opt_hosts env b a = do {
     let hosts = (case d_hosts (cur a) of Some h \<Rightarrow> h | None \<Rightarrow> mem_pool MF_STATIC CMP_HOST);
     r \<leftarrow> ftob (e_files env) b;
     (case r of
        None \<Rightarrow> Some (bad (upd_cur (\<lambda>g. g\<lparr>d_hosts := Some hosts\<rparr>) a))
      | Some d \<Rightarrow> do {
          (hosts, _) \<leftarrow> parse_hosts hosts d (int (length d));
          Some (upd_cur (\<lambda>g. g\<lparr>d_hosts := Some hosts\<rparr>) a) }) }"

definition opt_ipset :: "'g env \<Rightarrow> buf \<Rightarrow> opts \<Rightarrow> opts option" where
  "opt_ipset env b a = do {
     r \<leftarrow> ftob (e_files env) b;
     (case r of
        None \<Rightarrow> Some (bad a)
      | Some d \<Rightarrow> do {
          let ipset = (case d_ipset (cur a) of Some h \<Rightarrow> h | None \<Rightarrow> mem_pool 0 CMP_BITS);
          ipset \<leftarrow> parse_ipset (e_pton env) ipset d (int (length d));
          Some (upd_cur (\<lambda>g. g\<lparr>d_ipset := Some ipset\<rparr>) a) }) }"

definition opt_cache :: "'g env \<Rightarrow> buf \<Rightarrow> opts \<Rightarrow> opts option" where
  "opt_cache env b a = do {
     let a = a\<lparr>a_cache_file := (a_cache_file a)(a_dp a := Some b)\<rparr>;
     if cstr b = [45] then Some a
     else
       (case e_files env (cstr b) of
          None \<Rightarrow> Some a
        | Some d \<Rightarrow> do {
            pool \<leftarrow> load_cache (e_pton env) (s_pool (a_st a)) d (a_dp a);
            Some (upd_st (\<lambda>s. s\<lparr>s_pool := pool\<rparr>) a) }) }"

section \<open>Addresses\<close>

text \<open>\<open>-i\<close>, \<open>-I\<close> and \<open>-C\<close>. \<open>out_type\<close> is 16 bits wide.\<close>

definition OUT_SUPPORT :: int where "OUT_SUPPORT = 65"

definition opt_ip :: "buf \<Rightarrow> opts \<Rightarrow> opts option" where
  "opt_ip b a = do {
     (mode, addr, s) \<leftarrow> get_addr_scheme b (a_laddr a) (a_st a);
     let a = a\<lparr>a_laddr := addr, a_st := s\<rparr>;
     Some (if mode < 0 then bad a else upd_par (\<lambda>g. g\<lparr>g_mode := g_mode g OR mode\<rparr>) a) }"

definition opt_conn_ip :: "buf \<Rightarrow> opts \<Rightarrow> opts option" where
  "opt_conn_ip b a = do {
     (r, addr, s) \<leftarrow> get_addr b (g_baddr (s_par (a_st a))) (a_st a);
     let a = upd_par (\<lambda>g. g\<lparr>g_baddr := addr\<rparr>) (a\<lparr>a_st := s\<rparr>);
     Some (if r < 0 then bad a else a) }"

definition opt_connect_to :: "buf \<Rightarrow> opts \<Rightarrow> opts option" where
  "opt_connect_to b a = do {
     (mode, addr, s) \<leftarrow> get_addr_scheme b (d_out_addr (cur a)) (a_st a);
     let t = mode mod 65536;
     let a = a\<lparr>a_st := s\<rparr>;
     let a = (if t AND OUT_SUPPORT \<noteq> t \<or> sa_port addr = 0 then bad a else a);
     let a = upd_cur (\<lambda>g. g\<lparr>d_out_type := (if t = 0 then MODE_SOCKS5 else t), d_out_addr := addr\<rparr>) a;
     Some (upd_par (\<lambda>g. g\<lparr>g_delay_conn := True\<rparr>) a) }"

section \<open>Groups of options\<close>

text \<open>\<open>-A\<close> starts a new group. While the options of an older group are repeated, the next \<open>-A\<close> goes back to where
  the repetition was asked for. Around the loop: whether the group that ends has limits, and what is noted
  of the new one.\<close>

definition note_limits :: "opts \<Rightarrow> opts" where
  "note_limits a =
     (let dp = cur a in
      if d_hosts dp \<noteq> None \<or> d_proto dp \<noteq> 0 \<or> fst (d_pf dp) \<noteq> 0 \<or> d_detect dp \<noteq> 0 \<or> d_ipset dp \<noteq> None
      then a else a\<lparr>a_all_limited := False\<rparr>)"

definition end_auto :: "bool \<Rightarrow> int \<Rightarrow> opts \<Rightarrow> opts" where
  "end_auto x ind a =
     (let a = (if x then bad a else a);
          a = (if d_detect (cur a) \<noteq> 0 then upd_par (\<lambda>p. p\<lparr>g_auto_reconnect := True\<rparr>) a else a) in
      a\<lparr>a_optind := (a_optind a)(a_dp a := ind)\<rparr>)"

definition opt_auto :: "'g env \<Rightarrow> buf \<Rightarrow> 'g \<Rightarrow> opts \<Rightarrow> (opts \<times> 'g) option" where
  "opt_auto env b g a =
     (if e_optind env g < a_curr_optind a then Some (a, e_set_optind env (a_curr_optind a) g)
      else do {
        let a = note_limits a;
        a \<leftarrow> add_group (Some (a_dp a)) a;
        (x, a) \<leftarrow> comma_loop (auto_switch env) b 0 a;
        Some (end_auto x (e_optind env g) a, g) })"

text \<open>\<open>-B\<close>: the search for the group, and the jump back to its options.\<close>

partial_function (option) find_group :: "(nat \<Rightarrow> dparams) \<Rightarrow> int \<Rightarrow> nat option \<Rightarrow> nat option option" where
  "find_group dps n it =
     (case it of
        None \<Rightarrow> Some None
      | Some d \<Rightarrow> if d_id (dps d) \<noteq> n then find_group dps n (d_next (dps d)) else Some (Some d))"

definition opt_copy :: "'g env \<Rightarrow> buf \<Rightarrow> 'g \<Rightarrow> opts \<Rightarrow> (opts \<times> 'g) option" where
  "opt_copy env b g a =
     (if e_optind env g < a_curr_optind a then Some (a, g)
      else do {
        c \<leftarrow> rd b 0;
        if c = ch CHR ''i'' then Some (upd_cur (\<lambda>d. d\<lparr>d_pf := (swap16 1, snd (d_pf d))\<rparr>) a, g)
        else do {
          (v, _) \<leftarrow> strtol0 b 0;
          it \<leftarrow> find_group (s_dp (a_st a)) (v - 1) (g_dp (s_par (a_st a)));
          Some (case it of
              None \<Rightarrow> (bad a, g)
            | Some d \<Rightarrow> (a\<lparr>a_curr_optind := e_optind env g\<rparr>, e_set_optind env (a_optind a d) g)) } })"

section \<open>The loop over the options\<close>

definition chars :: "string \<Rightarrow> byte list" where
  "chars = map ch"

text \<open>The \<open>switch\<close> of \<open>parse_args\<close>: \<open>Inl\<close> is a return.\<close>

definition parse_opt :: "'g env \<Rightarrow> byte \<Rightarrow> buf \<Rightarrow> 'g \<Rightarrow> opts \<Rightarrow> (int + opts \<times> 'g) option" where
  "parse_opt env c b g a =
     (let go = map_option (\<lambda>a. Inr (a, g)) in
      if c \<in> set (chars ''NXUEDwFSYZP#'') then go (Some (opt_flag c b a))
      else if c \<in> set (chars ''pbcxu/tmag'') then go (opt_number c b a)
      else if c = ch CHR ''L'' then go (opt_auto_mode b a)
      else if c = ch CHR ''K'' then go (opt_proto b a)
      else if c = ch CHR ''M'' then go (opt_mod_http b a)
      else if c = ch CHR ''Q'' then go (opt_fake_mod b a)
      else if c \<in> set (chars ''sdoqf'') then go (opt_part c b a)
      else if c \<in> set (chars ''nle'') then go (opt_data env c b a)
      else if c = ch CHR ''i'' then go (opt_ip b a)
      else if c = ch CHR ''I'' then go (opt_conn_ip b a)
      else if c = ch CHR ''C'' then go (opt_connect_to b a)
      else if c = ch CHR ''A'' then map_option Inr (opt_auto env b g a)
      else if c = ch CHR ''B'' then map_option Inr (opt_copy env b g a)
      else if c = ch CHR ''T'' then go (opt_timeout env b a)
      else if c = ch CHR ''V'' then go (opt_ports b a)
      else if c = ch CHR ''R'' then go (opt_rounds b a)
      else if c = ch CHR ''W'' then go (opt_await b a)
      else if c = ch CHR ''H'' then go (opt_hosts env b a)
      else if c = ch CHR ''j'' then go (opt_ipset env b a)
      else if c = ch CHR ''y'' then go (opt_cache env b a)
      else if c = ch CHR ''r'' then go (opt_tlsrec b a)
      else if c = ch CHR ''O'' then go (opt_fake_offset b a)
      else if c = 0 then Some (Inr (a, g))
      else Some (Inl (if c = ch CHR ''h'' \<or> c = ch CHR ''v'' then 1 else - 1)))"

partial_function (option) arg_loop :: "'g env \<Rightarrow> 'g \<Rightarrow> opts \<Rightarrow> (int option \<times> opts) option" where
  "arg_loop env g a =
     (if a_invalid a then Some (None, a)
      else
        (case e_getopt env short_opts options g of
           (None, _) \<Rightarrow> Some (None, a)
         | (Some (c, b), g) \<Rightarrow> do {
             r \<leftarrow> parse_opt env c b g a;
             (case r of Inl r \<Rightarrow> Some (Some r, a) | Inr (a, g) \<Rightarrow> arg_loop env g a) }))"

text \<open>What \<open>parse_args\<close> does before the loop, and after it. A group without limits is added when every group
  has some.\<close>

definition default_port :: "opts \<Rightarrow> opts" where
  "default_port a = (if sa_port (a_laddr a) = 0 then a\<lparr>a_laddr := (a_laddr a)\<lparr>sa_port := 1080\<rparr>\<rparr> else a)"

definition check_ipv6 :: "opts \<Rightarrow> opts" where
  "check_ipv6 a =
     (let (v6, s) = ipv6_support (a_st a); a = a\<lparr>a_st := s\<rparr> in
      if v6 then a else upd_par (\<lambda>g. g\<lparr>g_baddr := (g_baddr g)\<lparr>sa_family := AF_INET\<rparr>\<rparr>) a)"

definition start_args :: "opts \<Rightarrow> opts option" where
  "start_args a = do {
     let a = check_ipv6 (default_port a);
     let a = upd_st (\<lambda>s. s\<lparr>s_pool := mem_pool MF_EXTRA CMP_BITS\<rparr>) (a\<lparr>a_all_limited := True, a_curr_optind := 1, a_invalid := False\<rparr>);
     a \<leftarrow> add_group None a;
     Some (upd_par (\<lambda>g. g\<lparr>g_dp := Some (a_dp a)\<rparr>) a) }"

definition end_args :: "opts \<Rightarrow> (int \<times> opts) option" where
  "end_args a =
     (if a_invalid a then Some (- 1, a)
      else do {
        a \<leftarrow> (if a_all_limited a then add_group (Some (a_dp a)) a else Some a);
        let a = upd_par (\<lambda>g. if sa_family (g_baddr g) \<noteq> AF_INET6 then g\<lparr>g_ipv6 := False\<rparr> else g) a;
        Some (0, upd_par (\<lambda>g. if g_mode g = 0 then g\<lparr>g_mode := 2 OR 1\<rparr> else g) a) })"

definition parse_args :: "'g env \<Rightarrow> 'g \<Rightarrow> opts \<Rightarrow> (int \<times> opts) option" where
  "parse_args env g a = do {
     a \<leftarrow> start_args a;
     (r, a) \<leftarrow> arg_loop env g a;
     (case r of Some r \<Rightarrow> Some (r, a) | None \<Rightarrow> end_args a) }"

declare find_group.simps [code] arg_loop.simps [code]

end
