(* ===== verification/Hooks.thy ===== *)
theory Hooks
  imports Extend
begin

unbundle bit_operations_syntax

text \<open>
  The rest of \<open>src/extend.c\<close>: what happens when a group fails (\<open>on_trigger\<close> and its callers), the timer
  that watches TLS records, and the hooks around \<open>send\<close> and \<open>recv\<close>.
\<close>

section \<open>A failed group\<close>

text \<open>\<open>d->next = x\<close> and \<open>d->prev = x\<close>, if \<open>d\<close> is not null.\<close>

definition set_next :: "nat option \<Rightarrow> nat option \<Rightarrow> st \<Rightarrow> st" where
  "set_next d x s = (case d of None \<Rightarrow> s | Some d \<Rightarrow> upd_dp d (\<lambda>g. g\<lparr>d_next := x\<rparr>) s)"

definition set_prev :: "nat option \<Rightarrow> nat option \<Rightarrow> st \<Rightarrow> st" where
  "set_prev d x s = (case d of None \<Rightarrow> s | Some d \<Rightarrow> upd_dp d (\<lambda>g. g\<lparr>d_prev := x\<rparr>) s)"

definition set_level :: "nat \<Rightarrow> int \<Rightarrow> int \<Rightarrow> st \<Rightarrow> st" where
  "set_level d detect level s = upd_dp d (\<lambda>g. g\<lparr>d_detect := detect, d_auto_level := level\<rparr>) s"

text \<open>The links of \<open>swop_groups\<close>: those of the two groups and around them, and those between.\<close>

definition swop_outer :: "nat \<Rightarrow> nat \<Rightarrow> st \<Rightarrow> st" where
  "swop_outer dpc dpn s =
     (let c = s_dp s dpc; n = s_dp s dpn;
          s = set_prev (Some dpc) (d_prev n) (set_next (Some dpc) (d_next n) s);
          s = set_next (Some dpn) (d_next c) (set_prev (Some dpn) (d_prev c) s);
          s = set_next (d_prev (s_dp s dpn)) (Some dpn) s in
      set_prev (d_next (s_dp s dpc)) (Some dpc) s)"

definition swop_links :: "nat \<Rightarrow> nat \<Rightarrow> st \<Rightarrow> st option" where
  "swop_links dpc dpn s =
     (let next = d_next (s_dp s dpc); s = swop_outer dpc dpn s in
      if next \<noteq> Some dpn then do {
        q \<leftarrow> d_next (s_dp s dpn);
        let s = set_prev (Some q) (Some dpn) s;
        p \<leftarrow> d_prev (s_dp s dpc);
        Some (set_next (Some p) (Some dpc) s) }
      else Some (set_next (Some dpn) (Some dpc) (set_prev (Some dpc) (Some dpn) s)))"

definition swop_groups :: "nat \<Rightarrow> nat \<Rightarrow> st \<Rightarrow> st option" where
  "swop_groups dpc dpn s =
     (let c = s_dp s dpc in do {
      s \<leftarrow> swop_links dpc dpn s;
      let s = set_level dpc (d_detect (s_dp s dpn)) (d_auto_level (s_dp s dpn)) s;
      let s = set_level dpn (d_detect c) (d_auto_level c) s;
      Some (if g_dp (s_par s) = Some dpc then s\<lparr>s_par := (s_par s)\<lparr>g_dp := Some dpn\<rparr>\<rparr> else s) })"

text \<open>The search for the next group: the group, \<open>uncheked\<close> and \<open>dp_mask\<close>.\<close>

partial_function (option) trigger_loop ::
  "(nat \<Rightarrow> dparams) \<Rightarrow> int \<Rightarrow> bool \<Rightarrow> nat option \<Rightarrow> 64 word \<Rightarrow> 64 word \<Rightarrow>
    (nat option \<times> 64 word \<times> 64 word) option"
where
  "trigger_loop dps type can dp unch mk =
     (case dp of
        None \<Rightarrow> Some (None, unch, mk)
      | Some d \<Rightarrow>
          (let g = dps d in
           if unch = 0 \<and> d_detect g = 0 then Some (None, unch, mk)
           else if d_bit g AND mk = 0 \<and> (d_detect g = 0 \<or> has_flag (d_detect g) type) \<and>
             (\<not> has_flag (d_auto_level g) AUTO_ONRECONN \<or> can) then Some (Some d, unch, mk)
           else trigger_loop dps type can (d_next g) (unch AND NOT (d_bit g)) (mk OR d_bit g)))"

definition note_failure :: "nat \<Rightarrow> int \<Rightarrow> nat \<Rightarrow> st \<Rightarrow> st" where
  "note_failure l type d s =
     upd_ev l (\<lambda>e. e\<lparr>v_dp_mask := v_dp_mask e OR d_bit (s_dp s d), v_detect := type\<rparr>)
       (upd_dp d (\<lambda>g. g\<lparr>d_fail_count := d_fail_count g + 1\<rparr>) s)"

text \<open>The priority of the failed group \<open>d\<close>, and its exchange with the next one.\<close>

definition rank_groups :: "nat \<Rightarrow> nat option \<Rightarrow> 64 word \<Rightarrow> elem \<Rightarrow> st \<Rightarrow> st option" where
  "rank_groups d nxt unch cache s =
     (if d_bit (s_dp s d) AND e_dp_mask cache = 0 then do {
        s \<leftarrow> (case nxt of
                None \<Rightarrow> Some s
              | Some n \<Rightarrow>
                  if has_flag (d_auto_level (s_dp s n)) AUTO_SORT \<and> d_pri (s_dp s d) > d_pri (s_dp s n) \<and>
                     d_bit (s_dp s d) AND unch = 0
                  then swop_groups d n s else Some s);
        Some (upd_dp d (\<lambda>g. g\<lparr>d_pri := d_pri g + 1\<rparr>) s) }
      else Some s)"

definition on_trigger :: "int \<Rightarrow> nat \<Rightarrow> bool \<Rightarrow> st \<Rightarrow> (int \<times> st) option" where
  "on_trigger type v client_alive s = do {
     l \<leftarrow> v_pair (s_ev s v);
     let lav = s_ev s l;
     let before_req = (v_recv_count lav = 0 \<and> v_recv_count (s_ev s v) = 0);
     let can_reconn = ((v_sq_buff lav \<noteq> None \<or> before_req) \<and> client_alive);
     (cache, host, s) \<leftarrow> cache_add (v_addr (s_ev s v)) (v_host lav) s;
     let s = upd_ev l (\<lambda>e. e\<lparr>v_host := host\<rparr>) s;
     d \<leftarrow> v_dp lav;
     let s = note_failure l type d s;
     (nxt, unch, mk) \<leftarrow> trigger_loop (s_dp s) type can_reconn (g_dp (s_par s))
       (v_dp_mask (s_ev s l)) (v_dp_mask (s_ev s l));
     let s = upd_ev l (\<lambda>e. e\<lparr>v_dp_mask := mk\<rparr>) s;
     s \<leftarrow> rank_groups d nxt unch cache s;
     (case nxt of
        None \<Rightarrow>
          Some (- 1, pool_set cache (cache\<lparr>e_dp_mask := 0, e_detect := 0, e_dp := g_dp (s_par s)\<rparr>) s)
      | Some n \<Rightarrow>
          (let s = pool_set cache (cache\<lparr>e_dp_mask := e_dp_mask cache OR mk, e_detect := type, e_dp := Some n\<rparr>) s in
           if \<not> has_flag (d_auto_level (s_dp s n)) AUTO_NORECONN \<and> can_reconn then reconnect v s
           else Some (- 1, s))) }"

definition on_torst :: "nat \<Rightarrow> st \<Rightarrow> (int \<times> st) option" where
  "on_torst v s = do {
     (r, s) \<leftarrow> on_trigger DETECT_TORST v True s;
     if r = 0 then Some (0, s)
     else do {
       p \<leftarrow> v_pair (s_ev s v);
       Some (- 1, snd (sys (CSetopt (v_fd (s_ev s p)) ''SO_LINGER'' 1) s)) } }"

definition on_fin :: "nat \<Rightarrow> st \<Rightarrow> (int \<times> st) option" where
  "on_fin v s =
     (let is_client = (v_flag (s_ev s v) \<noteq> FLAG_CONN) in
      case (if is_client then v_pair (s_ev s v) else Some v) of
        None \<Rightarrow> Some (- 1, s)
      | Some v \<Rightarrow> do {
          p \<leftarrow> v_pair (s_ev s v);
          if \<not> (v_mark (s_ev s p) \<and> v_round_count (s_ev s v) \<le> 1) then Some (- 1, s)
          else do {
            (r, s) \<leftarrow> on_trigger DETECT_TLS_ERR v (\<not> is_client) s;
            Some (if r = 0 then 0 else - 1, s) } })"

definition on_timeout :: "nat \<Rightarrow> st \<Rightarrow> (int \<times> st) option" where
  "on_timeout v s =
     (let s = upd_ev v (\<lambda>e. e\<lparr>v_to_count := v_to_count e + 1\<rparr>) s in
      if v_to_count (s_ev s v) \<ge> g_to_count_lim (s_par s) then on_torst v s
      else do { s \<leftarrow> set_timer v (g_ptimeout (s_par s)) s; Some (0, s) })"

definition on_connerr :: "nat \<Rightarrow> st \<Rightarrow> (int \<times> st) option" where
  "on_connerr v s = on_trigger DETECT_CONNECT v True s"

definition handle_err :: "nat \<Rightarrow> int \<Rightarrow> st \<Rightarrow> (int \<times> st) option" where
  "handle_err v e s =
     (if e = ECONNRESET \<or> e = ECONNREFUSED \<or> e = ETIMEDOUT \<or> e = EHOSTUNREACH then
        (if v_flag (s_ev s v) = FLAG_CONN then on_torst v s else on_fin v s)
      else Some (- 1, s))"

section \<open>Looking at the response\<close>

text \<open>The loop over the groups: the first one that reacts to this response.\<close>

definition resp_suits :: "dparams \<Rightarrow> buf \<Rightarrow> int \<Rightarrow> buf \<Rightarrow> int \<Rightarrow> bool option" where
  "resp_suits g req qn resp sn = do {
     r \<leftarrow> (if has_flag (d_detect g) DETECT_HTTP_LOCAT then is_http_redirect req qn resp sn else Some False);
     if r then Some True
     else if has_flag (d_detect g) DETECT_TLS_ERR then do {
       c \<leftarrow> is_tls_chello req qn;
       h \<leftarrow> (if c then is_tls_shello resp sn else Some True);
       if \<not> h then Some True else neq_tls_sid req qn resp sn }
     else Some False }"

partial_function (option) response_loop ::
  "(nat \<Rightarrow> dparams) \<Rightarrow> 64 word \<Rightarrow> buf \<Rightarrow> int \<Rightarrow> buf \<Rightarrow> int \<Rightarrow> nat option \<Rightarrow> nat option option"
where
  "response_loop dps mk req qn resp sn dp =
     (case dp of
        None \<Rightarrow> Some None
      | Some d \<Rightarrow>
          if d_bit (dps d) AND mk \<noteq> 0 then response_loop dps mk req qn resp sn (d_next (dps d))
          else do {
            r \<leftarrow> resp_suits (dps d) req qn resp sn;
            if r then Some (Some d) else response_loop dps mk req qn resp sn (d_next (dps d)) })"

definition on_response :: "nat \<Rightarrow> buf \<Rightarrow> int \<Rightarrow> st \<Rightarrow> (int \<times> st) option" where
  "on_response v resp sn s = do {
     c \<leftarrow> v_pair (s_ev s v);
     sq \<leftarrow> v_sq_buff (s_ev s c);
     d \<leftarrow> v_dp (s_ev s c);
     let s = upd_ev c (\<lambda>e. e\<lparr>v_dp_mask := v_dp_mask e OR d_bit (s_dp s d)\<rparr>) s;
     dp \<leftarrow> response_loop (s_dp s) (v_dp_mask (s_ev s c)) (b_data sq) (b_size sq) resp sn (g_dp (s_par s));
     (case dp of
        None \<Rightarrow> Some (- 1, s)
      | Some d \<Rightarrow> on_trigger (d_detect (s_dp s d)) v True s) }"

text \<open>The loop of \<open>try_set_tls_timer\<close> over \<open>tls_rec\<close>, \<open>tls_rec_pos\<close>, \<open>tls_rec_size\<close> and \<open>pos\<close>: \<open>False\<close> is
  a bad record. The condition is at the end: \<open>continue\<close> goes there.\<close>

partial_function (option) tls_timer_loop ::
  "buf \<Rightarrow> int \<Rightarrow> buf \<Rightarrow> int \<Rightarrow> int \<Rightarrow> int \<Rightarrow> (bool \<times> buf \<times> int \<times> int) option"
where
  "tls_timer_loop b n rc rp rs pos =
     (if rp < 5 then do {
        x \<leftarrow> rd b pos;
        rc \<leftarrow> wr rc rp x;
        if pos + 1 < n then tls_timer_loop b n rc (rp + 1) rs (pos + 1)
        else Some (True, rc, rp + 1, rs) }
      else if rp \<noteq> 5 \<and> rp = rs then
        (if pos < n then tls_timer_loop b n rc 0 0 pos else Some (True, rc, 0, 0))
      else do {
        sz \<leftarrow> (if rp = 5 then map_option (\<lambda>x. x + 5) (rd16 rc 3) else Some rs);
        t \<leftarrow> rd rc 0;
        if rp = 5 \<and> (uint t < 0x14 \<or> uint t > 0x18) then Some (False, rc, rp, sz)
        else
          (let e = sz - rp in
           if e \<le> 0 then Some (False, rc, rp, sz)
           else
             (let e = (if pos + e > n then n - pos else e) in
              if pos + e < n then tls_timer_loop b n rc (rp + e) sz (pos + e)
              else Some (True, rc, rp + e, sz))) })"

definition try_set_tls_timer :: "nat \<Rightarrow> buf \<Rightarrow> int \<Rightarrow> st \<Rightarrow> (int \<times> st) option" where
  "try_set_tls_timer v b n s =
     (let lim = g_to_bytes_lim (s_par s) in
      if lim \<noteq> 0 \<and> v_recv_count (s_ev s v) > lim then Some (- 1, remove_timer v s)
      else do {
        let e = s_ev s v;
        (ok, rc, rp, rs) \<leftarrow> tls_timer_loop b n (v_tls_rec e) (v_tls_rec_pos e) (v_tls_rec_size e) 0;
        let s = upd_ev v (\<lambda>e. e\<lparr>v_tls_rec := rc, v_tls_rec_pos := rp, v_tls_rec_size := rs\<rparr>) s;
        if \<not> ok then Some (- 1, s)
        else if g_ptimeout (s_par s) \<noteq> 0 then do {
          let s = remove_timer v s;
          s \<leftarrow> (if rp \<noteq> rs then set_timer v (g_ptimeout (s_par s)) s else Some s);
          Some (0, s) }
        else Some (0, s) })"

section \<open>Sending\<close>

definition free_first_req :: "nat \<Rightarrow> st \<Rightarrow> st" where
  "free_first_req c s = upd_ev c (\<lambda>e. e\<lparr>v_sq_buff := None\<rparr>) (buff_push (v_sq_buff (s_ev s c)) s)"

text \<open>A negative length makes \<open>malloc\<close> fail.\<close>

definition save_hostname :: "nat \<Rightarrow> buf \<Rightarrow> int \<Rightarrow> st \<Rightarrow> st option" where
  "save_hostname c b n s =
     (if v_host (s_ev s c) \<noteq> None then Some s
      else do {
        (len, host) \<leftarrow> parse_tls b n;
        (len, host) \<leftarrow>
          (if len \<noteq> 0 then Some (len, host)
           else do {
             (len, host', _) \<leftarrow> parse_http b n False;
             Some (len, if host' = None then host else host') });
        if len \<le> 0 then Some s
        else do {
          h \<leftarrow> host;
          name \<leftarrow> rdn b h len;
          Some (upd_ev c (\<lambda>e. e\<lparr>v_host := Some name\<rparr>) s) } })"

definition setup_conn :: "nat \<Rightarrow> buf \<Rightarrow> int \<Rightarrow> st \<Rightarrow> (int \<times> st) option" where
  "setup_conn c b n s = do {
     p \<leftarrow> v_pair (s_ev s c);
     (dp, s) \<leftarrow> find_dp c (Some (b, n)) (v_addr (s_ev s p)) s;
     (case dp of
        None \<Rightarrow> Some (- 1, s)
      | Some d \<Rightarrow> do {
          s \<leftarrow> save_hostname c b n s;
          m \<leftarrow> is_tls_chello b n;
          let s = upd_ev c (\<lambda>e. e\<lparr>v_mark := m, v_dp := Some d\<rparr>) s;
          let fd = v_fd (s_ev s p);
          let (t, s) = (if g_timeout (s_par s) \<noteq> 0 then set_timeout fd (g_timeout (s_par s)) s else (0, s));
          if t \<noteq> 0 then Some (- 1, s)
          else (let (r, s) = pre_desync fd (s_dp s d) s in Some (if r \<noteq> 0 then - 1 else 0, s)) }) }"

definition cancel_setup :: "nat \<Rightarrow> st \<Rightarrow> (int \<times> st) option" where
  "cancel_setup r s = do {
     c \<leftarrow> v_pair (s_ev s r);
     d \<leftarrow> v_dp (s_ev s c);
     let (x, s) = post_desync (v_fd (s_ev s r)) (s_dp s d) s;
     Some (if x \<noteq> 0 then - 1 else 0, s) }"

text \<open>The buffer that is sent is the one of the connection \<open>w\<close>. \<open>np\<close> is \<open>None\<close> when \<open>n\<close> points to the
  lock of that buffer, and a local value otherwise. The result: what is returned, \<open>*n\<close> and \<open>*wait\<close>.\<close>

definition plain_send :: "nat \<Rightarrow> buffer \<Rightarrow> int \<Rightarrow> st \<Rightarrow> (int \<times> st) option" where
  "plain_send r b n s = do {
     d \<leftarrow> rdn (b_data b) (b_offset b) (n - b_offset b);
     Some (sys_send (v_fd (s_ev s r)) d False s) }"

definition desync_send :: "nat \<Rightarrow> nat \<Rightarrow> int option \<Rightarrow> bool \<Rightarrow> st \<Rightarrow> (int \<times> int \<times> bool \<times> st) option" where
  "desync_send r w np wait s = do {
     b \<leftarrow> v_buff (s_ev s w);
     (res, s) \<leftarrow> desync r b (case np of None \<Rightarrow> b_lock b | Some n \<Rightarrow> n) wait s;
     let b = (case np of None \<Rightarrow> (ds_buff res)\<lparr>b_lock := ds_n res\<rparr> | Some _ \<Rightarrow> ds_buff res);
     Some (ds_ret res, ds_n res, ds_wait res, upd_ev w (\<lambda>e. e\<lparr>v_buff := Some b\<rparr>) s) }"

definition tcp_send_hook :: "nat \<Rightarrow> nat \<Rightarrow> int option \<Rightarrow> bool \<Rightarrow> st \<Rightarrow> (int \<times> int \<times> bool \<times> st) option" where
  "tcp_send_hook r w np wait s = do {
     b \<leftarrow> v_buff (s_ev s w);
     let n = (case np of None \<Rightarrow> b_lock b | Some n \<Rightarrow> n);
     (ok, skip, s) \<leftarrow>
       (if v_flag (s_ev s r) \<noteq> FLAG_CONN then Some (True, True, s)
        else do {
          c \<leftarrow> v_pair (s_ev s r);
          (x, s) \<leftarrow> (if v_recv_count (s_ev s c) = n then setup_conn c (b_data b) n s else Some (0, s));
          if x < 0 then Some (False, True, s)
          else do {
            d \<leftarrow> v_dp (s_ev s c);
            Some (True, \<not> check_round (d_rounds (s_dp s d)) (v_round_count (s_ev s c)), s) } });
     if \<not> ok then Some (- 1, n, wait, s)
     else do {
       (sn, n, wait, s) \<leftarrow>
         (if skip then do { (sn, s) \<leftarrow> plain_send r b n s; Some (sn, n, wait, s) }
          else desync_send r w np wait s);
       if skip \<and> sn < 0 \<and> s_errno s = EAGAIN then Some (0, n, wait, s)
       else if sn < 0 then do {
         (x, s) \<leftarrow> handle_err r (s_errno s) s;
         Some (x, n, wait, s) }
       else do {
         p \<leftarrow> v_pair (s_ev s r);
         Some (sn, n, wait, upd_ev p (\<lambda>e. e\<lparr>v_round_sent := v_round_sent e + sn\<rparr>) s) } } }"

section \<open>Receiving\<close>

definition new_round :: "nat \<Rightarrow> st \<Rightarrow> st" where
  "new_round v s =
     (if v_round_sent (s_ev s v) = 0 then
        (let s = upd_ev v (\<lambda>e. e\<lparr>v_round_count := v_round_count e + 1\<rparr>) s in
         case v_pair (s_ev s v) of
           None \<Rightarrow> s | Some p \<Rightarrow> upd_ev p (\<lambda>e. e\<lparr>v_round_sent := 0, v_part_sent := 0\<rparr>) s)
      else s)"

text \<open>What \<open>tcp_recv_hook\<close> does with data from the server; \<open>None\<close> in the result: go on.\<close>

definition recv_remote :: "nat \<Rightarrow> buf \<Rightarrow> int \<Rightarrow> st \<Rightarrow> (int option \<times> st) option" where
  "recv_remote v b n s = do {
     c \<leftarrow> v_pair (s_ev s v);
     s \<leftarrow> (if v_mark (s_ev s c) then do {
             (t, s) \<leftarrow> try_set_tls_timer v b n s;
             Some (if t \<noteq> 0 then upd_ev c (\<lambda>e. e\<lparr>v_mark := False\<rparr>) s else s) }
           else Some s);
     let g = s_par s;
     let s = (if v_to_count (s_ev s v) \<ge> 0 \<and> g_timeout g \<noteq> 0 \<and> g_to_bytes_lim g \<noteq> 0 \<and>
                 v_recv_count (s_ev s v) > g_to_bytes_lim g
              then upd_ev v (\<lambda>e. e\<lparr>v_to_count := - 1\<rparr>) (snd (set_timeout (v_fd (s_ev s v)) 0 s)) else s);
     if v_sq_buff (s_ev s c) \<noteq> None then do {
       (r, s) \<leftarrow> on_response v b n s;
       if r = 0 then Some (Some 0, s)
       else do {
         c \<leftarrow> v_pair (s_ev s v);
         Some (None, free_first_req c s) } }
     else Some (None, s) }"

text \<open>What it does with data from the client: they are kept, as long as they fit.\<close>

definition recv_client :: "nat \<Rightarrow> buffer \<Rightarrow> int \<Rightarrow> st \<Rightarrow> st option" where
  "recv_client v b n s =
     (if g_auto_reconnect (s_par s) \<and> (v_sq_buff (s_ev s v) \<noteq> None \<or> v_recv_count (s_ev s v) = n) then
        (let (sq, s) = (case v_sq_buff (s_ev s v) of Some sq \<Rightarrow> (sq, s) | None \<Rightarrow> buff_pop (b_size b) s);
             sq = sq\<lparr>b_lock := b_lock sq + n\<rparr> in
         if b_lock sq \<ge> b_size sq then Some (free_first_req v (upd_ev v (\<lambda>e. e\<lparr>v_sq_buff := Some sq\<rparr>) s))
         else do {
           d \<leftarrow> rdn (b_data b) 0 n;
           data \<leftarrow> wrn (b_data sq) (b_lock sq - n) d;
           Some (upd_ev v (\<lambda>e. e\<lparr>v_sq_buff := Some (sq\<lparr>b_data := data\<rparr>)\<rparr>) s) })
      else Some s)"

text \<open>The first round that is not to be changed any more.\<close>

definition last_round :: "nat \<Rightarrow> st \<Rightarrow> bool option" where
  "last_round v s =
     (if v_flag (s_ev s v) = FLAG_CONN \<and> v_round_sent (s_ev s v) = 0 then do {
        c \<leftarrow> v_pair (s_ev s v);
        d \<leftarrow> v_dp (s_ev s c);
        let nr = d_rounds (s_dp s d);
        let r = v_round_count (s_ev s v);
        Some (check_round nr r \<and> \<not> check_round nr (r + 1)) }
      else Some False)"

definition tcp_recv_hook :: "nat \<Rightarrow> st \<Rightarrow> (int \<times> st) option" where
  "tcp_recv_hook v s = do {
     b \<leftarrow> v_buff (s_ev s v);
     let (n, d, s) = sys_recv (v_fd (s_ev s v)) (b_size b) s;
     if n < 1 then
       (if n = 0 then on_fin v s
        else if s_errno s = EAGAIN then Some (0, s)
        else handle_err v (s_errno s) s)
     else do {
       data \<leftarrow> wrn (b_data b) 0 d;
       let b = b\<lparr>b_data := data\<rparr>;
       let s = upd_ev v (\<lambda>e. e\<lparr>v_buff := Some b, v_recv_count := v_recv_count e + n\<rparr>) s;
       let s = new_round v s;
       cancel \<leftarrow> last_round v s;
       (x, s) \<leftarrow> (if cancel then cancel_setup v s else Some (0, s));
       if x \<noteq> 0 then Some (- 1, s)
       else if v_flag (s_ev s v) = FLAG_CONN then do {
         (r, s) \<leftarrow> recv_remote v data n s;
         Some (case r of None \<Rightarrow> n | Some r \<Rightarrow> r, s) }
       else do {
         s \<leftarrow> recv_client v b n s;
         Some (n, s) } } }"

definition recv_and_connect :: "nat \<Rightarrow> st \<Rightarrow> (int \<times> st) option" where
  "recv_and_connect v s = do {
     let (b, s) = buff_pop (g_bfsize (s_par s)) s;
     let s = upd_ev v (\<lambda>e. e\<lparr>v_buff := Some b\<rparr>) s;
     (n, s) \<leftarrow> tcp_recv_hook v s;
     b \<leftarrow> v_buff (s_ev s v);
     let s = upd_ev v (\<lambda>e. e\<lparr>v_buff := Some (b\<lparr>b_lock := n\<rparr>)\<rparr>) s;
     if n \<le> 0 then Some (- 1, s)
     else connect_hook v (v_addr (s_ev s v)) On_connect s }"

section \<open>Datagrams\<close>

partial_function (option) udp_dp :: "st \<Rightarrow> sockaddr \<Rightarrow> nat option \<Rightarrow> nat option option" where
  "udp_dp s dst dp =
     (case dp of
        None \<Rightarrow> Some None
      | Some d \<Rightarrow>
          if d_detect (s_dp s d) = 0 \<and> check_l34 (s_dp s d) SOCK_DGRAM dst then Some (Some d)
          else udp_dp s dst (d_next (s_dp s d)))"

definition udp_hook :: "nat \<Rightarrow> buf \<Rightarrow> int \<Rightarrow> int \<Rightarrow> sockaddr \<Rightarrow> st \<Rightarrow> (int \<times> st) option" where
  "udp_hook v b off n dst s = do {
     q \<leftarrow> v_pair (s_ev s v);
     p \<leftarrow> v_pair (s_ev s q);
     let r = v_round_count (s_ev s p);
     dp \<leftarrow> (case v_dp (s_ev s p) of Some d \<Rightarrow> Some (Some d) | None \<Rightarrow> udp_dp s dst (g_dp (s_par s)));
     (case dp of
        None \<Rightarrow> Some (- 1, s)
      | Some d \<Rightarrow>
          (let s = upd_ev p (\<lambda>e. e\<lparr>v_dp := Some d\<rparr>) s; fd = v_fd (s_ev s v) in
           if \<not> check_round (d_rounds (s_dp s d)) r then do {
             x \<leftarrow> rdn b off n;
             Some (sys_send fd x False s) }
           else desync_udp fd b off n (s_dp s d) s)) }"

end
