(* ===== verification/Socks.thy ===== *)
theory Socks
  imports Conn Http
begin

text \<open>
  What a client asks for: the parsers of \<open>src/proxy.c\<close> for the requests of SOCKS4, SOCKS5 (with
  Shadowsocks), HTTP \<open>CONNECT\<close> and bare TLS, and the writer of SOCKS5 addresses. A parser gets the
  buffer, where the request starts in it, and the address that it changes; it returns its code,
  the address and the state.
\<close>

definition MODE_SOCKS4 :: int where "MODE_SOCKS4 = 2"
definition MODE_HTTP :: int where "MODE_HTTP = 4"
definition MODE_TRANSPARENT :: int where "MODE_TRANSPARENT = 8"
definition MODE_SHADOWSOCKS :: int where "MODE_SHADOWSOCKS = 16"
definition MODE_RAWTLS :: int where "MODE_RAWTLS = 32"
definition MODE_TCP :: int where "MODE_TCP = 64"

text \<open>The sizes of the packed \<open>struct s4_req\<close> and \<open>struct s5_req\<close>.\<close>

definition s4_req_size :: int where "s4_req_size = 8"
definition s5_req_size :: int where "s5_req_size = 262"

section \<open>Requests\<close>

definition auth_socks5 :: "int \<Rightarrow> buf \<Rightarrow> int \<Rightarrow> st \<Rightarrow> (int \<times> st) option" where
  "auth_socks5 fd b n s =
     (if n \<le> 2 then Some (- 1, s)
      else do {
        k \<leftarrow> rd b 1;
        if uint k \<noteq> n - 2 then Some (- 1, s)
        else do {
          methods \<leftarrow> rdn b 2 (n - 2);
          let c = (if S_AUTH_NONE \<in> set methods then S_AUTH_NONE else S_AUTH_BAD);
          let (r, s) = sys_send fd [S_VER5, c] False s;
          Some (if r < 0 \<or> c = S_AUTH_BAD then - 1 else 0, s) } })"

definition s4_get_addr :: "buf \<Rightarrow> int \<Rightarrow> sockaddr \<Rightarrow> st \<Rightarrow> (int \<times> sockaddr \<times> st) option" where
  "s4_get_addr b n dst s =
     (if n < s4_req_size + 1 then Some (- 1, dst, s)
      else do {
        cmd \<leftarrow> rd b 1;
        port \<leftarrow> rd16 b 2;
        ip \<leftarrow> rdn b 4 4;
        if cmd \<noteq> S_CMD_CONN then Some (- 1, dst, s)
        else if take 3 ip = [0, 0, 0] then do {
          z \<leftarrow> rd b (n - 1);
          if \<not> g_resolve (s_par s) \<or> z \<noteq> 0 then Some (- 1, dst, s)
          else do {
            e \<leftarrow> memchr b s4_req_size 0 (n - s4_req_size);
            id_end \<leftarrow> e;
            let len = n - id_end - 2;
            if len < 3 \<or> len > 255 then Some (- 1, dst, s)
            else do {
              host \<leftarrow> rdn b (id_end + 1) len;
              let (r, dst, s) = resolve host dst SOCK_STREAM s;
              Some (if r \<noteq> 0 then (- 1, dst, s) else (0, dst\<lparr>sa_port := port\<rparr>, s)) } } }
        else Some (0, dst\<lparr>sa_family := AF_INET, sa_ip4 := ip, sa_port := port\<rparr>, s) })"

text \<open>The request starts at \<open>o\<close> in the buffer.\<close>

definition s5_req_len :: "buf \<Rightarrow> int \<Rightarrow> byte \<Rightarrow> int option" where
  "s5_req_len b o' atp =
     (if atp = S_ATP_I4 then Some S_SIZE_I4
      else if atp = S_ATP_ID then map_option (\<lambda>k. uint k + S_SIZE_ID) (rd b (o' + 4))
      else if atp = S_ATP_I6 then Some S_SIZE_I6
      else Some 0)"

definition s5_dst ::
  "buf \<Rightarrow> int \<Rightarrow> byte \<Rightarrow> sockaddr \<Rightarrow> int \<Rightarrow> st \<Rightarrow> (int \<times> sockaddr \<times> st) option" where
  "s5_dst b o' atp addr type s =
     (if atp = S_ATP_I4 then do {
        ip \<leftarrow> rdn b (o' + 4) 4;
        Some (0, addr\<lparr>sa_family := AF_INET, sa_ip4 := ip\<rparr>, s) }
      else if atp = S_ATP_ID then
        (if \<not> g_resolve (s_par s) then Some (- S_ER_ATP, addr, s)
         else do {
           k \<leftarrow> rd b (o' + 4);
           if uint k < 3 then Some (- S_ER_HOST, addr, s)
           else do {
             host \<leftarrow> rdn b (o' + 5) (uint k);
             let (r, addr, s) = resolve host addr type s;
             Some (if r \<noteq> 0 then - S_ER_HOST else 0, addr, s) } })
      else if atp = S_ATP_I6 then
        (if \<not> g_ipv6 (s_par s) then Some (- S_ER_ATP, addr, s)
         else do {
           ip \<leftarrow> rdn b (o' + 4) 16;
           Some (0, addr\<lparr>sa_family := AF_INET6, sa_ip6 := ip\<rparr>, s) })
      else Some (0, addr, s))"

definition s5_get_addr ::
  "buf \<Rightarrow> int \<Rightarrow> int \<Rightarrow> sockaddr \<Rightarrow> int \<Rightarrow> st \<Rightarrow> (int \<times> sockaddr \<times> st) option" where
  "s5_get_addr b o' n addr type s =
     (if n < S_SIZE_MIN then Some (- S_ER_GEN, addr, s)
      else do {
        atp \<leftarrow> rd b (o' + 3);
        len \<leftarrow> s5_req_len b o' atp;
        if n < len then Some (- S_ER_GEN, addr, s)
        else do {
          (e, addr, s) \<leftarrow> s5_dst b o' atp addr type s;
          if e < 0 then Some (e, addr, s)
          else do {
            port \<leftarrow> rd16 b (o' + len - 2);
            Some (len, addr\<lparr>sa_port := port\<rparr>, s) } } })"

text \<open>The address is written at \<open>o\<close>, or so that it ends there.\<close>

definition s5_set_addr :: "buf \<Rightarrow> int \<Rightarrow> int \<Rightarrow> sockaddr \<Rightarrow> bool \<Rightarrow> (int \<times> buf) option" where
  "s5_set_addr b o' n addr e =
     (if n < S_SIZE_I4 then Some (- 1, b)
      else if sa_family addr = AF_INET then do {
        let r = (if e then o' - S_SIZE_I4 else o');
        b \<leftarrow> wr b (r + 3) S_ATP_I4;
        b \<leftarrow> wrn b (r + 4) (sa_ip4 addr);
        b \<leftarrow> wrn b (r + 8) (be16 (sa_port addr));
        Some (S_SIZE_I4, b) }
      else if n < S_SIZE_I6 then Some (- 1, b)
      else do {
        let r = (if e then o' - S_SIZE_I6 else o');
        b \<leftarrow> wr b (r + 3) S_ATP_I6;
        b \<leftarrow> wrn b (r + 4) (sa_ip6 addr);
        b \<leftarrow> wrn b (r + 20) (be16 (sa_port addr));
        Some (S_SIZE_I6, b) })"

definition http_get_addr :: "buf \<Rightarrow> int \<Rightarrow> sockaddr \<Rightarrow> st \<Rightarrow> (int \<times> sockaddr \<times> st) option" where
  "http_get_addr b n dst s = do {
     (len, host, port) \<leftarrow> parse_http b n True;
     if len < 3 \<or> len > 255 then Some (- 1, dst, s)
     else do {
       h \<leftarrow> host;
       name \<leftarrow> rdn b h len;
       let (r, dst, s) = resolve name dst SOCK_STREAM s;
       Some (if r \<noteq> 0 then (- 1, dst, s)
             else (0, dst\<lparr>sa_port := (case port of None \<Rightarrow> 0 | Some p \<Rightarrow> p)\<rparr>, s)) } }"

definition tls_get_addr :: "buf \<Rightarrow> int \<Rightarrow> sockaddr \<Rightarrow> st \<Rightarrow> (int \<times> sockaddr \<times> st) option" where
  "tls_get_addr b n dst s = do {
     (len, host) \<leftarrow> parse_tls b n;
     if len < 3 \<or> len > 255 then Some (- 1, dst, s)
     else do {
       h \<leftarrow> host;
       name \<leftarrow> rdn b h len;
       let (r, dst, s) = (if g_resolve (s_par s) then resolve name dst SOCK_STREAM s else (0, dst, s));
       Some (if r \<noteq> 0 then (- 1, dst, s) else (0, dst\<lparr>sa_port := 443\<rparr>, s)) } }"

end
