(* ===== verification/Tunnel.thy ===== *)
theory Tunnel
  imports Hooks Socks
begin

unbundle bit_operations_syntax

text \<open>
  The callbacks of \<open>src/proxy.c\<close> that carry data: the tunnel between two TCP connections, the relay
  of datagrams, and what happens when a connection to a server is made or fails.
\<close>

section \<open>TCP\<close>

text \<open>\<open>mod_etype (a, x) || mod_etype (b, y)\<close>, as in the code: true when one of them fails.\<close>

definition mod_both :: "nat \<Rightarrow> int \<Rightarrow> nat \<Rightarrow> int \<Rightarrow> st \<Rightarrow> (bool \<times> st) option" where
  "mod_both a x b y s = do {
     (r, s) \<leftarrow> mod_etype a x s;
     if r \<noteq> 0 then Some (True, s)
     else do {
       (r, s) \<leftarrow> mod_etype b y s;
       Some (r \<noteq> 0, s) } }"

definition set_buff :: "nat \<Rightarrow> (buffer \<Rightarrow> buffer) \<Rightarrow> st \<Rightarrow> st option" where
  "set_buff v f s = do {
     b \<leftarrow> v_buff (s_ev s v);
     Some (upd_ev v (\<lambda>e. e\<lparr>v_buff := Some (f b)\<rparr>) s) }"

definition drop_buff :: "nat \<Rightarrow> st \<Rightarrow> st" where
  "drop_buff v s = upd_ev v (\<lambda>e. e\<lparr>v_buff := None\<rparr>) (buff_push (v_buff (s_ev s v)) s)"

text \<open>The data that wait in the buffer of \<open>v\<close>: \<open>Some r\<close> is what \<open>on_tunnel\<close> returns, \<open>None\<close> goes on
  to receive. \<open>offset\<close> is an \<open>unsigned int\<close>, whose addition does not wrap as long as the buffer is in
  bounds.\<close>

definition flush_buff :: "nat \<Rightarrow> nat \<Rightarrow> st \<Rightarrow> (int option \<times> st) option" where
  "flush_buff v p s =
     (case v_buff (s_ev s v) of
        None \<Rightarrow> Some (None, s)
      | Some b \<Rightarrow> do {
          let n = b_lock b - b_offset b;
          (sn, _, wait, s) \<leftarrow> tcp_send_hook p v None False s;
          if sn < 0 then Some (Some (- 1), s)
          else if sn < n \<or> wait then do {
            s \<leftarrow> set_buff v (\<lambda>b. b\<lparr>b_offset := b_offset b + sn\<rparr>) s;
            Some (Some 0, s) }
          else do {
            (e, s) \<leftarrow> mod_both v POLLIN p POLLIN (drop_buff v s);
            Some (if e then Some (- 1) else None, s) } })"

text \<open>The loop that receives from \<open>v\<close> and sends to \<open>p\<close>. The size of the buffer does not change while
  it is in use, and is a parameter.\<close>

partial_function (option) pump :: "nat \<Rightarrow> nat \<Rightarrow> int \<Rightarrow> bool \<Rightarrow> st \<Rightarrow> (int \<times> st) option" where
  "pump v p bsize wait s = do {
     (n, s) \<leftarrow> tcp_recv_hook v s;
     if n = 0 then Some (0, drop_buff v s)
     else if n < 0 then Some (- 1, s)
     else do {
       (sn, n, wait, s) \<leftarrow> tcp_send_hook p v (Some n) wait s;
       if sn < 0 then Some (- 1, s)
       else if sn < n \<or> wait then do {
         s \<leftarrow> set_buff v (\<lambda>b. b\<lparr>b_lock := n, b_offset := sn\<rparr>) s;
         (e, s) \<leftarrow> mod_both v 0 p (if wait then 0 else POLLOUT) s;
         Some (if e then - 1 else 0, s) }
       else if n = bsize then pump v p bsize wait s
       else Some (0, drop_buff v s) } }"

definition on_tunnel :: "nat \<Rightarrow> int \<Rightarrow> st \<Rightarrow> (int \<times> st) option" where
  "on_tunnel v ty s = do {
     p \<leftarrow> v_pair (s_ev s v);
     if ty = POLLTIMEOUT \<and> v_buff (s_ev s p) = None \<and> v_round_count (s_ev s v) \<noteq> 0
     then on_timeout v s
     else do {
       (v, p) \<leftarrow> (if has_flag ty POLLOUT \<or> ty = POLLTIMEOUT
                  then do { q \<leftarrow> v_pair (s_ev s p); Some (p, q) } else Some (v, p));
       (r, s) \<leftarrow> flush_buff v p s;
       (case r of
          Some r \<Rightarrow> Some (r, s)
        | None \<Rightarrow>
            (let (b, s) = buff_pop (g_bfsize (s_par s)) s in
             pump v p (b_size b) False (upd_ev v (\<lambda>e. e\<lparr>v_buff := Some b\<rparr>) s))) } }"

definition on_ignore :: "int \<Rightarrow> int" where
  "on_ignore ty = (if has_flag ty (POLLHUP OR POLLERR OR POLLRDHUP) then - 1 else 0)"

text \<open>The pending error of a socket: \<open>getsockopt\<close> stores it in \<open>r_errno\<close>.\<close>

definition sock_error :: "int \<Rightarrow> st \<Rightarrow> int option \<times> st" where
  "sock_error fd s =
     (let (r, s) = sys (CGetopt fd ''SO_ERROR'') s in
      if r_ret r \<noteq> 0 then (None, s)
      else (Some (if r_errno r = 0 then ECONNREFUSED else r_errno r), s))"

definition answer :: "nat \<Rightarrow> int \<Rightarrow> st \<Rightarrow> (int \<times> st) option" where
  "answer v e s = do {
     p \<leftarrow> v_pair (s_ev s v);
     let (r, s) = resp_error (v_fd (s_ev s p)) e (v_flag (s_ev s p)) s;
     Some (if r < 0 \<or> e \<noteq> 0 then - 1 else 0, s) }"

definition on_connect :: "nat \<Rightarrow> int \<Rightarrow> st \<Rightarrow> (int \<times> st) option" where
  "on_connect v ty s =
     (if has_flag ty POLLERR then
        (let (e, s) = sock_error (v_fd (s_ev s v)) s in
         case e of
           None \<Rightarrow> Some (- 1, s)
         | Some e \<Rightarrow> do {
             (r, s) \<leftarrow> (if e = ECONNRESET \<or> e = ECONNREFUSED \<or> e = ETIMEDOUT
                        then on_connerr v s else Some (- 1, s));
             if r = 0 then Some (0, s) else answer v e s })
      else do {
        p \<leftarrow> v_pair (s_ev s v);
        (e, s) \<leftarrow> mod_both v POLLIN p POLLIN s;
        if e then Some (- 1, s)
        else
          (let s = upd_ev p (\<lambda>x. x\<lparr>v_cb := On_tunnel\<rparr>) (upd_ev v (\<lambda>x. x\<lparr>v_cb := On_tunnel\<rparr>) s) in
           if v_buff (s_ev s p) \<noteq> None then on_tunnel v ty s else answer v 0 s) })"

end
