(* ===== verification/Proxy.thy ===== *)
theory Proxy
  imports Tunnel
begin

unbundle bit_operations_syntax

text \<open>
  The rest of \<open>src/proxy.c\<close>: the relay of datagrams, new clients and their requests, the callbacks
  of \<open>src/extend.c\<close> for a SOCKS server in between, the table of callbacks and the event loop.
\<close>

section \<open>Datagrams\<close>

text \<open>\<open>buff_ppop\<close> leaves the buffer on the stack: what is stored in it is stored there.\<close>

definition set_top :: "buf \<Rightarrow> st \<Rightarrow> st" where
  "set_top d s = (case s_free s of [] \<Rightarrow> s | b # bs \<Rightarrow> s\<lparr>s_free := b\<lparr>b_data := d\<rparr> # bs\<rparr>)"

text \<open>The three connections of an association, and the answer to the client.\<close>

definition link_udp :: "nat \<Rightarrow> nat \<Rightarrow> nat \<Rightarrow> st \<Rightarrow> st" where
  "link_udp v c p s =
     (let s = upd_ev v (\<lambda>e. e\<lparr>v_cb := On_ignore, v_pair := Some c\<rparr>) s;
          s = upd_ev c (\<lambda>e. e\<lparr>v_pair := Some p, v_flag := FLAG_CONN,
                 v_addr := (v_addr (s_ev s v))\<lparr>sa_port := 0\<rparr>\<rparr>) s in
      upd_ev p (\<lambda>e. e\<lparr>v_pair := Some v\<rparr>) s)"

definition answer_udp :: "nat \<Rightarrow> int \<Rightarrow> sockaddr \<Rightarrow> st \<Rightarrow> (int \<times> st) option" where
  "answer_udp v cfd addr s =
     (let (r, s) = sys (CGetname cfd ''getsockname'') s in
      if r_ret r \<noteq> 0 then Some (- 1, s)
      else do {
        (len, b) \<leftarrow> s5_set_addr (5 # replicate 261 0) 0 s5_req_size (sa_copy addr (r_addr r)) False;
        if len < 0 then Some (- 1, s)
        else do {
          d \<leftarrow> rdn b 0 len;
          let (n, s) = sys_send (v_fd (s_ev s v)) d False s;
          if n < 0 then Some (- 1, s)
          else do {
            (m, s) \<leftarrow> mod_etype v POLLRDHUP s;
            Some (if m \<noteq> 0 then - 1 else 0, s) } } })"

text \<open>From the call of \<open>nb_socket\<close> on.\<close>

definition udp_client :: "nat \<Rightarrow> nat \<Rightarrow> sockaddr \<Rightarrow> st \<Rightarrow> (int \<times> st) option" where
  "udp_client v p addr s =
     (let (cfd, s) = nb_socket (sa_family addr) SOCK_DGRAM s in
      if cfd < 0 then do { s \<leftarrow> del_event p s; Some (- 1, s) }
      else
        (let (r, s) = sys (CBind cfd addr) s in
         if r_ret r < 0 then do { s \<leftarrow> del_event p s; Some (- 1, close_fd cfd s) }
         else do {
           (client, s) \<leftarrow> add_event On_udp_tunnel cfd POLLIN s;
           (case client of
              None \<Rightarrow> do { s \<leftarrow> del_event p s; Some (- 1, close_fd cfd s) }
            | Some c \<Rightarrow> answer_udp v cfd addr (link_udp v c p s)) }))"

definition udp_associate :: "nat \<Rightarrow> sockaddr \<Rightarrow> st \<Rightarrow> (int \<times> st) option" where
  "udp_associate v dst s = do {
     (ufd, addr, s) \<leftarrow> remote_sock dst SOCK_DGRAM s;
     if ufd < 0 then Some (- 1, s)
     else do {
       (pair, s) \<leftarrow> add_event On_udp_tunnel ufd POLLIN s;
       (case pair of
          None \<Rightarrow> Some (- 1, close_fd ufd s)
        | Some p \<Rightarrow>
            (let (r, s) = sys (CGetname (v_fd (s_ev s v)) ''getsockname'') s in
             if r_ret r \<noteq> 0 then Some (- 1, s)
             else udp_client v p ((sa_copy addr (r_addr r))\<lparr>sa_port := 0\<rparr>) s)) } }"

text \<open>A datagram from the client, whose header is removed; the result is what \<open>udp_hook\<close> returned, or
  what \<open>on_udp_tunnel\<close> returns (\<open>Stop\<close>), or \<open>Skip\<close> for \<open>continue\<close>.\<close>

datatype udp_step = Stop int | Skip | Sent int

definition claim_client :: "nat \<Rightarrow> sockaddr \<Rightarrow> st \<Rightarrow> int option \<times> st" where
  "claim_client v addr s =
     (if sa_port (v_addr (s_ev s v)) \<noteq> 0 then (None, s)
      else if \<not> addr_equ addr (v_addr (s_ev s v)) then (Some 0, s)
      else
        (let (r, s) = sys (CConnect (v_fd (s_ev s v)) addr) s in
         if r_ret r < 0 then (Some (- 1), s) else (None, upd_ev v (\<lambda>e. e\<lparr>v_addr := addr\<rparr>) s)))"

definition claim_server :: "nat \<Rightarrow> sockaddr \<Rightarrow> st \<Rightarrow> bool \<times> sockaddr \<times> st" where
  "claim_server p addr s =
     (if sa_port (v_addr (s_ev s p)) \<noteq> 0 then (True, addr, s)
      else
        (let baddr = g_baddr (s_par s); addr = (if sa_family baddr = AF_INET6 then map_fix addr 6 else addr) in
         if sa_family baddr \<noteq> sa_family addr then (False, addr, s)
         else
           (let (r, s) = sys (CConnect (v_fd (s_ev s p)) addr) s in
            if r_ret r < 0 then (False, addr, s) else (True, addr, upd_ev p (\<lambda>e. e\<lparr>v_addr := addr\<rparr>) s))))"

definition udp_from_client ::
  "nat \<Rightarrow> nat \<Rightarrow> buf \<Rightarrow> int \<Rightarrow> sockaddr \<Rightarrow> st \<Rightarrow> (udp_step \<times> sockaddr \<times> st) option" where
  "udp_from_client v p d n addr s =
     (let (r, s) = claim_client v addr s in
      case r of
        Some r \<Rightarrow> Some (Stop r, addr, s)
      | None \<Rightarrow> do {
          frag \<leftarrow> rd d 2;
          if frag \<noteq> 0 then Some (Skip, addr, s)
          else do {
            (offs, addr, s) \<leftarrow> s5_get_addr d 0 n addr SOCK_DGRAM s;
            if offs < 0 then Some (Stop (- 1), addr, s)
            else
              (let (ok, addr, s) = claim_server p addr s in
               if \<not> ok then Some (Stop (- 1), addr, s)
               else do {
                 (ns, s) \<leftarrow> udp_hook p d offs (n - offs) (v_addr (s_ev s p)) s;
                 Some (Sent ns, addr, s) }) } })"

text \<open>A datagram from the server, received at offset 22: the header is put in front of it.\<close>

definition udp_from_server ::
  "nat \<Rightarrow> buf \<Rightarrow> int \<Rightarrow> sockaddr \<Rightarrow> st \<Rightarrow> (udp_step \<times> buf \<times> sockaddr \<times> st) option" where
  "udp_from_server p d n addr s = do {
     let addr = map_fix addr 0;
     d \<leftarrow> memset d 0 0 S_SIZE_I6;
     (offs, d) \<leftarrow> s5_set_addr d S_SIZE_I6 S_SIZE_I6 addr True;
     if offs < 0 \<or> offs > S_SIZE_I6 then Some (Stop (- 1), d, addr, s)
     else do {
       msg \<leftarrow> rdn d (S_SIZE_I6 - offs) (offs + n);
       let (ns, s) = sys_send (v_fd (s_ev s p)) msg False s;
       Some (Sent ns, d, addr, s) } }"

definition udp_count :: "nat \<Rightarrow> nat \<Rightarrow> int \<Rightarrow> st \<Rightarrow> st" where
  "udp_count v p n s =
     (let s = upd_ev v (\<lambda>e. e\<lparr>v_recv_count := v_recv_count e + n\<rparr>) s in
      if v_round_sent (s_ev s v) = 0 then
        upd_ev p (\<lambda>e. e\<lparr>v_round_sent := 0\<rparr>)
          (upd_ev v (\<lambda>e. e\<lparr>v_round_count := v_round_count e + 1, v_round_sent := v_round_sent e + n\<rparr>) s)
      else s)"

text \<open>\<open>data_len\<close> is a \<open>size_t\<close> that wraps around when the buffer is smaller than the header. One turn of the loop of \<open>on_udp_tunnel\<close>; \<open>Skip\<close> and \<open>Sent\<close> go on.\<close>

definition udp_turn ::
  "nat \<Rightarrow> nat \<Rightarrow> bool \<Rightarrow> buf \<Rightarrow> int \<Rightarrow> sockaddr \<Rightarrow> st \<Rightarrow> (udp_step \<times> buf \<times> sockaddr \<times> st) option" where
  "udp_turn v p conn d dsize addr s =
     (let base = (if conn then 0 else S_SIZE_I6); dlen = (dsize - base) mod 2 ^ 64;
          (r, s) = sys (CRecvfrom (v_fd (s_ev s v)) dlen) s in
      if r_ret r < 0 then
        Some (if s_errno s = EAGAIN then Stop 0
              else if s_errno s = EMSGSIZE \<or> s_errno s = ECONNREFUSED then Skip else Stop (- 1), d, addr, s)
      else do {
        let msg = take (nat dlen) (r_data r);
        let n = int (length msg);
        let addr = sa_copy addr (r_addr r);
        d \<leftarrow> wrn d base msg;
        let s = udp_count v p n s;
        (res, d, addr, s) \<leftarrow>
          (if conn then do {
             (res, addr, s) \<leftarrow> udp_from_client v p d n addr s;
             Some (res, d, addr, s) }
           else udp_from_server p d n addr s);
        Some (case res of
                Sent ns \<Rightarrow> if ns < 0 \<and> s_errno s \<noteq> EMSGSIZE \<and> s_errno s \<noteq> ECONNREFUSED then Stop (- 1) else Skip
              | _ \<Rightarrow> res, d, addr, s) })"

partial_function (option) udp_loop ::
  "nat \<Rightarrow> nat \<Rightarrow> bool \<Rightarrow> buf \<Rightarrow> int \<Rightarrow> sockaddr \<Rightarrow> st \<Rightarrow> (int \<times> st) option" where
  "udp_loop v p conn d dsize addr s = do {
     (res, d, addr, s) \<leftarrow> udp_turn v p conn d dsize addr s;
     (case res of
        Stop r \<Rightarrow> Some (r, set_top d s)
      | _ \<Rightarrow> udp_loop v p conn d dsize addr s) }"

definition on_udp_tunnel :: "nat \<Rightarrow> st \<Rightarrow> (int \<times> st) option" where
  "on_udp_tunnel v s = do {
     let (b, s) = buff_ppop (g_bfsize (s_par s)) s;
     let conn = (v_flag (s_ev s v) = FLAG_CONN);
     q \<leftarrow> v_pair (s_ev s v);
     p \<leftarrow> (if conn then Some q else v_pair (s_ev s q));
     udp_loop v p conn (b_data b) (b_size b) addr0 s }"

section \<open>Clients\<close>

definition transp_conn :: "nat \<Rightarrow> st \<Rightarrow> (int \<times> st) option" where
  "transp_conn v s =
     (let fd = v_fd (s_ev s v);
          (r, s) = sys (CGetopt fd ''SO_ORIGINAL_DST'') s;
          (r, s) = (if r_ret r \<noteq> 0 then sys (CGetopt fd ''IP6T_SO_ORIGINAL_DST'') s else (r, s)) in
      if r_ret r \<noteq> 0 then Some (- 1, s)
      else
        (let remote = r_addr r; (r, s) = sys (CGetname fd ''getsockname'') s; self = r_addr r in
         if r_ret r < 0 then Some (- 1, s)
         else if sa_family self = sa_family remote \<and> sa_port self = sa_port remote \<and> addr_equ self remote
         then Some (- 1, s)
         else do {
           (e, s) \<leftarrow> connect_hook v remote On_connect s;
           Some (if e \<noteq> 0 then - 1 else 0, s) }))"

text \<open>The turn of the loop after \<open>accept4\<close> returned the socket \<open>c\<close>; all paths go on.\<close>

definition accept_client :: "int \<Rightarrow> sockaddr \<Rightarrow> st \<Rightarrow> st option" where
  "accept_client c addr s =
     (let (r, s) = sys (CSetopt c ''TCP_NODELAY'' 1) s in
      if r_ret r \<noteq> 0 then Some (close_fd c s)
      else do {
        (v, s) \<leftarrow> add_event On_request c POLLIN s;
        (case v of
           None \<Rightarrow> Some (close_fd c s)
         | Some v \<Rightarrow>
             (let s = upd_ev v (\<lambda>e. e\<lparr>v_addr := addr\<rparr>) s in
              if has_flag (g_mode (s_par s)) MODE_TRANSPARENT then do {
                (r, s) \<leftarrow> transp_conn v s;
                if r < 0 \<and> g_mode (s_par s) AND NOT MODE_TRANSPARENT = 0 then del_event v s else Some s }
              else Some s)) })"

partial_function (option) on_accept :: "nat \<Rightarrow> st \<Rightarrow> (int \<times> st) option" where
  "on_accept v s =
     (let (r, s) = sys (CAccept (v_fd (s_ev s v))) s in
      if r_ret r < 0 then
        Some (if s_errno s = EAGAIN \<or> s_errno s = EINPROGRESS then (0, s) else (- 1, s\<lparr>s_brk := True\<rparr>))
      else do {
        s \<leftarrow> accept_client (r_ret r) (r_addr r) s;
        on_accept v s })"

text \<open>The request that was read on top of the stack of spare buffers becomes the buffer of \<open>v\<close>.\<close>

definition save_buffer :: "nat \<Rightarrow> int \<Rightarrow> st \<Rightarrow> (int \<times> st) option" where
  "save_buffer v n s =
     (let (b, s) = buff_pop (g_bfsize (s_par s)) s;
          s = upd_ev v (\<lambda>e. e\<lparr>v_buff := Some (b\<lparr>b_lock := n\<rparr>), v_recv_count := n,
                v_round_count := v_round_count e + 1\<rparr>) s in
      if \<not> g_auto_reconnect (s_par s) then Some (0, s)
      else
        (let (sq, s) = buff_pop (g_bfsize (s_par s)) s in do {
         d \<leftarrow> rdn (b_data b) 0 n;
         data \<leftarrow> wrn (b_data sq) 0 d;
         Some (0, upd_ev v (\<lambda>e. e\<lparr>v_sq_buff := Some (sq\<lparr>b_lock := n, b_data := data\<rparr>)\<rparr>) s) }))"

definition refuse_s5 :: "nat \<Rightarrow> int \<Rightarrow> st \<Rightarrow> (int \<times> st) option" where
  "refuse_s5 v e s = Some (1, snd (resp_s5_error (v_fd (s_ev s v)) (- e) s))"

definition handle_s5 :: "nat \<Rightarrow> buf \<Rightarrow> int \<Rightarrow> sockaddr \<Rightarrow> st \<Rightarrow> (int \<times> st) option" where
  "handle_s5 v b n dst s =
     (if v_flag (s_ev s v) \<noteq> FLAG_S5 then do {
        (r, s) \<leftarrow> auth_socks5 (v_fd (s_ev s v)) b n s;
        if r \<noteq> 0 then Some (- 1, s) else Some (0, upd_ev v (\<lambda>e. e\<lparr>v_flag := FLAG_S5\<rparr>) s) }
      else if n < S_SIZE_MIN then Some (- 1, s)
      else do {
        cmd \<leftarrow> rd b 1;
        if cmd = S_CMD_CONN then do {
          (e, dst, s) \<leftarrow> s5_get_addr b 0 n dst SOCK_STREAM s;
          if e \<ge> 0 then connect_hook v dst On_connect s else refuse_s5 v e s }
        else if cmd = S_CMD_AUDP \<and> g_udp (s_par s) then do {
          (e, dst, s) \<leftarrow> s5_get_addr b 0 n dst SOCK_DGRAM s;
          if e \<ge> 0 then udp_associate v dst s else refuse_s5 v e s }
        else refuse_s5 v (- S_ER_CMD) s })"

definition set_flag :: "nat \<Rightarrow> int \<Rightarrow> st \<Rightarrow> st" where
  "set_flag v f s = upd_ev v (\<lambda>e. e\<lparr>v_flag := f\<rparr>) s"

text \<open>The protocols, in the order in which they are tried: \<open>Inl r\<close> when \<open>on_request\<close> returns \<open>r\<close>,
  otherwise \<open>error\<close>, \<open>skip_conn\<close> and \<open>dst\<close>.\<close>

definition read_request ::
  "nat \<Rightarrow> buf \<Rightarrow> int \<Rightarrow> st \<Rightarrow> ((int + int \<times> bool \<times> sockaddr) \<times> st) option" where
  "read_request v d n s = do {
     c \<leftarrow> rd d 0;
     connect \<leftarrow> (if n > 7 then strncmp_eq d 0 (str ''CONNECT'') else Some False);
     chello \<leftarrow> is_tls_chello d n;
     let mode = g_mode (s_par s);
     if has_flag mode MODE_SOCKS5 \<and> c = S_VER5 then do {
       (e, s) \<leftarrow> handle_s5 v d n addr0 s;
       Some (if e > 0 then Inl (- 1) else Inr (e, True, addr0), s) }
     else if has_flag mode MODE_SOCKS4 \<and> c = S_VER4 then do {
       (e, dst, s) \<leftarrow> s4_get_addr d n addr0 (set_flag v FLAG_S4 s);
       Some (Inr (e, False, dst), s) }
     else if has_flag mode MODE_HTTP \<and> connect then do {
       (e, dst, s) \<leftarrow> http_get_addr d n addr0 (set_flag v FLAG_HTTP s);
       Some (Inr (e, False, dst), s) }
     else if has_flag mode MODE_SHADOWSOCKS \<and> sint c \<le> sint S_ATP_I6 then do {
       (k, dst, s) \<leftarrow> s5_get_addr d (- 3) (n + 3) addr0 SOCK_STREAM s;
       if k < 0 then Some (Inl (- 1), s)
       else do {
         d \<leftarrow> memmove d 0 (k - 3) (n - (k - 3));
         (r, s) \<leftarrow> save_buffer v (n - (k - 3)) (set_top d s);
         Some (if r \<noteq> 0 then Inl (- 1) else Inr (0, False, dst), s) } }
     else if has_flag mode MODE_RAWTLS \<and> chello then do {
       (e, dst, s) \<leftarrow> tls_get_addr d n addr0 s;
       if e \<noteq> 0 then Some (Inr (e, False, dst), s)
       else do {
         (r, s) \<leftarrow> save_buffer v n s;
         Some (if r \<noteq> 0 then Inl (- 1) else Inr (0, False, dst), s) } }
     else if has_flag mode MODE_TCP then do {
       (r, s) \<leftarrow> save_buffer v n s;
       Some (if r \<noteq> 0 then Inl (- 1) else Inr (0, False, addr0), s) }
     else Some (Inl (- 1), s) }"

definition on_request :: "nat \<Rightarrow> st \<Rightarrow> (int \<times> st) option" where
  "on_request v s =
     (let (b, s) = buff_ppop (g_bfsize (s_par s)) s;
          (n, msg, s) = sys_recv (v_fd (s_ev s v)) (b_size b) s in
      if n < 1 then Some (- 1, s)
      else do {
        d \<leftarrow> wrn (b_data b) 0 msg;
        (r, s) \<leftarrow> read_request v d n (set_top d s);
        (case r of
           Inl r \<Rightarrow> Some (r, s)
         | Inr (e, skip, dst) \<Rightarrow> do {
             (e, s) \<leftarrow> (if e = 0 \<and> \<not> skip then connect_hook v dst On_connect s else Some (e, s));
             if e \<noteq> 0
             then Some (- 1, snd (resp_error (v_fd (s_ev s v)) ENOENT (v_flag (s_ev s v)) s))
             else Some (0, s) }) })"

section \<open>A SOCKS server in between\<close>

text \<open>\<open>Inr (cb, t)\<close> is the call of another callback with the type \<open>t\<close> in the last position.\<close>

type_synonym cb_result = "int + cb \<times> int"

definition on_socks_conn :: "nat \<Rightarrow> int \<Rightarrow> st \<Rightarrow> (cb_result \<times> st) option" where
  "on_socks_conn v t s =
     (let (n, s) = sys_send (v_fd (s_ev s v)) [S_VER5, 1, 0] False s in
      if n < 0 then Some (Inr (v_after_conn_cb (s_ev s v), t), s)
      else do {
        (m, s) \<leftarrow> mod_etype v POLLIN s;
        if m \<noteq> 0 then Some (Inl (- 1), s)
        else Some (Inl 0, upd_ev v (\<lambda>e. e\<lparr>v_cb := On_socks_recv\<rparr>) s) })"

definition on_socks_recv :: "nat \<Rightarrow> st \<Rightarrow> (cb_result \<times> st) option" where
  "on_socks_recv v s =
     (let (n, msg, s) = sys_recv (v_fd (s_ev s v)) s5_req_size s; next = v_after_conn_cb (s_ev s v) in
      if n < 2 then Some (Inr (next, POLLERR), s)
      else do {
        r \<leftarrow> wrn (replicate (nat s5_req_size) 0) 0 msg;
        ver \<leftarrow> rd r 0; cmd \<leftarrow> rd r 1;
        if ver \<noteq> S_VER5 \<or> uint cmd \<noteq> S_ER_OK then Some (Inr (next, POLLERR), s)
        else if v_conn_state (s_ev s v) \<noteq> FLAG_S5 then do {
          r \<leftarrow> wr r 1 S_CMD_CONN;
          (len, r) \<leftarrow> s5_set_addr r 0 s5_req_size (v_addr (s_ev s v)) False;
          d \<leftarrow> rdn r 0 len;
          let (n, s) = sys_send (v_fd (s_ev s v)) d False s;
          if n < 0 then Some (Inr (next, POLLERR), s)
          else Some (Inl 0, upd_ev v (\<lambda>e. e\<lparr>v_conn_state := FLAG_S5\<rparr>) s) }
        else Some (Inr (next, POLLOUT), upd_ev v (\<lambda>e. e\<lparr>v_cb := v_after_conn_cb e\<rparr>) s) })"

section \<open>The server\<close>

definition result :: "(int \<times> st) option \<Rightarrow> (cb_result \<times> st) option" where
  "result = map_option (\<lambda>(r, s). (Inl r, s))"

definition callback :: "cb \<Rightarrow> nat \<Rightarrow> int \<Rightarrow> st \<Rightarrow> (cb_result \<times> st) option" where
  "callback f v t s =
     (case f of
        NoCb \<Rightarrow> None
      | On_accept \<Rightarrow> result (on_accept v s)
      | On_request \<Rightarrow> result (on_request v s)
      | On_connect \<Rightarrow> result (on_connect v t s)
      | On_tunnel \<Rightarrow> result (on_tunnel v t s)
      | On_udp_tunnel \<Rightarrow> result (on_udp_tunnel v s)
      | On_ignore \<Rightarrow> Some (Inl (on_ignore t), s)
      | On_socks_conn \<Rightarrow> on_socks_conn v t s
      | On_socks_recv \<Rightarrow> on_socks_recv v s
      | Recv_and_connect \<Rightarrow> result (recv_and_connect v s))"

partial_function (option) dispatch :: "cb \<Rightarrow> nat \<Rightarrow> int \<Rightarrow> st \<Rightarrow> (int \<times> st) option" where
  "dispatch f v t s = do {
     (r, s) \<leftarrow> callback f v t s;
     (case r of Inl r \<Rightarrow> Some (r, s) | Inr (f, t) \<Rightarrow> dispatch f v t s) }"

definition start_event_loop :: "int \<Rightarrow> st \<Rightarrow> (int \<times> st) option" where
  "start_event_loop fd s =
     (let (ok, s) = init_pool (nat (g_max_open (s_par s) * 2 + 1)) s in
      if \<not> ok then Some (- 1, close_fd fd s)
      else do {
        (v, s) \<leftarrow> add_event On_accept fd POLLIN s;
        (case v of
           None \<Rightarrow> do { s \<leftarrow> destroy_pool s; Some (- 1, close_fd fd s) }
         | Some _ \<Rightarrow> do {
             s \<leftarrow> loop_event dispatch (- 1) (- 1) s;
             s \<leftarrow> destroy_pool s;
             Some (0, s) }) })"

definition listen_socket :: "sockaddr \<Rightarrow> st \<Rightarrow> int \<times> st" where
  "listen_socket srv s =
     (let (fd, s) = nb_socket (sa_family srv) SOCK_STREAM s in
      if fd < 0 then (- 1, s)
      else
        (let (r, s) = sys (CSetopt fd ''SO_REUSEADDR'' 1) s in
         if r_ret r = - 1 then (- 1, close_fd fd s)
         else
           (let (r, s) = sys (CBind fd srv) s in
            if r_ret r < 0 then (- 1, close_fd fd s)
            else
              (let (r, s) = sys (CListen fd 10) s in
               if r_ret r \<noteq> 0 then (- 1, close_fd fd s) else (fd, s)))))"

text \<open>\<open>run\<close> without the signals: \<open>on_cancel\<close> shuts the listening socket, which \<open>accept4\<close> reports.\<close>

definition run :: "sockaddr \<Rightarrow> st \<Rightarrow> (int \<times> st) option" where
  "run srv s =
     (let (fd, s) = listen_socket srv s in
      if fd < 0 then Some (- 1, s) else start_event_loop fd s)"

end
