(* ===== verification/Start.thy ===== *)
theory Start
  imports Options Proxy
begin

unbundle bit_operations_syntax

text \<open>
  The start and the end of the program: the rest of \<open>src/main.c\<close>. The environment, the process id and
  \<open>access ("protect_path")\<close> are parameters.
\<close>

section \<open>Initialisation\<close>

definition init_pid_file :: "byte list \<Rightarrow> int \<Rightarrow> st \<Rightarrow> int \<times> st" where
  "init_pid_file fname pid s =
     (let (r, s) = sys (COpen fname) s; fd = r_ret r in
      if fd < 0 then (- 1, s)
      else
        (let (r, s) = sys (CLockFile fd) s in
         if r_ret r < 0 then (- 1, close_fd fd s)
         else
           (let (r, s) = sys (CWriteFile fd (dec_int pid)) s in
            if r_ret r < 0 then (- 1, close_fd fd s) else (fd, s))))"

text \<open>\<open>srand\<close> has no part in the model: the sequence of random numbers is arbitrary from the start.\<close>

definition init_ttl :: "opts \<Rightarrow> int \<times> opts" where
  "init_ttl a =
     (if g_def_ttl (s_par (a_st a)) = 0 then
        (let (ttl, s) = get_default_ttl (a_st a) in
         (if ttl < 1 then - 1 else 0, upd_par (\<lambda>g. g\<lparr>g_def_ttl := ttl\<rparr>) (a\<lparr>a_st := s\<rparr>)))
      else (0, a))"

definition init :: "int \<Rightarrow> opts \<Rightarrow> int \<times> opts" where
  "init pid a =
     (let (r, a) = init_ttl a in
      if r < 0 then (- 1, a)
      else
        (let (d, s) = (if a_daemonize a then (let (r, s) = sys CDaemon (a_st a) in (r_ret r, s)) else (0, a_st a));
             a = a\<lparr>a_st := s\<rparr> in
         if d < 0 then (- 1, a)
         else
           (case a_pid_file a of
              None \<Rightarrow> (0, a)
            | Some f \<Rightarrow>
                (let (fd, s) = init_pid_file (cstr f) pid (a_st a); a = a\<lparr>a_pid_fd := fd, a_st := s\<rparr> in
                 (if fd < 0 then - 1 else 0, a)))))"

section \<open>The end\<close>

text \<open>The groups, from the first one; a group that was freed is all zeros. \<open>mem_destroy\<close> of a null pointer
  does nothing.\<close>

definition destroy_opt :: "mphdr option \<Rightarrow> elem list option" where
  "destroy_opt h = (case h of None \<Rightarrow> Some [] | Some h \<Rightarrow> mem_destroy (mroot h))"

partial_function (option) clear_groups :: "(nat \<Rightarrow> dparams) \<Rightarrow> nat option \<Rightarrow> (nat \<Rightarrow> dparams) option" where
  "clear_groups dps dp =
     (case dp of
        None \<Rightarrow> Some dps
      | Some d \<Rightarrow> do {
          _ \<leftarrow> destroy_opt (d_hosts (dps d));
          _ \<leftarrow> destroy_opt (d_ipset (dps d));
          clear_groups (dps(d := dp0)) (d_next (dps d)) })"

definition clear_params :: "opts \<Rightarrow> opts option" where
  "clear_params a = do {
     let s = (if a_pid_fd a > 0 then close_fd (a_pid_fd a) (a_st a) else a_st a);
     let s = (case a_pid_file a of None \<Rightarrow> s | Some f \<Rightarrow> snd (sys (CUnlink (cstr f)) s));
     _ \<leftarrow> mem_destroy (mroot (s_pool s));
     dps \<leftarrow> clear_groups (s_dp s) (g_dp (s_par s));
     Some (a\<lparr>a_st := s\<lparr>s_pool := mem_pool 0 CMP_BYTES, s_dp := dps, s_par := (s_par s)\<lparr>g_dp := None\<rparr>\<rparr>\<rparr>) }"

text \<open>\<open>dump_all_cache\<close>: \<open>-\<close> is the standard output. It ends at a file that cannot be opened.\<close>

partial_function (option) dump_groups :: "ntop \<Rightarrow> (nat \<Rightarrow> buf option) \<Rightarrow> nat option \<Rightarrow> st \<Rightarrow> st option" where
  "dump_groups ntop files dp s =
     (case dp of
        None \<Rightarrow> Some s
      | Some d \<Rightarrow>
          (case files d of
             None \<Rightarrow> dump_groups ntop files (d_next (s_dp s d)) s
           | Some f \<Rightarrow> do {
               text \<leftarrow> dump_cache ntop (s_pool s) d;
               if cstr f = [45] then dump_groups ntop files (d_next (s_dp s d)) (snd (sys (CWriteFile 1 text) s))
               else
                 (let (r, s) = sys (COpen (cstr f)) s in
                  if r_ret r < 0 then Some s
                  else
                    (let (_, s) = sys (CWriteFile (r_ret r) text) s in
                     dump_groups ntop files (d_next (s_dp s d)) (close_fd (r_ret r) s))) }))"

definition dump_all_cache :: "ntop \<Rightarrow> opts \<Rightarrow> opts option" where
  "dump_all_cache ntop a = do {
     s \<leftarrow> dump_groups ntop (a_cache_file a) (g_dp (s_par (a_st a))) (a_st a);
     Some (a\<lparr>a_st := s\<rparr>) }"

section \<open>The program\<close>

text \<open>\<open>SS_PLUGIN_OPTIONS\<close>: the line is cut at its spaces, and \<open>argv\<close> points into it.\<close>

partial_function (option) split_line :: "buf \<Rightarrow> int \<Rightarrow> int list \<Rightarrow> (buf \<times> int list) option" where
  "split_line b i argv = do {
     c \<leftarrow> rd b i;
     if c = 0 \<or> length argv \<ge> 64 then Some (b, argv)
     else if c = 32 then do {
       b \<leftarrow> wr b i 0;
       split_line b (i + 1) argv }
     else do {
       p \<leftarrow> (if i = 0 then Some 0 else rd b (i - 1));
       split_line b (i + 1) (if i = 0 \<or> p = 0 then argv @ [i] else argv) } }"

definition line_args :: "byte list \<Rightarrow> byte list list option" where
  "line_args line = do {
     (b, argv) \<leftarrow> split_line (line @ [0]) 0 [0];
     Some (map (\<lambda>i. cstr (drop (nat i) b)) argv) }"

text \<open>\<open>SS_LOCAL_PORT\<close>.\<close>

definition local_port :: "bool \<Rightarrow> byte list option \<Rightarrow> opts \<Rightarrow> opts option" where
  "local_port prot port a =
     (case port of
        None \<Rightarrow> Some a
      | Some p \<Rightarrow> do {
          (v, _) \<leftarrow> strtol10 (p @ [0]) 0;
          let a = a\<lparr>a_laddr := (a_laddr a)\<lparr>sa_port := u16 v\<rparr>\<rparr>;
          let a = (if prot then upd_par (\<lambda>g. g\<lparr>g_protect := Some (str ''protect_path'')\<rparr>) a else a);
          Some (upd_par (\<lambda>g. g\<lparr>g_mode := g_mode g OR 16\<rparr>) a) })"

record 'g start =
  x_env :: "'g env"
  x_args :: "byte list list \<Rightarrow> 'g"       \<comment> \<open>\<open>getopt\<close> before its first call\<close>
  x_local_port :: "byte list option"
  x_plugin_options :: "byte list option"
  x_protect_path :: bool
  x_pid :: int

definition main :: "'g start \<Rightarrow> byte list list \<Rightarrow> st \<Rightarrow> (int \<times> opts) option" where
  "main x argv s = do {
     a \<leftarrow> local_port (x_protect_path x) (x_local_port x) (opts0 s);
     argv \<leftarrow> (case x_plugin_options x of None \<Rightarrow> Some argv | Some line \<Rightarrow> line_args line);
     (status, a) \<leftarrow> parse_args (x_env x) (x_args x argv) a;
     if status \<noteq> 0 then do { a \<leftarrow> clear_params a; Some (status - 1, a) }
     else
       (let (i, a) = init (x_pid x) a in
        if i < 0 then do { a \<leftarrow> clear_params a; Some (- 1, a) }
        else do {
          (r, s) \<leftarrow> run (a_laddr a) (a_st a);
          let a = a\<lparr>a_st := s\<rparr>;
          if r < 0 then do { a \<leftarrow> clear_params a; Some (- 1, a) }
          else do {
            a \<leftarrow> dump_all_cache (e_ntop (x_env x)) a;
            a \<leftarrow> clear_params a;
            Some (0, a) } }) }"

declare clear_groups.simps [code] dump_groups.simps [code] split_line.simps [code]

end
