(* ===== verification/TlsRecords.thy ===== *)
theory TlsRecords
  imports TlsEdit
begin

text \<open>
  Splitting a record with \<open>part_tls\<close> and merging records with \<open>merge_tls_records\<close>, against the
  wire format of a record: a header of three bytes, the length, the payload.
\<close>

definition rec_enc :: "byte list \<Rightarrow> byte list \<Rightarrow> byte list" where
  "rec_enc hdr p = hdr @ be16 (int (length p)) @ p"

lemma length_rec_enc [simp]: "length (rec_enc hdr p) = length hdr + 2 + length p"
  by (simp add: rec_enc_def)

section \<open>Splitting\<close>

lemma part_tls_split_at:
  assumes hdr: "length hdr = 3" and p: "p = p1 @ p2" "length p < 65536"
    and b: "b = rec_enc hdr p @ rest @ junk" "5 \<le> length junk"
    and n: "n = int (length (rec_enc hdr p @ rest))"
  shows "part_tls b (int (length b)) n (int (length p1)) =
    Some (5, rec_enc hdr p1 @ rec_enc hdr p2 @ rest @ drop 5 junk)"
proof -
  let ?L = "int (length p)" and ?pos = "int (length p1)"
  obtain j0 j1 where j: "junk = j0 @ j1" "length j0 = 5"
    using b(2) by (metis append_take_drop_id length_take min.absorb2)
  have g: "\<not> (n < 3 \<or> int (length b) - n < 5 \<or> ?pos < 0 \<or> ?pos + 5 > n)"
    using b n hdr p by (simp add: j)
  have r: "rd16 b 3 = Some ?L"
    using rd16_be16 [of b hdr ?L "p @ rest @ junk"] hdr p(2) by (simp add: b(1) rec_enc_def)
  let ?b1 = "take (length (hdr @ be16 ?L @ p1) + 5) b @ (p2 @ rest) @ drop 5 junk"
  have m1: "memmove b (5 + ?pos + 5) (5 + ?pos) (n - (5 + ?pos)) = Some ?b1"
    by (rule memmove_right) (simp_all add: b(1) n hdr p(1) rec_enc_def j)
  obtain gap where gap: "?b1 = (hdr @ be16 ?L @ p1) @ gap @ p2 @ rest @ j1" "length gap = 5"
  proof
    let ?gap = "take 5 (p2 @ rest @ junk)"
    show "?b1 = (hdr @ be16 ?L @ p1) @ ?gap @ p2 @ rest @ j1"
      by (simp add: b(1) p(1) rec_enc_def hdr j)
    show "length ?gap = 5" by (simp add: j)
  qed
  obtain g3 g2 where g32: "gap = g3 @ g2" "length g3 = 3" "length g2 = 2"
    using gap(2) that [of "take 3 gap" "drop 3 gap"] by simp
  let ?b2 = "hdr @ be16 ?L @ p1 @ hdr @ g2 @ p2 @ rest @ j1"
  have h: "rdn ?b1 0 3 = Some hdr"
    unfolding gap(1) using hdr
    by (subst rdn_mid [where p = "[]" and xs = hdr and q = "be16 ?L @ p1 @ gap @ p2 @ rest @ j1"]) auto
  have w: "wrn ?b1 (5 + ?pos) hdr = Some ?b2"
    unfolding gap(1) using hdr
    by (subst wrn_mid [where p = "hdr @ be16 ?L @ p1" and old = g3 and q = "g2 @ p2 @ rest @ j1"])
      (auto simp: g32)
  have s1: "shtona ?b2 3 ?pos = Some (hdr @ be16 ?pos @ p1 @ hdr @ g2 @ p2 @ rest @ j1)"
    using hdr by (subst shtona_mid [where p = hdr and old = "be16 ?L"]) auto
  have s2: "shtona (hdr @ be16 ?pos @ p1 @ hdr @ g2 @ p2 @ rest @ j1) (5 + ?pos + 3) (?L - ?pos) =
      Some (hdr @ be16 ?pos @ p1 @ hdr @ be16 (?L - ?pos) @ p2 @ rest @ j1)"
    using hdr g32 by (subst shtona_mid [where p = "hdr @ be16 ?pos @ p1 @ hdr" and old = g2]) auto
  have "?L - ?pos = int (length p2)" using p by simp
  then show ?thesis
    using g r m1 h w s1 s2 p by (simp add: part_tls_def rec_enc_def j)
qed

text \<open>The pieces of a payload, each in its own record: what a receiver reassembles.\<close>

definition recs_enc :: "byte list \<Rightarrow> byte list list \<Rightarrow> byte list" where
  "recs_enc hdr ps = concat (map (rec_enc hdr) ps)"

lemma part_tls_splits:
  assumes "length hdr = 3" "length p < 65536" "0 \<le> pos" "pos \<le> int (length p)"
    and "b = rec_enc hdr p @ rest @ junk" "5 \<le> length junk"
    and "n = int (length (rec_enc hdr p @ rest))"
  shows "part_tls b (int (length b)) n pos =
    Some (5, recs_enc hdr [take (nat pos) p, drop (nat pos) p] @ rest @ drop 5 junk)"
proof -
  have "int (length (take (nat pos) p)) = pos" using assms(3,4) by simp
  then show ?thesis
    using part_tls_split_at [of hdr p "take (nat pos) p" "drop (nat pos) p" b rest junk n] assms
    by (simp add: recs_enc_def)
qed

text \<open>The guards: what \<open>part_tls\<close> refuses leaves the buffer alone, and it never leaves the
  object.\<close>

lemma part_tls_safe:
  assumes "0 \<le> n" "bsize = int (length b)"
  shows "\<exists>r b'. part_tls b bsize n pos = Some (r, b') \<and> length b' = length b \<and>
    (r \<noteq> 5 \<longrightarrow> b' = b)"
proof (cases "n < 3 \<or> bsize - n < 5 \<or> pos < 0 \<or> pos + 5 > n")
  case True
  then show ?thesis by (auto simp: part_tls_def)
next
  case False
  then have bnd: "0 \<le> pos" "pos + 5 \<le> n" "n + 5 \<le> int (length b)" using assms by auto
  then obtain r_sz where r: "rd16 b 3 = Some r_sz"
    using rd16_safe [of 3 b] by auto
  obtain b1 where b1: "memmove b (5 + pos + 5) (5 + pos) (n - (5 + pos)) = Some b1"
    using bnd memmove_safe_iff [of b "5 + pos + 5" "5 + pos" "n - (5 + pos)"] by auto
  then have l1: "length b1 = length b" by (rule memmove_length)
  obtain hdr where h: "rdn b1 0 3 = Some hdr" "length hdr = 3"
    using bnd l1 by (cases "rdn b1 0 3") (auto simp: rdn_def split: if_splits)
  obtain b2 where b2: "wrn b1 (5 + pos) hdr = Some b2"
    using wrn_safe [of "5 + pos" hdr b1] bnd h l1 by auto
  then have l2: "length b2 = length b" by (simp add: wrn_length l1)
  obtain b3 where b3: "shtona b2 3 pos = Some b3"
    using shtona_safe_iff [of b2 3 pos] bnd l2 by auto
  then have l3: "length b3 = length b" by (simp add: shtona_length l2)
  obtain b4 where b4: "shtona b3 (5 + pos + 3) (r_sz - pos) = Some b4"
    using shtona_safe_iff [of b3 "5 + pos + 3" "r_sz - pos"] bnd l3 by auto
  then have "length b4 = length b" by (simp add: shtona_length l3)
  then show ?thesis using False r b1 h b2 b3 b4 by (auto simp: part_tls_def)
qed

section \<open>Merging\<close>

text \<open>A buffer with one record that fills it is left alone, but for the two length fields.\<close>

lemma merge_loop_stop:
  "5 + u16 (full + r) > n - 5 \<Longrightarrow> merge_loop b n full r i = Some (b, u16 (full + r), i)"
  by (subst merge_loop.simps) (simp add: Let_def)

lemma merge_tls_records_single:
  assumes "length hdr = 3" "length p < 65536" "length h2 = 2"
    and p: "p = h2 @ be16 (int (length p) - 4) @ q"
    and b: "b = rec_enc hdr p @ junk" "n = int (length (rec_enc hdr p))"
  shows "merge_tls_records b n = Some (b, 0)"
proof -
  let ?L = "int (length p)"
  have r: "rd16 b 3 = Some ?L"
    using rd16_be16 [of b hdr ?L "p @ junk"] assms(1,2) by (simp add: b rec_enc_def)
  have "u16 ?L = ?L" using assms(2) by (intro u16_id) auto
  then have l: "merge_loop b n 0 ?L 0 = Some (b, ?L, 0)"
    using assms(1) by (subst merge_loop_stop) (simp_all add: b)
  have s1: "shtona b 3 ?L = Some b"
    using assms(1) by (subst shtona_mid [where p = hdr and old = "be16 ?L"]) (auto simp: b rec_enc_def)
  have "b = (hdr @ be16 ?L @ h2) @ be16 (?L - 4) @ q @ junk"
    using p by (simp add: b rec_enc_def)
  then have s2: "shtona b 7 (?L - 4) = Some b"
    using assms(1,3) by (subst shtona_mid [where p = "hdr @ be16 ?L @ h2" and old = "be16 (?L - 4)"]) auto
  have "\<not> n < 5" using assms(1) by (simp add: b)
  then show ?thesis using r l s1 s2 by (simp add: merge_tls_records_def)
qed

text \<open>Merging undoes a split. The five bytes that become free at the end keep what was there;
  the loop looks at the first of them as if it started a record, so it must not look like the
  header.\<close>

definition stale :: "byte list \<Rightarrow> byte list \<Rightarrow> byte list" where
  "stale hdr p2 = drop (length p2) (hdr @ be16 (int (length p2)) @ p2)"

lemma stale_length: "length hdr = 3 \<Longrightarrow> length (stale hdr p2) = 5"
  by (simp add: stale_def)

lemma merge_tls_records_two:
  assumes hdr: "length hdr = 3" and p: "p = p1 @ p2" "length p < 65536"
    and h2: "length h2 = 2" "p = h2 @ be16 (int (length p) - 4) @ q"
    and c: "c = recs_enc hdr [p1, p2] @ junk"
    and n: "n = int (length (recs_enc hdr [p1, p2]))"
    and st: "stale hdr p2 ! 0 \<noteq> hdr ! 0"
  shows "merge_tls_records c n = Some (rec_enc hdr p @ stale hdr p2 @ junk, 5)"
proof -
  let ?L = "int (length p)" and ?L1 = "int (length p1)" and ?L2 = "int (length p2)"
  let ?c1 = "hdr @ be16 ?L1 @ p @ stale hdr p2 @ junk"
  have ls: "length (stale hdr p2) = 5" by (rule stale_length [OF hdr])
  have u: "u16 ?L1 = ?L1" "u16 ?L = ?L" "u16 ?L2 = ?L2" using p by (auto intro!: u16_id)
  have ce: "c = hdr @ be16 ?L1 @ p1 @ hdr @ be16 ?L2 @ p2 @ junk"
    by (simp add: c recs_enc_def rec_enc_def)
  have ne: "n = ?L + 10" using hdr p by (simp add: n recs_enc_def)
  have r1: "rd16 c 3 = Some ?L1"
    using hdr u by (subst rd16_mid [where p = hdr and v = ?L1]) (auto simp: ce)
  have r2: "rd16 c (5 + ?L1 + 3) = Some ?L2"
    using hdr u by (subst rd16_mid [where p = "hdr @ be16 ?L1 @ p1 @ hdr" and v = ?L2]) (auto simp: ce)
  have h0: "rd c 0 = Some (hdr ! 0)" "rd c (5 + ?L1) = Some (hdr ! 0)"
    using hdr by (auto simp: ce nth_append nat_add_distrib)
  have m: "memmove c (5 + ?L1) (10 + ?L1) (n - (10 + ?L1)) = Some ?c1"
    using hdr p by (subst memmove_left [where p = "hdr @ be16 ?L1 @ p1" and gap = "hdr @ be16 ?L2"
        and xs = p2 and q = junk]) (auto simp: ce ne stale_def)
  have k: "rd ?c1 0 = Some (hdr ! 0)" "rd ?c1 (5 + ?L) = Some (stale hdr p2 ! 0)"
    using hdr ls by (auto simp: nth_append nat_add_distrib)
  have loop2: "merge_loop ?c1 n ?L1 ?L2 1 = Some (?c1, ?L, 1)"
    using k st u p by (subst merge_loop.simps) (auto simp: ne Let_def)
  have loop: "merge_loop c n 0 ?L1 0 = Some (?c1, ?L, 1)"
    using u h0 r2 m loop2 p by (subst merge_loop.simps) (auto simp: ne Let_def)
  have s1: "shtona ?c1 3 ?L = Some (hdr @ be16 ?L @ p @ stale hdr p2 @ junk)"
    using hdr by (subst shtona_mid [where p = hdr and old = "be16 ?L1"]) auto
  have e: "hdr @ be16 ?L @ p @ stale hdr p2 @ junk =
      (hdr @ be16 ?L @ h2) @ be16 (?L - 4) @ q @ stale hdr p2 @ junk"
    using h2(2) by (metis append.assoc)
  have "shtona (hdr @ be16 ?L @ p @ stale hdr p2 @ junk) 7 (?L - 4) =
      Some ((hdr @ be16 ?L @ h2) @ be16 (?L - 4) @ q @ stale hdr p2 @ junk)"
    by (rule shtona_mid [OF e]) (simp_all add: hdr h2(1))
  then have s2: "shtona (hdr @ be16 ?L @ p @ stale hdr p2 @ junk) 7 (?L - 4) =
      Some (hdr @ be16 ?L @ p @ stale hdr p2 @ junk)"
    by (simp only: e [symmetric])
  show ?thesis
    using r1 loop s1 s2 ne by (simp add: merge_tls_records_def rec_enc_def)
qed



text \<open>A record of length zero at the end of the data is merged again and again: the loop does
  not end, although every access is in bounds.\<close>

lemma merge_loop_empty_tail:
  assumes "5 + u16 (full + r) = n - 5" "n = int (length b)" "5 \<le> n"
    and "rd b (n - 5) = rd b 0" "rd16 b (n - 2) = Some 0"
  shows "merge_loop b n full r i = None"
proof (rule ccontr)
  assume "merge_loop b n full r i \<noteq> None"
  then obtain y where ret: "merge_loop b n full r i = Some y" by blast
  let ?P = "\<lambda>b n full r (i :: int) (y :: buf \<times> int \<times> int).
    \<not> (5 + u16 (full + r) = n - 5 \<and> n = int (length b) \<and> 5 \<le> n \<and>
       rd b (n - 5) = rd b 0 \<and> rd16 b (n - 2) = Some 0)"
  have "?P b n full r i y"
  proof (rule merge_loop.raw_induct [where P = ?P, OF _ ret])
    fix f b n full r i y
    assume IH: "\<And>b n full r i y. f b n full r i = Some y \<Longrightarrow> ?P b n full r i y"
      and eq: "(let full_sz = u16 (full + r) in
        if 5 + full_sz > n - 5 then Some (b, full_sz, i)
        else do {
          c \<leftarrow> rd b (5 + full_sz);
          c0 \<leftarrow> rd b 0;
          if c \<noteq> c0 then Some (b, full_sz, i)
          else do {
            r_sz \<leftarrow> rd16 b (5 + full_sz + 3);
            if full_sz + 10 + r_sz > n then Some (b, full_sz, i)
            else do {
              b \<leftarrow> memmove b (5 + full_sz) (10 + full_sz) (n - (10 + full_sz));
              f b n full_sz r_sz (i + 1) } } }) = Some y"
    show "?P b n full r i y"
    proof
      assume bad: "5 + u16 (full + r) = n - 5 \<and> n = int (length b) \<and> 5 \<le> n \<and>
        rd b (n - 5) = rd b 0 \<and> rd16 b (n - 2) = Some 0"
      let ?full = "u16 (full + r)"
      have offs: "5 + ?full = n - 5" "5 + ?full + 3 = n - 2" "?full + 10 = n" "10 + ?full = n"
        using bad by auto
      have mv: "memmove b (n - 5) n 0 = Some b"
        using bad by (subst memmove_left [where p = "take (nat (n - 5)) b" and gap = "drop (nat (n - 5)) b"
            and xs = "[]" and q = "[]"]) auto
      have "f b n ?full 0 (i + 1) = Some y"
        using eq bad mv unfolding Let_def offs by (cases "rd b 0") (auto simp: bind_eq_Some_conv)
      then have "\<not> (5 + u16 (?full + 0) = n - 5 \<and> n = int (length b) \<and> 5 \<le> n \<and>
        rd b (n - 5) = rd b 0 \<and> rd16 b (n - 2) = Some 0)"
        by (rule IH)
      then show False using bad by (metis add.right_neutral u16_idem)
    qed
  qed
  then show False using assms by simp
qed

text \<open>C39: \<open>merge_tls_records\<close> does not return on a record that is followed by an empty record of
  the same type at the end of the data: it merges the empty record again and again.\<close>

theorem merge_tls_records_diverges:
  assumes "length hdr = 3" "length p + 10 < 65536"
    and "b = recs_enc hdr [p, []]" "n = int (length b)"
  shows "merge_tls_records b n = None"
proof -
  let ?L = "int (length p)"
  have b: "b = hdr @ be16 ?L @ p @ hdr @ be16 0"
    by (simp add: assms(3) recs_enc_def rec_enc_def)
  have n: "n = ?L + 10" using assms(1) by (simp add: assms(4) b)
  have u: "u16 ?L = ?L" using assms(2) by (intro u16_id) auto
  have r: "rd16 b 3 = Some ?L"
    using assms(1) u by (subst rd16_mid [where p = hdr and v = ?L]) (auto simp: b)
  have "merge_loop b n 0 ?L 0 = None"
  proof (rule merge_loop_empty_tail)
    show "5 + u16 (0 + ?L) = n - 5" using u by (simp add: n)
    show "n = int (length b)" by (rule assms(4))
    show "rd b (n - 5) = rd b 0"
      using assms(1) by (auto simp: n b nth_append nat_add_distrib)
    have "rd16 b (n - 2) = Some (u16 0)"
      using assms(1) by (intro rd16_mid [where p = "hdr @ be16 ?L @ p @ hdr" and q = "[]"]) (auto simp: b n)
    then show "rd16 b (n - 2) = Some 0" by (simp add: u16_def)
  qed (simp add: n)
  then show ?thesis using r n by (simp add: merge_tls_records_def)
qed

lemma merge_tls_records_diverges_witness:
  "merge_tls_records (recs_enc [0x16, 3, 1] [[1, 0], []]) (int (length (recs_enc [0x16, 3, 1] [[1, 0], []]))) = None"
  by (rule merge_tls_records_diverges [OF _ _ refl refl]) simp_all

end
