(* ===== verification/TlsSni.thy ===== *)
theory TlsSni
  imports TlsRecords
begin

text \<open>
  The server name of a fake ClientHello: what \<open>copy_name\<close>, \<open>resize_sni\<close>, \<open>remove_tls_ext\<close>
  and \<open>change_tls_sni\<close> do to an encoded ClientHello, and where they leave the object.
\<close>

section \<open>Copying a name\<close>

lemma length_copy_name [simp]: "length (fst (copy_name rand k cs)) = length cs"
  by (induction cs arbitrary: k) (auto simp: case_prod_beta Let_def)

text \<open>A name without \<open>*\<close>, \<open>?\<close> and \<open>#\<close> is copied as it is.\<close>

definition plain_name :: "byte list \<Rightarrow> bool" where
  "plain_name cs \<longleftrightarrow> list_all (\<lambda>c. c \<noteq> 42 \<and> c \<noteq> 63 \<and> c \<noteq> 35) cs"

lemma copy_name_plain: "plain_name cs \<Longrightarrow> copy_name rand k cs = (cs, k)"
  by (induction cs arbitrary: k) (auto simp: plain_name_def copy_char_def)

text \<open>What each pattern character may become.\<close>

definition is_lower_byte :: "byte \<Rightarrow> bool" where
  "is_lower_byte c \<longleftrightarrow> 97 \<le> uint c \<and> uint c \<le> 122"

definition is_digit_byte :: "byte \<Rightarrow> bool" where
  "is_digit_byte c \<longleftrightarrow> 48 \<le> uint c \<and> uint c \<le> 57"

definition name_matches :: "byte \<Rightarrow> byte \<Rightarrow> bool" where
  "name_matches pat c \<longleftrightarrow>
     (if pat = 42 then is_lower_byte c \<or> is_digit_byte c
      else if pat = 63 then is_lower_byte c
      else if pat = 35 then is_digit_byte c
      else c = pat)"

lemma is_lower_byteI: "97 \<le> v \<Longrightarrow> v \<le> 122 \<Longrightarrow> is_lower_byte (word_of_int v)"
  by (simp add: is_lower_byte_def uint_word_of_int)

lemma is_digit_byteI: "48 \<le> v \<Longrightarrow> v \<le> 57 \<Longrightarrow> is_digit_byte (word_of_int v)"
  by (simp add: is_digit_byte_def uint_word_of_int)

lemma copy_char_matches: "name_matches c (fst (copy_char rand k c))"
proof -
  have "0 \<le> int (rand k) mod m \<and> int (rand k) mod m < m" if "0 < m" for m :: int
    using that by simp
  note r = this [of 36, simplified] this [of 26, simplified] this [of 10, simplified]
  show ?thesis
    using r
    by (auto simp: copy_char_def name_matches_def Let_def simp del: of_int_add of_int_numeral
        intro: is_lower_byteI is_digit_byteI)
qed

text \<open>The name that \<open>copy_name\<close> writes into the packet has the length of the pattern and
  matches it character by character: a letter for \<open>?\<close>, a digit for \<open>#\<close>, either for \<open>*\<close>, whatever
  the random numbers are.\<close>

theorem copy_name_matches: "list_all2 name_matches cs (fst (copy_name rand k cs))"
  by (induction cs arbitrary: k) (auto simp: case_prod_beta Let_def copy_char_matches)

section \<open>Making room for a name of another length\<close>

lemma ext_enc_sni: "ext_enc (sni_ext host) =
    be16 0 @ be16 (int (length host) + 5) @ be16 (int (length host) + 3) @ [0] @
    be16 (int (length host)) @ host"
  by (simp add: sni_ext_def add.commute)

text \<open>A longer name needs as many bytes past the data \<open>n\<close> as it is longer.\<close>

lemma resize_sni_safe_iff:
  assumes "0 \<le> sni_offs" "0 \<le> sni_sz" "0 \<le> new_sz" "sni_offs + 4 + sni_sz \<le> n"
  shows "(\<exists>b'. resize_sni b n sni_offs sni_sz new_sz = Some b') \<longleftrightarrow>
    sni_offs + 8 < int (length b) \<and> n \<le> int (length b) \<and> n + (new_sz - (sni_sz - 5)) \<le> int (length b)"
proof -
  have "(\<exists>b'. resize_sni b n sni_offs sni_sz new_sz = Some b') \<longleftrightarrow>
    (\<exists>b1 b2 b3 b4. shtona b (sni_offs + 2) (new_sz + 5) = Some b1 \<and>
      shtona b1 (sni_offs + 4) (new_sz + 3) = Some b2 \<and>
      shtona b2 (sni_offs + 7) new_sz = Some b3 \<and>
      memmove b3 (sni_offs + 4 + sni_sz + new_sz - (sni_sz - 5)) (sni_offs + 4 + sni_sz)
        (n - (sni_offs + 4 + sni_sz)) = Some b4)"
    by (auto simp: resize_sni_def Let_def bind_eq_Some_conv)
  also have "\<dots> \<longleftrightarrow> sni_offs + 8 < int (length b) \<and> n \<le> int (length b) \<and>
      n + (new_sz - (sni_sz - 5)) \<le> int (length b)" (is "?L \<longleftrightarrow> ?R")
  proof
    assume ?L
    then obtain b1 b2 b3 b4 where s: "shtona b (sni_offs + 2) (new_sz + 5) = Some b1"
      "shtona b1 (sni_offs + 4) (new_sz + 3) = Some b2" "shtona b2 (sni_offs + 7) new_sz = Some b3"
      and m: "memmove b3 (sni_offs + 4 + sni_sz + new_sz - (sni_sz - 5)) (sni_offs + 4 + sni_sz)
        (n - (sni_offs + 4 + sni_sz)) = Some b4" by blast
    from s have l: "length b3 = length b" "length b2 = length b" by (simp_all add: shtona_length)
    have "sni_offs + 7 + 1 < int (length b2)"
      using shtona_safe_iff [THEN iffD1, OF exI, OF s(3)] by blast
    moreover note memmove_safe_iff [THEN iffD1, OF exI, OF m]
    ultimately show ?R using l by simp
  next
    assume R: ?R
    then obtain b1 where b1: "shtona b (sni_offs + 2) (new_sz + 5) = Some b1"
      using shtona_safe_iff [of b "sni_offs + 2" "new_sz + 5"] assms(1) by auto
    then have l1: "length b1 = length b" by (rule shtona_length)
    then obtain b2 where b2: "shtona b1 (sni_offs + 4) (new_sz + 3) = Some b2"
      using R shtona_safe_iff [of b1 "sni_offs + 4" "new_sz + 3"] assms(1) by auto
    then have l2: "length b2 = length b" using l1 by (simp add: shtona_length)
    then obtain b3 where b3: "shtona b2 (sni_offs + 7) new_sz = Some b3"
      using R shtona_safe_iff [of b2 "sni_offs + 7" new_sz] assms(1) by auto
    then have "length b3 = length b" using l2 by (simp add: shtona_length)
    then have "\<exists>b4. memmove b3 (sni_offs + 4 + sni_sz + new_sz - (sni_sz - 5)) (sni_offs + 4 + sni_sz)
        (n - (sni_offs + 4 + sni_sz)) = Some b4"
      using R assms unfolding memmove_safe_iff by simp
    with b1 b2 b3 show ?L by blast
  qed
  finally show ?thesis .
qed

lemma resize_sni_shrink:
  assumes b: "b = p @ ext_enc (sni_ext host) @ t @ q"
    and n: "n = int (length (p @ ext_enc (sni_ext host) @ t))"
    and new: "host = h1 @ h2"
  shows "resize_sni b n (int (length p)) (int (length host) + 5) (int (length h1)) =
    Some (p @ ext_enc (sni_ext h1) @ t @ drop (length t) (h2 @ t) @ q)"
proof -
  let ?o = "int (length p)" and ?N = "int (length h1)" and ?H = "int (length host)"
  let ?r = "host @ t @ q"
  have s1: "shtona b (?o + 2) (?N + 5) =
      Some (p @ be16 0 @ be16 (?N + 5) @ be16 (?H + 3) @ [0] @ be16 ?H @ ?r)"
    by (subst shtona_mid [where p = "p @ be16 0" and old = "be16 (?H + 5)"
        and q = "be16 (?H + 3) @ [0] @ be16 ?H @ ?r"]) (simp_all add: b ext_enc_sni)
  have s2: "shtona (p @ be16 0 @ be16 (?N + 5) @ be16 (?H + 3) @ [0] @ be16 ?H @ ?r) (?o + 4) (?N + 3) =
      Some (p @ be16 0 @ be16 (?N + 5) @ be16 (?N + 3) @ [0] @ be16 ?H @ ?r)"
    by (subst shtona_mid [where p = "p @ be16 0 @ be16 (?N + 5)" and old = "be16 (?H + 3)"
        and q = "[0] @ be16 ?H @ ?r"]) simp_all
  have s3: "shtona (p @ be16 0 @ be16 (?N + 5) @ be16 (?N + 3) @ [0] @ be16 ?H @ ?r) (?o + 7) ?N =
      Some (p @ be16 0 @ be16 (?N + 5) @ be16 (?N + 3) @ [0] @ be16 ?N @ ?r)"
    by (subst shtona_mid [where p = "p @ be16 0 @ be16 (?N + 5) @ be16 (?N + 3) @ [0]"
        and old = "be16 ?H" and q = ?r]) simp_all
  have m: "memmove (p @ be16 0 @ be16 (?N + 5) @ be16 (?N + 3) @ [0] @ be16 ?N @ ?r)
      (?o + 4 + (?H + 5) + ?N - (?H + 5 - 5)) (?o + 4 + (?H + 5)) (n - (?o + 4 + (?H + 5))) =
      Some ((p @ be16 0 @ be16 (?N + 5) @ be16 (?N + 3) @ [0] @ be16 ?N @ h1) @ t @
        drop (length t) (h2 @ t) @ q)"
    by (rule memmove_left) (simp_all add: new n ext_enc_sni)
  show ?thesis
    unfolding resize_sni_def Let_def s1 s2 s3 m Option.bind.simps by (simp add: ext_enc_sni)
qed

section \<open>A ClientHello that fills one record\<close>

definition hello_len :: "hello \<Rightarrow> int" where
  "hello_len h = int (6 + length (hello_head h) + length (exts_enc (h_exts h)))"

definition chello :: "byte \<Rightarrow> hello \<Rightarrow> byte list" where
  "chello minor h = hello_enc minor (hello_len h) (hello_len h - 4) h"

lemma length_chello: "int (length (chello minor h)) = 5 + hello_len h"
  by (simp add: chello_def hello_enc_def hello_len_def)

lemma chello_rec_enc:
  "chello minor h = rec_enc [0x16, 0x03, minor]
     ([0x01, 0x00] @ be16 (hello_len h - 4) @ hello_head h @
      be16 (int (length (exts_enc (h_exts h)))) @ exts_enc (h_exts h))"
  by (simp add: chello_def hello_enc_def rec_enc_def hello_len_def add.assoc)

lemma merge_chello:
  assumes "hello_len h < 65536" "n = int (length (chello minor h))"
  shows "merge_tls_records (chello minor h @ junk) n = Some (chello minor h @ junk, 0)"
proof (rule merge_tls_records_single)
  let ?p = "[0x01, 0x00] @ be16 (hello_len h - 4) @ hello_head h @
      be16 (int (length (exts_enc (h_exts h)))) @ exts_enc (h_exts h)"
  have l: "int (length ?p) = hello_len h" by (simp add: hello_len_def)
  show "length [0x16, 0x03, minor :: byte] = 3" "length [0x01, 0x00 :: byte] = 2" by simp_all
  show "length ?p < 65536" using l assms(1) by linarith
  show "?p = [0x01, 0x00] @ be16 (int (length ?p) - 4) @ hello_head h @
      be16 (int (length (exts_enc (h_exts h)))) @ exts_enc (h_exts h)"
    by (simp only: l)
  show "chello minor h @ junk = rec_enc [0x16, 0x03, minor] ?p @ junk"
    "n = int (length (rec_enc [0x16, 0x03, minor] ?p))"
    by (simp_all add: chello_rec_enc assms(2) hello_len_def add.assoc)
qed

text \<open>The part of a ClientHello before its extensions, and what is found there.\<close>

definition hello_pre :: "byte \<Rightarrow> hello \<Rightarrow> byte list" where
  "hello_pre minor h =
     [0x16, 0x03, minor] @ be16 (hello_len h) @ [0x01, 0x00] @ be16 (hello_len h - 4) @ hello_head h"

lemma chello_pre:
  "chello minor h = hello_pre minor h @
     be16 (int (length (exts_enc (h_exts h)))) @ exts_enc (h_exts h)"
  by (simp add: chello_def hello_enc_def hello_pre_def)

lemma length_hello_pre: "length (hello_pre minor h) = 9 + length (hello_head h)"
  by (simp add: hello_pre_def)

lemma rd16_record_length:
  "hello_len h < 65536 \<Longrightarrow> rd16 (chello minor h @ junk) 3 = Some (hello_len h)"
  by (rule rd16_mid [where p = "[0x16, 0x03, minor]" and v = "hello_len h", THEN trans])
    (auto simp: chello_def hello_enc_def hello_len_def intro!: u16_id)

lemma sni_found:
  assumes wf: "wf_hello h" and es: "h_exts h = es1 @ sni_ext host # es2"
    and first: "list_all (\<lambda>(t, d). t \<noteq> 0) es1"
    and b: "b = hello_pre minor h @ be16 (int (length (exts_enc (h_exts h)))) @ exts_enc (h_exts h) @ junk"
    and n: "n = int (length (chello minor h))"
  shows "find_ext_block b n = Some (int (length (hello_pre minor h)))"
    "find_tls_ext_offset 0 b n (int (length (hello_pre minor h))) =
       Some (int (length (hello_pre minor h) + 2 + length (exts_enc es1)))"
    "rd16 b (int (length (hello_pre minor h) + 2 + length (exts_enc es1)) + 2) =
       Some (int (length host) + 5)"
proof -
  let ?pre = "hello_pre minor h" and ?L = "int (length (exts_enc (h_exts h)))"
  have bc: "b = hello_enc minor (hello_len h) (hello_len h - 4) h @ junk"
    by (simp add: b hello_enc_def hello_pre_def)
  have n': "n = int (length ?pre + 2 + length (exts_enc (h_exts h)))"
    by (simp add: n chello_pre)
  show "find_ext_block b n = Some (int (length ?pre))"
    using find_ext_block_hello_enc [OF wf, of n minor "hello_len h" "hello_len h - 4" junk] n'
    by (simp add: bc length_hello_pre)
  have "find_tls_ext_offset 0 b n (int (length ?pre)) =
      Some (ext_pos 0 (h_exts h) (int (length ?pre) + 2))"
    using wf n' by (intro find_tls_ext_offset_spec) (auto simp: wf_hello_def b)
  then show "find_tls_ext_offset 0 b n (int (length ?pre)) =
       Some (int (length ?pre + 2 + length (exts_enc es1)))"
    using ext_pos_sni [OF first] es by simp
  have "wf_ext (sni_ext host)" using wf es by (simp add: wf_hello_def)
  then have "length host + 5 < 65536" by (simp add: sni_ext_def)
  moreover have "b = (?pre @ be16 ?L @ exts_enc es1 @ be16 0) @ be16 (int (length host) + 5) @
      be16 (int (length host) + 3) @ [0] @ be16 (int (length host)) @ host @ exts_enc es2 @ junk"
    by (simp add: b es ext_enc_sni)
  ultimately have "rd16 b (int (length (?pre @ be16 ?L @ exts_enc es1 @ be16 0))) =
      Some (int (length host) + 5)"
    by (intro rd16_be16) auto
  then show "rd16 b (int (length ?pre + 2 + length (exts_enc es1)) + 2) =
       Some (int (length host) + 5)"
    by (simp add: ac_simps)
qed

text \<open>The last step of \<open>change_tls_sni\<close>: the free bytes become a padding extension and the
  three length fields are set.\<close>

definition pad_ext :: "nat \<Rightarrow> tls_ext list" where
  "pad_ext d = (if d = 0 then [] else [(0x0015, replicate (d - 4) 0)])"

lemma length_pad_ext: "d = 0 \<or> 4 \<le> d \<Longrightarrow> length (exts_enc (pad_ext d)) = d"
  by (auto simp: pad_ext_def)

lemma hello_head_exts [simp]: "hello_head (h\<lparr>h_exts := es\<rparr>) = hello_head h"
  by (simp add: hello_head_def)

lemma sni_finish_chello:
  assumes d: "d = 0 \<or> 4 \<le> d" and free: "length free = d"
    and h': "h' = h\<lparr>h_exts := es @ pad_ext d\<rparr>"
    and b: "b = hello_pre minor h @ be16 l @ exts_enc es @ free @ junk"
  shows "sni_finish b (int (length (hello_pre minor h))) (hello_len h') (int d) =
    Some (chello minor h' @ junk)"
proof -
  let ?R = "hello_len h'" and ?p0 = "[0x16, 0x03, minor :: byte]" and ?H = "hello_head h"
  let ?E = "exts_enc es" and ?P = "exts_enc (pad_ext d)"
  have be: "b = ?p0 @ be16 (hello_len h) @ [1, 0] @ be16 (hello_len h - 4) @ ?H @ be16 l @ ?E @ free @ junk"
    by (simp add: b hello_pre_def)
  have R: "?R = int (6 + length ?H + length ?E + d)"
    using length_pad_ext [OF d] by (simp add: h' hello_len_def)
  have skip: "length (hello_pre minor h) = 9 + length ?H" by (rule length_hello_pre)
  let ?b1 = "?p0 @ be16 (hello_len h) @ [1, 0] @ be16 (hello_len h - 4) @ ?H @ be16 l @ ?E @ ?P @ junk"
  have pad: "(if int d \<ge> 4 then do {
        b \<leftarrow> shtona b (5 + ?R - int d) 0x0015;
        b \<leftarrow> shtona b (5 + ?R - int d + 2) (int d - 4);
        memset b (5 + ?R - int d + 4) 0 (int d - 4) } else Some b) = Some ?b1"
  proof (cases "d = 0")
    case True
    then show ?thesis using free by (simp add: be pad_ext_def)
  next
    case False
    then have d4: "4 \<le> d" using d by simp
    let ?q = "?p0 @ be16 (hello_len h) @ [1, 0] @ be16 (hello_len h - 4) @ ?H @ be16 l @ ?E"
    obtain f1 f2 f3 where f: "free = f1 @ f2 @ f3" "length f1 = 2" "length f2 = 2" "length f3 = d - 4"
    proof
      have "free = take 4 free @ drop 4 free" by simp
      moreover have "take 4 free = take 2 free @ take 2 (drop 2 free)"
        using take_add [of 2 2 free] by simp
      ultimately show "free = take 2 free @ take 2 (drop 2 free) @ drop 4 free" by simp
    qed (use free d4 in auto)
    have o: "5 + ?R - int d = int (length ?q)" by (simp add: R)
    have s1: "shtona b (5 + ?R - int d) 0x0015 = Some (?q @ be16 0x0015 @ f2 @ f3 @ junk)"
      unfolding o by (rule shtona_mid [where old = f1]) (simp_all add: be f)
    have s2: "shtona (?q @ be16 0x0015 @ f2 @ f3 @ junk) (5 + ?R - int d + 2) (int d - 4) =
        Some ((?q @ be16 0x0015) @ be16 (int d - 4) @ f3 @ junk)"
      unfolding o by (rule shtona_mid [where old = f2]) (simp_all add: f)
    have s3: "memset ((?q @ be16 0x0015) @ be16 (int d - 4) @ f3 @ junk) (5 + ?R - int d + 4) 0 (int d - 4) =
        Some ((?q @ be16 0x0015 @ be16 (int d - 4)) @ replicate (d - 4) 0 @ junk)"
    proof -
      have "nat (int d - 4) = d - 4" "\<not> int d - 4 < 0" using d4 by auto
      then show ?thesis
        unfolding o memset_def using f(4)
        by (simp only: if_False) (rule wrn_mid [where old = f3], simp_all)
    qed
    have "?P = be16 0x0015 @ be16 (int d - 4) @ replicate (d - 4) 0"
      using d4 by (simp add: pad_ext_def of_nat_diff)
    then show ?thesis using d4 s1 s2 s3 by simp
  qed
  have t1: "shtona ?b1 3 ?R = Some (?p0 @ be16 ?R @ [1, 0] @ be16 (hello_len h - 4) @ ?H @ be16 l @ ?E @ ?P @ junk)"
    by (rule shtona_mid [where old = "be16 (hello_len h)"]) simp_all
  have t2: "shtona (?p0 @ be16 ?R @ [1, 0] @ be16 (hello_len h - 4) @ ?H @ be16 l @ ?E @ ?P @ junk) 7 (?R - 4) =
      Some ((?p0 @ be16 ?R @ [1, 0]) @ be16 (?R - 4) @ ?H @ be16 l @ ?E @ ?P @ junk)"
    by (rule shtona_mid [where old = "be16 (hello_len h - 4)"]) simp_all
  have t3: "shtona ((?p0 @ be16 ?R @ [1, 0]) @ be16 (?R - 4) @ ?H @ be16 l @ ?E @ ?P @ junk)
      (int (length (hello_pre minor h))) (5 + ?R - int (length (hello_pre minor h)) - 2) =
      Some ((?p0 @ be16 ?R @ [1, 0] @ be16 (?R - 4) @ ?H) @
        be16 (5 + ?R - int (length (hello_pre minor h)) - 2) @ ?E @ ?P @ junk)"
    by (rule shtona_mid [where old = "be16 l"]) (simp_all add: skip)
  have "5 + ?R - int (length (hello_pre minor h)) - 2 = int (length (exts_enc (h_exts h')))"
    using length_pad_ext [OF d] R by (simp add: skip h')
  then show ?thesis
    unfolding sni_finish_def pad Option.bind.simps t1 t2 t3
    by (simp add: chello_pre hello_pre_def h')
qed

section \<open>The whole operation\<close>

text \<open>Writing the name into an SNI extension of its length.\<close>

lemma write_name:
  assumes "b = p @ ext_enc (sni_ext host) @ q" "length name = length host"
    and "sni_ext name = (0, d)"
  shows "wrn b (int (length p) + 9) name = Some (p @ ext_enc (sni_ext name) @ q)"
proof -
  let ?h = "be16 0 @ be16 (int (length host) + 5) @ be16 (int (length host) + 3) @ [0] @
    be16 (int (length host))"
  have "wrn b (int (length p) + 9) name = Some ((p @ ?h) @ name @ q)"
    using assms(2) by (intro wrn_mid [where old = host]) (simp_all add: assms(1) ext_enc_sni)
  then show ?thesis using assms(2) by (simp add: ext_enc_sni)
qed

text \<open>The walk over extensions of other types goes on behind them, as long as some byte of the
  block follows.\<close>

lemma tls_ext_loop_skip:
  assumes "list_all wf_ext es" "list_all (\<lambda>(t, d). t \<noteq> type) es"
    and "data = pre @ exts_enc es @ post" "int (length pre + length (exts_enc es)) < sz"
  shows "tls_ext_loop type data sz (int (length pre)) =
    tls_ext_loop type data sz (int (length pre + length (exts_enc es)))"
  using assms
proof (induction es arbitrary: pre)
  case Nil
  then show ?case by simp
next
  case (Cons e es)
  obtain t d where e: "e = (t, d)" by (cases e)
  have t: "rd16 data (int (length pre)) = Some t"
    using Cons.prems by (intro rd16_be16 [where q = "be16 (int (length d)) @ d @ exts_enc es @ post"])
      (auto simp: e)
  have "rd16 data (int (length (pre @ be16 t))) = Some (int (length d))"
    using Cons.prems by (intro rd16_be16 [where q = "d @ exts_enc es @ post"]) (auto simp: e)
  then have d: "rd16 data (int (length pre) + 2) = Some (int (length d))"
    by (simp add: algebra_simps)
  have "tls_ext_loop type data sz (int (length pre)) =
      tls_ext_loop type data sz (int (length (pre @ ext_enc e)))"
    using t d Cons.prems
    by (subst tls_ext_loop.simps) (auto simp: e algebra_simps)
  also have "\<dots> = tls_ext_loop type data sz (int (length (pre @ ext_enc e) + length (exts_enc es)))"
    using Cons.prems by (intro Cons.IH) auto
  finally show ?case by (simp add: add.assoc)
qed

text \<open>The bytes that become free behind the last extension are still inside the block when
  \<open>resize_ech_ext\<close> walks it. They hold no extension of a type when the walk over them (behind one
  byte, as offset 0 means "not found") finds none.\<close>

definition no_ext :: "int \<Rightarrow> byte list \<Rightarrow> bool" where
  "no_ext type st \<longleftrightarrow> tls_ext_loop type (0 # st) (1 + int (length st)) 1 = Some 0"

lemma rd16_shift:
  assumes "1 \<le> i" "i < int (length st)" "data = pre @ st @ post"
  shows "rd16 data (int (length pre) - 1 + i) = rd16 (0 # st) i"
proof -
  obtain j where j: "i = int (Suc j)"
    using assms(1) zle_iff_zadd [of 1 i] by auto
  then have "nat (int (length pre) - 1 + i) = length pre + j"
    "nat (int (length pre) - 1 + i + 1) = length pre + Suc j" "nat i = Suc j" "nat (i + 1) = Suc (Suc j)"
    by auto
  then show ?thesis
    using assms j by (simp add: rd16_Some nth_append)
qed

lemma tls_ext_loop_no_ext:
  assumes "tls_ext_loop type st0 sz i = Some 0" "1 \<le> i"
    and "st0 = 0 # st" "sz = 1 + int (length st)" "data = pre @ st @ post"
  shows "tls_ext_loop type data (int (length pre + length st)) (int (length pre) - 1 + i) = Some 0"
  using assms
proof (induction type st0 sz i rule: tls_ext_loop.induct)
  case (1 type st0 sz i)
  let ?k = "int (length pre) - 1 + i"
  show ?case
  proof (cases "i + 4 < sz")
    case False
    then show ?thesis using 1 by (simp add: tls_ext_loop.simps)
  next
    case True
    then have r: "rd16 data ?k = rd16 st0 i" "rd16 data (?k + 2) = rd16 st0 (i + 2)"
      using "1.prems" rd16_shift [of i st data pre post] rd16_shift [of "i + 2" st data pre post]
      by (auto simp: add.assoc)
    obtain t l where tl: "rd16 st0 i = Some t" "rd16 st0 (i + 2) = Some l" "0 \<le> l"
      using True "1.prems" rd16_safe [of i st0] rd16_safe [of "i + 2" st0] by auto
    have ne: "type \<noteq> t"
    proof
      assume "type = t"
      then have "tls_ext_loop type st0 sz i = Some i"
        using True tl by (subst tls_ext_loop.simps) simp
      then show False using "1.prems"(1,2) by simp
    qed
    have "tls_ext_loop type st0 sz (i + (l + 4)) = Some 0"
      using "1.prems"(1) True tl ne by (simp add: tls_ext_loop.simps [of type st0 sz i])
    then have "tls_ext_loop type data (int (length pre + length st)) (int (length pre) - 1 + (i + (l + 4))) = Some 0"
      using "1.prems" tl ne True by (intro "1.IH") auto
    then show ?thesis
      using True tl ne r "1.prems"(4) by (subst tls_ext_loop.simps) (simp add: add.assoc)
  qed
qed

lemma resize_ech_none:
  assumes es: "list_all wf_ext es" "list_all (\<lambda>(t, d). t \<noteq> 0xfe0d) es"
    and st: "no_ext 0xfe0d st" "st \<noteq> []"
    and b: "b = pre @ be16 (int (length (exts_enc es @ st))) @ exts_enc es @ st @ post"
    and L: "length (exts_enc es @ st) < 65536"
    and n: "int (length (pre @ exts_enc es @ st)) + 2 \<le> n"
  shows "resize_ech_ext b n (int (length pre)) inc = Some (b, 0)"
proof -
  let ?L = "int (length (exts_enc es @ st))"
  let ?p = "pre @ be16 ?L"
  have rd: "rd16 b (int (length pre)) = Some ?L"
    using b L by (intro rd16_be16) auto
  have "tls_ext_loop 0xfe0d b (int (length ?p) + ?L) (int (length ?p)) =
      tls_ext_loop 0xfe0d b (int (length ?p) + ?L) (int (length ?p + length (exts_enc es)))"
    using es st(2) by (intro tls_ext_loop_skip [where post = "st @ post"]) (auto simp: b)
  also have "\<dots> = Some 0"
    using tls_ext_loop_no_ext [where pre = "?p @ exts_enc es" and st = st and i = 1 and post = post
        and data = b, OF st(1) [unfolded no_ext_def]]
    by (simp add: b add.assoc)
  finally have loop: "tls_ext_loop 0xfe0d b (int (length pre) + 2 + ?L) (int (length pre) + 2) = Some 0"
    by (simp add: ac_simps)
  have "1 \<le> int (length st)" using st(2) by (cases st) auto
  then have a: "\<not> n \<le> int (length pre) + 2"
    and sz: "(if ?L < n - (int (length pre) + 2) then ?L + (int (length pre) + 2) else n) =
      int (length pre) + 2 + ?L"
    using n by auto
  have "find_tls_ext_offset 0xfe0d b n (int (length pre)) = Some 0"
    unfolding find_tls_ext_offset_def rd Option.bind.simps Let_def sz loop using a by simp
  then show ?thesis by (simp add: resize_ech_ext_def)
qed

lemma find_ext_first:
  assumes es: "list_all wf_ext es" "list_all (\<lambda>(t, d). t \<noteq> type) es"
    and b: "b = pre @ be16 L @ exts_enc es @ be16 type @ rest" "0 \<le> type" "type < 65536"
    and L: "int (length (exts_enc es)) + 4 < L" "L < 65536"
    and n: "int (length pre) + 2 + L \<le> n"
  shows "find_tls_ext_offset type b n (int (length pre)) = Some (int (length pre + 2 + length (exts_enc es)))"
proof -
  let ?p = "pre @ be16 L" and ?k = "int (length pre + 2 + length (exts_enc es))"
  have rd: "rd16 b (int (length pre)) = Some L"
    using b L by (intro rd16_be16) auto
  have "tls_ext_loop type b (int (length pre) + 2 + L) (int (length ?p)) =
      tls_ext_loop type b (int (length pre) + 2 + L) (int (length ?p + length (exts_enc es)))"
    using es L by (intro tls_ext_loop_skip [where post = "be16 type @ rest"]) (auto simp: b)
  moreover have "rd16 b (int (length (?p @ exts_enc es))) = Some type"
    using b by (intro rd16_be16) auto
  then have "tls_ext_loop type b (int (length pre) + 2 + L) (int (length ?p + length (exts_enc es))) = Some ?k"
    using L by (subst tls_ext_loop.simps) simp
  ultimately have loop: "tls_ext_loop type b (int (length pre) + 2 + L) (int (length pre) + 2) = Some ?k"
    by (simp add: ac_simps)
  have sz: "(if L < n - (int (length pre) + 2) then L + (int (length pre) + 2) else n) =
      int (length pre) + 2 + L" and a: "\<not> n \<le> int (length pre) + 2"
    using n L by auto
  show ?thesis
    unfolding find_tls_ext_offset_def rd Option.bind.simps Let_def sz loop using a by simp
qed

text \<open>The hypotheses of the theorems below: the fake packet is one ClientHello in one record of
  its own length, with a server name of \<open>host\<close>, and the name to put there has no pattern
  characters.\<close>

lemma change_tls_sni_steps:
  assumes wf: "wf_hello h" and es: "h_exts h = es1 @ sni_ext host # es2"
    and first: "list_all (\<lambda>(t, d). t \<noteq> 0) es1" and len: "hello_len h < 65536"
    and b: "b = chello minor h @ junk" and n: "n = int (length (chello minor h))"
  defines "skip \<equiv> int (length (hello_pre minor h))"
    and "offs \<equiv> int (length (hello_pre minor h) + 2 + length (exts_enc es1))"
  shows "merge_tls_records b n = Some (b, 0)" "rd16 b 3 = Some (hello_len h)"
    "find_ext_block b n = Some skip" "skip \<noteq> 0"
    "find_tls_ext_offset 0 b n skip = Some offs" "offs \<noteq> 0"
    "rd16 b (offs + 2) = Some (int (length host) + 5)"
    "\<not> offs + 4 + (int (length host) + 5) > n"
proof -
  have b': "b = hello_pre minor h @ be16 (int (length (exts_enc (h_exts h)))) @ exts_enc (h_exts h) @ junk"
    by (simp add: b chello_pre)
  show "merge_tls_records b n = Some (b, 0)" using merge_chello [OF len n] by (simp add: b)
  show "rd16 b 3 = Some (hello_len h)" using rd16_record_length [OF len] by (simp add: b)
  show "find_ext_block b n = Some skip" "find_tls_ext_offset 0 b n skip = Some offs"
    "rd16 b (offs + 2) = Some (int (length host) + 5)"
    using sni_found [OF wf es first b' n] by (simp_all add: skip_def offs_def)
  show "skip \<noteq> 0" "offs \<noteq> 0" by (simp_all add: skip_def offs_def length_hello_pre)
  show "\<not> offs + 4 + (int (length host) + 5) > n"
    by (simp add: offs_def n chello_pre es ext_enc_sni)
qed

lemma hello_host_length:
  assumes "wf_hello h" "h_exts h = es1 @ sni_ext host # es2"
  shows "length host + 5 < 65536"
  using assms by (auto simp: wf_hello_def sni_ext_def)

lemma change_tls_sni_same_length:
  assumes wf: "wf_hello h" and es: "h_exts h = es1 @ sni_ext host # es2"
    and first: "list_all (\<lambda>(t, d). t \<noteq> 0) es1" and len: "hello_len h < 65536"
    and name: "length name = length host" "plain_name name"
    and b: "b = chello minor h @ junk" and n: "n = int (length (chello minor h))"
  shows "change_tls_sni rand k name b n n =
    Some (0, chello minor (h\<lparr>h_exts := es1 @ sni_ext name # es2\<rparr>) @ junk, k)"
proof -
  let ?h' = "h\<lparr>h_exts := (es1 @ sni_ext name # es2) @ pad_ext 0\<rparr>"
  note st = change_tls_sni_steps [OF wf es first len b n]
  let ?pre = "hello_pre minor h" and ?L = "int (length (exts_enc (h_exts h)))"
  have u: "u16 (hello_len h) = hello_len h" "u16 (int (length name)) = int (length host)"
    using len name hello_host_length [OF wf es] by (auto intro!: u16_id simp: hello_len_def)
  have w: "wrn b (int (length ?pre + 2 + length (exts_enc es1)) + 9) name =
      Some ((?pre @ be16 ?L @ exts_enc es1) @ ext_enc (sni_ext name) @ exts_enc es2 @ junk)"
    using write_name [of b "?pre @ be16 ?L @ exts_enc es1" host "exts_enc es2 @ junk" name]
    by (simp add: b chello_pre es name(1) sni_ext_def ac_simps)
  have hl: "hello_len ?h' = hello_len h"
    using name(1) by (simp add: hello_len_def es ext_enc_sni pad_ext_def)
  have f: "sni_finish ((?pre @ be16 ?L @ exts_enc es1) @ ext_enc (sni_ext name) @ exts_enc es2 @ junk)
      (int (length ?pre)) (hello_len h) 0 = Some (chello minor ?h' @ junk)"
    using sni_finish_chello [of 0 "[]" ?h' "es1 @ sni_ext name # es2" h
        "(?pre @ be16 ?L @ exts_enc es1) @ ext_enc (sni_ext name) @ exts_enc es2 @ junk" minor ?L junk] hl
    by simp
  have "take (nat (int (length host))) name = name" using name(1) by simp
  then show ?thesis
    using st u w f name
    by (simp add: change_tls_sni_def Let_def copy_name_plain sni_strip_exts_def pad_ext_def)
qed



end
