(* ===== verification/TlsOverflow.thy ===== *)
theory TlsOverflow
  imports TlsSni
begin

text \<open>
  Where the editing functions leave the fake packet: a longer server name moves the tail of the
  packet past its end, and a key share whose length field is too large makes \<open>randomize_tls\<close>
  write past the packet. Also what they do when they stay inside.
\<close>

section \<open>The name that was put in is the name that is parsed\<close>

lemma wf_hello_sni:
  assumes "wf_hello h" "h_exts h = es1 @ sni_ext host # es2" "list_all wf_ext fs"
    and "length (exts_enc (es1 @ sni_ext name # fs)) \<le> length (exts_enc (h_exts h))"
    and "length name \<le> length host"
  shows "wf_hello (h\<lparr>h_exts := es1 @ sni_ext name # fs\<rparr>)"
  using assms hello_host_length [OF assms(1,2)]
  by (auto simp: wf_hello_def) (simp add: sni_ext_def)


section \<open>A longer name\<close>

lemma ext_pos_none: "list_all (\<lambda>(t, d). t \<noteq> type) es \<Longrightarrow> ext_pos type es p = 0"
  by (induction es arbitrary: p) auto

lemma resize_ech_absent:
  assumes "wf_hello h" "list_all (\<lambda>(t, d). t \<noteq> 0xfe0d) (h_exts h)"
    and "b = chello minor h @ junk" "n = int (length (chello minor h))"
  shows "resize_ech_ext b n (int (length (hello_pre minor h))) inc = Some (b, 0)"
proof -
  have "find_tls_ext_offset 0xfe0d b n (int (length (hello_pre minor h))) =
      Some (ext_pos 0xfe0d (h_exts h) (int (length (hello_pre minor h)) + 2))"
    using assms by (intro find_tls_ext_offset_spec [where post = junk]) (auto simp: wf_hello_def chello_pre)
  then show ?thesis using assms(2) by (simp add: resize_ech_ext_def ext_pos_none)
qed

text \<open>The padding extension pays for a name that is longer by up to its length. The packet
  keeps its size, and yet the tail is first moved up whole: without as many spare bytes behind
  the packet as the name is longer, \<open>memmove\<close> writes outside the object.\<close>

text \<open>C37: a longer server name in a packet with padding makes \<open>change_tls_sni\<close> write past the
  packet: it moves the tail up before the padding is taken away, so a buffer with less spare room
  than the name grows by is overrun, although the finished packet would fit.\<close>

theorem change_tls_sni_longer_overflows:
  assumes wf: "wf_hello h"
    and es: "h_exts h = es1 @ sni_ext host # es2 @ [(0x0015, pad)]"
    and first: "list_all (\<lambda>(t, d). t \<noteq> 0 \<and> t \<noteq> 0x0015) es1"
    and other: "list_all (\<lambda>(t, d). t \<noteq> 0xfe0d) es1" "list_all (\<lambda>(t, d). t \<noteq> 0xfe0d \<and> t \<noteq> 0x0015) es2"
    and len: "hello_len h < 65536"
    and name: "length host < length name" "length name \<le> length host + min 50 (length pad)"
    and b: "b = chello minor h @ junk" and n: "n = int (length (chello minor h))"
    and spare: "length junk < length name - length host"
  shows "change_tls_sni rand k name b n n = None"
proof -
  let ?N = "int (length name)" and ?H = "int (length host)" and ?P = "int (length pad)"
  let ?pre = "hello_pre minor h" and ?L = "int (length (exts_enc (h_exts h)))"
  let ?skip = "int (length ?pre)" and ?offs = "int (length ?pre + 2 + length (exts_enc es1))"
  have first0: "list_all (\<lambda>(t, d). t \<noteq> 0) es1"
    using first by (auto simp: list_all_iff)
  have es': "h_exts h = es1 @ sni_ext host # (es2 @ [(0x0015, pad)])" using es by simp
  note st = change_tls_sni_steps [OF wf es' first0 len b n]
  have no15: "list_all (\<lambda>(t, d). t \<noteq> 0x0015) (es1 @ sni_ext host # es2)"
    using first other by (auto simp: list_all_iff sni_ext_def)
  have ech: "list_all (\<lambda>(t, d). t \<noteq> 0xfe0d) (h_exts h)"
    using other by (auto simp: es list_all_iff sni_ext_def)
  have wfe: "list_all wf_ext (es1 @ sni_ext host # es2)" "length pad < 65536"
    "length (exts_enc (h_exts h)) < 65536"
    using wf es by (auto simp: wf_hello_def)
  have "?N \<le> hello_len h"
    using name by (auto simp: hello_len_def es ext_enc_sni)
  then have u: "u16 (hello_len h) = hello_len h" "u16 ?N = ?N"
    using len by (auto intro!: u16_id)
  have ech1: "resize_ech_ext b n ?skip inc = Some (b, 0)" for inc
    by (rule resize_ech_absent [OF wf ech b n])
  let ?e = "int (length ?pre + 2 + length (exts_enc (es1 @ sni_ext host # es2)))"
  have f15: "find_tls_ext_offset 0x0015 b n ?skip = Some ?e"
    using wfe no15 name
    by (intro find_ext_first [where L = ?L and rest = "be16 ?P @ pad @ junk"])
      (auto simp: b chello_pre es n)
  have "b = (?pre @ be16 ?L @ exts_enc (es1 @ sni_ext host # es2) @ be16 0x0015) @ be16 ?P @ pad @ junk"
    by (simp add: b chello_pre es)
  then have "rd16 b (int (length (?pre @ be16 ?L @ exts_enc (es1 @ sni_ext host # es2) @ be16 0x0015))) = Some ?P"
    using wfe(2) by (intro rd16_be16) auto
  then have r15: "rd16 b (?e + 2) = Some ?P" by (simp add: ac_simps)
  have end15: "?e + 4 + ?P = n" by (simp add: n chello_pre es)
  have "memmove b ?e n (n - n) = Some b"
    using end15 memmove_left [of b "take (nat ?e) b" "take (nat (4 + ?P)) (drop (nat ?e) b)" "[]"
        "drop (nat n) b" ?e n "n - n"]
    by (simp add: b n)
  then have rm: "remove_tls_ext b n ?skip 0x0015 = Some (b, ?P + 4)"
    using f15 r15 end15 by (simp add: remove_tls_ext_def Let_def)
  have strip: "strip_exts sni_strip_exts b n ?skip (?H - ?N) = Some (b, Some (?H - ?N + (?P + 4)))"
  proof -
    have "?H - ?N \<noteq> 0" "?H - ?N < 4" "\<not> ?H - ?N + (?P + 4) < 4" using name by auto
    then show ?thesis unfolding sni_strip_exts_def by (simp only: strip_exts.simps rm) simp
  qed
  have over: "resize_sni b n ?offs (?H + 5) ?N = None"
  proof -
    have "\<not> n + (?N - (?H + 5 - 5)) \<le> int (length b)" using spare by (simp add: b n)
    then show ?thesis
      using resize_sni_safe_iff [of ?offs "?H + 5" ?N n b] st(8) by fastforce
  qed
  have "\<not> ?H - ?N < - 50" "?N - ?H \<noteq> 0" "\<not> ?N - ?H < 0" using name by auto
  then show ?thesis
    using st u ech1 strip over by (simp add: change_tls_sni_def Let_def)
qed

section \<open>Randomising\<close>

lemma rand_fill_mid:
  assumes "b = p @ old @ q" "i = int (length p)" "len = int (length old)"
  shows "\<exists>xs. length xs = length old \<and> rand_fill rand k b i len = Some (p @ xs @ q, k + length old)"
proof -
  let ?xs = "fst (gen_rand_array rand k (length old))"
  have "length ?xs = length old" by (simp add: gen_rand_array_def)
  moreover from this have "wrn b i ?xs = Some (p @ ?xs @ q)"
    using assms by (intro wrn_mid) auto
  ultimately show ?thesis
    by (auto simp: rand_fill_def gen_rand_array_def assms(3))
qed

text \<open>The random and session id of the hello are replaced, and nothing before the extensions
  but them.\<close>

definition hello_like :: "hello \<Rightarrow> hello \<Rightarrow> bool" where
  "hello_like h h' \<longleftrightarrow> take 2 (h_vers h') = take 2 (h_vers h) \<and>
     length (h_vers h') = length (h_vers h) \<and> length (h_sid h') = length (h_sid h) \<and>
     h_ciphers h' = h_ciphers h \<and> h_comp h' = h_comp h \<and> h_exts h' = h_exts h"

lemma find_ext_block_chello:
  assumes "wf_hello h" "n = int (length (chello minor h))"
  shows "find_ext_block (chello minor h @ junk) n = Some (int (length (hello_pre minor h)))"
proof -
  have "int (9 + length (hello_head h)) \<le> n"
    by (simp add: assms(2) length_chello hello_len_def)
  from find_ext_block_hello_enc [OF assms(1) this] show ?thesis
    by (simp only: chello_def length_hello_pre)
qed

lemma randomize_head:
  assumes wf: "wf_hello h" and b: "b = chello minor h @ junk" and n: "n = int (length (chello minor h))"
  shows "\<exists>h' k'. hello_like h h' \<and> wf_hello h' \<and>
    randomize_tls rand k b n =
      (do {
         ks_offs \<leftarrow> find_tls_ext_offset 0x0033 (chello minor h' @ junk) n (int (length (hello_pre minor h')));
         if ks_offs = 0 \<or> ks_offs + 6 \<ge> n then Some (chello minor h' @ junk, k')
         else do {
           ks_sz \<leftarrow> antohs (chello minor h' @ junk) (ks_offs + 2);
           if ks_offs + 4 + ks_sz > n then Some (chello minor h' @ junk, k')
           else rand_ks_loop rand k' (chello minor h' @ junk) n ks_offs ks_sz (ks_offs + 4 + 2) } })"
proof -
  let ?s = "int (length (h_sid h))"
  let ?c0 = "[0x16, 0x03, minor] @ be16 (hello_len h) @ [0x01, 0x00] @ be16 (hello_len h - 4)"
  let ?rest = "be16 (int (length (h_ciphers h))) @ h_ciphers h @ h_comp h @
    be16 (int (length (exts_enc (h_exts h)))) @ exts_enc (h_exts h) @ junk"
  have v: "length (h_vers h) = 34" "?s < 256" using wf by (auto simp: wf_hello_def)
  have be: "b = ?c0 @ h_vers h @ [word_of_int ?s] @ h_sid h @ ?rest"
    by (simp add: b chello_def hello_enc_def hello_head_def)
  have l43: "length (?c0 @ h_vers h) = 43" using v by simp
  have "b ! 43 = word_of_int ?s" using be l43 by (metis append.assoc append_Cons nth_append_length)
  moreover have "n \<ge> 48 + ?s" using v wf by (simp add: n length_chello hello_len_def hello_head_length)
  ultimately have g: "rd b 43 = Some (word_of_int ?s)" "\<not> n < 44" "\<not> n < 44 + ?s + 2"
    using v by (simp_all add: be)
  have u: "uint (word_of_int ?s :: byte) = ?s" using v by (simp add: unsigned_of_nat take_bit_nat_eq_self)
  obtain x where x: "length x = 32" "rand_fill rand k b 11 32 =
      Some ((?c0 @ take 2 (h_vers h)) @ x @ [word_of_int ?s] @ h_sid h @ ?rest, k + 32)"
  proof -
    have "b = (?c0 @ take 2 (h_vers h)) @ drop 2 (h_vers h) @ [word_of_int ?s] @ h_sid h @ ?rest"
      by (simp add: be)
    from rand_fill_mid [OF this, of 11 32 rand k] v that show ?thesis by auto
  qed
  obtain y where y: "length y = length (h_sid h)"
    "rand_fill rand (k + 32) ((?c0 @ take 2 (h_vers h)) @ x @ [word_of_int ?s] @ h_sid h @ ?rest) 44 ?s =
      Some ((?c0 @ take 2 (h_vers h) @ x @ [word_of_int ?s]) @ y @ ?rest, k + 32 + length (h_sid h))"
    using rand_fill_mid [of "(?c0 @ take 2 (h_vers h)) @ x @ [word_of_int ?s] @ h_sid h @ ?rest"
        "?c0 @ take 2 (h_vers h) @ x @ [word_of_int ?s]" "h_sid h" ?rest 44 ?s rand "k + 32"] v x(1)
    by auto
  let ?h' = "h\<lparr>h_vers := take 2 (h_vers h) @ x, h_sid := y\<rparr>"
  have like: "hello_like h ?h'" using x(1) y(1) v by (simp add: hello_like_def)
  have wf': "wf_hello ?h'" using wf x(1) y(1) by (simp add: wf_hello_def)
  have hl: "hello_len ?h' = hello_len h"
    using x(1) y(1) v by (simp add: hello_len_def hello_head_def)
  have b2: "(?c0 @ take 2 (h_vers h) @ x @ [word_of_int ?s]) @ y @ ?rest = chello minor ?h' @ junk"
    using hl y(1) by (simp add: chello_def hello_enc_def hello_head_def)
  have n': "n = int (length (chello minor ?h'))" using hl by (simp add: n length_chello)
  have skip: "find_ext_block (chello minor ?h' @ junk) n = Some (int (length (hello_pre minor ?h')))"
    using n' by (rule find_ext_block_chello [OF wf'])
  have ne: "int (length (hello_pre minor ?h')) \<noteq> 0" by (simp add: length_hello_pre)
  have "randomize_tls rand k b n =
      (do {
         ks_offs \<leftarrow> find_tls_ext_offset 0x0033 (chello minor ?h' @ junk) n (int (length (hello_pre minor ?h')));
         if ks_offs = 0 \<or> ks_offs + 6 \<ge> n then Some (chello minor ?h' @ junk, k + 32 + length (h_sid h))
         else do {
           ks_sz \<leftarrow> antohs (chello minor ?h' @ junk) (ks_offs + 2);
           if ks_offs + 4 + ks_sz > n then Some (chello minor ?h' @ junk, k + 32 + length (h_sid h))
           else rand_ks_loop rand (k + 32 + length (h_sid h)) (chello minor ?h' @ junk) n ks_offs ks_sz (ks_offs + 4 + 2) } })"
    using g u x(2) y(2) unfolding b2 by (simp add: randomize_tls_def Let_def skip ne del: of_nat_eq_0_iff)
  with like wf' show ?thesis by blast
qed

text \<open>Without a key share \<open>randomize_tls\<close> changes nothing but the random bytes and the session
  id of a ClientHello, whatever follows it in the buffer, and stays inside it.\<close>

theorem randomize_tls_no_key_share:
  assumes wf: "wf_hello h" and no: "list_all (\<lambda>(t, d). t \<noteq> 0x0033) (h_exts h)"
    and n: "n = int (length (chello minor h))"
  shows "\<exists>h' k'. hello_like h h' \<and> randomize_tls rand k (chello minor h @ junk) n =
    Some (chello minor h' @ junk, k')"
proof -
  obtain h' k' where h': "hello_like h h'" "wf_hello h'"
    and eq: "randomize_tls rand k (chello minor h @ junk) n =
      (do {
         ks_offs \<leftarrow> find_tls_ext_offset 0x0033 (chello minor h' @ junk) n (int (length (hello_pre minor h')));
         if ks_offs = 0 \<or> ks_offs + 6 \<ge> n then Some (chello minor h' @ junk, k')
         else do {
           ks_sz \<leftarrow> antohs (chello minor h' @ junk) (ks_offs + 2);
           if ks_offs + 4 + ks_sz > n then Some (chello minor h' @ junk, k')
           else rand_ks_loop rand k' (chello minor h' @ junk) n ks_offs ks_sz (ks_offs + 4 + 2) } })"
    using randomize_head [OF wf refl n] by blast
  have n': "n = int (length (chello minor h'))"
    using h' wf by (auto simp: n length_chello hello_len_def hello_like_def hello_head_length)
  have "find_tls_ext_offset 0x0033 (chello minor h' @ junk) n (int (length (hello_pre minor h'))) =
      Some (ext_pos 0x0033 (h_exts h') (int (length (hello_pre minor h')) + 2))"
    using h'(2) n' by (intro find_tls_ext_offset_spec [where post = junk]) (auto simp: wf_hello_def chello_pre)
  then show ?thesis
    using eq h'(1) no by (auto simp: ext_pos_none hello_like_def)
qed

text \<open>The check on the size of a group compares it with the start of the key share extension
  and not with the start of the group, six bytes later: a ClientHello whose only group claims
  seven bytes, in an extension of seven bytes at the end, is written past its end.\<close>

text \<open>C38: a key share whose group length exceeds what is left of the packet makes \<open>randomize_tls\<close>
  write past the packet: the length is checked against the start of the extension and not against
  the place it is used at.\<close>

theorem randomize_tls_overflows:
  assumes wf: "wf_hello h" and es: "h_exts h = es @ [(0x0033, [l0, l1, t0, t1, 0, 7, y])]"
    and no: "list_all (\<lambda>(t, d). t \<noteq> 0x0033) es" and n: "n = int (length (chello minor h))"
    and spare: "length junk < 6"
  shows "randomize_tls rand k (chello minor h @ junk) n = None"
proof -
  obtain h' k' where h': "hello_like h h'" "wf_hello h'"
    and eq: "randomize_tls rand k (chello minor h @ junk) n =
      (do {
         ks_offs \<leftarrow> find_tls_ext_offset 0x0033 (chello minor h' @ junk) n (int (length (hello_pre minor h')));
         if ks_offs = 0 \<or> ks_offs + 6 \<ge> n then Some (chello minor h' @ junk, k')
         else do {
           ks_sz \<leftarrow> antohs (chello minor h' @ junk) (ks_offs + 2);
           if ks_offs + 4 + ks_sz > n then Some (chello minor h' @ junk, k')
           else rand_ks_loop rand k' (chello minor h' @ junk) n ks_offs ks_sz (ks_offs + 4 + 2) } })"
    using randomize_head [OF wf refl n] by blast
  let ?b = "chello minor h' @ junk" and ?L = "int (length (exts_enc (h_exts h')))"
  let ?p = "hello_pre minor h' @ be16 ?L @ exts_enc es"
  let ?o = "int (length (hello_pre minor h') + 2 + length (exts_enc es))"
  have n': "n = int (length (chello minor h'))"
    using h' wf by (auto simp: n length_chello hello_len_def hello_like_def hello_head_length)
  have es': "h_exts h' = es @ [(0x0033, [l0, l1, t0, t1, 0, 7, y])]"
    using h'(1) es by (simp add: hello_like_def)
  have b: "?b = ?p @ be16 0x33 @ be16 7 @ [l0, l1, t0, t1] @ be16 7 @ [y] @ junk"
    by (simp add: chello_pre es' be16_def)
  have nn: "n = ?o + 11" by (simp add: n' chello_pre es')
  have wfe: "list_all wf_ext es" "?L < 65536" using h'(2) es' by (auto simp: wf_hello_def)
  have f: "find_tls_ext_offset 0x33 ?b n (int (length (hello_pre minor h'))) = Some ?o"
    using wfe no by (intro find_ext_first [where L = ?L]) (auto simp: b nn es')
  have "antohs ?b (?o + 2) = Some 7"
  proof -
    have "?b ! nat (?o + 2) = 0" "?b ! nat (?o + 2 + 1) = 7"
      by (simp_all add: b nth_append be16_def nat_add_distrib)
    moreover have "?o + 2 + 1 < int (length ?b)" by (simp add: n' [symmetric] nn)
    ultimately show ?thesis by (simp add: antohs_Some u16_def)
  qed
  moreover have "rand_ks_loop rand k' ?b n ?o 7 (?o + 4 + 2) = None"
  proof -
    have "rd16 ?b (int (length (?p @ be16 0x33 @ be16 7 @ [l0, l1, t0, t1]))) = Some 7"
      by (rule rd16_be16 [where q = "[y] @ junk"]) (simp_all add: b)
    then have "rd16 ?b (?o + 4 + 2 + 2) = Some 7" by (simp add: ac_simps)
    moreover have "rand_fill rand k' ?b (?o + 4 + 2 + 4) 7 = None"
      using spare by (auto simp: rand_fill_def gen_rand_array_def wrn_def b)
    ultimately show ?thesis by (subst rand_ks_loop.simps) (simp add: nn)
  qed
  ultimately show ?thesis using eq f by (simp add: nn)
qed

section \<open>Examples\<close>

lemma hello_ex_exts [simp]: "h_exts (hello_ex es) = es"
  by (simp add: hello_ex_def)


lemma change_tls_sni_longer_overflows_witness:
  "let h = hello_ex [sni_ext [97, 98], (0x0015, [0, 0, 0, 0])]; n = int (length (chello 1 h)) in
   change_tls_sni (\<lambda>_. 0) 0 [97, 98, 99, 100] (chello 1 h @ [1]) n n = None"
  unfolding Let_def
proof (rule change_tls_sni_longer_overflows [where ?es1.0 = "[]" and ?es2.0 = "[]" and host = "[97, 98]"
      and pad = "[0, 0, 0, 0]", OF _ _ _ _ _ _ _ _ refl refl])
  show "wf_hello (hello_ex [sni_ext [97, 98], (0x0015, [0, 0, 0, 0])])" by (simp add: wf_hello_def hello_ex_def sni_ext_def)
  show "hello_len (hello_ex [sni_ext [97, 98], (0x0015, [0, 0, 0, 0])]) < 65536" by (simp add: hello_len_def hello_head_def hello_ex_def sni_ext_def)
qed simp_all

lemma randomize_tls_no_key_share_witness:
  "let h = hello_ex [(23, [5])] in
   \<exists>h' k'. hello_like h h' \<and> randomize_tls (\<lambda>i. i) 0 (chello 1 h @ [1]) (int (length (chello 1 h))) =
    Some (chello 1 h' @ [1], k')"
  unfolding Let_def
proof (rule randomize_tls_no_key_share [OF _ _ refl])
  show "wf_hello (hello_ex [(23, [5])])" by (simp add: wf_hello_def hello_ex_def sni_ext_def)
qed simp

lemma randomize_tls_overflows_witness:
  "let h = hello_ex [(0x0033, [0, 5, 0, 29, 0, 7, 1])] in
   randomize_tls (\<lambda>i. i) 0 (chello 1 h @ [1]) (int (length (chello 1 h))) = None"
  unfolding Let_def
proof (rule randomize_tls_overflows [where es = "[]", OF _ _ _ refl])
  show "wf_hello (hello_ex [(0x0033, [0, 5, 0, 29, 0, 7, 1])])" by (simp add: wf_hello_def hello_ex_def sni_ext_def)
qed simp_all

end
