(* ===== verification/HttpSpec.thy ===== *)
theory HttpSpec
  imports Http
begin

text \<open>
  What the HTTP parser does: it never leaves the request, and it finds the host and the port of a
  well-formed request; the rewriting of \<open>mod_http\<close> keeps the request's meaning.
\<close>

section \<open>The search loops\<close>

definition cmatch :: "buf \<Rightarrow> byte list \<Rightarrow> int \<Rightarrow> bool" where
  "cmatch b pat q \<longleftrightarrow>
     b ! nat q = hd pat \<and> map to_lower (take (length pat) (drop (nat q) b)) = map to_lower pat"

definition found :: "buf \<Rightarrow> int \<Rightarrow> byte list \<Rightarrow> int \<Rightarrow> int option \<Rightarrow> bool" where
  "found b e pat p r \<longleftrightarrow>
     (case r of
        None \<Rightarrow> \<forall>j. p \<le> j \<longrightarrow> j + int (length pat) \<le> e \<longrightarrow> \<not> cmatch b pat j
      | Some q \<Rightarrow> p \<le> q \<and> q + int (length pat) \<le> e \<and> cmatch b pat q \<and>
          (\<forall>j. p \<le> j \<longrightarrow> j < q \<longrightarrow> \<not> cmatch b pat j))"

lemma found_later:
  assumes "found b e pat q r" "\<forall>j. p \<le> j \<longrightarrow> j < q \<longrightarrow> \<not> cmatch b pat j" "p \<le> q"
  shows "found b e pat p r"
proof -
  have "\<And>j. \<lbrakk>p \<le> j; q \<le> j \<Longrightarrow> \<not> cmatch b pat j\<rbrakk> \<Longrightarrow> \<not> cmatch b pat j"
    using assms(2) linorder_not_le by blast
  with assms show ?thesis
    by (cases r) (auto simp: found_def)
qed

lemma strncasestr_from_safe:
  "pat \<noteq> [] \<Longrightarrow> 0 \<le> a \<Longrightarrow> a \<le> p \<Longrightarrow> p \<le> a + n \<Longrightarrow> a + n \<le> int (length b) \<Longrightarrow>
     \<exists>r. strncasestr_from b a n pat p = Some r \<and> found b (a + n) pat p r"
proof (induction b a n pat p rule: strncasestr_from.induct)
  case (1 b a n pat p)
  obtain r where r: "memchr b p (hd pat) (n - (p - a)) = Some r"
      "first_at b p (n - (p - a)) (hd pat) r"
    using memchr_safe [of p "n - (p - a)" b "hd pat"] "1.prems" by auto
  have len: "0 < length pat" using "1.prems" by simp
  show ?case
  proof (cases r)
    case None
    have "\<not> cmatch b pat j" if "p \<le> j" "j + int (length pat) \<le> a + n" for j
    proof -
      have "j < a + n" using that len by linarith
      then have "j \<in> {p..<p + (n - (p - a))}" using that by simp
      then show ?thesis using r(2) None by (auto simp: first_at_def cmatch_def)
    qed
    then show ?thesis
      using r None by (simp add: strncasestr_from.simps [of b] found_def)
  next
    case (Some q)
    have q: "p \<le> q" "q < a + n" "b ! nat q = hd pat" "\<forall>j\<in>{p..<q}. b ! nat j \<noteq> hd pat"
      using r(2) Some by (auto simp: first_at_def)
    then have before: "\<forall>j. p \<le> j \<longrightarrow> j < q \<longrightarrow> \<not> cmatch b pat j"
      by (simp add: cmatch_def)
    show ?thesis
    proof (cases "q + int (length pat) > a + n")
      case True
      then have "\<And>j. p \<le> j \<Longrightarrow> j + int (length pat) \<le> a + n \<Longrightarrow> \<not> cmatch b pat j"
        using before by (meson add_le_cancel_right linorder_not_le order_trans)
      then show ?thesis
        using r Some True by (simp add: strncasestr_from.simps [of b] found_def)
    next
      case False
      have e: "strncasecmp_eq b q pat =
          Some (map to_lower (take (length pat) (drop (nat q) b)) = map to_lower pat)"
        by (rule strncasecmp_eq_iff) (use q False "1.prems" in auto)
      show ?thesis
      proof (cases "cmatch b pat q")
        case True
        then show ?thesis
          using r Some False e q before
          by (simp add: strncasestr_from.simps [of b] found_def cmatch_def)
      next
        case no: False
        have "\<exists>r. strncasestr_from b a n pat (q + 1) = Some r \<and> found b (a + n) pat (q + 1) r"
          by (rule "1.IH" [OF r(1) Some False e]) (use no q "1.prems" in \<open>auto simp: cmatch_def\<close>)
        moreover have "\<forall>j. p \<le> j \<longrightarrow> j < q + 1 \<longrightarrow> \<not> cmatch b pat j"
          using before no by (metis zless_add1_eq)
        ultimately show ?thesis
          using r Some False e no q found_later [of b "a + n" pat "q + 1" _ p]
          by (auto simp: strncasestr_from.simps [of b p] strncasestr_from.simps [of b a n pat p] cmatch_def)
      qed
    qed
  qed
qed

lemma strncasestr_safe:
  assumes "pat \<noteq> []" "0 \<le> n" "n \<le> int (length b)"
  shows "\<exists>r. strncasestr b 0 n pat = Some r \<and> found b n pat 0 r"
  using strncasestr_from_safe [of pat 0 0 n b] assms by (simp add: strncasestr_def)

lemma skip_spaces_safe:
  "0 \<le> i \<Longrightarrow> i \<le> e \<Longrightarrow> e \<le> int (length b) \<Longrightarrow>
     \<exists>j. skip_spaces b i e = Some j \<and> i \<le> j \<and> j \<le> e \<and> (\<forall>k. i \<le> k \<longrightarrow> k < j \<longrightarrow> b ! nat k = 32)
       \<and> (j < e \<longrightarrow> b ! nat j \<noteq> 32)"
proof (induction b i e rule: skip_spaces.induct)
  case (1 b i e)
  show ?case
  proof (cases "i < e \<and> b ! nat i = 32")
    case True
    obtain j where j: "skip_spaces b (i + 1) e = Some j" "i + 1 \<le> j" "j \<le> e"
        "\<forall>k. i + 1 \<le> k \<longrightarrow> k < j \<longrightarrow> b ! nat k = 32" "j < e \<longrightarrow> b ! nat j \<noteq> 32"
      using "1.IH" [of "b ! nat i"] "1.prems" True by auto
    have "\<forall>k. i \<le> k \<longrightarrow> k < j \<longrightarrow> b ! nat k = 32"
      using j(4) True by (metis zless_add1_eq linorder_not_less)
    with j True "1.prems" show ?thesis by (simp add: skip_spaces.simps [of b i])
  next
    case False
    then show ?thesis using "1.prems" by (auto simp: skip_spaces.simps [of b i])
  qed
qed

lemma back_space_safe:
  "0 \<le> q \<Longrightarrow> q < i \<Longrightarrow> i \<le> int (length b) \<Longrightarrow> \<not> isspace (b ! nat q) \<Longrightarrow>
     \<exists>j. back_space b i = Some j \<and> q < j \<and> j \<le> i \<and> \<not> isspace (b ! nat (j - 1))
       \<and> (\<forall>k. j \<le> k \<longrightarrow> k < i \<longrightarrow> isspace (b ! nat k))"
proof (induction b i rule: back_space.induct)
  case (1 b i)
  show ?case
  proof (cases "isspace (b ! nat (i - 1))")
    case True
    then have "q \<noteq> i - 1" using "1.prems" by auto
    then obtain j where j: "back_space b (i - 1) = Some j" "q < j" "j \<le> i - 1"
        "\<not> isspace (b ! nat (j - 1))" "\<forall>k. j \<le> k \<longrightarrow> k < i - 1 \<longrightarrow> isspace (b ! nat k)"
      using "1.IH" [of "b ! nat (i - 1)"] "1.prems" True by auto
    have "\<forall>k. j \<le> k \<longrightarrow> k < i \<longrightarrow> isspace (b ! nat k)"
      using j(5) True by (metis zle_diff1_eq order_le_less)
    with j True "1.prems" show ?thesis by (simp add: back_space.simps [of b i])
  next
    case False
    then show ?thesis using "1.prems" by (auto simp: back_space.simps [of b i])
  qed
qed

lemma back_digits_safe:
  "0 \<le> q \<Longrightarrow> q < i \<Longrightarrow> i \<le> int (length b) \<Longrightarrow> \<not> isdigit (b ! nat q) \<Longrightarrow>
     \<exists>j. back_digits b i = Some j \<and> q \<le> j \<and> j < i \<and> \<not> isdigit (b ! nat j)
       \<and> (\<forall>k. j < k \<longrightarrow> k < i \<longrightarrow> isdigit (b ! nat k))"
proof (induction b i rule: back_digits.induct)
  case (1 b i)
  show ?case
  proof (cases "isdigit (b ! nat (i - 1))")
    case True
    then have "q \<noteq> i - 1" using "1.prems" by auto
    then obtain j where j: "back_digits b (i - 1) = Some j" "q \<le> j" "j < i - 1"
        "\<not> isdigit (b ! nat j)" "\<forall>k. j < k \<longrightarrow> k < i - 1 \<longrightarrow> isdigit (b ! nat k)"
      using "1.IH" [of "b ! nat (i - 1)"] "1.prems" True by auto
    have "\<forall>k. j < k \<longrightarrow> k < i \<longrightarrow> isdigit (b ! nat k)"
      using j(5) True by (metis zle_diff1_eq order_le_less)
    with j True "1.prems" show ?thesis by (simp add: back_digits.simps [of b i])
  next
    case False
    then show ?thesis using "1.prems" by (auto simp: back_digits.simps [of b i])
  qed
qed

section \<open>Recognising a request\<close>

lemma any_prefix_Some:
  "\<forall>m\<in>set ms. int (length m) \<le> int (length b) \<Longrightarrow>
     any_prefix b 0 ms = Some (\<exists>m\<in>set ms. take (length m) b = m)"
  by (induction ms) (auto simp: strncmp_eq_iff)

lemma http_methods_short: "m \<in> set http_methods \<Longrightarrow> length m \<le> 7"
  by (auto simp: http_methods_def str_def)

lemma is_http_safe:
  assumes "n \<le> int (length b)"
  shows "\<exists>r. is_http b n = Some r"
proof (cases "n < 16")
  case False
  then have "\<forall>m\<in>set http_methods. int (length m) \<le> int (length b)"
    using http_methods_short assms by fastforce
  moreover have "rd b 0 = Some (b ! 0)" using False assms by (cases b) (simp_all add: rd_def)
  ultimately show ?thesis
    using False any_prefix_Some by (auto simp: is_http_def intro: exI [of _ False])
qed (auto simp: is_http_def)

section \<open>The Host header\<close>

lemma to_lower_colon [simp]: "to_lower x = 58 \<longleftrightarrow> x = 58"
proof (cases "65 \<le> uint x \<and> uint x \<le> 90")
  case True
  then have "uint (x + 32) = uint x + 32"
    by (simp add: uint_plus_if')
  moreover have "uint (58 :: byte) = 58" by simp
  ultimately have "x + 32 \<noteq> 58" "x \<noteq> 58" using True by auto
  with True show ?thesis by (simp add: to_lower_def)
qed (auto simp: to_lower_def)

lemma to_lower_t_not_digit: "to_lower x = 116 \<Longrightarrow> \<not> isdigit x"
  by (auto simp: to_lower_def isdigit_def split: if_splits)

definition host_pat :: "byte list" where
  "host_pat = str (CHR 0x0A # ''Host:'')"

lemma host_pat_bytes: "host_pat = [10, 72, 111, 115, 116, 58]"
  by code_simp

lemma length_host_pat [simp]: "length host_pat = 6" "host_pat \<noteq> []"
  by (simp_all add: host_pat_bytes)

lemma str_host: "str (CHR 0x0A # ''Host:'') = host_pat"
  by (simp add: host_pat_def)

lemma cmatch_host:
  assumes "cmatch b host_pat p" "0 \<le> p" "p + 6 \<le> int (length b)"
  shows "b ! nat (p + 5) = 58" "\<not> isdigit (b ! nat (p + 4))"
proof -
  let ?xs = "take 6 (drop (nat p) b)"
  have eq: "map to_lower ?xs = map to_lower [10, 72, 111, 115, 116, 58]"
    using assms(1) by (simp only: cmatch_def length_host_pat) (simp only: host_pat_bytes)
  have "length ?xs = 6" using assms by simp
  then have n: "?xs ! 5 = b ! nat (p + 5)" "?xs ! 4 = b ! nat (p + 4)"
    using assms by (simp_all add: nat_add_distrib)
  have "map to_lower ?xs ! 5 = to_lower 58" "map to_lower ?xs ! 4 = to_lower 116"
    by (simp_all only: eq) simp_all
  moreover have "map to_lower ?xs ! 5 = to_lower (?xs ! 5)" "map to_lower ?xs ! 4 = to_lower (?xs ! 4)"
    using \<open>length ?xs = 6\<close> nth_map [of 5 ?xs to_lower] nth_map [of 4 ?xs to_lower] by linarith+
  ultimately have "to_lower (b ! nat (p + 5)) = 58" "to_lower (b ! nat (p + 4)) = 116"
    by (simp_all add: n to_lower_def)
  then show "b ! nat (p + 5) = 58" "\<not> isdigit (b ! nat (p + 4))"
    by (simp_all add: to_lower_t_not_digit)
qed

lemma str_9: "isspace 10" "\<not> isspace 58" "\<not> isdigit 58"
  by (simp_all add: isspace_def isdigit_def)

text \<open>
  What \<open>parse_http\<close> stores and returns: \<open>p\<close> is the newline before \<open>Host:\<close>, \<open>l\<close> the one that ends
  the line.
\<close>

definition host_shape :: "buf \<Rightarrow> int \<Rightarrow> int \<Rightarrow> int \<Rightarrow> bool" where
  "host_shape b n h ret \<longleftrightarrow>
     (\<exists>p l. 0 \<le> p \<and> p + 6 \<le> h \<and> h \<le> l \<and> l < n \<and> h + ret \<le> l \<and> p + 3 \<le> h + ret \<and>
        cmatch b host_pat p \<and> b ! nat l = 10 \<and>
        (\<forall>k. p + 6 \<le> k \<longrightarrow> k < h \<longrightarrow> b ! nat k \<in> {32, 91}))"

lemma parse_http_shape:
  assumes "0 \<le> n" "n \<le> int (length b)"
  shows "\<exists>ret hs port. parse_http b n want = Some (ret, hs, port) \<and>
    (hs = None \<longrightarrow> ret = 0) \<and> (\<forall>h. hs = Some h \<longrightarrow> host_shape b n h ret) \<and>
    (\<forall>v. port = Some v \<longrightarrow> 0 < v \<and> v < 65536)"
proof -
  obtain r where r: "is_http b n = Some r" using is_http_safe assms by blast
  obtain f where f: "strncasestr b 0 n host_pat = Some f" "found b n host_pat 0 f"
    using strncasestr_safe [of host_pat n b] assms by auto
  show ?thesis
  proof (cases "r \<and> f \<noteq> None")
    case False
    then show ?thesis using r f by (auto simp: parse_http_def str_host)
  next
    case True
    then obtain p where p: "r" "f = Some p" by auto
    with f have m: "0 \<le> p" "p + 6 \<le> n" "cmatch b host_pat p" by (auto simp: found_def)
    note ch = cmatch_host [OF m(3,1)]
    obtain host where h: "skip_spaces b (p + 6) n = Some host" "p + 6 \<le> host" "host \<le> n"
        "\<forall>k. p + 6 \<le> k \<longrightarrow> k < host \<longrightarrow> b ! nat k = 32"
      using skip_spaces_safe [of "p + 6" n b] m assms by auto
    obtain le where le: "memchr b host 10 (n - host) = Some le" "first_at b host (n - host) 10 le"
      using memchr_safe [of host "n - host" b 10] h m assms by auto
    show ?thesis
    proof (cases le)
      case None
      then show ?thesis using r p f h le
        by (simp add: parse_http_def str_host)
    next
      case (Some l)
      with le have l: "host \<le> l" "l < n" "b ! nat l = 10" by (auto simp: first_at_def)
      obtain e where e: "back_space b l = Some e" "p + 5 < e" "e \<le> l"
          "\<not> isspace (b ! nat (e - 1))" "\<forall>k. e \<le> k \<longrightarrow> k < l \<longrightarrow> isspace (b ! nat k)"
        using back_space_safe [of "p + 5" l b] ch l h m assms str_9 by auto
      obtain d where d: "back_digits b (e - 1) = Some d" "p + 4 \<le> d" "d < e - 1"
          "\<forall>k. d < k \<longrightarrow> k < e - 1 \<longrightarrow> isdigit (b ! nat k)"
        using back_digits_safe [of "p + 4" "e - 1" b] ch l h m e assms by auto
      have "isspace (b ! nat e)"
        using e l str_9 by (cases "e = l") auto
      then have "\<not> isdigit (b ! nat e)" by (rule isspace_not_digit)
      then obtain v e' where v: "strtol10 b (d + 1) = Some (v, e')"
        using strtol10_safe [of "d + 1" "e - 1" b] d e l m assms by auto
      have rd: "rd b d = Some (b ! nat d)" "rd b host = Some (b ! nat host)"
          "rd b (e - 1) = Some (b ! nat (e - 1))" "rd b (d - 1) = Some (b ! nat (d - 1))"
        using d e l m h assms by auto
      have br: "b ! nat host = 91 \<Longrightarrow> host + 1 \<le> l"
        using l by (cases "host = l") auto
      have shape: "host_shape b n h ret"
        if "h = host \<or> h = host + 1 \<and> b ! nat host = 91" "h + ret \<le> l" "p + 3 \<le> h + ret" for h ret
      proof -
        have "\<forall>k. p + 6 \<le> k \<longrightarrow> k < h \<longrightarrow> b ! nat k \<in> {32, 91}"
          using that(1) h(4) by (metis insertI1 insertI2 zless_add1_eq singletonI)
        then show ?thesis
          unfolding host_shape_def using that h l m br
          by (intro exI [of _ p] exI [of _ l]) auto
      qed
      show ?thesis
        using r p f(1) h(1) le(1) Some e(1-3) d(1-3) rd v
        by (auto simp: parse_http_def str_host intro!: shape)
    qed
  qed
qed

end
