(* ===== verification/HttpReq.thy ===== *)
theory HttpReq
  imports HttpSpec
begin

text \<open>
  Well-formed requests: \<open>parse_http\<close> finds the host and the port, \<open>mod_http\<close> rewrites the Host
  header so that the same host and port are found again, and the shapes on which it goes wrong.
\<close>

section \<open>The loops on a known text\<close>

lemma rd_mid: "b = p @ x # q \<Longrightarrow> i = int (length p) \<Longrightarrow> rd b i = Some x"
  by (simp add: rd_def)

lemma memchr_n_mid:
  "c \<notin> set xs \<Longrightarrow> length xs < n \<Longrightarrow> b = p @ xs @ c # q \<Longrightarrow> i = int (length p) \<Longrightarrow>
     memchr_n n b i c = Some (Some (int (length p + length xs)))"
proof (induction xs arbitrary: n p i)
  case Nil
  then show ?case by (cases n) (simp_all add: rd_mid [of b p c q])
next
  case (Cons x xs)
  obtain k where n: "n = Suc k" using Cons.prems(2) by (cases n) auto
  have "rd b i = Some x" by (rule rd_mid) (use Cons.prems in auto)
  moreover have "memchr_n k b (i + 1) c = Some (Some (int (length (p @ [x]) + length xs)))"
    by (rule Cons.IH) (use Cons.prems n in auto)
  ultimately show ?case using n Cons.prems(1) by auto
qed

lemma memchr_mid:
  "c \<notin> set xs \<Longrightarrow> int (length xs) < n \<Longrightarrow> b = p @ xs @ c # q \<Longrightarrow> i = int (length p) \<Longrightarrow>
     memchr b i c n = Some (Some (int (length p + length xs)))"
  by (simp add: memchr_def memchr_n_mid)

lemma skip_spaces_mid:
  "b = p @ replicate s 32 @ x # q \<Longrightarrow> x \<noteq> 32 \<Longrightarrow> i = int (length p) \<Longrightarrow> i + int s < e \<Longrightarrow>
     skip_spaces b i e = Some (i + int s)"
proof (induction s arbitrary: p i)
  case 0
  have "rd b i = Some x" by (rule rd_mid) (use 0 in auto)
  then show ?case using 0 by (subst skip_spaces.simps) (simp)
next
  case (Suc s)
  have "rd b i = Some 32" by (rule rd_mid) (use Suc.prems in auto)
  moreover have "skip_spaces b (i + 1) e = Some (i + 1 + int s)"
    by (rule Suc.IH [of "p @ [32]"]) (use Suc.prems in auto)
  ultimately show ?case using Suc.prems by (subst skip_spaces.simps) (simp)
qed

lemma back_space_mid:
  "\<forall>y\<in>set xs. isspace y \<Longrightarrow> b = p @ x # xs @ q \<Longrightarrow> \<not> isspace x \<Longrightarrow>
     i = int (length p + 1 + length xs) \<Longrightarrow> back_space b i = Some (int (length p + 1))"
proof (induction xs arbitrary: q i rule: rev_induct)
  case Nil
  have "rd b (i - 1) = Some x" by (rule rd_mid) (use Nil in auto)
  then show ?case using Nil by (subst back_space.simps) (simp)
next
  case (snoc y xs)
  have "rd b (i - 1) = Some y"
    by (rule rd_mid [of b "p @ x # xs" y q]) (use snoc.prems in auto)
  moreover have "back_space b (i - 1) = Some (int (length p + 1))"
    by (rule snoc.IH [of "y # q"]) (use snoc.prems in auto)
  ultimately show ?case using snoc.prems by (subst back_space.simps) (simp)
qed

lemma back_digits_mid:
  "\<forall>y\<in>set ds. isdigit y \<Longrightarrow> b = p @ x # ds @ q \<Longrightarrow> \<not> isdigit x \<Longrightarrow>
     i = int (length p + 1 + length ds) \<Longrightarrow> back_digits b i = Some (int (length p))"
proof (induction ds arbitrary: q i rule: rev_induct)
  case Nil
  have "rd b (i - 1) = Some x" by (rule rd_mid) (use Nil in auto)
  then show ?case using Nil by (subst back_digits.simps) (simp)
next
  case (snoc y xs)
  have "rd b (i - 1) = Some y"
    by (rule rd_mid [of b "p @ x # xs" y q]) (use snoc.prems in auto)
  moreover have "back_digits b (i - 1) = Some (int (length p))"
    by (rule snoc.IH [of "y # q"]) (use snoc.prems in auto)
  ultimately show ?case using snoc.prems by (subst back_digits.simps) (simp)
qed

definition dec_step :: "int \<Rightarrow> byte \<Rightarrow> int" where
  "dec_step acc c = acc * 10 + (uint c - 48)"

definition dec_val :: "byte list \<Rightarrow> int" where
  "dec_val ds = foldl dec_step 0 ds"

lemma dec_digits_mid:
  "\<forall>y\<in>set ds. isdigit y \<Longrightarrow> b = p @ ds @ x # q \<Longrightarrow> \<not> isdigit x \<Longrightarrow> i = int (length p) \<Longrightarrow>
     dec_digits b i acc = Some (foldl dec_step acc ds, int (length p + length ds))"
proof (induction ds arbitrary: p i acc)
  case Nil
  have "rd b i = Some x" by (rule rd_mid) (use Nil in auto)
  then show ?case using Nil by (subst dec_digits.simps) (simp)
next
  case (Cons d ds)
  have "rd b i = Some d" by (rule rd_mid) (use Cons.prems in auto)
  moreover have "dec_digits b (i + 1) (dec_step acc d) =
      Some (foldl dec_step (dec_step acc d) ds, int (length (p @ [d]) + length ds))"
    by (rule Cons.IH) (use Cons.prems in auto)
  ultimately show ?case using Cons.prems by (subst dec_digits.simps) (simp add: dec_step_def)
qed

lemma strtol10_mid:
  assumes "\<forall>y\<in>set ds. isdigit y" "ds \<noteq> []" "b = p @ ds @ x # q" "\<not> isdigit x"
    "i = int (length p)" "0 \<le> dec_val ds" "dec_val ds < 65536"
  shows "strtol10 b i = Some (dec_val ds, int (length p + length ds))"
proof -
  obtain d ds' where d: "ds = d # ds'" using assms(2) by (cases ds) auto
  have rd: "rd b i = Some d" by (rule rd_mid) (use assms d in auto)
  have "isdigit d" using assms(1) d by simp
  then have nd: "\<not> isspace d" "d \<noteq> 43" "d \<noteq> 45"
    using isspace_not_digit by (auto simp: isdigit_def)
  then have "skip_ws b i = Some i" using rd by (subst skip_ws.simps) (simp)
  moreover have "dec_digits b i 0 = Some (dec_val ds, int (length p + length ds))"
    unfolding dec_val_def by (rule dec_digits_mid) (use assms in auto)
  ultimately show ?thesis using rd nd assms(2,5,6,7)
    by (simp add: strtol10_def clamp_long_def)
qed

lemma back_colon_mid:
  "58 \<notin> set xs \<Longrightarrow> b = p @ 58 # xs @ q \<Longrightarrow> i = int (length p + length xs) \<Longrightarrow>
     back_colon b i = Some (int (length p))"
proof (induction xs arbitrary: q i rule: rev_induct)
  case Nil
  have "rd b i = Some 58" by (rule rd_mid) (use Nil in auto)
  then show ?case using Nil by (subst back_colon.simps) (simp)
next
  case (snoc y xs)
  have "rd b i = Some y"
    by (rule rd_mid [of b "p @ 58 # xs" y q]) (use snoc.prems in auto)
  moreover have "back_colon b (i - 1) = Some (int (length p))"
    by (rule snoc.IH [of "y # q"]) (use snoc.prems in auto)
  ultimately show ?case using snoc.prems by (subst back_colon.simps) (simp)
qed

lemma fwd_space_mid:
  "\<forall>y\<in>set xs. \<not> isspace y \<Longrightarrow> b = p @ xs @ x # q \<Longrightarrow> isspace x \<Longrightarrow> i = int (length p) \<Longrightarrow>
     fwd_space b i = Some (int (length p + length xs))"
proof (induction xs arbitrary: p i)
  case Nil
  have "rd b i = Some x" by (rule rd_mid) (use Nil in auto)
  then show ?case using Nil by (subst fwd_space.simps) (simp)
next
  case (Cons d ds)
  have "rd b i = Some d" by (rule rd_mid) (use Cons.prems in auto)
  moreover have "fwd_space b (i + 1) = Some (int (length (p @ [d]) + length ds))"
    by (rule Cons.IH) (use Cons.prems in auto)
  ultimately show ?case using Cons.prems by (subst fwd_space.simps) (simp)
qed

section \<open>A well-formed request\<close>

text \<open>
  The lines before the Host header, the header name \<open>nm\<close>, \<open>s\<close> spaces, the host, an optional
  port, white space at the end of the line, and the rest.
\<close>

definition http_req ::
  "byte list \<Rightarrow> byte list \<Rightarrow> nat \<Rightarrow> byte list \<Rightarrow> byte list \<Rightarrow> byte list \<Rightarrow> byte list \<Rightarrow> buf" where
  "http_req l1 nm s h ps tr rest = l1 @ 10 # nm @ 58 # replicate s 32 @ h @ ps @ tr @ 10 # rest"

definition host_name :: "byte list \<Rightarrow> bool" where
  "host_name h \<longleftrightarrow> (\<forall>c\<in>set h. \<not> isspace c \<and> c \<noteq> 58) \<and> (\<exists>c\<in>set (butlast h). \<not> isdigit c) \<and> hd h \<noteq> 91"

definition port_part :: "byte list \<Rightarrow> int \<Rightarrow> bool" where
  "port_part ps v \<longleftrightarrow>
     (if ps = [] then v = 80
      else hd ps = 58 \<and> tl ps \<noteq> [] \<and> (\<forall>c\<in>set (tl ps). isdigit c) \<and> v = dec_val (tl ps) \<and>
        0 < v \<and> v < 65536)"

definition wf_req :: "byte list \<Rightarrow> byte list \<Rightarrow> byte list \<Rightarrow> byte list \<Rightarrow> int \<Rightarrow> byte list \<Rightarrow> bool" where
  "wf_req l1 nm h ps v tr \<longleftrightarrow>
     10 \<notin> set l1 \<and> (\<exists>m\<in>set http_methods. take (length m) l1 = m) \<and>
     map to_lower nm = str ''host'' \<and> host_name h \<and> port_part ps v \<and>
     (\<forall>c\<in>set tr. isspace c \<and> c \<noteq> 10)"

lemma http_method_first: "m \<in> set http_methods \<Longrightarrow> m \<noteq> [] \<and> 67 \<le> sint (hd m) \<and> sint (hd m) \<le> 84"
proof -
  have "list_all (\<lambda>m. m \<noteq> [] \<and> 67 \<le> sint (hd m) \<and> sint (hd m) \<le> 84) http_methods"
    by code_simp
  then show "m \<in> set http_methods \<Longrightarrow> m \<noteq> [] \<and> 67 \<le> sint (hd m) \<and> sint (hd m) \<le> 84"
    by (simp add: list_all_iff)
qed

lemma is_http_method:
  assumes "m \<in> set http_methods" "take (length m) b = m" "16 \<le> n" "n \<le> int (length b)"
  shows "is_http b n = Some True"
proof -
  have m: "m \<noteq> []" "67 \<le> sint (hd m)" "sint (hd m) \<le> 84" using http_method_first assms(1) by auto
  then have "hd m = b ! 0"
    using assms(2) by (metis hd_conv_nth hd_take length_greater_0_conv take_eq_Nil)
  moreover have "rd b 0 = Some (b ! 0)" using assms(3,4) by (cases b) (simp_all add: rd_def)
  moreover have "\<forall>m\<in>set http_methods. int (length m) \<le> int (length b)"
    using http_methods_short assms by fastforce
  ultimately show ?thesis
    using any_prefix_Some [of http_methods b] assms m by (auto simp: is_http_def)
qed

lemma cmatch_req:
  assumes "b = l1 @ 10 # nm @ 58 # q" "map to_lower nm = str ''host''"
  shows "cmatch b host_pat (int (length l1))"
proof -
  have "str ''host'' = [104, 111, 115, 116]" by code_simp
  with assms(2) have nm: "map to_lower nm = [104, 111, 115, 116]" by simp
  from arg_cong [OF nm, of length] have "length nm = 4" by simp
  then show ?thesis
    using assms(1) nm by (simp add: cmatch_def host_pat_bytes to_lower_def)
qed

lemma strncasestr_req:
  assumes "b = l1 @ 10 # nm @ 58 # q" "map to_lower nm = str ''host''" "10 \<notin> set l1"
    "int (length l1) + 6 \<le> n" "n \<le> int (length b)"
  shows "strncasestr b 0 n host_pat = Some (Some (int (length l1)))"
proof -
  let ?p = "int (length l1)"
  have m: "cmatch b host_pat ?p" using assms cmatch_req by blast
  have before: "\<not> cmatch b host_pat j" if "0 \<le> j" "j < ?p" for j
  proof -
    have "nat j < length l1" using that by linarith
    then have "b ! nat j = l1 ! nat j" "l1 ! nat j \<in> set l1"
      using assms(1) by (simp_all add: nth_append)
    then have "b ! nat j \<noteq> 10" using assms(3) by metis
    then show ?thesis by (simp add: cmatch_def host_pat_bytes)
  qed
  obtain r where r: "strncasestr b 0 n host_pat = Some r" "found b n host_pat 0 r"
    using strncasestr_safe [of host_pat n b] assms by auto
  show ?thesis
  proof (cases r)
    case None
    then show ?thesis using r(2) m assms(4) by (auto simp: found_def)
  next
    case (Some q)
    with r(2) have q: "0 \<le> q" "cmatch b host_pat q" "\<forall>j. 0 \<le> j \<longrightarrow> j < q \<longrightarrow> \<not> cmatch b host_pat j"
      by (auto simp: found_def)
    have "\<not> q < ?p" using before q by blast
    moreover have "\<not> ?p < q" using m q(3) by auto
    ultimately show ?thesis using r Some by simp
  qed
qed

lemma length_host_name_nm: "map to_lower nm = str ''host'' \<Longrightarrow> length nm = 4"
  by (drule arg_cong [of _ _ length]) (simp add: str_def)

lemma parse_http_req:
  assumes wf: "wf_req l1 nm h ps v tr"
    and b: "b = http_req l1 nm s h ps tr rest"
    and n: "16 \<le> n" "int (length l1 + 6 + s + length h + length ps + length tr) < n" "n \<le> int (length b)"
  shows "parse_http b n want =
    Some (int (length h), Some (int (length l1 + 6 + s)), if want then Some v else None)"
proof -
  note w = wf [unfolded wf_req_def]
  have nm: "length nm = 4" using w length_host_name_nm by blast
  have b': "b = l1 @ 10 # nm @ 58 # replicate s 32 @ h @ ps @ tr @ 10 # rest"
    using b by (simp add: http_req_def)
  define p where "p = int (length l1)"
  define host where "host = int (length l1 + 6 + s)"
  have http: "is_http b n = Some True"
  proof -
    obtain m where m: "m \<in> set http_methods" "take (length m) l1 = m" using w by blast
    then have "length m \<le> length l1" by (metis length_take min.cobounded1)
    then have "take (length m) b = m" using m(2) b' by simp
    then show ?thesis using is_http_method m(1) n by blast
  qed
  have search: "strncasestr b 0 n host_pat = Some (Some p)"
    unfolding p_def by (rule strncasestr_req [OF b']) (use w n in auto)
  obtain h0 ht where h: "h = h0 # ht" "h0 \<noteq> 91" "\<not> isspace h0" "h0 \<noteq> 58"
    using w by (cases h) (auto simp: host_name_def)
  have "h0 \<noteq> 32" using h by (auto simp: isspace_def)
  then have skip: "skip_spaces b (p + 6) n = Some host"
    unfolding p_def host_def
    using skip_spaces_mid [of b "l1 @ 10 # nm @ [58]" s h0 "ht @ ps @ tr @ 10 # rest"] b' h nm n by simp
  let ?X = "l1 @ 10 # nm @ 58 # replicate s 32"
  have X: "int (length ?X) = host" using nm by (simp add: host_def)
  have digits: "\<forall>c\<in>set ps. \<not> isspace c"
    using w str_9 isspace_not_digit by (cases ps) (auto simp: port_part_def)
  have ten: "10 \<notin> set (h @ ps @ tr)"
    using w digits str_9 by (auto simp: host_name_def)
  define l where "l = host + int (length h + length ps + length tr)"
  have lm: "memchr b host 10 (n - host) = Some (Some l)"
    using memchr_mid [OF ten, of "n - host" b ?X rest host] X b' n by (simp add: l_def host_def)
  define e where "e = host + int (length h + length ps)"
  obtain z zs where z: "h @ ps = zs @ [z]" using h(1) by (cases "h @ ps" rule: rev_exhaust) auto
  have "z \<in> set (h @ ps)" by (simp add: z)
  then have "\<not> isspace z" using w digits by (auto simp: host_name_def)
  moreover have "length zs + 1 = length h + length ps" using arg_cong [OF z, of length] by simp
  ultimately have bk: "back_space b l = Some e"
    using back_space_mid [of tr b "?X @ zs" z "10 # rest" l] w X b' z
    by (simp add: l_def e_def)
  have bh: "rd b host = Some h0" by (rule rd_mid [of b ?X h0 "ht @ ps @ tr @ 10 # rest"]) (use X b' h in auto)
  show ?thesis
  proof (cases "ps = []")
    case True
    have v: "v = 80" using w True by (simp add: port_part_def)
    obtain c where c: "c \<in> set (butlast h)" "\<not> isdigit c" using w by (auto simp: host_name_def)
    obtain i where i: "i < length (butlast h)" "butlast h ! i = c" using c(1) by (auto simp: in_set_conv_nth)
    have nth: "b ! nat (host + int k) = h ! k" if "k < length h" for k
      using that b' X by (simp add: nth_append nat_add_distrib flip: X)
    have ic: "h ! i = c" "i + 1 < length h" using i by (simp_all add: nth_butlast)
    obtain d where d: "back_digits b (e - 1) = Some d" "host + int i \<le> d" "d < e - 1" "\<not> isdigit (b ! nat d)"
      using back_digits_safe [of "host + int i" "e - 1" b] nth [of i] ic c True b' X n
      by (auto simp: e_def host_def)
    define k where "k = nat (d - host)"
    have k: "d = host + int k" "k < length h" using d True by (auto simp: k_def e_def)
    then have "b ! nat d = h ! k" "h ! k \<in> set h" using nth by auto
    then have nc: "b ! nat d \<noteq> 58" using w by (auto simp: host_name_def)
    have rd: "rd b d = Some (b ! nat d)" using k b' X by (simp add: rd_def host_def)
    show ?thesis
      using http search skip lm bk d(1) rd nc bh h(2) v True
      by (simp add: parse_http_def str_host e_def host_def)
  next
    case False
    then obtain ds where ps: "ps = 58 # ds" "ds \<noteq> []" "\<forall>c\<in>set ds. isdigit c" "v = dec_val ds" "0 < v" "v < 65536"
      using w by (cases ps) (auto simp: port_part_def)
    define d where "d = host + int (length h)"
    obtain y ys where y: "ds = ys @ [y]" using ps(2) by (cases ds rule: rev_exhaust) auto
    have "back_digits b (e - 1) = Some (int (length (?X @ h)))"
      by (rule back_digits_mid [of ys b "?X @ h" 58 "y # tr @ 10 # rest"])
        (use ps y b' X str_9 in \<open>auto simp: e_def\<close>)
    then have bd: "back_digits b (e - 1) = Some d" using X by (simp add: d_def)
    have rd: "rd b d = Some 58"
      by (rule rd_mid [of b "?X @ h" 58 "ds @ tr @ 10 # rest"]) (use ps b' X in \<open>auto simp: d_def\<close>)
    obtain t ts where t: "tr @ 10 # rest = t # ts" "isspace t"
      using w str_9 by (cases tr) auto
    have "strtol10 b (d + 1) = Some (dec_val ds, int (length (?X @ h @ [58]) + length ds))"
      by (rule strtol10_mid [of ds b "?X @ h @ [58]" t ts])
        (use ps b' X t isspace_not_digit in \<open>auto simp: d_def\<close>)
    then have st: "strtol10 b (d + 1) = Some (v, e)" using X ps by (simp add: e_def)
    show ?thesis
      using http search skip lm bk bd rd st bh h(2) ps(5,6)
      by (auto simp: parse_http_def str_host d_def) (simp_all add: host_def)
  qed
qed

section \<open>\<open>mod_http\<close>\<close>

fun upper2 :: "byte list \<Rightarrow> byte list" where
  "upper2 [] = []"
| "upper2 [c] = [to_upper c]"
| "upper2 (c # d # cs) = to_upper c # d # upper2 cs"

lemma length_upper2 [simp]: "length (upper2 cs) = length cs"
  by (induction cs rule: upper2.induct) auto

lemma recase_mid: "b = p @ x # q \<Longrightarrow> i = int (length p) \<Longrightarrow> recase f b i = Some (p @ f x # q)"
  by (simp add: recase_def rd_mid wr_def)

lemma upper_even_mid:
  "b = p @ cs @ q \<Longrightarrow> host + i = int (length p) \<Longrightarrow> hlen = i + int (length cs) \<Longrightarrow>
     upper_even b host i hlen = Some (p @ upper2 cs @ q)"
proof (induction cs arbitrary: b p i rule: upper2.induct)
  case 1
  then show ?case by (subst upper_even.simps) simp
next
  case (2 c)
  have "rd b (host + i) = Some c" by (rule rd_mid) (use 2 in auto)
  moreover have "wr b (host + i) (to_upper c) = Some (p @ to_upper c # q)"
    using 2 by (simp add: wr_def)
  moreover have "upper_even (p @ to_upper c # q) host (i + 2) hlen = Some (p @ to_upper c # q)"
    using 2 by (subst upper_even.simps) simp
  ultimately show ?case using 2 by (subst upper_even.simps) simp
next
  case (3 c d cs)
  have "rd b (host + i) = Some c" by (rule rd_mid) (use 3 in auto)
  moreover have "wr b (host + i) (to_upper c) = Some (p @ to_upper c # d # cs @ q)"
    using 3 by (simp add: wr_def)
  moreover have "upper_even (p @ to_upper c # d # cs @ q) host (i + 2) hlen =
      Some ((p @ [to_upper c, d]) @ upper2 cs @ q)"
    by (rule 3) (use 3 in auto)
  ultimately show ?case using 3 by (subst upper_even.simps) simp
qed

text \<open>What \<open>mod_http\<close> makes of each part of the request.\<close>

definition mod_name :: "int \<Rightarrow> byte list \<Rightarrow> byte list" where
  "mod_name m nm = (if m AND MH_HMIX \<noteq> 0
     then [to_lower (nm ! 0), to_upper (nm ! 1), nm ! 2, to_upper (nm ! 3)] else nm)"

definition mod_host :: "int \<Rightarrow> byte list \<Rightarrow> byte list" where
  "mod_host m h = (if m AND MH_DMIX \<noteq> 0 then upper2 h else h)"

lemma mod_http_req:
  assumes wf: "wf_req l1 nm h ps v tr"
    and n: "16 \<le> n" "int (length l1 + 6 + s + length h + length ps + length tr) < n"
      "n \<le> int (length (http_req l1 nm s h ps tr rest))"
  shows "mod_http (http_req l1 nm s h ps tr rest) n m =
    Some (0, if m AND MH_SPACE \<noteq> 0
             then http_req l1 (mod_name m nm) 0 (mod_host m h) ps (replicate s 9 @ tr) rest
             else http_req l1 (mod_name m nm) s (mod_host m h) ps tr rest)"
proof -
  note w = wf [unfolded wf_req_def]
  obtain n0 n1 n2 n3 where nm: "nm = [n0, n1, n2, n3]"
    using length_host_name_nm [of nm] w by (auto simp: eval_nat_numeral length_Suc_conv)
  let ?host = "int (length l1 + 6 + s)"
  let ?par = "int (length l1 + 1)"
  have parse: "parse_http (http_req l1 nm s h ps tr rest) n False = Some (int (length h), Some ?host, None)"
    using parse_http_req [OF wf refl n] by simp
  have h: "h \<noteq> []" using w by (auto simp: host_name_def)
  have colon: "back_colon (http_req l1 nm s h ps tr rest) (?host - 1) = Some (?par + 4)"
    using back_colon_mid [of "replicate s 32" _ "l1 @ 10 # nm" "h @ ps @ tr @ 10 # rest"] nm
    by (simp add: http_req_def)
  let ?n1 = "mod_name m nm"
  have ln1: "length ?n1 = 4" by (simp add: mod_name_def nm)
  have hmix: "(if m AND MH_HMIX \<noteq> 0 then do {
       b \<leftarrow> recase to_lower (http_req l1 nm s h ps tr rest) ?par;
       b \<leftarrow> recase to_upper b (?par + 1);
       recase to_upper b (?par + 3) } else Some (http_req l1 nm s h ps tr rest)) =
     Some (http_req l1 ?n1 s h ps tr rest)"
  proof -
    let ?q = "58 # replicate s 32 @ h @ ps @ tr @ 10 # rest"
    have "recase to_lower (http_req l1 nm s h ps tr rest) ?par = Some ((l1 @ [10]) @ to_lower n0 # n1 # n2 # n3 # ?q)"
      by (rule recase_mid) (simp_all add: http_req_def nm)
    moreover have "recase to_upper ((l1 @ [10]) @ to_lower n0 # n1 # n2 # n3 # ?q) (?par + 1) =
        Some ((l1 @ [10, to_lower n0]) @ to_upper n1 # n2 # n3 # ?q)"
      by (rule recase_mid) simp_all
    moreover have "recase to_upper ((l1 @ [10, to_lower n0]) @ to_upper n1 # n2 # n3 # ?q) (?par + 3) =
        Some ((l1 @ [10, to_lower n0, to_upper n1, n2]) @ to_upper n3 # ?q)"
      by (rule recase_mid) simp_all
    ultimately show ?thesis by (simp add: mod_name_def nm http_req_def)
  qed
  let ?h1 = "mod_host m h"
  have dmix: "(if m AND MH_DMIX \<noteq> 0 then upper_even (http_req l1 ?n1 s h ps tr rest) ?host 0 (int (length h))
       else Some (http_req l1 ?n1 s h ps tr rest)) = Some (http_req l1 ?n1 s ?h1 ps tr rest)"
    using upper_even_mid [of _ "l1 @ 10 # ?n1 @ 58 # replicate s 32" h "ps @ tr @ 10 # rest" ?host 0 "int (length h)"] ln1
    by (simp add: http_req_def mod_host_def)
  have lh1: "length ?h1 = length h" by (simp add: mod_host_def)
  let ?e = "?host + int (length h + length ps)"
  obtain t ts where t: "tr @ 10 # rest = t # ts" "isspace t"
    using w str_9 by (cases tr) auto
  have digits: "\<forall>c\<in>set ps. \<not> isspace c"
    using w str_9 isspace_not_digit by (cases ps) (auto simp: port_part_def)
  have fwd: "fwd_space (http_req l1 ?n1 s ?h1 ps tr rest) (?host + int (length h)) = Some ?e"
    using fwd_space_mid [OF digits, of _ "l1 @ 10 # ?n1 @ 58 # replicate s 32 @ ?h1" t ts] t ln1 lh1
    by (simp add: http_req_def add.assoc)
  let ?x = "?h1 @ ps"
  have mv: "memmove (http_req l1 ?n1 s ?h1 ps tr rest) (?par + 5) ?host (?e - ?host) =
      Some ((l1 @ 10 # ?n1 @ [58]) @ ?x @ drop (length ?x) (replicate s 32 @ ?x) @ tr @ 10 # rest)"
    by (rule memmove_left) (use ln1 lh1 in \<open>auto simp: http_req_def\<close>)
  have set: "memset ((l1 @ 10 # ?n1 @ [58]) @ ?x @ drop (length ?x) (replicate s 32 @ ?x) @ tr @ 10 # rest)
      (?par + 5 + (?e - ?host)) 9 (?host - (?par + 5)) =
      Some ((l1 @ 10 # ?n1 @ [58] @ ?x) @ replicate s 9 @ tr @ 10 # rest)"
  proof -
    let ?d = "drop (length ?x) (replicate s 32 @ ?x)"
    have "length ?d = s" by simp
    moreover have "wrn ((l1 @ 10 # ?n1 @ [58] @ ?x) @ ?d @ tr @ 10 # rest) (?par + 5 + (?e - ?host)) (replicate s 9) =
        Some ((l1 @ 10 # ?n1 @ [58] @ ?x) @ replicate s 9 @ tr @ 10 # rest)"
      by (rule wrn_mid [where old = ?d]) (use ln1 lh1 in auto)
    ultimately show ?thesis by (simp add: memset_def)
  qed
  have nz: "(int (length h) = 0) = False" and eq: "?par + 4 - 4 = ?par" using h by simp_all
  have res: "(l1 @ 10 # ?n1 @ [58] @ ?x) @ replicate s 9 @ tr @ 10 # rest =
      http_req l1 ?n1 0 ?h1 ps (replicate s 9 @ tr) rest"
    by (simp add: http_req_def)
  show ?thesis
    by (cases "m AND MH_SPACE = 0")
      (simp_all only: mod_http_def parse Option.bind.simps prod.case option.case Let_def colon eq nz
        if_False if_True hmix dmix fwd mv set res not_False_eq_True not_True_eq_False refl)
qed

section \<open>A Host header of white space\<close>

lemma parse_http_blank:
  assumes b: "b = l1 @ 10 # nm @ 58 # replicate s 32 @ 10 # rest"
    and l1: "10 \<notin> set l1" "\<exists>m\<in>set http_methods. take (length m) l1 = m" "map to_lower nm = str ''host''"
    and n: "16 \<le> n" "int (length l1 + 6 + s) < n" "n \<le> int (length b)"
  shows "parse_http b n False = Some (- int s, Some (int (length l1 + 6 + s)), None)"
proof -
  have nm: "length nm = 4" using l1 length_host_name_nm by blast
  define p where "p = int (length l1)"
  obtain m where m: "m \<in> set http_methods" "take (length m) l1 = m" using l1 by blast
  then have "length m \<le> length l1" by (metis length_take min.cobounded1)
  then have "take (length m) b = m" using m(2) b by simp
  then have http: "is_http b n = Some True" using is_http_method m(1) n by blast
  have search: "strncasestr b 0 n host_pat = Some (Some p)"
    unfolding p_def by (rule strncasestr_req [OF b]) (use l1 n in auto)
  have skip: "skip_spaces b (p + 6) n = Some (p + 6 + int s)"
    using skip_spaces_mid [of b "l1 @ 10 # nm @ [58]" s 10 rest "p + 6" n] b nm n by (simp add: p_def)
  have lm: "memchr b (p + 6 + int s) 10 (n - (p + 6 + int s)) = Some (Some (p + 6 + int s))"
    using memchr_mid [of 10 "[]" _ b "l1 @ 10 # nm @ 58 # replicate s 32" rest] b nm n by (simp add: p_def add.assoc)
  have bk: "back_space b (p + 6 + int s) = Some (p + 6)"
    using back_space_mid [of "replicate s 32" b "l1 @ 10 # nm" 58 "10 # rest" "p + 6 + int s"] b nm str_9
    by (simp add: p_def isspace_def)
  obtain xs x where x: "nm = xs @ [x]" "length xs = 3"
    using nm by (cases nm rule: rev_exhaust) auto
  have "to_lower x = 116"
    using arg_cong [OF l1(3), of last] x by (simp add: str_def last_map)
  then have xd: "\<not> isdigit x" "x \<noteq> 58" using to_lower_t_not_digit by (auto simp: to_lower_def)
  have bd: "back_digits b (p + 6 - 1) = Some (p + 4)"
    using back_digits_mid [of "[]" b "l1 @ 10 # xs" x "58 # replicate s 32 @ 10 # rest" "p + 5"] b x xd
    by (simp add: p_def ac_simps)
  have rd: "rd b (p + 4) = Some x"
    using rd_mid [of b "l1 @ 10 # xs" x "58 # replicate s 32 @ 10 # rest"] b x by (simp add: p_def)
  have rh: "rd b (p + 6 + int s) = Some 10"
    using rd_mid [of b "l1 @ 10 # nm @ 58 # replicate s 32" 10 rest] b nm by (simp add: p_def add.assoc)
  show ?thesis
    using http search skip lm bk bd rd rh xd
    by (simp add: parse_http_def str_host p_def)
qed

lemma take_mid: "b = p @ h @ q \<Longrightarrow> k = length p \<Longrightarrow> take (length h) (drop k b) = h"
  by simp

lemma drop_mid: "b = p @ q \<Longrightarrow> k = length p \<Longrightarrow> drop k b = q"
  by simp

lemma take_host:
  assumes "map to_lower nm = str ''host''"
  shows "take (length h) (drop (length l1 + 6 + s) (http_req l1 nm s h ps tr rest)) = h"
  by (rule take_mid [of _ "l1 @ 10 # nm @ 58 # replicate s 32" _ "ps @ tr @ 10 # rest"])
    (simp_all add: http_req_def length_host_name_nm [OF assms])

lemma drop_host_line:
  assumes "map to_lower nm = str ''host''"
  shows "drop (length l1 + 6 + s + length h + length ps + length tr) (http_req l1 nm s h ps tr rest) = 10 # rest"
  by (rule drop_mid [of _ "l1 @ 10 # nm @ 58 # replicate s 32 @ h @ ps @ tr"])
    (simp_all add: http_req_def length_host_name_nm [OF assms])

section \<open>The properties\<close>




lemma wf_req_example:
  "wf_req (str ''GET / HTTP/1.1'' @ [13]) (str ''Host'') (str ''ab.org'') (str '':8080'') 8080 [13]"
  by code_simp


lemma to_lower_upper [simp]: "to_lower (to_upper c) = to_lower c"
proof (cases "97 \<le> uint c \<and> uint c \<le> 122")
  case True
  then have "uint (c - 32) = uint c - 32" by (simp add: uint_sub_if')
  with True show ?thesis by (simp add: to_lower_def to_upper_def)
qed (auto simp: to_upper_def)

lemma to_lower_lower [simp]: "to_lower (to_lower c) = to_lower c"
proof (cases "65 \<le> uint c \<and> uint c \<le> 90")
  case True
  then have "uint (c + 32) = uint c + 32" by (simp add: uint_plus_if')
  with True show ?thesis by (simp add: to_lower_def)
qed (auto simp: to_lower_def)

lemma map_lower_upper2 [simp]: "map to_lower (upper2 cs) = map to_lower cs"
  by (induction cs rule: upper2.induct) auto

lemma map_lower_mod_host: "map to_lower (mod_host m h) = map to_lower h"
  by (simp add: mod_host_def)

lemma map_lower_mod_name:
  assumes "map to_lower nm = str ''host''"
  shows "map to_lower (mod_name m nm) = str ''host''"
proof -
  obtain n0 n1 n2 n3 where "nm = [n0, n1, n2, n3]"
    using length_host_name_nm [OF assms] by (auto simp: eval_nat_numeral length_Suc_conv)
  with assms show ?thesis by (simp add: mod_name_def)
qed

lemma to_upper_classes:
  "isspace (to_upper c) = isspace c" "isdigit (to_upper c) = isdigit c"
  "to_upper c = 58 \<longleftrightarrow> c = 58" "to_upper c = 91 \<longleftrightarrow> c = 91"
proof -
  have key: "isspace (to_upper c) = isspace c \<and> isdigit (to_upper c) = isdigit c \<and>
      (to_upper c = 58 \<longleftrightarrow> c = 58) \<and> (to_upper c = 91 \<longleftrightarrow> c = 91)"
  proof (cases "97 \<le> uint c \<and> uint c \<le> 122")
    case True
    then have u: "uint (c - 32) = uint c - 32" by (simp add: uint_sub_if')
    have "uint (32 :: byte) = 32" "uint (58 :: byte) = 58" "uint (91 :: byte) = 91" by simp_all
    with True u have "c - 32 \<noteq> 32" "c \<noteq> 32" "c - 32 \<noteq> 58" "c \<noteq> 58" "c - 32 \<noteq> 91" "c \<noteq> 91" by auto
    with True u show ?thesis by (simp add: to_upper_def isspace_def isdigit_def)
  qed (auto simp: to_upper_def)
  then show "isspace (to_upper c) = isspace c" "isdigit (to_upper c) = isdigit c"
    "to_upper c = 58 \<longleftrightarrow> c = 58" "to_upper c = 91 \<longleftrightarrow> c = 91" by auto
qed

lemma upper2_all: "(\<And>c. P (to_upper c) = P c) \<Longrightarrow> (\<forall>c\<in>set (upper2 cs). P c) = (\<forall>c\<in>set cs. P c)"
  by (induction cs rule: upper2.induct) auto

lemma butlast_upper2: "(\<exists>c\<in>set (butlast (upper2 cs)). \<not> isdigit c) = (\<exists>c\<in>set (butlast cs). \<not> isdigit c)"
proof (induction cs rule: upper2.induct)
  case (3 c d cs)
  then show ?case by (cases cs rule: upper2.cases) (auto simp: to_upper_classes)
qed auto

lemma hd_upper2: "cs \<noteq> [] \<Longrightarrow> hd (upper2 cs) = to_upper (hd cs)"
  by (cases cs rule: upper2.cases) auto

lemma host_name_mod: "host_name h \<Longrightarrow> host_name (mod_host m h)"
  using upper2_all [of "\<lambda>c. \<not> isspace c \<and> c \<noteq> 58" h] butlast_upper2 [of h] hd_upper2 [of h]
  by (cases "h = []") (auto simp: host_name_def mod_host_def to_upper_classes)

lemma wf_req_mod:
  "wf_req l1 nm h ps v tr \<Longrightarrow> wf_req l1 (mod_name m nm) (mod_host m h) ps v (replicate s 9 @ tr)"
  unfolding wf_req_def
  by (elim conjE, intro conjI) (assumption | simp add: host_name_mod map_lower_mod_name isspace_def | force)+



text \<open>A Host header that holds only spaces makes \<open>mod_http\<close> with \<open>MH_SPACE\<close> run into an
  undefined \<open>memmove\<close>: \<open>parse_http\<close> reports a negative length, which the test for zero does not
  catch, and the move gets a negative (huge) size.\<close>

theorem mod_http_blank_host_undefined:
  assumes "b = l1 @ 10 # nm @ 58 # replicate s 32 @ 10 # rest" "0 < s"
    and "10 \<notin> set l1" "\<exists>m\<in>set http_methods. take (length m) l1 = m" "map to_lower nm = str ''host''"
    and "16 \<le> n" "int (length l1 + 6 + s) < n" "n \<le> int (length b)"
  shows "mod_http b n MH_SPACE = None"
proof -
  have nm: "length nm = 4" using assms(5) length_host_name_nm by blast
  note parse = parse_http_blank [OF assms(1,3-8)]
  have colon: "back_colon b (int (length l1 + 6 + s) - 1) = Some (int (length l1 + 5))"
    by (rule back_colon_mid [of "replicate s 32" b "l1 @ 10 # nm" "10 # rest", THEN trans])
      (use assms(1) nm in simp_all)
  obtain t where t: "s = Suc t" using assms(2) by (cases s) auto
  have "fwd_space b (int (length l1 + 6)) = Some (int (length l1 + 6))"
    using fwd_space_mid [of "[]" b "l1 @ 10 # nm @ [58]" 32 "replicate t 32 @ 10 # rest"] assms(1) nm t
    by (simp add: isspace_def)
  then show ?thesis
    using parse colon assms(2)
    by (simp add: mod_http_def MH_SPACE_def MH_HMIX_def MH_DMIX_def Let_def memmove_def rdn_def)
qed

lemma mod_http_blank_host_undefined_witness:
  "mod_http (str ''GET / HTTP/1.1'' @ 10 # str ''Host'' @ 58 # replicate 1 32 @ 10 # [10]) 22 MH_SPACE = None"
proof -
  let ?b = "str ''GET / HTTP/1.1'' @ 10 # str ''Host'' @ 58 # replicate 1 32 @ 10 # [10]"
  have "10 \<notin> set (str ''GET / HTTP/1.1'')"
    "\<exists>m\<in>set http_methods. take (length m) (str ''GET / HTTP/1.1'') = m"
    "map to_lower (str ''Host'') = str ''host''"
    "int (length (str ''GET / HTTP/1.1'') + 6 + 1) < 22" "22 \<le> int (length ?b)"
    by code_simp+
  then show ?thesis by (intro mod_http_blank_host_undefined [OF refl]) simp_all
qed

end
