(* ===== verification/DesyncSpec.thy ===== *)
theory DesyncSpec
  imports Desync
begin

text \<open>
  What the server gets when a request is sent in parts: the bytes of the request, in order and each
  once, whatever the parts, the fakes and the answers of the system are.
\<close>

section \<open>The stream that a trace delivers\<close>

text \<open>The last byte that an out-of-band \<open>send\<close> takes is not part of the stream. Pages that were spliced
  into the socket carry, when they are sent again, what they hold when they are given back; \<open>k\<close> is
  the number of spliced bytes.\<close>

fun delivered :: "nat \<Rightarrow> call list \<Rightarrow> byte list" where
  "delivered k [] = []"
| "delivered k (CSend fd d oob r # cs) = take (nat (if oob then r - 1 else r)) d @ delivered k cs"
| "delivered k (CSplice fd len r # cs) = delivered (nat r) cs"
| "delivered k (CMunmap d # cs) = take k d @ delivered 0 cs"
| "delivered k (_ # cs) = delivered k cs"

fun silent :: "call \<Rightarrow> bool" where
  "silent (CSend fd d oob r) = False"
| "silent (CSplice fd len r) = False"
| "silent (CMunmap d) = False"
| "silent _ = True"

text \<open>The bytes that are spliced and not yet given back after a trace.\<close>

fun pend :: "nat \<Rightarrow> call list \<Rightarrow> nat" where
  "pend k [] = k"
| "pend k (CSplice fd len r # cs) = pend (nat r) cs"
| "pend k (CMunmap d # cs) = pend 0 cs"
| "pend k (_ # cs) = pend k cs"

lemma delivered_append: "delivered k (t @ u) = delivered k t @ delivered (pend k t) u"
proof (induction t arbitrary: k)
  case (Cons c t)
  then show ?case by (cases c) auto
qed simp

lemma pend_append: "pend k (t @ u) = pend (pend k t) u"
proof (induction t arbitrary: k)
  case (Cons c t)
  then show ?case by (cases c) auto
qed simp

lemma delivered_silent: "list_all silent t \<Longrightarrow> delivered k t = [] \<and> pend k t = k"
proof (induction t)
  case (Cons c t)
  then show ?case by (cases c) auto
qed simp

text \<open>A \<open>send\<close> that took all it was given.\<close>

fun complete :: "call \<Rightarrow> bool" where
  "complete (CSend fd d oob r) = (r = int (length d))"
| "complete _ = True"

text \<open>From \<open>s\<close> to \<open>s'\<close> the bytes \<open>xs\<close> are delivered, with \<open>k\<close> bytes spliced before and \<open>k'\<close> after.\<close>

definition sent :: "st \<Rightarrow> nat \<Rightarrow> byte list \<Rightarrow> nat \<Rightarrow> st \<Rightarrow> bool" where
  "sent s k xs k' s' \<longleftrightarrow> (\<exists>t. s_trace s' = s_trace s @ t \<and> delivered k t = xs \<and> pend k t = k')"

lemma sent_trans: "sent s k xs k1 s1 \<Longrightarrow> sent s1 k1 ys k2 s2 \<Longrightarrow> sent s k (xs @ ys) k2 s2"
  by (auto simp: sent_def delivered_append pend_append)

lemma sent_call: "sent s k (delivered k [c]) (pend k [c]) (snd (sys c s))"
  by (simp add: sent_def)

text \<open>Steps that send nothing and leave the record of the fake alone.\<close>

definition fake_rec :: "st \<Rightarrow> nat \<Rightarrow> buf option \<times> int \<times> int \<times> int" where
  "fake_rec s v = (v_restore_fake (s_ev s v), v_restore_orig (s_ev s v), v_restore_orig_len (s_ev s v), v_fd (s_ev s v))"

definition quiet :: "st \<Rightarrow> st \<Rightarrow> bool" where
  "quiet s s' \<longleftrightarrow> (\<exists>t. s_trace s' = s_trace s @ t \<and> list_all silent t) \<and> fake_rec s' = fake_rec s"

lemma quiet_sent: "quiet s s' \<Longrightarrow> sent s k [] k s'"
  by (auto simp: quiet_def sent_def dest: delivered_silent)

lemma quiet_fake: "quiet s s' \<Longrightarrow> fake_rec s' = fake_rec s"
  by (simp add: quiet_def)

lemma quiet_refl [simp, intro]: "quiet s s"
  by (simp add: quiet_def)

lemma quiet_trans: "quiet s s' \<Longrightarrow> quiet s' s'' \<Longrightarrow> quiet s s''"
  by (auto simp: quiet_def)

lemma quiet_sys [simp]: "silent c \<Longrightarrow> quiet s (snd (sys c s))"
  by (simp add: quiet_def fake_rec_def fun_eq_iff)

lemma quiet_rk [simp]: "quiet s (s\<lparr>s_rk := k\<rparr>) "
  by (simp add: quiet_def fake_rec_def fun_eq_iff)

lemma quiet_upd:
  "(\<And>e. v_restore_fake (f e) = v_restore_fake e \<and> v_restore_orig (f e) = v_restore_orig e \<and>
      v_restore_orig_len (f e) = v_restore_orig_len e \<and> v_fd (f e) = v_fd e) \<Longrightarrow> quiet s (upd_ev v f s)"
  by (simp add: quiet_def fake_rec_def fun_eq_iff)

lemma quiet_setttl: "quiet s (snd (setttl fd t s))"
  by (auto simp: setttl_def Let_def case_prod_unfold intro!: quiet_trans [OF quiet_sys quiet_sys])

lemma quiet_md5sig: "quiet s (snd (set_md5sig fd t s))"
  by (auto simp: set_md5sig_def Let_def case_prod_unfold intro!: quiet_trans [OF quiet_sys quiet_sys])

lemma quiet_notsent: "quiet s (snd (sock_has_notsent fd s))"
  by (auto simp: sock_has_notsent_def Let_def case_prod_unfold)

lemma fake_rec_upd [simp]:
  "fake_rec (upd_ev v (\<lambda>e. e\<lparr>v_tv_ms := x\<rparr>) s) = fake_rec s"
  "fake_rec (upd_ev v (\<lambda>e. e\<lparr>v_tv_next := y\<rparr>) s) = fake_rec s"
  "fake_rec (upd_ev v (\<lambda>e. e\<lparr>v_tv_prev := y\<rparr>) s) = fake_rec s"
  "fake_rec (upd_ev v (\<lambda>e. e\<lparr>v_tv_next := y, v_tv_prev := z\<rparr>) s) = fake_rec s"
  "fake_rec (upd_ev v (\<lambda>e. e\<lparr>v_part_sent := x\<rparr>) s) = fake_rec s"
  "fake_rec (s\<lparr>s_tv_start := y\<rparr>) = fake_rec s" "fake_rec (s\<lparr>s_tv_end := y\<rparr>) = fake_rec s"
  by (simp_all add: fake_rec_def fun_eq_iff)

lemma quiet_set_timer: "set_timer v ms s = Some s' \<Longrightarrow> quiet s s'"
  by (auto simp: set_timer_def Let_def quiet_def split: if_splits option.splits bind_splits)

lemma quiet_rand: "quiet s (snd (rand s))"
  by (simp add: rand_def)

lemma rand_eq: "rand s = (x, s') \<Longrightarrow> quiet s s'"
  using quiet_rand [of s] by simp

lemma quiet_gen_offset: "gen_offset pos flag b n lp info s = Some (x, info', s') \<Longrightarrow> quiet s s'"
  by (auto simp: gen_offset_def Let_def case_prod_unfold quiet_rand split: if_splits bind_splits)

lemma quiet_tlsrec_loop: "tlsrec_loop z ps rc lp b n info s = Some (b', n', info', s') \<Longrightarrow> quiet s s'"
proof (induction z ps rc lp b n info s rule: tlsrec_loop.induct)
  case (2 z part k ps rc lp b n info s)
  from "2.prems" obtain g i s1 where g: "gen_offset (p_pos part) (p_flag part) b (n - rc * 5) lp info s = Some (g, i, s1)"
    by (auto simp: Let_def split: bind_splits)
  note q = quiet_gen_offset [OF g]
  show ?case using "2.prems" q "2.IH" [OF refl g refl refl refl refl refl]
    by (auto simp: g Let_def split: if_splits bind_splits intro: quiet_trans)
qed simp

lemma quiet_tamp: "tamp b z n dp info s = Some (b', n', info', s') \<Longrightarrow> quiet s s'"
  by (auto simp: tamp_def split: if_splits bind_splits dest: quiet_tlsrec_loop)

lemma quiet_alloc: "alloc_pktd n s = (p, s') \<Longrightarrow> quiet s s'"
  by (auto simp: alloc_pktd_def Let_def case_prod_unfold)

lemma quiet_fill_fake: "fill_fake b n ty opt d m sni p s = Some (p', s') \<Longrightarrow> quiet s s'"
  by (auto simp: fill_fake_def change_sni_def Let_def split: if_splits bind_splits option.splits)

lemma quiet_pick_sni: "pick_sni opt s = (x, s') \<Longrightarrow> quiet s s'"
  using quiet_rand [of s] by (auto simp: pick_sni_def Let_def case_prod_unfold split: if_splits)

lemma quiet_pick_off: "pick_off b n opt off ps info s = Some (x, info', s') \<Longrightarrow> quiet s s'"
  by (auto simp: pick_off_def split: if_splits bind_splits dest: quiet_gen_offset)

lemma quiet_get_tcp_fake:
  assumes "get_tcp_fake b n info opt s = Some (pkt, info', s')"
  shows "quiet s s'"
proof -
  obtain pk i0 where pk: "pick_fake b n info opt = Some (pk, i0)"
    using assms by (auto simp: get_tcp_fake_def split: bind_splits)
  define ps where "ps = (if n > pk_size pk then n else pk_size pk)"
  obtain q s1 where q: "alloc_pktd ps s = (q, s1)" by fastforce
  obtain sni s2 where sni: "pick_sni opt s1 = (sni, s2)" by fastforce
  note q1 = quiet_alloc [OF q] and q2 = quiet_pick_sni [OF sni]
  note a = assms [unfolded get_tcp_fake_def pk, simplified, folded ps_def, unfolded q, simplified]
  show ?thesis
  proof (cases q)
    case None
    then show ?thesis using a q1 by (simp add: ps_def Let_def q [unfolded ps_def])
  next
    case (Some p)
    obtain d p3 s3 p4 k x where st: "fill_fake b n (pi_type i0) opt d (pk_size pk) sni p s2 = Some (p3, s3)"
        "pick_off b n opt (pk_off pk) ps i0 (s3\<lparr>s_rk := k\<rparr>) = Some (x, info', s')"
      using a Some sni q by (auto simp: ps_def Let_def split: bind_splits)
    show ?thesis
      using q1 q2 quiet_fill_fake [OF st(1)] quiet_rk [of s3 k] quiet_pick_off [OF st(2)] by (blast intro: quiet_trans)
  qed
qed

section \<open>One part\<close>

lemma send_oob_sent:
  assumes "send_oob fd b lp m pos c s = Some (r, s')" "0 \<le> pos"
  shows "r \<le> pos \<and> fake_rec s' = fake_rec s \<and> sent s k (take (nat r) (drop (nat lp) b)) k s'"
proof (cases "m \<le> pos")
  case True
  then show ?thesis using assms by (auto simp: send_oob_def sent_def)
next
  case False
  then obtain d where d: "rdn b lp pos = Some d" using assms by (auto simp: send_oob_def split: bind_splits)
  then have lp: "0 \<le> lp" "0 \<le> pos" "lp + pos \<le> int (length b)" "d = take (nat pos) (drop (nat lp) b)"
    by (auto simp: rdn_def split: if_splits)
  define x where "x = (if snd c \<noteq> 0 then fst c else (97 :: byte))"
  define len where "len = max (- 1) (min (r_ret (s_orc s (s_k s))) (int (length (d @ [x]))))"
  have ld: "int (length d) = pos" using lp by simp
  have r: "r = (if len < 0 then - 1 else len - 1)" "s' = snd (sys (CSend fd (d @ [x]) True len) s)"
    using assms False d by (auto simp: send_oob_def sys_send_def len_def x_def Let_def split: bind_splits)
  have "len \<le> pos + 1" "- 1 \<le> len" unfolding len_def using ld by auto
  then have le: "r \<le> pos" "len - 1 \<le> pos" using r lp by auto
  have nn: "nat r = nat (len - 1)" unfolding r(1) by simp
  have "take (nat (len - 1)) (d @ [x]) = take (nat (len - 1)) d" using le ld by simp
  also have "\<dots> = take (nat (len - 1)) (drop (nat lp) b)" using lp le by (simp add: min_def)
  finally have "sent s k (take (nat r) (drop (nat lp) b)) k s'"
    using sent_call [of s k "CSend fd (d @ [x]) True len"] unfolding nn r(2) by simp
  then show ?thesis using le r by (simp add: fake_rec_def fun_eq_iff)
qed

lemma sys_send_sent:
  assumes "rdn b lp m = Some d" "sys_send fd d False s = (r, s')"
  shows "r \<le> m \<and> fake_rec s' = fake_rec s \<and> sent s k (take (nat r) (drop (nat lp) b)) k s' \<and>
    (r \<noteq> m \<longrightarrow> \<not> complete (last (s_trace s')))"
proof -
  have lp: "0 \<le> lp" "0 \<le> m" "lp + m \<le> int (length b)" "d = take (nat m) (drop (nat lp) b)"
    using assms(1) by (auto simp: rdn_def split: if_splits)
  have r: "r \<le> m" "s' = snd (sys (CSend fd d False r) s)" "int (length d) = m"
    using assms(2) lp by (auto simp: sys_send_def Let_def)
  then have "take (nat r) d = take (nat r) (drop (nat lp) b)" using lp by (simp add: min_def)
  then have "sent s k (take (nat r) (drop (nat lp) b)) k s'"
    using sent_call [of s k "CSend fd d False r"] unfolding r(2) by simp
  then show ?thesis using r by (simp add: fake_rec_def fun_eq_iff)
qed

text \<open>A fake: nothing is delivered yet.\<close>

lemma splice_fake_sent:
  assumes "splice_fake v fd pos p s = Some (r, s')"
  shows "r \<le> pos \<and> 0 \<le> pos \<and> fake_rec s' = fake_rec s \<and>
    (\<exists>k'. sent s k [] k' s' \<and> (r \<ge> 0 \<longrightarrow> k' = nat r))"
proof -
  obtain lent where lent: "rdn p 0 pos = Some lent" using assms by (auto simp: splice_fake_def split: bind_splits)
  define c where "c = CVmsplice lent"
  define s1 where "s1 = snd (sys c s)"
  define len where "len = min (r_ret (s_orc s (s_k s))) pos"
  define ret where "ret = max (- 1) (min (r_ret (s_orc s1 (s_k s1))) len)"
  have pos: "pos \<ge> 0" using lent by (auto simp: rdn_def split: if_splits)
  have fr: "fake_rec s1 = fake_rec s" by (simp add: s1_def fake_rec_def fun_eq_iff)
  have st: "sent s k [] k s1" using sent_call [of s k c] by (simp add: c_def s1_def)
  have eq: "splice_fake v fd pos p s = (if len < 0 then Some (- 1, s1) else Some (ret, snd (sys (CSplice fd len ret) s1)))"
    by (simp add: splice_fake_def lent Let_def case_prod_unfold c_def s1_def len_def ret_def)
  show ?thesis
  proof (cases "len < 0")
    case True
    then have r: "r = - 1" "s' = s1" using assms eq by auto
    show ?thesis using pos fr st r by auto
  next
    case False
    then have r: "r = ret" "s' = snd (sys (CSplice fd len ret) s1)" using assms eq by auto
    have "r \<le> pos" using pos False unfolding r ret_def len_def by simp
    moreover have "sent s k [] (nat r) s'"
      using sent_trans [OF st sent_call [of s1 k "CSplice fd len ret"]] r by simp
    moreover have "fake_rec s' = fake_rec s" unfolding r(2) using fr by (simp add: fake_rec_def fun_eq_iff)
    ultimately show ?thesis using pos by auto
  qed
qed

lemma lend_fake_sent:
  assumes "lend_fake v fd pos opt p s = Some (r, s')" "0 \<le> pos"
  shows "r \<le> pos \<and> fake_rec s' v = (Some p, v_restore_orig (s_ev s v), v_restore_orig_len (s_ev s v), v_fd (s_ev s v)) \<and>
    (\<exists>k'. sent s k [] k' s' \<and> (r \<ge> 0 \<longrightarrow> k' = nat r))"
proof -
  define s2 where "s2 = upd_ev v (\<lambda>e. e\<lparr>v_restore_fake := Some p\<rparr>) s"
  have f2: "fake_rec s2 v = (Some p, v_restore_orig (s_ev s v), v_restore_orig_len (s_ev s v), v_fd (s_ev s v))"
      "sent s k [] k s2" by (simp_all add: s2_def fake_rec_def sent_def)
  define t where "t = setttl fd (if d_ttl opt \<noteq> 0 then d_ttl opt else DEFAULT_TTL) s2"
  have q3: "quiet s2 (snd t)" by (simp add: t_def quiet_setttl)
  define s5 where "s5 = upd_ev v (\<lambda>e. e\<lparr>v_restore_ttl := True\<rparr>) (snd t)"
  define ms where "ms = (if d_md5sig opt then set_md5sig fd 5 s5 else (0, s5))"
  define s6 where "s6 = upd_ev v (\<lambda>e. e\<lparr>v_restore_md5 := d_md5sig opt\<rparr>) (snd ms)"
  have q35: "quiet (snd t) s5" unfolding s5_def by (rule quiet_upd) simp
  have "quiet s5 (snd ms)" by (simp add: ms_def quiet_md5sig)
  then have q5: "quiet s2 (snd ms)" using quiet_trans [OF quiet_trans [OF q3 q35]] by simp
  have q6: "quiet s2 s6" unfolding s6_def by (rule quiet_trans [OF q5 quiet_upd]) simp
  have eq: "lend_fake v fd pos opt p s = (if fst t < 0 then Some (- 1, snd t)
      else if fst ms \<noteq> 0 then Some (- 1, snd ms) else splice_fake v fd pos p s6)"
    unfolding lend_fake_def s6_def ms_def s5_def t_def s2_def Let_def case_prod_unfold by (rule refl)
  have "(r = - 1 \<and> s' = snd t) \<or> (r = - 1 \<and> s' = snd ms) \<or> splice_fake v fd pos p s6 = Some (r, s')"
    using assms(1) unfolding eq by (cases "fst t < 0"; cases "fst ms = 0"; simp)
  then consider "r = - 1" "s' = snd t" | "r = - 1" "s' = snd ms" | "splice_fake v fd pos p s6 = Some (r, s')"
    by blast
  then have "r \<le> pos \<and> fake_rec s' = fake_rec s2 \<and> (\<exists>k'. sent s2 k [] k' s' \<and> (r \<ge> 0 \<longrightarrow> k' = nat r))"
  proof cases
    case 1
    then show ?thesis using quiet_sent [OF q3] quiet_fake [OF q3] assms(2) by auto
  next
    case 2
    then show ?thesis using quiet_sent [OF q5] quiet_fake [OF q5] assms(2) by auto
  next
    case 3
    from splice_fake_sent [OF this, of k] show ?thesis
      using sent_trans [OF quiet_sent [OF q6]] quiet_fake [OF q6] by fastforce
  qed
  then show ?thesis using sent_trans [OF f2(2)] f2(1) by fastforce
qed

lemma send_fake_sent:
  assumes "send_fake v orig pos opt pkt s = Some (r, s')" "0 \<le> pos"
  shows "r \<le> pos \<and> (\<exists>k'. sent s k [] k' s' \<and>
    (r \<ge> 0 \<longrightarrow> k' = nat r \<and> (\<exists>p. fake_rec s' v = (Some p, orig, pos, v_fd (s_ev s v)))))"
proof -
  define r0 where "r0 = s_orc s (s_k s)"
  define s1 where "s1 = snd (sys CPipe s)"
  define s2 where "s2 = upd_ev v (\<lambda>e. e\<lparr>v_restore_orig := orig, v_restore_orig_len := pos\<rparr>) s1"
  have q1: "quiet s s1" by (simp add: s1_def)
  have s2: "sent s k [] k s2" "v_fd (s_ev s2 v) = v_fd (s_ev s v)" "v_restore_orig (s_ev s2 v) = orig"
      "v_restore_orig_len (s_ev s2 v) = pos" using quiet_sent [OF q1, of k] by (simp_all add: s2_def s1_def sent_def)
  consider "r = - 1" "s' = s1"
    | data s4 where "lend_fake v (v_fd (s_ev s2 v)) pos opt (drop (nat (pk_off pkt)) data) s2 = Some (r, s4)"
        "s' = snd (sys (CClose (r_errno r0)) (snd (sys (CClose (r_ret r0)) s4)))"
    using assms(1)
    by (auto simp: send_fake_def Let_def case_prod_unfold r0_def s1_def s2_def split: if_splits bind_splits)
  then show ?thesis
  proof cases
    case 1
    then show ?thesis using quiet_sent [OF q1] assms(2) by auto
  next
    case 2
    have q7: "quiet s4 s'" unfolding 2(2) by (rule quiet_trans [OF quiet_sys quiet_sys]) simp_all
    note l = lend_fake_sent [OF 2(1) assms(2), of k]
    then obtain k' where k': "sent s2 k [] k' s4" "r \<ge> 0 \<longrightarrow> k' = nat r" by blast
    have "sent s k [] k' s'" using sent_trans [OF sent_trans [OF s2(1) k'(1)] quiet_sent [OF q7]] by simp
    then show ?thesis using l k' quiet_fake [OF q7] s2 by auto
  qed
qed

text \<open>Bytes \<open>lp\<close> to \<open>pos\<close> of the request.\<close>

definition seg :: "buf \<Rightarrow> int \<Rightarrow> int \<Rightarrow> byte list" where
  "seg b lp pos = take (nat (pos - lp)) (drop (nat lp) b)"

lemma seg_same [simp]: "seg b lp lp = []"
  by (simp add: seg_def)

lemma seg_append: "0 \<le> lp \<Longrightarrow> lp \<le> pos \<Longrightarrow> pos \<le> q \<Longrightarrow> seg b lp pos @ seg b pos q = seg b lp q"
proof -
  assume a: "0 \<le> lp" "lp \<le> pos" "pos \<le> q"
  have "nat (q - lp) = nat (pos - lp) + nat (q - pos)" "nat pos = nat (pos - lp) + nat lp" using a by auto
  then show ?thesis by (simp add: seg_def take_add)
qed

lemma rdn_seg: "rdn b lp m = Some d \<Longrightarrow> d = seg b lp (lp + m) \<and> 0 \<le> lp \<and> 0 \<le> m \<and> lp + m \<le> int (length b)"
  by (auto simp: rdn_def seg_def split: if_splits)

lemma desync_part_sent:
  assumes "desync_part v dp b z n part i lp pos info s = Some (Some r, info', s')" "lp \<le> pos"
    and "v_restore_fake (s_ev s v) = None"
  shows "r \<le> pos - lp \<and>
    ((sent s 0 (seg b lp (lp + r)) 0 s' \<and> v_restore_fake (s_ev s' v) = None) \<or>
     (\<exists>k'. sent s 0 [] k' s' \<and>
        (r \<ge> 0 \<longrightarrow> k' = nat r \<and> (\<exists>p fd. fake_rec s' v = (Some p, lp, pos - lp, fd)))))"
proof -
  have fr: "v_restore_fake (s_ev t v) = None" if "fake_rec t = fake_rec s" for t
    using that assms(3) by (simp add: fake_rec_def fun_eq_iff)
  have sl: "seg b lp (lp + r) = take (nat r) (drop (nat lp) b)" by (simp add: seg_def)
  have send: "r \<le> pos - lp \<and> sent s 0 (seg b lp (lp + r)) 0 s' \<and> v_restore_fake (s_ev s' v) = None"
    if "rdn b lp (pos - lp) = Some d" "sys_send fd d False t = (r, s')" "quiet s t" for d fd t
    using sys_send_sent [OF that(1,2), of 0] sent_trans [OF quiet_sent [OF that(3)]] quiet_fake [OF that(3)] fr
    by (simp add: sl)
  have oob: "r \<le> pos - lp \<and> sent s 0 (seg b lp (lp + r)) 0 s' \<and> v_restore_fake (s_ev s' v) = None"
    if "send_oob fd b lp (z - lp) (pos - lp) (d_oob_char dp) t = Some (r, s')" "quiet s t" for fd t
    using send_oob_sent [OF that(1), of 0] assms(2) sent_trans [OF quiet_sent [OF that(2)]] quiet_fake [OF that(2)] fr
    by (simp add: sl)
  show ?thesis
  proof (cases "p_m part = DESYNC_FAKE")
    case True
    then obtain pkt i1 s1 where g: "get_tcp_fake b n info dp s = Some (pkt, i1, s1)"
        and r: "if pos \<noteq> lp then send_fake v lp (pos - lp) dp pkt s1 = Some (r, s') else r = 0 \<and> s' = s1"
      using assms(1) by (auto simp: desync_part_def Let_def split: bind_splits if_splits)
    note q = quiet_get_tcp_fake [OF g]
    show ?thesis
    proof (cases "pos = lp")
      case True
      then show ?thesis using r quiet_sent [OF q, of 0] fr [OF quiet_fake [OF q]] by auto
    next
      case False
      then have "send_fake v lp (pos - lp) dp pkt s1 = Some (r, s')" using r by simp
      from send_fake_sent [OF this, of 0] assms(2) show ?thesis
        using sent_trans [OF quiet_sent [OF q, of 0]] by fastforce
    qed
  next
    case nf: False
    show ?thesis
    proof (cases "p_m part = DESYNC_OOB")
      case True
      then show ?thesis using assms(1) oob [OF _ quiet_refl] by (auto simp: desync_part_def Let_def split: bind_splits)
    next
      case no: False
      define fd where "fd = v_fd (s_ev s v)"
      show ?thesis
      proof (cases "p_m part = DESYNC_DISORDER \<or> p_m part = DESYNC_DISOOB")
        case True
        define t where "t = (if i mod 2 = 0 then setttl fd 1 s else (0, s))"
        define u where "u = upd_ev v (\<lambda>e. e\<lparr>v_restore_ttl := True\<rparr>) (snd t)"
        have qt: "quiet s (snd t)" by (simp add: t_def quiet_setttl)
        have qu: "quiet s u" unfolding u_def by (rule quiet_trans [OF qt quiet_upd]) simp
        have eq: "desync_part v dp b z n part i lp pos info s =
          (if fst t < 0 then Some (Some (- 1), info, snd t)
            else do {
              (r, s) \<leftarrow>
                (if p_m part = DESYNC_DISOOB then send_oob fd b lp (z - lp) (pos - lp) (d_oob_char dp) u
                 else do { d \<leftarrow> rdn b lp (pos - lp); Some (sys_send fd d False u) });
              Some (Some r, info, s) })"
          using True unfolding desync_part_def t_def u_def fd_def Let_def case_prod_unfold by (auto split: demode.split)
        show ?thesis
        proof (cases "fst t < 0")
          case True
          then show ?thesis using assms(1,2) eq quiet_sent [OF qt, of 0] by auto
        next
          case False
          then have "(if p_m part = DESYNC_DISOOB then send_oob fd b lp (z - lp) (pos - lp) (d_oob_char dp) u
                 else do { d \<leftarrow> rdn b lp (pos - lp); Some (sys_send fd d False u) }) = Some (r, s')"
            using assms(1) eq by (auto split: bind_splits if_splits)
          then show ?thesis using send [OF _ _ qu] oob [OF _ qu] by (auto split: if_splits bind_splits)
        qed
      next
        case False
        then have "desync_part v dp b z n part i lp pos info s = do {
            d \<leftarrow> rdn b lp (pos - lp);
            let (r, s) = sys_send fd d False s;
            Some (Some r, info, s) }"
          using nf no unfolding desync_part_def fd_def Let_def by (auto split: demode.split)
        then obtain d where "rdn b lp (pos - lp) = Some d" "sys_send fd d False s = (r, s')"
          using assms(1) by (auto simp: Let_def split: bind_splits prod.splits)
        then show ?thesis using send [OF _ _ quiet_refl] by blast
      qed
    qed
  qed
qed

section \<open>Between the parts\<close>

lemma quiet_restore_opts: "quiet s (restore_opts v s)"
proof -
  define s2 where "s2 = (if v_restore_md5 (s_ev s v)
              then upd_ev v (\<lambda>e. e\<lparr>v_restore_md5 := False\<rparr>) (snd (set_md5sig (v_fd (s_ev s v)) 0 s)) else s)"
  have q2: "quiet s s2" unfolding s2_def using quiet_trans [OF quiet_md5sig quiet_upd] by simp
  show ?thesis unfolding restore_opts_def s2_def [symmetric] Let_def
    using quiet_trans [OF q2 quiet_trans [OF quiet_setttl quiet_upd]] q2 by simp
qed

lemma restore_state_sent:
  assumes "restore_state v b s = Some s'"
  shows "v_restore_fake (s_ev s' v) = None"
    and "v_restore_fake (s_ev s v) = None \<Longrightarrow> sent s k [] k s'"
    and "fake_rec s v = (Some p, lp, pos - lp, fd) \<Longrightarrow> k = nat (pos - lp) \<Longrightarrow> sent s k (seg b lp pos) 0 s'"
proof -
  obtain s1 where s1: "(case v_restore_fake (s_ev s v) of
            None \<Rightarrow> Some s
          | Some p \<Rightarrow> do {
              orig \<leftarrow> rdn b (v_restore_orig (s_ev s v)) (v_restore_orig_len (s_ev s v));
              p \<leftarrow> wrn p 0 orig;
              Some (upd_ev v (\<lambda>e. e\<lparr>v_restore_fake := None\<rparr>) (snd (sys (CMunmap p) s))) }) = Some s1"
    using assms by (auto simp: restore_state_def split: bind_splits)
  have s': "s' = restore_opts v s1" using assms s1 by (simp add: restore_state_def)
  have q: "quiet s1 s'" unfolding s' by (rule quiet_restore_opts)
  note f = quiet_fake [OF q]
  have n1: "v_restore_fake (s_ev s1 v) = None" using s1 by (auto split: option.splits bind_splits)
  then show "v_restore_fake (s_ev s' v) = None" using f by (simp add: fake_rec_def fun_eq_iff)
  show "v_restore_fake (s_ev s v) = None \<Longrightarrow> sent s k [] k s'" using s1 quiet_sent [OF q, of k] by simp
  assume r: "fake_rec s v = (Some p, lp, pos - lp, fd)" "k = nat (pos - lp)"
  then obtain orig p' where o: "rdn b lp (pos - lp) = Some orig" "wrn p 0 orig = Some p'"
      "s1 = upd_ev v (\<lambda>e. e\<lparr>v_restore_fake := None\<rparr>) (snd (sys (CMunmap p') s))"
    using s1 by (auto simp: fake_rec_def split: bind_splits)
  have "orig = seg b lp pos" "length orig = k" using rdn_seg [OF o(1)] r(2) by (auto simp: seg_def)
  then have "take k p' = seg b lp pos" using o(2) by (auto simp: wrn_def split: if_splits)
  then have "sent s k (seg b lp pos) 0 s1" using sent_call [of s k "CMunmap p'"] unfolding o(3) by (simp add: sent_def)
  then show "sent s k (seg b lp pos) 0 s'" using sent_trans [OF _ quiet_sent [OF q, of 0]] by fastforce
qed

lemma after_part_None:
  assumes "after_part v b offset lp pos c c' r s = Some (None, s')"
  shows "r = pos - lp \<and> v_restore_fake (s_ev s' v) = None \<and>
    (v_restore_fake (s_ev s v) = None \<longrightarrow> sent s k [] k s') \<and>
    (\<forall>p fd. fake_rec s v = (Some p, lp, pos - lp, fd) \<longrightarrow> k = nat (pos - lp) \<longrightarrow> sent s k (seg b lp pos) 0 s')"
proof -
  define u where "u = snd (sock_has_notsent (v_fd (s_ev s v)) s)"
  have q: "quiet s u" by (simp add: u_def quiet_notsent)
  have r: "r = pos - lp" and rs: "restore_state v b u = Some s'"
    using assms by (auto simp: after_part_def u_def Let_def case_prod_unfold split: if_splits bind_splits)
  have f: "fake_rec u = fake_rec s" "v_restore_fake (s_ev u v) = v_restore_fake (s_ev s v)"
    using quiet_fake [OF q] by (simp_all add: fake_rec_def fun_eq_iff)
  show ?thesis
    using r restore_state_sent [OF rs] sent_trans [OF quiet_sent [OF q, of k]] f by fastforce
qed

lemma after_part_Some:
  assumes "after_part v b offset lp pos c c' r s = Some (Some out, s')"
  shows "sent s k [] k s' \<and> (\<exists>x w. out = Returned x w \<and>
    (\<not> w \<longrightarrow> (r < 0 \<and> (x = lp - offset \<or> x = - 1)) \<or> (0 \<le> r \<and> r \<noteq> pos - lp \<and> x = lp + r - offset)))"
proof -
  define u where "u = snd (sock_has_notsent (v_fd (s_ev s v)) s)"
  have q: "quiet s u" by (simp add: u_def quiet_notsent)
  have qs: "quiet s s'" if "set_timer v (g_await_int (s_par s)) s = Some s' \<or> set_timer v (g_await_int (s_par s)) u = Some s' \<or> s' = s"
    using that q quiet_set_timer quiet_trans by blast
  show ?thesis
    using assms quiet_sent [OF qs]
    by (auto simp: after_part_def u_def Let_def case_prod_unfold ERR_WAIT_def split: if_splits bind_splits)
qed

section \<open>The loop over the parts\<close>

text \<open>\<open>handled\<close>: what an outcome promises about the bytes from \<open>lp\<close> on.\<close>

definition handled :: "nat \<Rightarrow> buf \<Rightarrow> int \<Rightarrow> int \<Rightarrow> int \<Rightarrow> st \<Rightarrow> outcome \<Rightarrow> st \<Rightarrow> bool" where
  "handled v b n offset lp s out s' \<longleftrightarrow>
     (case out of
        Reached q \<Rightarrow> lp \<le> q \<and> q \<le> n \<and> sent s 0 (seg b lp q) 0 s'
      | Returned x w \<Rightarrow> \<not> w \<longrightarrow> x \<ge> 0 \<longrightarrow>
          (\<exists>q k'. lp \<le> q \<and> q \<le> offset + x \<and> offset + x \<le> n \<and> (offset + x = n \<longrightarrow> q = n) \<and>
             sent s 0 (seg b lp q) k' s'))"

lemma handled_step:
  assumes "handled v b n offset pos s1 out s'" "sent s 0 (seg b lp pos) 0 s1" "0 \<le> lp" "lp \<le> pos"
  shows "handled v b n offset lp s out s'"
proof (cases out)
  case (Reached q)
  then show ?thesis using assms sent_trans [OF assms(2)] seg_append [OF assms(3,4)]
    by (fastforce simp: handled_def)
next
  case (Returned x w)
  show ?thesis
  proof (cases "\<not> w \<and> x \<ge> 0")
    case True
    then obtain q k' where q: "pos \<le> q" "q \<le> offset + x" "offset + x \<le> n" "offset + x = n \<longrightarrow> q = n"
        "sent s1 0 (seg b pos q) k' s'" using assms(1) Returned by (auto simp: handled_def)
    then have "sent s 0 (seg b lp q) k' s'" using sent_trans [OF assms(2) q(5)] seg_append [OF assms(3,4), of q b] by simp
    then show ?thesis using q assms(4) Returned unfolding handled_def by (auto intro!: exI [of _ q] exI [of _ k'])
  qed (use Returned in \<open>auto simp: handled_def\<close>)
qed

lemma seg_empty [simp]: "q \<le> lp \<Longrightarrow> seg b lp q = []"
  by (simp add: seg_def)

lemma one_part:
  assumes p: "desync_part v dp b z n part i lp pos info s = Some (Some r, info', s1)" "0 \<le> lp" "lp \<le> pos" "pos \<le> n"
    and f: "v_restore_fake (s_ev s v) = None"
    and a: "after_part v b offset lp pos c c' r (upd_ev w (\<lambda>e. e\<lparr>v_part_sent := y\<rparr>) s1) = Some (out, s2)"
  shows "(out = None \<longrightarrow> sent s 0 (seg b lp pos) 0 s2 \<and> v_restore_fake (s_ev s2 v) = None) \<and>
    (\<forall>x. out = Some x \<longrightarrow> handled v b n offset lp s x s2)"
proof -
  define u where "u = upd_ev w (\<lambda>e. e\<lparr>v_part_sent := y\<rparr>) s1"
  have q: "quiet s1 u" unfolding u_def by (rule quiet_upd) simp
  have fu: "fake_rec u = fake_rec s1" "v_restore_fake (s_ev u v) = v_restore_fake (s_ev s1 v)"
    using quiet_fake [OF q] by (simp_all add: fake_rec_def fun_eq_iff)
  note d = desync_part_sent [OF p(1,3) f]
  from d consider
      (plain) "r \<le> pos - lp" "sent s 0 (seg b lp (lp + r)) 0 u" "v_restore_fake (s_ev u v) = None"
    | (fake) k' where "r \<le> pos - lp" "sent s 0 [] k' u"
        "r \<ge> 0 \<longrightarrow> k' = nat r \<and> (\<exists>p fd. fake_rec u v = (Some p, lp, pos - lp, fd))"
    using sent_trans [OF _ quiet_sent [OF q]] fu by fastforce
  then obtain k' where st: "\<exists>q k'. sent s 0 (seg b lp q) k' u \<and> lp \<le> q \<and> (r < 0 \<longrightarrow> q = lp) \<and> (r \<ge> 0 \<longrightarrow> q \<le> lp + r)"
    and le: "r \<le> pos - lp"
  proof cases
    case plain
    have "\<exists>q k'. sent s 0 (seg b lp q) k' u \<and> lp \<le> q \<and> (r < 0 \<longrightarrow> q = lp) \<and> (r \<ge> 0 \<longrightarrow> q \<le> lp + r)"
    proof (cases "r < 0")
      case True
      then show ?thesis using plain(2) by (intro exI [of _ lp] exI [of _ 0]) simp
    next
      case False
      then show ?thesis using plain(2) by (intro exI [of _ "lp + r"] exI [of _ 0]) simp
    qed
    then show ?thesis using that plain(1) by blast
  next
    case fake
    then have "\<exists>q k'. sent s 0 (seg b lp q) k' u \<and> lp \<le> q \<and> (r < 0 \<longrightarrow> q = lp) \<and> (r \<ge> 0 \<longrightarrow> q \<le> lp + r)"
      by (intro exI [of _ lp] exI [of _ k']) simp
    then show ?thesis using that fake(1) by blast
  qed
  show ?thesis
  proof (cases out)
    case None
    then have an: "after_part v b offset lp pos c c' r u = Some (None, s2)" using a by (simp add: u_def)
    have r: "r = pos - lp" using after_part_None [OF an] by blast
    have nf: "v_restore_fake (s_ev s2 v) = None" using after_part_None [OF an] by blast
    have "sent s 0 (seg b lp pos) 0 s2"
      using \<open>r \<le> pos - lp\<close>
    proof -
      from d consider
          (plain) "sent s 0 (seg b lp (lp + r)) 0 u" "v_restore_fake (s_ev u v) = None"
        | (fake) k' p fd where "sent s 0 [] k' u" "k' = nat r" "fake_rec u v = (Some p, lp, pos - lp, fd)"
        using sent_trans [OF _ quiet_sent [OF q]] fu r p(3) by fastforce
      then show ?thesis
      proof cases
        case plain
        then show ?thesis using after_part_None [OF an, of 0] sent_trans [OF plain(1)] r by fastforce
      next
        case fake
        then show ?thesis using after_part_None [OF an, of k'] sent_trans [OF fake(1)] r by fastforce
      qed
    qed
    then show ?thesis using None nf by simp
  next
    case (Some x)
    then have an: "after_part v b offset lp pos c c' r u = Some (Some x, s2)" using a by (simp add: u_def)
    obtain q k1 where q: "sent s 0 (seg b lp q) k1 u" "lp \<le> q" "r < 0 \<longrightarrow> q = lp" "r \<ge> 0 \<longrightarrow> q \<le> lp + r"
      using st by blast
    obtain y w where x: "x = Returned y w" "\<not> w \<longrightarrow> (r < 0 \<and> (y = lp - offset \<or> y = - 1)) \<or>
        (0 \<le> r \<and> r \<noteq> pos - lp \<and> y = lp + r - offset)" using after_part_Some [OF an] by blast
    have s2: "sent s 0 (seg b lp q) k1 s2" using sent_trans [OF q(1)] after_part_Some [OF an, of k1] by fastforce
    have "handled v b n offset lp s x s2"
    proof (cases "\<not> w \<and> y \<ge> 0")
      case True
      then consider "r < 0" "y = lp - offset" | "0 \<le> r" "r < pos - lp" "y = lp + r - offset" using x(2) le by fastforce
      then show ?thesis
      proof cases
        case 1
        then show ?thesis using q s2 p(2-4) x(1) unfolding handled_def by (auto intro!: exI [of _ q] exI [of _ k1])
      next
        case 2
        then show ?thesis using q s2 p(2-4) x(1) unfolding handled_def by (auto intro!: exI [of _ q] exI [of _ k1])
      qed
    qed (use x in \<open>auto simp: handled_def\<close>)
    then show ?thesis using Some by simp
  qed
qed

lemma desync_loop_handled:
  assumes "desync_loop v c dp b z n offset skip 0 ps cpart lp info s = Some (out, s')"
    and "v_restore_fake (s_ev s v) = None" "0 \<le> cpart" "0 \<le> lp" "lp \<le> n"
  shows "handled v b n offset lp s out s'"
  using assms
proof (induction ps arbitrary: cpart lp info s)
  case Nil
  then show ?case by (auto simp: handled_def sent_def)
next
  case (Cons pk ps)
  obtain part i where pk: "pk = (part, i)" by fastforce
  obtain g info1 s1 where g: "gen_offset (p_pos part) (p_flag part) b n lp info s = Some (g, info1, s1)"
    using Cons.prems(1) pk by (auto simp: Let_def split: bind_splits)
  define pos where "pos = g + p_s part * i"
  note q = quiet_gen_offset [OF g]
  have f1: "v_restore_fake (s_ev s1 v) = None" using quiet_fake [OF q] Cons.prems(2) by (simp add: fake_rec_def fun_eq_iff)
  have s1: "sent s 0 (seg b lp lp) 0 s1" using quiet_sent [OF q, of 0] by simp
  note step = Cons.prems(1) [unfolded pk desync_loop.simps Let_def g bind.simps case_prod_conv, folded pos_def]
  show ?case
  proof (cases "((skip \<noteq> 0 \<and> pos < skip) \<or> cpart + 1 < 0) \<and> \<not> has_flag (p_flag part) OFFSET_START \<or> (offset \<noteq> 0 \<and> pos < offset)")
    case True
    then have "desync_loop v c dp b z n offset skip 0 ps (cpart + 1) lp info1 s1 = Some (out, s')"
      using step by (auto split: if_splits)
    then have "handled v b n offset lp s1 out s'" by (rule Cons.IH) (use Cons.prems f1 in auto)
    then show ?thesis using handled_step [OF _ s1] Cons.prems by simp
  next
    case False
    show ?thesis
    proof (cases "pos < 0 \<or> pos < lp")
      case True
      then have "out = Reached lp" "s' = s1" using step False by (auto split: if_splits)
      then show ?thesis using s1 Cons.prems by (simp add: handled_def)
    next
      case le: False
      define pos' where "pos' = min pos n"
      have p': "0 \<le> lp" "lp \<le> pos'" "pos' \<le> n" using le Cons.prems by (simp_all add: pos'_def)
      obtain r info2 s2 where d: "desync_part v dp b z n part i lp pos' info1 s1 = Some (r, info2, s2)"
        using step False le Cons.prems(3) by (auto simp: pos'_def split: if_splits bind_splits)
      show ?thesis
      proof (cases r)
        case None
        then have "out = Returned (- 1) False" using step False le Cons.prems(3) d by (auto simp: pos'_def [symmetric] split: if_splits)
        then show ?thesis by (simp add: handled_def)
      next
        case (Some r')
        obtain o1 s3 where a: "after_part v b offset lp pos' (cpart + 1) 0 r' (upd_ev c (\<lambda>e. e\<lparr>v_part_sent := cpart + 1\<rparr>) s2) = Some (o1, s3)"
          using step False le Cons.prems(3) d Some by (auto simp: pos'_def [symmetric] split: if_splits bind_splits)
        note o = one_part [OF d [unfolded Some] p' f1 a]
        show ?thesis
        proof (cases o1)
          case None
          then have "desync_loop v c dp b z n offset skip 0 ps (cpart + 1) pos' info2 s3 = Some (out, s')"
            using step False le Cons.prems(3) d Some a by (auto simp: pos'_def [symmetric] split: if_splits)
          then have "handled v b n offset pos' s3 out s'" by (rule Cons.IH) (use Cons.prems o None p' in auto)
          then have "handled v b n offset lp s1 out s'" by (rule handled_step) (use o None p' in auto)
          then show ?thesis using handled_step [OF _ s1] Cons.prems by simp
        next
          case (Some x)
          then have "out = x" "s' = s3"
            using step False le Cons.prems(3) d \<open>r = Some r'\<close> a by (auto simp: pos'_def [symmetric] split: if_splits)
          then have "handled v b n offset lp s1 out s'" using o Some by simp
          then show ?thesis using handled_step [OF _ s1] Cons.prems by simp
        qed
      qed
    qed
  qed
qed

section \<open>Bounds of the changed request\<close>

lemma part_tls_bounds:
  assumes "part_tls b z n pos = Some (r, b')"
  shows "length b' = length b \<and> (r \<noteq> 0 \<longrightarrow> n + 5 \<le> z \<and> 0 \<le> pos \<and> pos + 5 \<le> n)"
  using assms by (auto simp: part_tls_def split: if_splits bind_splits dest!: len_simps)

lemma upper_even_length [len_simps]: "upper_even b h i n = Some b' \<Longrightarrow> length b' = length b"
proof (induction b h i n rule: upper_even.induct)
  case (1 b h i n)
  note step = "1.prems" [unfolded upper_even.simps [of b h i n]]
  show ?case
  proof (cases "i < n")
    case True
    then obtain x b1 where x: "rd b (h + i) = Some x" "wr b (h + i) (to_upper x) = Some b1"
        "upper_even b1 h (i + 2) n = Some b'" using step by (auto split: bind_splits)
    from "1.IH" [OF True x] show ?thesis using wr_length [OF x(2)] by simp
  qed (use step in simp)
qed

lemma mod_http_length: "mod_http b n m = Some (r, b') \<Longrightarrow> length b' = length b"
  by (auto simp: mod_http_def recase_def Let_def split: if_splits bind_splits option.splits dest!: len_simps)

lemma tlsrec_loop_bounds:
  assumes "tlsrec_loop z ps rc lp b n info s = Some (b', n', info', s')" "n \<le> z" "z \<le> int (length b)" "0 \<le> lp" "lp \<le> int (length b)"
  shows "n \<le> n' \<and> n' \<le> z \<and> n' - n \<le> 5 * int (length ps) \<and> 5 dvd (n' - n) \<and> length b' = length b"
  using assms
proof (induction ps arbitrary: rc lp b n info s)
  case Nil
  then show ?case by simp
next
  case (Cons pk ps)
  obtain part k where pk: "pk = (part, k)" by fastforce
  obtain g i s1 where g: "gen_offset (p_pos part) (p_flag part) b (n - rc * 5) lp info s = Some (g, i, s1)"
    using Cons.prems(1) pk by (auto simp: Let_def split: bind_splits)
  define pos where "pos = (if p_pos part < 0 \<or> p_flag part \<noteq> 0 then rc * 5 + g - 5 else rc * 5 + g) + p_s part * k"
  note step = Cons.prems(1) [unfolded pk tlsrec_loop.simps Let_def g bind.simps case_prod_conv, folded pos_def]
  show ?case
  proof (cases "pos < lp")
    case True
    then show ?thesis using step Cons.prems by auto
  next
    case False
    then obtain r b1 where p: "part_tls (drop (nat lp) b) (z - lp) (n - lp) (pos - lp) = Some (r, b1)"
      using step by (auto split: bind_splits)
    have lb: "length (take (nat lp) b @ b1) = length b"
      using part_tls_bounds [OF p] Cons.prems(4,5) by simp
    show ?thesis
    proof (cases "r = 0")
      case True
      then show ?thesis using step False p lb Cons.prems by auto
    next
      case r: False
      then have n5: "n + 5 \<le> z" "pos + 5 \<le> n" "lp \<le> pos" using part_tls_bounds [OF p] by auto
      have t: "tlsrec_loop z ps (rc + 1) (pos + 5) (take (nat lp) b @ b1) (n + 5) i s1 = Some (b', n', info', s')"
        using step False p r by simp
      have len: "z \<le> int (length (take (nat lp) b @ b1))" "pos + 5 \<le> int (length (take (nat lp) b @ b1))"
        using Cons.prems(3) n5 unfolding lb by simp_all
      have "n + 5 \<le> n' \<and> n' \<le> z \<and> n' - (n + 5) \<le> 5 * int (length ps) \<and> 5 dvd (n' - (n + 5)) \<and>
          length b' = length (take (nat lp) b @ b1)"
        by (rule Cons.IH [OF t n5(1) len(1) _ len(2)]) (use Cons.prems(4) n5 in simp)
      moreover have "5 dvd (n' - n) \<longleftrightarrow> 5 dvd (n' - (n + 5))" by (simp add: dvd_def, presburger)
      ultimately show ?thesis using lb by simp
    qed
  qed
qed

lemma tamp_bounds:
  assumes "tamp b z n dp info s = Some (b', n', info', s')" "n \<le> z" "z \<le> int (length b)"
  shows "n \<le> n' \<and> n' \<le> z \<and> n' - n \<le> 5 * int (length (steps (d_tlsrec dp))) \<and> 5 dvd (n' - n) \<and> length b' = length b"
proof -
  obtain h b1 where b1: "(if h then map_option snd (mod_http b n (d_mod_http dp)) else Some b) = Some b1"
      and r1: "do {
     t \<leftarrow> (if d_tlsminor_set dp then is_tls_chello b1 n else Some False);
     b \<leftarrow> (if t then wr b1 2 (d_tlsminor dp) else Some b1);
     t \<leftarrow> (if d_tlsrec dp \<noteq> [] then is_tls_chello b n else Some False);
     if t then tlsrec_loop z (steps (d_tlsrec dp)) 0 0 b n info s else Some (b, n, info, s) } = Some (b', n', info', s')"
    using assms(1) unfolding tamp_def by (auto split: bind_splits)
  obtain t b2 where b2: "(if t then wr b1 2 (d_tlsminor dp) else Some b1) = Some b2"
      and r2: "do {
     t \<leftarrow> (if d_tlsrec dp \<noteq> [] then is_tls_chello b2 n else Some False);
     if t then tlsrec_loop z (steps (d_tlsrec dp)) 0 0 b2 n info s else Some (b2, n, info, s) } = Some (b', n', info', s')"
    using r1 by (auto split: bind_splits)
  have l1: "length b1 = length b" using b1 mod_http_length by (auto split: if_splits)
  then have l2: "length b2 = length b" using b2 by (auto split: if_splits dest!: wr_length)
  from r2 consider "tlsrec_loop z (steps (d_tlsrec dp)) 0 0 b2 n info s = Some (b', n', info', s')" | "b' = b2" "n' = n"
    by (auto split: bind_splits if_splits)
  then show ?thesis
  proof cases
    case 1
    then show ?thesis using tlsrec_loop_bounds [OF 1 assms(2)] assms(3) l2 by simp
  next
    case 2
    then show ?thesis using assms(2) l2 by simp
  qed
qed

section \<open>The properties\<close>

lemma seg_take: "0 \<le> r \<Longrightarrow> take (nat r) (drop (nat lp) b) = seg b lp (lp + r)"
  by (simp add: seg_def)

lemma send_rest_sent:
  assumes "send_rest fd b offset n lp s = Some (x, s')" "0 \<le> x" "0 \<le> lp" "lp \<le> n"
  shows "\<exists>q. lp \<le> q \<and> q \<le> offset + x \<and> offset + x \<le> n \<and> sent s 0 (seg b lp q) 0 s' \<and>
    (offset + x = n \<longrightarrow> q = n \<or> \<not> complete (last (s_trace s')))"
proof (cases "lp < n")
  case False
  then show ?thesis using assms by (auto simp: send_rest_def sent_def)
next
  case True
  then obtain d r where d: "rdn b lp (n - lp) = Some d" "sys_send fd d False s = (r, s')"
      and x: "x = (if r < 0 then (if s_errno s' = EAGAIN then lp - offset else - 1) else n - offset)"
    using assms(1) by (auto simp: send_rest_def Let_def split: bind_splits prod.splits)
  note sd = sys_send_sent [OF d, of 0]
  show ?thesis
  proof (cases "r < 0")
    case True
    then have "sent s 0 (seg b lp lp) 0 s'" using sd by simp
    then show ?thesis using True \<open>lp < n\<close> x assms(2) by (intro exI [of _ lp]) (auto split: if_splits)
  next
    case False
    then have "sent s 0 (seg b lp (lp + r)) 0 s'" using sd seg_take [of r lp b] by simp
    then show ?thesis using False sd x by (intro exI [of _ "lp + r"]) auto
  qed
qed

lemma desync_run_sent:
  assumes r: "desync_run v c dp buff b n False info s = Some (res, s')"
    and a: "v_part_sent (s_ev s c) = 0" "v_restore_fake (s_ev s v) = None"
    and o: "0 \<le> b_offset buff" "b_offset buff \<le> n" "0 \<le> ds_ret res" "\<not> ds_wait res"
  shows "ds_n res = n \<and> b_data (ds_buff res) = b \<and>
    (\<exists>q k. b_offset buff \<le> q \<and> q \<le> b_offset buff + ds_ret res \<and> b_offset buff + ds_ret res \<le> n \<and>
      sent s 0 (seg b (b_offset buff) q) k s' \<and>
      (b_offset buff + ds_ret res = n \<longrightarrow> q = n \<or> \<not> complete (last (s_trace s'))))"
proof -
  obtain out s2 where l: "desync_loop v c dp b (b_size buff) n (b_offset buff) (v_round_sent (s_ev s c)) 0
       (steps (d_parts dp)) 0 (b_offset buff) info s = Some (out, s2)"
    using r a(1) by (auto simp: desync_run_def Let_def split: bind_splits)
  have h: "handled v b n (b_offset buff) (b_offset buff) s out s2"
    by (rule desync_loop_handled [OF l a(2)]) (use o in auto)
  note r' = r [unfolded desync_run_def a(1) Let_def l bind.simps case_prod_conv]
  show ?thesis
  proof (cases out)
    case (Returned x w)
    then have x: "ds_ret res = x" "\<not> w" "s' = s2" "ds_n res = n" "b_data (ds_buff res) = b" using r' o(4) by auto
    then obtain y k where "b_offset buff \<le> y" "y \<le> b_offset buff + x" "b_offset buff + x \<le> n"
        "b_offset buff + x = n \<longrightarrow> y = n" "sent s 0 (seg b (b_offset buff) y) k s2"
      using h Returned o(3) unfolding handled_def by auto
    then show ?thesis using x by blast
  next
    case (Reached lp)
    then have g: "b_offset buff \<le> lp" "lp \<le> n" "sent s 0 (seg b (b_offset buff) lp) 0 s2" using h by (auto simp: handled_def)
    obtain x where x: "send_rest (v_fd (s_ev s2 v)) b (b_offset buff) n lp s2 = Some (x, s')" "ds_ret res = x"
        "ds_n res = n" "b_data (ds_buff res) = b"
      using r' Reached by (auto split: bind_splits)
    obtain y where y: "lp \<le> y" "y \<le> b_offset buff + x" "b_offset buff + x \<le> n" "sent s2 0 (seg b lp y) 0 s'"
        "b_offset buff + x = n \<longrightarrow> y = n \<or> \<not> complete (last (s_trace s'))"
      using send_rest_sent [OF x(1)] x(2) g o(1,3) by auto
    have "sent s 0 (seg b (b_offset buff) y) 0 s'"
      using sent_trans [OF g(3) y(4)] seg_append [OF o(1) g(1) y(1), of b] by simp
    moreover have "b_offset buff \<le> y" using g(1) y(1) by simp
    ultimately show ?thesis unfolding x(2-4) using y(2,3,5) by blast
  qed
qed

lemma gen_offset_ev: "gen_offset pos flag b n lp info s = Some (x, info', s') \<Longrightarrow> s_ev s' = s_ev s"
  by (auto simp: gen_offset_def Let_def case_prod_unfold rand_def split: if_splits bind_splits)

lemma tlsrec_loop_ev: "tlsrec_loop z ps rc lp b n info s = Some (b', n', info', s') \<Longrightarrow> s_ev s' = s_ev s"
proof (induction z ps rc lp b n info s rule: tlsrec_loop.induct)
  case (2 z part k ps rc lp b n info s)
  from "2.prems" obtain g i s1 where g: "gen_offset (p_pos part) (p_flag part) b (n - rc * 5) lp info s = Some (g, i, s1)"
    by (auto simp: Let_def split: bind_splits)
  show ?case using "2.prems" gen_offset_ev [OF g] "2.IH" [OF refl g refl refl refl refl refl]
    by (auto simp: g Let_def split: if_splits bind_splits)
qed simp

lemma tamp_ev: "tamp b z n dp info s = Some (b', n', info', s') \<Longrightarrow> s_ev s' = s_ev s"
  by (auto simp: tamp_def split: if_splits bind_splits dest: tlsrec_loop_ev)

text \<open>C1: \<open>desync\<close> at the start of a round, when it does not ask to wait: whatever the parts, the fakes,
  the options and the answers of the system are, the server gets a prefix of the (changed) request from
  \<open>buff->offset\<close> on, in order and each byte once, and no more than the returned count says. When the
  count says that all is sent, all of it is delivered, unless the last \<open>send\<close> was a short one.\<close>

theorem desync_keeps_order:
  assumes "desync v buff np False s = Some (res, s')" "v_pair (s_ev s v) = Some c"
    and "v_part_sent (s_ev s c) = 0" "v_restore_fake (s_ev s v) = None"
    and "0 \<le> b_offset buff" "b_offset buff \<le> ds_n res" "0 \<le> ds_ret res" "\<not> ds_wait res"
  shows "\<exists>q k. b_offset buff \<le> q \<and> q \<le> b_offset buff + ds_ret res \<and> b_offset buff + ds_ret res \<le> ds_n res \<and>
    sent s 0 (seg (b_data (ds_buff res)) (b_offset buff) q) k s' \<and>
    (b_offset buff + ds_ret res = ds_n res \<longrightarrow> q = ds_n res \<or> \<not> complete (last (s_trace s')))"
proof -
  obtain d where d: "v_dp (s_ev s c) = Some d" using assms(1,2) by (auto simp: desync_def Let_def split: bind_splits)
  obtain info0 b n info s1 where t: "(if v_round_sent (s_ev s c) = 0 then tamp (b_data buff) (b_size buff) np (s_dp s d) info0 s
        else Some (b_data buff, np, info0, s)) = Some (b, n, info, s1)"
      and r: "desync_run v c (s_dp s d) buff b n False info s1 = Some (res, s')"
    using assms(1,2) d by (auto simp: desync_def Let_def split: bind_splits)
  have q: "quiet s s1" using t quiet_tamp by (auto split: if_splits)
  have ev: "s_ev s1 = s_ev s" using t tamp_ev by (auto split: if_splits)
  have n: "ds_n res = n" using r by (auto simp: desync_run_def Let_def split: bind_splits)
  from desync_run_sent [OF r] assms(3-8) show ?thesis
    using sent_trans [OF quiet_sent [OF q, of 0]] unfolding ev n by fastforce
qed

text \<open>A connection 1 to the server for the client 0, with the group 0, on a system \<open>orc\<close>.\<close>

definition link_ex :: "dparams \<Rightarrow> (nat \<Rightarrow> sysres) \<Rightarrow> st" where
  "link_ex dp orc = (st0 orc)\<lparr>
     s_ev := (\<lambda>_. eval0)(0 := eval0\<lparr>v_fd := 5, v_pair := Some 1, v_dp := Some 0, v_recv_count := 1\<rparr>,
       1 := eval0\<lparr>v_fd := 6, v_pair := Some 0, v_flag := 4\<rparr>),
     s_dp := (\<lambda>_. dp)\<rparr>"

definition req_ex :: buffer where
  "req_ex = \<lparr> b_size = 8, b_offset = 0, b_lock = 0, b_data = [65, 66, 67, 68, 69, 0, 0, 0] \<rparr>"

definition split_ex :: dparams where
  "split_ex = dp0\<lparr>d_parts := [part0\<lparr>p_m := DESYNC_SPLIT, p_pos := 3\<rparr>]\<rparr>"

lemmas ex_defs = link_ex_def req_ex_def split_ex_def st0_def dp0_def part0_def par0_def eval0_def res0_def
  desync_def desync_run_def tamp_def steps_def gen_offset_def has_flag_def desync_part_def after_part_def send_rest_def
  sys_send_def sys_def rdn_def sock_has_notsent_def restore_state_def restore_opts_def upd_ev_def Let_def
  OFFSET_SNI_def OFFSET_HOST_def OFFSET_RAND_def OFFSET_MID_def OFFSET_END_def OFFSET_START_def ERR_WAIT_def EAGAIN_def

lemma desync_split_ex:
  "desync 1 req_ex 5 False (link_ex split_ex (\<lambda>_. res0\<lparr>r_ret := 9\<rparr>)) =
     Some (\<lparr> ds_ret = 5, ds_buff = req_ex, ds_n = 5, ds_wait = False \<rparr>,
       snd (the (desync 1 req_ex 5 False (link_ex split_ex (\<lambda>_. res0\<lparr>r_ret := 9\<rparr>)))))"
  by (simp add: ex_defs)

theorem desync_keeps_order_witness:
  "\<exists>q k. 0 \<le> q \<and> q \<le> 5 \<and> sent (link_ex split_ex (\<lambda>_. res0\<lparr>r_ret := 9\<rparr>)) 0 (seg (b_data req_ex) 0 q) k
     (snd (the (desync 1 req_ex 5 False (link_ex split_ex (\<lambda>_. res0\<lparr>r_ret := 9\<rparr>)))))"
  using desync_keeps_order [OF desync_split_ex, of 0] by (auto simp: link_ex_def req_ex_def eval0_def)


definition minor_ex :: dparams where
  "minor_ex = dp0\<lparr>d_tlsminor := 4, d_tlsminor_set := True\<rparr>"

lemma tamp_minor_ex:
  "tamp [22, 3, 1, 0, 4, 1, 0, 0, 0, 0] 10 9 minor_ex pinfo0 (st0 (\<lambda>_. res0)) =
     Some ([22, 3, 4, 0, 4, 1, 0, 0, 0, 0], 9, pinfo0, st0 (\<lambda>_. res0))"
proof -
  have "is_tls_chello [22, 3, 1, 0, 4, 1, 0, 0, 0, 0] 9 = Some True"
    by (simp add: is_tls_chello_def antohs_def rd_def u16_def)
  then show ?thesis by (simp add: tamp_def minor_ex_def dp0_def wr_def numeral_2_eq_2)
qed


text \<open>C34: a datagram that \<open>desync_udp\<close> sends out follows, if fakes are set up, two attempts to lower the
  TTL, \<open>udp_fake_count\<close> copies of the same fake, and two attempts to set the default TTL again; nothing
  else is called.\<close>

theorem desync_udp_order:
  assumes "desync_udp fd b off n dp s = Some (r, s')" "0 \<le> r" "0 < d_udp_fake_count dp"
  shows "\<exists>fake rs d ttl. udp_fake dp = Some fake \<and> length rs = nat (d_udp_fake_count dp) \<and>
    ttl = (if d_ttl dp \<noteq> 0 then d_ttl dp else 8) \<and> rdn b off n = Some d \<and>
    s_trace s' = s_trace s @ [CSetopt fd ''IPV6_UNICAST_HOPS'' ttl, CSetopt fd ''IP_TTL'' ttl] @
      map (CSend fd fake False) rs @
      [CSetopt fd ''IPV6_UNICAST_HOPS'' (g_def_ttl (s_par s)), CSetopt fd ''IP_TTL'' (g_def_ttl (s_par s)),
       CSend fd d False r]"
proof -
  have fakes: "\<exists>rs. length rs = m \<and> s_trace s2 = s_trace s1 @ map (CSend fd x False) rs \<and> s_par s2 = s_par s1"
    if "send_fakes m fd x s1 = (y, s2)" "\<not> y < 0" for m x s1 y s2
    using that
  proof (induction m arbitrary: s1)
    case (Suc m)
    obtain l u where u: "sys_send fd x False s1 = (l, u)" by fastforce
    then have "send_fakes m fd x u = (y, s2)" using Suc.prems by (auto simp: Let_def split: if_splits)
    from Suc.IH [OF this Suc.prems(2)] obtain rs where "length rs = m"
        "s_trace s2 = s_trace u @ map (CSend fd x False) rs" "s_par s2 = s_par u" by blast
    moreover have "s_trace u = s_trace s1 @ [CSend fd x False l]" "s_par u = s_par s1"
      using u by (auto simp: sys_send_def Let_def)
    ultimately show ?case by (intro exI [of _ "l # rs"]) simp
  qed simp
  have tt: "s_trace (snd (setttl fd t s1)) = s_trace s1 @ [CSetopt fd ''IPV6_UNICAST_HOPS'' t, CSetopt fd ''IP_TTL'' t]"
      "s_par (snd (setttl fd t s1)) = s_par s1" for t s1
    by (simp_all add: setttl_def Let_def case_prod_unfold)
  define ttl where "ttl = (if d_ttl dp \<noteq> 0 then d_ttl dp else 8)"
  obtain fake where f1: "udp_fake dp = Some fake"
    using assms by (auto simp: desync_udp_def split: if_splits bind_splits)
  define sf where "sf = send_fakes (nat (d_udp_fake_count dp)) fd fake (snd (setttl fd ttl s))"
  have f: "\<not> fst sf < 0" and s3: "Some (r, s') = do { d \<leftarrow> rdn b off n;
      Some (sys_send fd d False (snd (setttl fd (g_def_ttl (s_par (snd sf))) (snd sf)))) }"
    using assms f1 by (auto simp: sf_def desync_udp_def ttl_def DEFAULT_TTL_def Let_def case_prod_unfold split: if_splits)
  define s2 where "s2 = snd sf"
  obtain rs where rs: "length rs = nat (d_udp_fake_count dp)"
      "s_trace s2 = s_trace (snd (setttl fd ttl s)) @ map (CSend fd fake False) rs" "s_par s2 = s_par s"
  proof -
    have "send_fakes (nat (d_udp_fake_count dp)) fd fake (snd (setttl fd ttl s)) = (fst sf, s2)"
      by (simp add: sf_def s2_def)
    from fakes [OF this f] show ?thesis using that tt(2) by auto
  qed
  obtain d where d: "rdn b off n = Some d"
      "s_trace s' = s_trace (snd (setttl fd (g_def_ttl (s_par s)) s2)) @ [CSend fd d False r]"
    using s3 rs(3) by (auto simp: s2_def sys_send_def Let_def split: bind_splits)
  have "s_trace s' = s_trace s @ [CSetopt fd ''IPV6_UNICAST_HOPS'' ttl, CSetopt fd ''IP_TTL'' ttl] @
      map (CSend fd fake False) rs @
      [CSetopt fd ''IPV6_UNICAST_HOPS'' (g_def_ttl (s_par s)), CSetopt fd ''IP_TTL'' (g_def_ttl (s_par s)),
       CSend fd d False r]"
    unfolding d(2) tt rs(2) by simp
  then show ?thesis using f1 rs(1) d(1) ttl_def by blast
qed

theorem desync_udp_order_witness:
  "\<exists>rs. length rs = 2 \<and> s_trace (snd (the (desync_udp 6 [1, 2, 3] 1 2 (dp0\<lparr>d_udp_fake_count := 2\<rparr>) (st0 (\<lambda>_. res0))))) =
     [CSetopt 6 ''IPV6_UNICAST_HOPS'' 8, CSetopt 6 ''IP_TTL'' 8] @ map (CSend 6 (replicate 64 0) False) rs @
     [CSetopt 6 ''IPV6_UNICAST_HOPS'' 0, CSetopt 6 ''IP_TTL'' 0, CSend 6 [2, 3] False 0]"
proof -
  have f: "udp_fake (dp0\<lparr>d_udp_fake_count := 2\<rparr>) = Some (replicate 64 0)"
    by (simp add: udp_fake_def dp0_def fake_udp_def udp_data_def rdn_def)
  have "\<exists>s'. desync_udp 6 [1, 2, 3] 1 2 (dp0\<lparr>d_udp_fake_count := 2\<rparr>) (st0 (\<lambda>_. res0)) = Some (0, s')"
    unfolding desync_udp_def f
    by (simp add: setttl_def sys_send_def sys_def Let_def st0_def res0_def dp0_def rdn_def numeral_2_eq_2)
  then obtain s' where s': "desync_udp 6 [1, 2, 3] 1 2 (dp0\<lparr>d_udp_fake_count := 2\<rparr>) (st0 (\<lambda>_. res0)) = Some (0, s')" ..
  have "d_ttl dp0 = 0" by (simp add: dp0_def)
  with desync_udp_order [OF s'] show ?thesis
    unfolding s' by (auto simp: f rdn_def st0_def par0_def)
qed


text \<open>When a part ends at the end of the request, a following part at a random offset makes
  \<open>gen_offset\<close> divide by zero: here the parts 5 and 0 with the flag for random offsets, on a request
  of five bytes.\<close>

theorem desync_random_divides_by_zero:
  "desync 1 req_ex 5 False (link_ex (dp0\<lparr>d_parts :=
     [part0\<lparr>p_m := DESYNC_SPLIT, p_pos := 5\<rparr>, part0\<lparr>p_m := DESYNC_SPLIT, p_flag := OFFSET_RAND\<rparr>]\<rparr>)
     (\<lambda>_. res0\<lparr>r_ret := 9\<rparr>)) = None"
  by (simp add: ex_defs)

end
