(* ===== verification/GroupSpec.thy ===== *)
theory GroupSpec
  imports Hooks ConevTimers
begin

unbundle bit_operations_syntax

text \<open>
  The list of groups through \<open>d_next\<close> and \<open>d_prev\<close> refines a list. The search for the group of a
  request and the search for the next group after a failure end, and find the first suitable group;
  the exchange of two groups keeps the list.
\<close>

section \<open>The abstraction\<close>

definition gbits :: "(nat \<Rightarrow> dparams) \<Rightarrow> nat list \<Rightarrow> 64 word" where
  "gbits dps ds = foldr (\<lambda>d m. d_bit (dps d) OR m) ds 0"

lemma gbits_simps [simp]:
  "gbits dps [] = 0" "gbits dps (d # ds) = d_bit (dps d) OR gbits dps ds"
  by (simp_all add: gbits_def)

lemma gbits_append [simp]: "gbits dps (xs @ ys) = gbits dps xs OR gbits dps ys"
  by (induction xs) (auto simp: or.assoc)

lemma gbits_disjoint: "\<forall>e\<in>set es. x AND d_bit (dps e) = 0 \<Longrightarrow> x AND gbits dps es = 0"
  by (induction es) (auto simp: bit.conj_disj_distrib)

lemma and_not_self: "x AND y = 0 \<Longrightarrow> x AND NOT y = (x :: 64 word)"
  by (auto simp: bit_eq_iff bit_simps)

lemma gbits_sub: "d \<in> set ds \<Longrightarrow> d_bit (dps d) AND gbits dps ds = d_bit (dps d)"
  by (induction ds) (auto simp: bit.conj_disj_distrib word_ao_absorbs)

text \<open>A doubly linked segment between the neighbours \<open>p\<close> and \<open>q\<close>.\<close>

fun gseg :: "(nat \<Rightarrow> dparams) \<Rightarrow> nat option \<Rightarrow> nat list \<Rightarrow> nat option \<Rightarrow> bool" where
  "gseg dps p [] q = True"
| "gseg dps p (d # ds) q \<longleftrightarrow>
     d_prev (dps d) = p \<and> d_next (dps d) = (if ds = [] then q else hdO ds) \<and> gseg dps (Some d) ds q"

lemma gseg_append:
  "gseg dps p (xs @ ys) q \<longleftrightarrow>
     gseg dps p xs (if ys = [] then q else hdO ys) \<and> gseg dps (if xs = [] then p else lastO xs) ys q"
  by (induction xs arbitrary: p) (auto simp: hdO_append lastO_Cons lastO_def)

lemma gseg_ends:
  assumes "gseg dps p xs q"
  shows "hdO xs = Some u \<Longrightarrow> d_prev (dps u) = p" "lastO xs = Some u \<Longrightarrow> d_next (dps u) = q"
proof -
  show "hdO xs = Some u \<Longrightarrow> d_prev (dps u) = p" using assms by (cases xs) auto
  show "lastO xs = Some u \<Longrightarrow> d_next (dps u) = q"
    using assms by (cases xs rule: rev_cases) (auto simp: gseg_append)
qed

text \<open>A segment between other neighbours.\<close>

lemma gseg_relink:
  assumes "gseg dps p xs q" "distinct xs"
    "\<And>u. u \<in> set xs \<Longrightarrow> d_prev (dps' u) = (if hdO xs = Some u then p' else d_prev (dps u))"
    "\<And>u. u \<in> set xs \<Longrightarrow> d_next (dps' u) = (if lastO xs = Some u then q' else d_next (dps u))"
  shows "gseg dps' p' xs q'"
  using assms
proof (induction xs arbitrary: p p')
  case (Cons d xs)
  have "gseg dps' (Some d) xs q'"
  proof (rule Cons.IH [of "Some d"])
    fix u assume u: "u \<in> set xs"
    then show "d_prev (dps' u) = (if hdO xs = Some u then Some d else d_prev (dps u))"
      using Cons.prems by (cases xs) auto
    show "d_next (dps' u) = (if lastO xs = Some u then q' else d_next (dps u))"
      using u Cons.prems(2) Cons.prems(4) [of u] by (auto simp: lastO_Cons lastO_def)
  qed (use Cons.prems in auto)
  then show ?case using Cons.prems by (auto simp: lastO_Cons)
qed simp

definition glinked :: "(nat \<Rightarrow> dparams) \<Rightarrow> nat list \<Rightarrow> bool" where
  "glinked dps ds \<longleftrightarrow> gseg dps None ds None"

text \<open>As \<open>add_group\<close> leaves them: every group has a bit of its own, and the mask has all of them.\<close>

definition groups :: "st \<Rightarrow> nat list \<Rightarrow> bool" where
  "groups s ds \<longleftrightarrow>
     distinct ds \<and> ds \<noteq> [] \<and> g_dp (s_par s) = hdO ds \<and> glinked (s_dp s) ds \<and>
     (\<forall>d\<in>set ds. d_bit (s_dp s d) \<noteq> 0) \<and>
     (\<forall>d\<in>set ds. \<forall>e\<in>set ds. d \<noteq> e \<longrightarrow> d_bit (s_dp s d) AND d_bit (s_dp s e) = 0) \<and>
     g_dp_full_mask (s_par s) = gbits (s_dp s) ds"

lemma glinkedD:
  "glinked dps (xs @ d # ys) \<Longrightarrow> d_prev (dps d) = lastO xs \<and> d_next (dps d) = hdO ys"
  by (simp add: glinked_def gseg_append lastO_def split: if_splits)

section \<open>The choice of a group\<close>

text \<open>The group that the pointer \<open>p\<close> stands for in \<open>find_dp\<close>, and those after it, around the end.\<close>

fun follows :: "st \<Rightarrow> nat option \<Rightarrow> nat list \<Rightarrow> bool" where
  "follows s p [] = True"
| "follows s p (d # ds) \<longleftrightarrow>
     (p = Some d \<or> p = None \<and> g_dp (s_par s) = Some d) \<and> follows s (d_next (s_dp s d)) ds"

lemma follows_suffix:
  assumes "glinked (s_dp s) (xs @ ys)" "follows s None zs"
  shows "follows s (hdO ys) (ys @ zs)"
  using assms(1)
proof (induction ys arbitrary: xs)
  case Nil
  then show ?case using assms(2) by simp
next
  case (Cons d ys)
  then show ?case using Cons.IH [of "xs @ [d]"] glinkedD [of "s_dp s" xs d ys] by simp
qed

lemma follows_prefix:
  assumes "glinked (s_dp s) (xs @ zs @ ys)" "zs \<noteq> []"
  shows "follows s (hdO (zs @ ys)) zs"
  using assms
proof (induction zs arbitrary: xs)
  case (Cons d zs)
  have "d_next (s_dp s d) = hdO (zs @ ys)" using glinkedD [of "s_dp s" xs d "zs @ ys"] Cons.prems by simp
  then show ?case using Cons.IH [of "xs @ [d]"] Cons.prems by (cases "zs = []") auto
qed simp

lemma follows_None: "follows s (g_dp (s_par s)) zs \<Longrightarrow> follows s None zs"
  by (cases zs) auto

lemma follows_rotate:
  assumes "groups s (xs @ ys)" "ys \<noteq> []"
  shows "follows s (hdO ys) (ys @ xs)"
proof (rule follows_suffix)
  show "glinked (s_dp s) (xs @ ys)" using assms by (simp add: groups_def)
  have "follows s (hdO (xs @ ys)) xs"
    using assms follows_prefix [of s "[]" xs ys] by (cases "xs = []") (simp_all add: groups_def)
  then show "follows s None xs" using assms follows_None by (simp add: groups_def)
qed

lemma dp_suits_masked:
  "dp_suits s d init mk det data dst =
     (if d_bit (s_dp s d) AND mk = 0 then dp_suits s d init 0 det data dst else Some False)"
  by (simp add: dp_suits_def Let_def)

text \<open>The groups that have not been tried and suit.\<close>

definition wanted :: "(nat \<Rightarrow> dparams) \<Rightarrow> (nat \<Rightarrow> bool) \<Rightarrow> 64 word \<Rightarrow> nat \<Rightarrow> bool" where
  "wanted dps ok mk d \<longleftrightarrow> d_bit (dps d) AND mk = 0 \<and> ok d"

definition skipped :: "(nat \<Rightarrow> dparams) \<Rightarrow> (nat \<Rightarrow> bool) \<Rightarrow> 64 word \<Rightarrow> nat list \<Rightarrow> 64 word" where
  "skipped dps ok mk ds = mk OR gbits dps (takeWhile (\<lambda>d. \<not> wanted dps ok mk d) ds)"

lemma find_skip:
  assumes "\<forall>e\<in>set ds. d_bit (dps d) AND d_bit (dps e) = 0"
  shows "find (wanted dps ok (mk OR d_bit (dps d))) ds = find (wanted dps ok mk) ds"
    "skipped dps ok (mk OR d_bit (dps d)) ds = skipped dps ok mk ds OR d_bit (dps d)"
proof -
  have e: "wanted dps ok (mk OR d_bit (dps d)) e = wanted dps ok mk e" if "e \<in> set ds" for e
    using assms that by (auto simp: wanted_def bit.conj_disj_distrib and.commute)
  show "find (wanted dps ok (mk OR d_bit (dps d))) ds = find (wanted dps ok mk) ds"
    using e by (auto intro: find_cong)
  have "takeWhile (\<lambda>e. \<not> wanted dps ok (mk OR d_bit (dps d)) e) ds = takeWhile (\<lambda>e. \<not> wanted dps ok mk e) ds"
    using e by (auto intro: takeWhile_cong)
  then show "skipped dps ok (mk OR d_bit (dps d)) ds = skipped dps ok mk ds OR d_bit (dps d)"
    by (simp add: skipped_def or.commute or.left_commute or.assoc)
qed

lemma not_wanted_full:
  assumes "gbits dps ds OR m = m" "\<forall>d\<in>set ds. d_bit (dps d) \<noteq> 0"
  shows "find (wanted dps ok m) ds = None" "skipped dps ok m ds = m"
proof -
  have n: "\<not> wanted dps ok m d" if "d \<in> set ds" for d
  proof -
    have "d_bit (dps d) AND m = d_bit (dps d)"
    proof -
      have "d_bit (dps d) AND m = d_bit (dps d) AND (gbits dps ds OR m)" using assms(1) by simp
      also have "\<dots> = d_bit (dps d) OR (d_bit (dps d) AND m)"
        using gbits_sub [OF that, of dps] by (simp add: bit.conj_disj_distrib)
      finally show ?thesis by (simp add: word_ao_absorbs)
    qed
    then show ?thesis using assms(2) that by (simp add: wanted_def)
  qed
  show "find (wanted dps ok m) ds = None" using n by (simp add: find_None_iff)
  have "takeWhile (\<lambda>d. \<not> wanted dps ok m d) ds = ds" using n by simp
  then show "skipped dps ok m ds = m" unfolding skipped_def using assms(1) by (simp only: or.commute)
qed

lemma find_dp_loop_spec:
  assumes "follows s p zs" "mk OR gbits (s_dp s) zs = g_dp_full_mask (s_par s)" "distinct zs"
    "\<forall>d\<in>set zs. d_bit (s_dp s d) \<noteq> 0"
    "\<forall>d\<in>set zs. \<forall>e\<in>set zs. d \<noteq> e \<longrightarrow> d_bit (s_dp s d) AND d_bit (s_dp s e) = 0"
    "\<forall>d\<in>set zs. dp_suits s d init 0 det data dst = Some (ok d)"
  shows "find_dp_loop s det data dst init p mk =
    Some (find (wanted (s_dp s) ok mk) zs, skipped (s_dp s) ok mk zs)"
  using assms
proof (induction zs arbitrary: p mk)
  case Nil
  then show ?case by (simp add: find_dp_loop.simps skipped_def)
next
  case (Cons d zs)
  show ?case
  proof (cases "mk = g_dp_full_mask (s_par s)")
    case True
    then have "gbits (s_dp s) (d # zs) OR mk = mk" using Cons.prems(2) by (simp add: or.commute)
    from not_wanted_full [OF this Cons.prems(4)] True show ?thesis
      by (simp add: find_dp_loop.simps)
  next
    case False
    have p: "(if p = None then g_dp (s_par s) else p) = Some d" using Cons.prems(1) by auto
    have su: "dp_suits s d init mk det data dst = Some (wanted (s_dp s) ok mk d)"
      using Cons.prems(6) by (simp add: dp_suits_masked [of s d init mk] wanted_def)
    show ?thesis
    proof (cases "wanted (s_dp s) ok mk d")
      case True
      then show ?thesis using False p su by (subst find_dp_loop.simps) (simp add: skipped_def)
    next
      case n: False
      have "\<forall>e\<in>set zs. d_bit (s_dp s d) AND d_bit (s_dp s e) = 0" using Cons.prems(3,5) by auto
      note sk = find_skip [OF this]
      have "find_dp_loop s det data dst init (d_next (s_dp s d)) (mk OR d_bit (s_dp s d)) =
          Some (find (wanted (s_dp s) ok (mk OR d_bit (s_dp s d))) zs, skipped (s_dp s) ok (mk OR d_bit (s_dp s d)) zs)"
        by (rule Cons.IH) (use Cons.prems in \<open>auto simp: or.assoc\<close>)
      then show ?thesis using False p su n
        by (subst find_dp_loop.simps) (simp add: sk, simp add: skipped_def or.commute or.left_commute)
    qed
  qed
qed

text \<open>C8: The choice of a group ends, and takes the first group, in the order of the list from the group of
  the connection on and around its end, that was not tried before and whose filters accept the
  request; the groups that are passed over are marked as tried. A group other than the current one
  is only taken if it has no trigger or the trigger that fired.\<close>

theorem find_dp_first:
  assumes g: "groups s (xs @ ys)" and ys: "ys \<noteq> []"
    and c: "v_dp (s_ev s c) = hdO ys \<or> v_dp (s_ev s c) = None \<and> xs = []"
    and mk: "v_dp_mask (s_ev s c) OR g_dp_full_mask (s_par s) = g_dp_full_mask (s_par s)"
    and ok: "\<forall>d\<in>set (xs @ ys). dp_suits s d (v_dp (s_ev s c)) 0 (v_detect (s_ev s c)) (Some data) dst = Some (ok d)"
  shows "find_dp c (Some data) dst s =
    Some (find (wanted (s_dp s) ok (v_dp_mask (s_ev s c))) (ys @ xs),
      upd_ev c (\<lambda>e. e\<lparr>v_dp_mask := skipped (s_dp s) ok (v_dp_mask (s_ev s c)) (ys @ xs)\<rparr>) s)"
proof -
  have "follows s (hdO ys) (ys @ xs)" using follows_rotate [OF g ys] .
  then have f: "follows s (v_dp (s_ev s c)) (ys @ xs)"
    using c g follows_None [of s ys] by (auto simp: groups_def)
  have "find_dp_loop s (v_detect (s_ev s c)) (Some data) dst (v_dp (s_ev s c)) (v_dp (s_ev s c)) (v_dp_mask (s_ev s c)) =
     Some (find (wanted (s_dp s) ok (v_dp_mask (s_ev s c))) (ys @ xs),
       skipped (s_dp s) ok (v_dp_mask (s_ev s c)) (ys @ xs))"
    by (rule find_dp_loop_spec [OF f]) (use g mk ok in \<open>auto simp: groups_def or.commute\<close>)
  then show ?thesis by (simp add: find_dp_def Let_def)
qed

section \<open>The next group after a failure\<close>

definition reacts :: "(nat \<Rightarrow> dparams) \<Rightarrow> int \<Rightarrow> bool \<Rightarrow> nat \<Rightarrow> bool" where
  "reacts dps type can d \<longleftrightarrow>
     (d_detect (dps d) = 0 \<or> has_flag (d_detect (dps d)) type) \<and>
     (\<not> has_flag (d_auto_level (dps d)) AUTO_ONRECONN \<or> can)"

lemma wanted_more:
  assumes "\<forall>e\<in>set ds. d_bit (dps d) AND d_bit (dps e) = 0" "e \<in> set ds"
  shows "wanted dps ok (mk OR d_bit (dps d)) e = wanted dps ok mk e"
  using assms by (auto simp: wanted_def bit.conj_disj_distrib and.commute)

lemma trigger_loop_spec:
  assumes "gseg dps p ys None" "distinct ys"
    "\<forall>d\<in>set ys. \<forall>e\<in>set ys. d \<noteq> e \<longrightarrow> d_bit (dps d) AND d_bit (dps e) = 0"
  shows "\<exists>r vs ws. ys = vs @ ws \<and>
    trigger_loop dps type can (hdO ys) unch mk = Some (r, unch AND NOT (gbits dps vs), mk OR gbits dps vs) \<and>
    (\<forall>d\<in>set vs. \<not> wanted dps (reacts dps type can) mk d) \<and>
    (case r of
       Some n \<Rightarrow> hdO ws = Some n \<and> wanted dps (reacts dps type can) mk n
     | None \<Rightarrow> ws = [] \<or> unch AND NOT (gbits dps vs) = 0 \<and> d_detect (dps (hd ws)) = 0)"
  using assms
proof (induction ys arbitrary: p unch mk)
  case Nil
  then show ?case by (simp add: trigger_loop.simps)
next
  case (Cons d ys)
  let ?w = "wanted dps (reacts dps type can) mk d"
  have nx: "d_next (dps d) = hdO ys" using Cons.prems(1) by auto
  consider "unch = 0 \<and> d_detect (dps d) = 0" | "\<not> (unch = 0 \<and> d_detect (dps d) = 0)" "?w"
    | "\<not> (unch = 0 \<and> d_detect (dps d) = 0)" "\<not> ?w" by blast
  then show ?case
  proof cases
    case 1
    then show ?thesis
      by (intro exI [of _ None] exI [of _ "[]"] exI [of _ "d # ys"]) (simp add: trigger_loop.simps)
  next
    case 2
    then show ?thesis
      by (intro exI [of _ "Some d"] exI [of _ "[]"] exI [of _ "d # ys"])
        (auto simp: trigger_loop.simps wanted_def reacts_def)
  next
    case 3
    have dj: "\<forall>e\<in>set ys. d_bit (dps d) AND d_bit (dps e) = 0" using Cons.prems(2,3) by auto
    have st: "trigger_loop dps type can (hdO (d # ys)) unch mk =
        trigger_loop dps type can (hdO ys) (unch AND NOT (d_bit (dps d))) (mk OR d_bit (dps d))"
      using 3 nx by (subst trigger_loop.simps) (auto simp: wanted_def reacts_def Let_def)
    have pr: "gseg dps (Some d) ys None" "distinct ys"
      "\<forall>d\<in>set ys. \<forall>e\<in>set ys. d \<noteq> e \<longrightarrow> d_bit (dps d) AND d_bit (dps e) = 0"
      using Cons.prems by auto
    from Cons.IH [OF pr, of "unch AND NOT (d_bit (dps d))" "mk OR d_bit (dps d)"]
    obtain r vs ws where ih: "ys = vs @ ws"
      "trigger_loop dps type can (hdO ys) (unch AND NOT (d_bit (dps d))) (mk OR d_bit (dps d)) =
         Some (r, (unch AND NOT (d_bit (dps d))) AND NOT (gbits dps vs), (mk OR d_bit (dps d)) OR gbits dps vs)"
      "\<forall>e\<in>set vs. \<not> wanted dps (reacts dps type can) (mk OR d_bit (dps d)) e"
      "case r of Some n \<Rightarrow> hdO ws = Some n \<and> wanted dps (reacts dps type can) (mk OR d_bit (dps d)) n
        | None \<Rightarrow> ws = [] \<or> (unch AND NOT (d_bit (dps d))) AND NOT (gbits dps vs) = 0 \<and> d_detect (dps (hd ws)) = 0"
      by - (elim exE conjE, rule that)
    have w: "wanted dps (reacts dps type can) (mk OR d_bit (dps d)) e = wanted dps (reacts dps type can) mk e"
      if "e \<in> set ys" for e using wanted_more [OF dj that] .
    have vs: "\<forall>e\<in>set vs. \<not> wanted dps (reacts dps type can) mk e" using ih(1,3) w by auto
    have r: "case r of Some n \<Rightarrow> hdO ws = Some n \<and> wanted dps (reacts dps type can) mk n
        | None \<Rightarrow> ws = [] \<or> (unch AND NOT (d_bit (dps d))) AND NOT (gbits dps vs) = 0 \<and> d_detect (dps (hd ws)) = 0"
      using ih(1,4) w hdO_SomeD [of ws] by (auto split: option.splits)
    show ?thesis
      by (rule exI [of _ r], rule exI [of _ "d # vs"], rule exI [of _ ws], cases r)
        (use ih(1,2) st vs r 3 in \<open>simp_all add: bit.de_Morgan_disj and.assoc or.assoc\<close>)
  qed
qed

section \<open>The exchange of two groups\<close>

lemma gbits_swap: "gbits dps (xs @ n # ys @ c # zs) = gbits dps (xs @ c # ys @ n # zs)"
  by (simp add: or.commute or.left_commute)

lemma gbits_cong: "(\<And>d. d \<in> set ds \<Longrightarrow> d_bit (f d) = d_bit (g d)) \<Longrightarrow> gbits f ds = gbits g ds"
  by (induction ds) auto

lemma upd_dp_simps [simp]:
  "s_dp (upd_dp d f s) = (s_dp s)(d := f (s_dp s d))" "s_par (upd_dp d f s) = s_par s"
  "s_ev (upd_dp d f s) = s_ev s" "s_pool (upd_dp d f s) = s_pool s" "s_trace (upd_dp d f s) = s_trace s"
  by (simp_all add: upd_dp_def)

lemma set_simps [simp]:
  "d_next (s_dp (set_next p x s) u) = (if p = Some u then x else d_next (s_dp s u))"
  "d_prev (s_dp (set_next p x s) u) = d_prev (s_dp s u)"
  "d_prev (s_dp (set_prev p x s) u) = (if p = Some u then x else d_prev (s_dp s u))"
  "d_next (s_dp (set_prev p x s) u) = d_next (s_dp s u)"
  "d_next (s_dp (set_level d i l s) u) = d_next (s_dp s u)"
  "d_prev (s_dp (set_level d i l s) u) = d_prev (s_dp s u)"
  "d_bit (s_dp (set_next p x s) u) = d_bit (s_dp s u)" "d_bit (s_dp (set_prev p x s) u) = d_bit (s_dp s u)"
  "d_bit (s_dp (set_level d i l s) u) = d_bit (s_dp s u)"
  "s_par (set_next p x s) = s_par s" "s_par (set_prev p x s) = s_par s" "s_par (set_level d i l s) = s_par s"
  by (auto simp: set_next_def set_prev_def set_level_def split: option.splits)

lemma swop_links_spec:
  assumes g: "groups s (xs @ c # ys @ n # zs)"
  obtains s' where "swop_links c n s = Some s'"
    "\<And>u. d_next (s_dp s' u) =
       (if u = c then hdO zs else if u = n then hdO (ys @ [c])
        else if lastO xs = Some u then Some n else if lastO ys = Some u then Some c else d_next (s_dp s u))"
    "\<And>u. d_prev (s_dp s' u) =
       (if u = c then lastO (n # ys) else if u = n then lastO xs
        else if hdO ys = Some u then Some n else if hdO zs = Some u then Some c else d_prev (s_dp s u))"
    "\<And>u. d_bit (s_dp s' u) = d_bit (s_dp s u)" "s_par s' = s_par s"
proof -
  have d: "distinct (xs @ c # ys @ n # zs)" and
    c: "d_prev (s_dp s c) = lastO xs" "d_next (s_dp s c) = hdO (ys @ n # zs)" and
    n: "d_prev (s_dp s n) = lastO (xs @ c # ys)" "d_next (s_dp s n) = hdO zs"
    using g glinkedD [of "s_dp s" xs c "ys @ n # zs"] glinkedD [of "s_dp s" "xs @ c # ys" n zs]
    by (auto simp: groups_def)
  have x: "lastO xs \<noteq> Some c" "lastO xs \<noteq> Some n" "hdO zs \<noteq> Some c" "hdO zs \<noteq> Some n"
    using d by (auto dest!: lastO_SomeD hdO_SomeD)
  have cn: "c \<noteq> n" "n \<noteq> c" using d by auto
  show thesis
  proof (cases "ys = []")
    case True
    show thesis
      by (rule that [OF swop_links_def [of c n s, unfolded swop_outer_def Let_def c n, simplified True x cn, simplified]])
        (use True c n x cn in auto)
  next
    case False
    then obtain y y' where y: "hdO ys = Some y" "lastO ys = Some y'"
      by (metis hdO_None lastO_None not_None_eq)
    have yn: "y \<noteq> c" "y \<noteq> n" "y' \<noteq> c" "y' \<noteq> n" "hdO zs \<noteq> Some y" "lastO xs \<noteq> Some y'"
      using d y by (auto dest!: lastO_SomeD hdO_SomeD)
    have h: "hdO (ys @ us) = Some y" "lastO (xs @ c # ys) = Some y'" for us
      using y False by (auto simp: hdO_append lastO_append lastO_Cons lastO_def)
    have cn': "d_next (s_dp s c) = Some y" "d_prev (s_dp s n) = Some y'" using c n h by auto
    have eq: "swop_links c n s =
        Some (set_next (Some y') (Some c) (set_prev (Some y) (Some n) (set_prev (hdO zs) (Some c)
          (set_next (lastO xs) (Some n) (set_next (Some n) (Some y) (set_prev (Some n) (lastO xs)
          (set_prev (Some c) (Some y') (set_next (Some c) (hdO zs) s))))))))"
      using x cn yn by (simp add: swop_links_def swop_outer_def Let_def c(1) n(2) cn')
    show thesis
      by (rule that [OF eq]) (use x cn yn y h in \<open>auto simp: lastO_Cons lastO_def\<close>)
  qed
qed

lemma gseg_bits: "\<lbrakk> \<And>u. d_prev (f u) = d_prev (g u); \<And>u. d_next (f u) = d_next (g u) \<rbrakk> \<Longrightarrow> gseg f p xs q = gseg g p xs q"
  by (induction xs arbitrary: p) auto

lemma swop_groups_spec:
  assumes g: "groups s (xs @ c # ys @ n # zs)"
  shows "\<exists>s'. swop_groups c n s = Some s' \<and> groups s' (xs @ n # ys @ c # zs)"
proof -
  let ?ds = "xs @ c # ys @ n # zs" and ?es = "xs @ n # ys @ c # zs"
  obtain s1 where s1: "swop_links c n s = Some s1" and
    nx: "\<And>u. d_next (s_dp s1 u) =
       (if u = c then hdO zs else if u = n then hdO (ys @ [c])
        else if lastO xs = Some u then Some n else if lastO ys = Some u then Some c else d_next (s_dp s u))" and
    pv: "\<And>u. d_prev (s_dp s1 u) =
       (if u = c then lastO (n # ys) else if u = n then lastO xs
        else if hdO ys = Some u then Some n else if hdO zs = Some u then Some c else d_prev (s_dp s u))" and
    b: "\<And>u. d_bit (s_dp s1 u) = d_bit (s_dp s u)" and pr: "s_par s1 = s_par s"
    using swop_links_spec [OF g] by blast
  obtain s' where s': "swop_groups c n s = Some s'" and
    f: "\<And>u. d_next (s_dp s' u) = d_next (s_dp s1 u)" "\<And>u. d_prev (s_dp s' u) = d_prev (s_dp s1 u)"
       "\<And>u. d_bit (s_dp s' u) = d_bit (s_dp s u)" and
    p': "g_dp (s_par s') = (if g_dp (s_par s) = Some c then Some n else g_dp (s_par s))"
      "g_dp_full_mask (s_par s') = g_dp_full_mask (s_par s)"
    by (rule that [OF swop_groups_def [of c n s, unfolded Let_def s1, simplified]]) (auto simp: b pr)
  have d: "distinct ?ds" and gl: "gseg (s_dp s) None ?ds None" using g by (auto simp: groups_def glinked_def)
  have seg: "gseg (s_dp s) None xs (Some c)" "gseg (s_dp s) (Some c) ys (Some n)" "gseg (s_dp s) (Some n) zs None"
    using gl by (auto simp: gseg_append lastO_def split: if_splits)
  note in_ends = lastO_SomeD [of xs] lastO_SomeD [of ys] hdO_SomeD [of ys] hdO_SomeD [of zs]
  note ends = gseg_ends [OF seg(1)] gseg_ends [OF seg(3)]
  have "gseg (s_dp s') None xs (Some n)"
    by (rule gseg_relink [OF seg(1)]) (use d in_ends ends in \<open>auto simp: f nx pv\<close>)
  moreover have "gseg (s_dp s') (Some n) ys (Some c)"
    by (rule gseg_relink [OF seg(2)]) (use d in_ends in \<open>auto simp: f nx pv\<close>)
  moreover have "gseg (s_dp s') (Some c) zs None"
    by (rule gseg_relink [OF seg(3)]) (use d in_ends ends in \<open>auto simp: f nx pv\<close>)
  ultimately have "gseg (s_dp s') None ?es None"
    using d by (auto simp: gseg_append f nx pv lastO_Cons lastO_def hdO_append)
  moreover have "gbits (s_dp s') ?es = gbits (s_dp s) ?ds"
    using f(3) by (simp add: gbits_cong [of _ "s_dp s'" "s_dp s"] or.commute or.left_commute)
  moreover have "g_dp (s_par s') = hdO ?es"
    using g d p' by (cases xs) (auto simp: groups_def)
  ultimately have "groups s' ?es" using g f p' by (auto simp: groups_def glinked_def)
  then show ?thesis using s' by blast
qed

text \<open>C9: After a failure, the search for the next group ends; the group it finds was not tried before
  by this connection, and reacts to this failure. If the failed group was passed on the way, it is
  before the new one in the list, and then \<open>swop_groups\<close> exchanges exactly these two: the list
  stays well linked in both directions, with every group in it once.\<close>

theorem trigger_then_swop:
  assumes g: "groups s ds" and c: "c \<in> set ds" "d_bit (s_dp s c) AND mk = d_bit (s_dp s c)"
  shows "\<exists>r unch mk'. trigger_loop (s_dp s) type can (g_dp (s_par s)) mk mk = Some (r, unch, mk') \<and>
    (case r of
       None \<Rightarrow> True
     | Some n \<Rightarrow>
         n \<in> set ds \<and> d_bit (s_dp s n) AND mk = 0 \<and> reacts (s_dp s) type can n \<and>
         (d_bit (s_dp s c) AND unch = 0 \<longrightarrow>
            (\<exists>xs ys zs s'. ds = xs @ c # ys @ n # zs \<and> swop_groups c n s = Some s' \<and>
               groups s' (xs @ n # ys @ c # zs))))"
proof -
  have gl: "gseg (s_dp s) None ds None" "distinct ds" "g_dp (s_par s) = hdO ds"
    "\<forall>d\<in>set ds. \<forall>e\<in>set ds. d \<noteq> e \<longrightarrow> d_bit (s_dp s d) AND d_bit (s_dp s e) = 0"
    "\<forall>d\<in>set ds. d_bit (s_dp s d) \<noteq> 0"
    using g by (auto simp: groups_def glinked_def)
  from trigger_loop_spec [OF gl(1,2,4), of type can mk mk]
  obtain r vs ws where r: "ds = vs @ ws"
    "trigger_loop (s_dp s) type can (hdO ds) mk mk =
       Some (r, mk AND NOT (gbits (s_dp s) vs), mk OR gbits (s_dp s) vs)"
    "case r of
       Some n \<Rightarrow> hdO ws = Some n \<and> wanted (s_dp s) (reacts (s_dp s) type can) mk n
     | None \<Rightarrow> ws = [] \<or> mk AND NOT (gbits (s_dp s) vs) = 0 \<and> d_detect (s_dp s (hd ws)) = 0"
    by - (elim exE conjE, rule that)
  have main: "\<exists>xs ys zs s'. ds = xs @ c # ys @ n # zs \<and> swop_groups c n s = Some s' \<and> groups s' (xs @ n # ys @ c # zs)"
    if n: "r = Some n" and u: "d_bit (s_dp s c) AND (mk AND NOT (gbits (s_dp s) vs)) = 0" for n
  proof -
    have w: "ws = n # tl ws" "d_bit (s_dp s n) AND mk = 0" using r(3) n by (cases ws; auto simp: wanted_def)+
    have "c \<in> set vs"
    proof (rule ccontr)
      assume "c \<notin> set vs"
      then have "\<forall>e\<in>set vs. d_bit (s_dp s c) AND d_bit (s_dp s e) = 0" using gl(4) c(1) r(1) by (metis UnCI set_append)
      then have "d_bit (s_dp s c) AND gbits (s_dp s) vs = 0" by (rule gbits_disjoint)
      then have "d_bit (s_dp s c) AND NOT (gbits (s_dp s) vs) = d_bit (s_dp s c)" by (rule and_not_self)
      then show False using u c gl(5) by (simp flip: and.assoc)
    qed
    then obtain xs ys where "vs = xs @ c # ys" by (auto dest: split_list)
    then have "ds = xs @ c # ys @ n # tl ws" using r(1) w(1) by (metis append_Cons append_assoc)
    then show ?thesis using swop_groups_spec g by blast
  qed
  show ?thesis
    by (rule exI [of _ r], intro exI) (use r main gl(3) in \<open>auto simp: wanted_def split: option.splits dest: hdO_SomeD\<close>)
qed

section \<open>Examples\<close>

text \<open>Three groups: one for TLS, one for HTTP that wants a reset, one for everything.\<close>

definition group_ex :: "nat \<Rightarrow> dparams" where
  "group_ex d =
     (if d = 0 then dp0\<lparr>d_bit := 1, d_proto := IS_HTTPS, d_next := Some 1\<rparr>
      else if d = 1 then dp0\<lparr>d_bit := 2, d_detect := DETECT_TORST, d_auto_level := AUTO_SORT, d_prev := Some 0, d_next := Some 2\<rparr>
      else dp0\<lparr>d_bit := 4, d_prev := Some 1\<rparr>)"

definition groups_ex :: st where
  "groups_ex = (st0 (\<lambda>_. res0))\<lparr>s_dp := group_ex, s_par := par0\<lparr>g_dp := Some 0, g_dp_full_mask := 7\<rparr>\<rparr>"

lemma groups_ex: "groups groups_ex [0, 1, 2]"
  by (simp add: groups_def groups_ex_def st0_def group_ex_def dp0_def glinked_def gbits_def)

lemmas group_evals = groups_ex_def st0_def group_ex_def dp0_def par0_def eval0_def addr0_def dp_suits_def check_l34_def
  has_flag_def IS_UDP_def IS_TCP_def IS_IPV4_def IS_HTTP_def IS_HTTPS_def AF_INET_def DETECT_TORST_def

theorem find_dp_first_witness:
  "find_dp 5 (Some (str ''GET /'', 5)) addr0 groups_ex =
     Some (Some 2, upd_ev 5 (\<lambda>e. e\<lparr>v_dp_mask := 3\<rparr>) groups_ex)"
proof -
  have e: "v_dp (s_ev groups_ex 5) = None" "v_dp_mask (s_ev groups_ex 5) = 0" "v_detect (s_ev groups_ex 5) = 0"
    "g_dp_full_mask (s_par groups_ex) = 7" by (simp_all add: group_evals)
  have ok: "\<forall>d\<in>set ([] @ [0, 1, 2]). dp_suits groups_ex d None 0 0 (Some (str ''GET /'', 5)) addr0 = Some (d = 2)"
    by (simp add: group_evals Let_def check_proto_tcp_def is_tls_chello_def)
  have f: "find (wanted (s_dp groups_ex) (\<lambda>d. d = 2) 0) [0, 1, 2] = Some 2"
    "skipped (s_dp groups_ex) (\<lambda>d. d = 2) 0 [0, 1, 2] = 3"
    by (simp_all add: wanted_def skipped_def group_evals)
  show ?thesis
    using find_dp_first [of groups_ex "[]" "[0, 1, 2]" 5 "(str ''GET /'', 5)" addr0 "\<lambda>d. d = 2"] groups_ex ok f
    by (simp add: e)
qed

theorem trigger_then_swop_witness:
  "\<exists>r unch mk. trigger_loop (s_dp groups_ex) DETECT_TORST True (Some 0) 1 1 = Some (r, unch, mk) \<and>
     (case r of None \<Rightarrow> True
      | Some n \<Rightarrow> d_bit (s_dp groups_ex n) AND 1 = 0 \<and>
          (1 AND unch = 0 \<longrightarrow> (\<exists>s'. swop_groups 0 n groups_ex = Some s')))"
proof -
  have e: "g_dp (s_par groups_ex) = Some 0" "d_bit (s_dp groups_ex 0) = 1" by (simp_all add: group_evals)
  have m: "0 \<in> set [0, 1, 2 :: nat]" "d_bit (s_dp groups_ex 0) AND 1 = d_bit (s_dp groups_ex 0)" by (simp_all add: e)
  from trigger_then_swop [OF groups_ex m, of DETECT_TORST True, unfolded e]
  obtain r unch mk where "trigger_loop (s_dp groups_ex) DETECT_TORST True (Some 0) 1 1 = Some (r, unch, mk)"
    "case r of None \<Rightarrow> True
      | Some n \<Rightarrow> n \<in> set [0, 1, 2] \<and> d_bit (s_dp groups_ex n) AND 1 = 0 \<and>
          reacts (s_dp groups_ex) DETECT_TORST True n \<and>
          (1 AND unch = 0 \<longrightarrow> (\<exists>xs ys zs s'. [0, 1, 2] = xs @ 0 # ys @ n # zs \<and>
             swop_groups 0 n groups_ex = Some s' \<and> groups s' (xs @ n # ys @ 0 # zs)))"
    by - (elim exE conjE, rule that)
  then show ?thesis
    by - (rule exI [of _ r], rule exI [of _ unch], rule exI [of _ mk], cases r; auto)
qed

end
