(* ===== verification/RecordTimer.thy ===== *)
theory RecordTimer
  imports Hooks
begin

text \<open>
  \<open>try_set_tls_timer\<close>, which follows the TLS records of a server so that a timer runs exactly while a
  record is incomplete. The loop of the code takes records in blocks; it is equal to an automaton
  that takes one byte at a time, so that it does not matter how the stream is cut into reads.
\<close>

section \<open>One byte at a time\<close>

text \<open>The header so far, the position in the record, its size (0 while the header is incomplete).\<close>

type_synonym rec_state = "buf \<times> int \<times> int"

definition rec_len :: "buf \<Rightarrow> int" where
  "rec_len h = uint (h ! 3) * 256 + uint (h ! 4) + 5"

lemma rec_len_ge: "rec_len h \<ge> 5"
  by (simp add: rec_len_def)

lemma bind_Some_map: "m \<bind> (\<lambda>s. Some (f s)) = map_option f m"
  by (cases m) auto

definition rec_ok :: "buf \<Rightarrow> bool" where
  "rec_ok h \<longleftrightarrow> 0x14 \<le> uint (h ! 0) \<and> uint (h ! 0) \<le> 0x18"

fun rec_step :: "rec_state \<Rightarrow> byte \<Rightarrow> bool \<times> rec_state" where
  "rec_step (h, p, z) x =
     (if p < 5 then (True, h[nat p := x], p + 1, z)
      else if p = 5 then
        (if rec_ok h \<and> rec_len h \<noteq> 5 then (True, h, 6, rec_len h) else (False, h, 5, rec_len h))
      else if p = z then (True, h[0 := x], 1, 0)
      else if p < z then (True, h, p + 1, z)
      else (False, h, p, z))"

fun feed :: "rec_state \<Rightarrow> byte list \<Rightarrow> bool \<times> rec_state" where
  "feed st [] = (True, st)"
| "feed st (x # xs) = (case rec_step st x of (ok, st) \<Rightarrow> if ok then feed st xs else (False, st))"

lemma feed_append:
  "feed st (xs @ ys) = (case feed st xs of (ok, st) \<Rightarrow> if ok then feed st ys else (False, st))"
  by (induction xs arbitrary: st) (auto split: prod.splits)

lemma feed_inside:
  "\<lbrakk> 5 < p; p + int (length xs) \<le> z \<rbrakk> \<Longrightarrow> feed (h, p, z) xs = (True, h, p + int (length xs), z)"
  by (induction xs arbitrary: p) auto

lemma feed_body:
  assumes "rec_ok h" "rec_len h \<noteq> 5" "xs \<noteq> []" "5 + int (length xs) \<le> rec_len h"
  shows "feed (h, 5, z) xs = (True, h, 5 + int (length xs), rec_len h)"
  using assms feed_inside [of 6 "tl xs" "rec_len h" h] by (cases xs) auto

lemma feed_length: "feed (h, p, z) xs = (ok, h', p', z') \<Longrightarrow> length h' = length h"
  by (induction xs arbitrary: h p z) (auto split: if_splits)

section \<open>The loop of the code\<close>

lemma drop_Cons: "\<lbrakk> 0 \<le> i; i < int (length b) \<rbrakk> \<Longrightarrow> drop (nat i) b = b ! nat i # drop (nat (i + 1)) b"
  by (simp add: Cons_nth_drop_Suc nat_add_distrib)

definition rest :: "buf \<Rightarrow> int \<Rightarrow> int \<Rightarrow> byte list" where
  "rest b n i = take (nat (n - i)) (drop (nat i) b)"

lemma rest_Cons: "\<lbrakk> 0 \<le> i; i < n; n \<le> int (length b) \<rbrakk> \<Longrightarrow> rest b n i = b ! nat i # rest b n (i + 1)"
proof -
  assume a: "0 \<le> i" "i < n" "n \<le> int (length b)"
  then have "nat (n - i) = Suc (nat (n - (i + 1)))" by linarith
  then show ?thesis using a by (simp add: rest_def drop_Cons)
qed

lemma rest_Nil [simp]: "n \<le> i \<Longrightarrow> rest b n i = []"
  by (simp add: rest_def)

lemma rest_split:
  assumes "0 \<le> i" "0 \<le> k" "i + k \<le> n"
  shows "rest b n i = rest b (i + k) i @ rest b n (i + k)"
proof -
  have "nat (n - i) = nat k + nat (n - (i + k))" "nat (i + k) = nat k + nat i" using assms by auto
  then show ?thesis by (simp add: rest_def take_add)
qed

lemma length_rest: "\<lbrakk> 0 \<le> i; i \<le> n; n \<le> int (length b) \<rbrakk> \<Longrightarrow> int (length (rest b n i)) = n - i"
  by (simp add: rest_def)

definition as_loop :: "bool \<times> rec_state \<Rightarrow> (bool \<times> buf \<times> int \<times> int) option" where
  "as_loop r = (case r of (ok, h, p, z) \<Rightarrow> Some (ok, h, p, z))"

text \<open>A block of the body of a record is as good as its bytes.\<close>

lemma feed_block:
  assumes "5 \<le> p" "p = 5 \<longrightarrow> rec_ok h \<and> z' = rec_len h \<and> z' \<noteq> 5" "p \<noteq> 5 \<longrightarrow> z' = z" "p + int (length xs) \<le> z'" "xs \<noteq> []"
  shows "feed (h, p, z) xs = (True, h, p + int (length xs), z')"
  using assms feed_body [of h xs z] feed_inside [of p xs z h] by (cases "p = 5") auto

lemma tls_timer_loop_feed:
  assumes "length h = 5" "0 \<le> p" "0 \<le> i" "i < n" "n \<le> int (length b)"
  shows "tls_timer_loop b n h p z i = as_loop (feed (h, p, z) (rest b n i))"
  using assms
proof (induction "2 * nat (n - i) + (if p > 5 \<and> p = z then 1 else 0)" arbitrary: h p z i rule: less_induct)
  case less
  note hd = rest_Cons [OF less.prems(3,4,5)]
  consider "p < 5" | "p > 5" "p = z" | "p = 5 \<or> p > 5 \<and> p \<noteq> z" by linarith
  then show ?case
  proof cases
    case 1
    have w: "rd b i = Some (b ! nat i)" "wr h p (b ! nat i) = Some (h[nat p := b ! nat i])"
      using less.prems 1 by (auto simp: wr_def)
    show ?thesis
    proof (cases "i + 1 < n")
      case True
      have "tls_timer_loop b n (h[nat p := b ! nat i]) (p + 1) z (i + 1) =
          as_loop (feed (h[nat p := b ! nat i], p + 1, z) (rest b n (i + 1)))"
        by (rule less.hyps) (use less.prems True in auto)
      then show ?thesis using 1 w True hd by (subst tls_timer_loop.simps) simp
    next
      case False
      then show ?thesis using 1 w hd by (subst tls_timer_loop.simps) (simp add: as_loop_def)
    qed
  next
    case 2
    have "tls_timer_loop b n h 0 0 i = as_loop (feed (h, 0, 0) (rest b n i))"
      by (rule less.hyps) (use less.prems 2 in auto)
    then show ?thesis using 2 less.prems hd by (subst tls_timer_loop.simps) simp
  next
    case 3
    define z' where "z' = (if p = 5 then rec_len h else z)"
    have sz: "rd16 h 3 = Some (rec_len h - 5)" and t: "rd h 0 = Some (h ! 0)"
      using less.prems by (simp_all add: rec_len_def rd16_Some)
    define e where "e = (if i + (z' - p) > n then n - i else z' - p)"
    have it: "tls_timer_loop b n h p z i =
        (if p = 5 \<and> \<not> rec_ok h \<or> z' - p \<le> 0 then Some (False, h, p, z')
         else if i + e < n then tls_timer_loop b n h (p + e) z' (i + e) else Some (True, h, p + e, z'))"
      using 3 by (subst tls_timer_loop.simps)
        (cases "p = 5"; simp add: sz t z'_def e_def rec_ok_def Let_def not_le)
    have st: "rec_step (h, p, z) x = (False, h, p, z')" if "p = 5 \<and> \<not> rec_ok h \<or> z' - p \<le> 0" for x
      using that 3 rec_len_ge [of h] by (cases "p = 5") (auto simp: z'_def)
    consider "p = 5 \<and> \<not> rec_ok h \<or> z' - p \<le> 0" | "p = 5 \<longrightarrow> rec_ok h" "z' - p > 0" by linarith
    then show ?thesis
    proof cases
      case 1
      then show ?thesis using it st [OF 1] hd by (simp del: rec_step.simps add: as_loop_def)
    next
      case ok: 2
      have e: "0 < e" "i + e \<le> n" "p + e \<le> z'" using ok less.prems by (auto simp: e_def)
      define xs where "xs = rest b (i + e) i"
      have xs: "int (length xs) = e" using length_rest [of i "i + e" b] e less.prems by (simp add: xs_def)
      have sp: "rest b n i = xs @ rest b n (i + e)"
        unfolding xs_def using rest_split [of i e n b] e less.prems by simp
      have f: "feed (h, p, z) xs = (True, h, p + int (length xs), z')"
        by (rule feed_block) (use 3 ok e xs in \<open>auto simp: z'_def\<close>)
      have it: "tls_timer_loop b n h p z i =
          (if i + e < n then tls_timer_loop b n h (p + e) z' (i + e) else Some (True, h, p + e, z'))"
        using it ok by auto
      show ?thesis
      proof (cases "i + e < n")
        case True
        have "tls_timer_loop b n h (p + e) z' (i + e) = as_loop (feed (h, p + e, z') (rest b n (i + e)))"
          by (rule less.hyps) (use less.prems True e 3 in auto)
        then show ?thesis using it True f sp xs by (simp add: feed_append)
      next
        case False
        then show ?thesis using it f sp xs by (simp add: feed_append as_loop_def)
      qed
    qed
  qed
qed

section \<open>Records\<close>

text \<open>A record: a known type, the version, the length of its body, which is not empty, and the body.\<close>

definition record_bytes :: "byte list \<Rightarrow> bool" where
  "record_bytes r \<longleftrightarrow>
     length r > 5 \<and> 0x14 \<le> uint (r ! 0) \<and> uint (r ! 0) \<le> 0x18 \<and>
     int (length r) = uint (r ! 3) * 256 + uint (r ! 4) + 5"

text \<open>Between two records.\<close>

definition between :: "rec_state \<Rightarrow> bool" where
  "between st = (case st of (h, p, z) \<Rightarrow> length h = 5 \<and> p = z \<and> (p = 0 \<or> p > 5))"

lemma feed_prefix:
  assumes "between st" "record_bytes r" "0 < m" "m \<le> length r"
  shows "\<exists>h. feed st (take m r) = (True, h, int m, if m \<le> 5 then 0 else int (length r)) \<and>
    length h = 5 \<and> (\<forall>i < min m 5. h ! i = r ! i)"
  using assms(3,4)
proof (induction m)
  case (Suc m)
  obtain h0 p0 where st: "st = (h0, p0, p0)" "length h0 = 5" "p0 = 0 \<or> p0 > 5"
    using assms(1) by (cases st) (auto simp: between_def)
  have tk: "take (Suc m) r = take m r @ [r ! m]" using Suc.prems by (simp add: take_Suc_conv_app_nth)
  show ?case
  proof (cases "m = 0")
    case True
    have "r = r ! 0 # tl r" using assms(2) by (cases r) (auto simp: record_bytes_def)
    then have t: "take (Suc m) r = [r ! 0]" using True by (cases r) auto
    show ?thesis unfolding t
      by (rule exI [of _ "h0[0 := r ! 0]"]) (use st True in auto)
  next
    case False
    then obtain h where h: "feed st (take m r) = (True, h, int m, if m \<le> 5 then 0 else int (length r))"
      "length h = 5" "\<forall>i < min m 5. h ! i = r ! i" using Suc by auto
    have f: "feed st (take (Suc m) r) = (case rec_step (h, int m, if m \<le> 5 then 0 else int (length r)) (r ! m) of (ok, st) \<Rightarrow>
        if ok then (True, st) else (False, st))"
      by (simp add: tk feed_append h(1) split: prod.splits del: rec_step.simps)
    consider "m < 5" | "m = 5" | "m > 5" by linarith
    then show ?thesis
    proof cases
      case 1
      then show ?thesis using f h
        by (intro exI [of _ "h[m := r ! m]"]) (auto simp: nth_list_update less_Suc_eq)
    next
      case 2
      then have "rec_ok h" "rec_len h = int (length r)" "rec_len h \<noteq> 5"
        using h assms(2) by (auto simp: rec_ok_def rec_len_def record_bytes_def)
      then show ?thesis using f h 2 by (intro exI [of _ h]) auto
    next
      case 3
      then show ?thesis using f h Suc.prems by (intro exI [of _ h]) auto
    qed
  qed
qed simp

lemma feed_record:
  assumes "between st" "record_bytes r"
  shows "\<exists>st'. feed st r = (True, st') \<and> between st'"
proof -
  have "length r > 5" "0 < length r" using assms(2) by (auto simp: record_bytes_def)
  then show ?thesis
    using feed_prefix [OF assms, of "length r"] by (cases "length r \<le> 5") (auto simp: between_def)
qed

lemma feed_records:
  "\<lbrakk> between st; \<forall>r\<in>set rs. record_bytes r \<rbrakk> \<Longrightarrow> \<exists>st'. feed st (concat rs) = (True, st') \<and> between st'"
proof (induction rs arbitrary: st)
  case (Cons r rs)
  then obtain st1 where "feed st r = (True, st1)" "between st1" using feed_record [of st r] by auto
  then show ?case using Cons by (simp add: feed_append)
qed simp


text \<open>A whole record and the first three bytes of the next one.\<close>

definition rec_ex :: "byte list" where
  "rec_ex = [0x17, 3, 3, 0, 2, 9, 9]"

definition rec_st :: st where
  "rec_st = (st0 (\<lambda>_. res0))\<lparr>s_par := par0\<lparr>g_ptimeout := 100\<rparr>\<rparr>"


end
