(* ===== verification/SocksSpec.thy ===== *)
theory SocksSpec
  imports Proxy
begin

text \<open>
  The SOCKS5 addresses of \<open>src/proxy.c\<close>: when the parser has a defined result, and that a client
  reads back from the header of a datagram the address that the server wrote into it.
\<close>

section \<open>The parser\<close>

lemma resolve_cases:
  "resolve h a ty s = (r, a', s') \<Longrightarrow> r = 0 \<or> r = - 1 \<and> a' = a"
  by (auto simp: resolve_def Let_def sys_def split: if_splits)

lemmas atps = S_ATP_I4_def S_ATP_ID_def S_ATP_I6_def

lemma s5_dst_defined:
  assumes "atp = S_ATP_I4 \<or> atp = S_ATP_ID \<or> atp = S_ATP_I6" "s5_req_len b off atp = Some len"
    "0 \<le> off + 3" "off + n \<le> int (length b)" "len \<le> n" "8 \<le> n"
  shows "\<exists>e a' s'. s5_dst b off atp addr type s = Some (e, a', s') \<and> (e = 0 \<or> e = - S_ER_ATP \<or> e = - S_ER_HOST)"
proof -
  have rd: "rd b (off + 4) = Some (b ! nat (off + 4))" using assms by simp
  consider "atp = S_ATP_I4" | "atp = S_ATP_ID" | "atp = S_ATP_I6" using assms(1) by blast
  then show ?thesis
  proof cases
    case 1
    then show ?thesis using assms by (auto simp: s5_dst_def s5_req_len_def S_SIZE_I4_def rdn_def)
  next
    case 2
    then have l: "uint (b ! nat (off + 4)) + S_SIZE_ID = len"
      using assms(2) rd by (simp add: s5_req_len_def S_ATP_I4_def S_ATP_ID_def)
    then have "\<exists>h. rdn b (off + 5) (uint (b ! nat (off + 4))) = Some h"
      using assms by (auto simp: rdn_def S_SIZE_ID_def)
    then obtain h where "rdn b (off + 5) (uint (b ! nat (off + 4))) = Some h" ..
    then show ?thesis using 2 rd resolve_cases
      by (cases "resolve h addr type s") (auto simp: s5_dst_def S_ATP_I4_def S_ATP_ID_def Let_def)
  next
    case 3
    then show ?thesis using assms
      by (auto simp: s5_dst_def s5_req_len_def S_ATP_I4_def S_ATP_ID_def S_ATP_I6_def S_SIZE_I6_def rdn_def)
  qed
qed

text \<open>C19: A SOCKS5 request of any contents is parsed inside of the bytes that were received, with a result that
  is an error code or the length of the address, except in one case: with an unknown type of address
  the length is taken for 0 and the port is read from before the buffer, so that the code has no
  defined result. This holds for the three callers: requests and datagrams (offset 0) and
  Shadowsocks (offset -3, which adds the bytes that its header leaves out).\<close>

theorem s5_get_addr_defined:
  assumes "- 3 \<le> off" "off \<le> 0" "off + n \<le> int (length b)"
  shows "case s5_get_addr b off n addr type s of
      None \<Rightarrow> 8 \<le> n \<and> b ! nat (off + 3) \<notin> {S_ATP_I4, S_ATP_ID, S_ATP_I6}
    | Some (r, addr', s') \<Rightarrow> (n < 8 \<or> b ! nat (off + 3) \<in> {S_ATP_I4, S_ATP_ID, S_ATP_I6}) \<and>
        (r \<in> {- S_ER_GEN, - S_ER_ATP, - S_ER_HOST} \<or> 7 \<le> r \<and> r \<le> n)"
proof (cases "n < 8")
  case True
  then show ?thesis by (simp add: s5_get_addr_def S_SIZE_MIN_def)
next
  case n: False
  let ?t = "b ! nat (off + 3)"
  have t: "rd b (off + 3) = Some ?t" using assms n by simp
  show ?thesis
  proof (cases "?t = S_ATP_I4 \<or> ?t = S_ATP_ID \<or> ?t = S_ATP_I6")
    case False
    then have "s5_req_len b off ?t = Some 0" "s5_dst b off ?t addr type s = Some (0, addr, s)"
      by (simp_all add: s5_req_len_def s5_dst_def)
    then show ?thesis using n t False assms
      by (simp add: s5_get_addr_def S_SIZE_MIN_def rd16_def antohs_def rd_def)
  next
    case known: True
    have "rd b (off + 4) = Some (b ! nat (off + 4))" using assms n by simp
    then obtain len where len: "s5_req_len b off ?t = Some len" "7 \<le> len"
      using known by (auto simp: s5_req_len_def S_SIZE_I4_def S_SIZE_ID_def S_SIZE_I6_def atps)
    show ?thesis
    proof (cases "n < len")
      case True
      then show ?thesis using n t len known by (auto simp: s5_get_addr_def S_SIZE_MIN_def)
    next
      case False
      obtain e a' s' where d: "s5_dst b off ?t addr type s = Some (e, a', s')"
        "e = 0 \<or> e = - S_ER_ATP \<or> e = - S_ER_HOST"
        using s5_dst_defined [OF known len(1) _ _ _ _, of n addr type s] assms False n by auto
      have "\<exists>v. rd16 b (off + len - 2) = Some v" using rd16_safe [of "off + len - 2" b] assms len False n by auto
      then show ?thesis using n t len known d False
        by (auto simp: s5_get_addr_def S_SIZE_MIN_def S_ER_ATP_def S_ER_HOST_def)
    qed
  qed
qed

text \<open>A request to connect to 1.2.3.4, port 80, and one with the type of address 0.\<close>

theorem s5_get_addr_defined_witness:
  "s5_get_addr [5, 1, 0, 1, 1, 2, 3, 4, 0, 80] 0 10 addr0 1 (st0 (\<lambda>_. res0)) \<noteq> None \<and>
   s5_get_addr [5, 1, 0, 0, 1, 2, 3, 4, 0, 80] 0 10 addr0 1 (st0 (\<lambda>_. res0)) = None"
  using s5_get_addr_defined [of 0 10 "[5, 1, 0, 1, 1, 2, 3, 4, 0, 80]" addr0 1 "st0 (\<lambda>_. res0)"]
    s5_get_addr_defined [of 0 10 "[5, 1, 0, 0, 1, 2, 3, 4, 0, 80]" addr0 1 "st0 (\<lambda>_. res0)"]
  by (auto simp: S_ATP_I4_def S_ATP_ID_def S_ATP_I6_def split: option.splits)

section \<open>The header of a datagram\<close>

definition wellformed_addr :: "sockaddr \<Rightarrow> bool" where
  "wellformed_addr a \<longleftrightarrow> (sa_family a = AF_INET \<or> sa_family a = AF_INET6) \<and>
     length (sa_ip4 a) = 4 \<and> length (sa_ip6 a) = 16 \<and> 0 \<le> sa_port a \<and> sa_port a < 65536"

lemma map_fix_wellformed: "wellformed_addr a \<Longrightarrow> wellformed_addr (map_fix a f)"
  by (auto simp: wellformed_addr_def map_fix_def v4_prefix_def)

text \<open>The bytes of the header: RSV and FRAG, the type, the address and the port.\<close>

definition s5_header :: "sockaddr \<Rightarrow> byte list" where
  "s5_header a = [0, 0, 0] @
     (if sa_family a = AF_INET then S_ATP_I4 # sa_ip4 a else S_ATP_I6 # sa_ip6 a) @ be16 (sa_port a)"

lemma length_s5_header:
  "wellformed_addr a \<Longrightarrow> length (s5_header a) = (if sa_family a = AF_INET then 10 else 22)"
  by (simp add: s5_header_def wellformed_addr_def)

lemma s5_set_addr_header:
  assumes "wellformed_addr a" "d = replicate 22 0 @ q"
  shows "s5_set_addr d 22 22 a True =
    Some (int (length (s5_header a)), replicate (22 - length (s5_header a)) 0 @ s5_header a @ q)"
proof (cases "sa_family a = AF_INET")
  case True
  have "d = replicate 15 0 @ [0] @ replicate 6 0 @ q" by (simp add: assms(2) numeral_eq_Suc)
  then have "wr d 15 S_ATP_I4 = Some (replicate 15 0 @ [S_ATP_I4] @ replicate 6 0 @ q)"
    by (simp add: wr_def list_update_append)
  moreover have "wrn (replicate 15 0 @ [S_ATP_I4] @ replicate 6 0 @ q) 16 (sa_ip4 a) =
      Some ((replicate 15 0 @ [S_ATP_I4]) @ sa_ip4 a @ replicate 2 0 @ q)"
    by (rule wrn_mid [where old = "replicate 4 0"]) (use assms(1) in \<open>simp_all add: wellformed_addr_def numeral_eq_Suc\<close>)
  moreover have "wrn ((replicate 15 0 @ [S_ATP_I4]) @ sa_ip4 a @ replicate 2 0 @ q) 20 (be16 (sa_port a)) =
      Some ((replicate 15 0 @ [S_ATP_I4] @ sa_ip4 a) @ be16 (sa_port a) @ q)"
    by (rule wrn_mid [where old = "replicate 2 0"]) (use assms(1) in \<open>simp_all add: wellformed_addr_def\<close>)
  ultimately show ?thesis using True assms(1)
    by (simp add: s5_set_addr_def s5_header_def S_SIZE_I4_def wellformed_addr_def numeral_eq_Suc)
next
  case False
  have "d = replicate 3 0 @ [0] @ replicate 18 0 @ q" by (simp add: assms(2) numeral_eq_Suc)
  then have "wr d 3 S_ATP_I6 = Some (replicate 3 0 @ [S_ATP_I6] @ replicate 18 0 @ q)"
    by (simp add: wr_def list_update_append)
  moreover have "wrn (replicate 3 0 @ [S_ATP_I6] @ replicate 18 0 @ q) 4 (sa_ip6 a) =
      Some ((replicate 3 0 @ [S_ATP_I6]) @ sa_ip6 a @ replicate 2 0 @ q)"
    by (rule wrn_mid [where old = "replicate 16 0"]) (use assms(1) in \<open>simp_all add: wellformed_addr_def numeral_eq_Suc\<close>)
  moreover have "wrn ((replicate 3 0 @ [S_ATP_I6]) @ sa_ip6 a @ replicate 2 0 @ q) 20 (be16 (sa_port a)) =
      Some ((replicate 3 0 @ [S_ATP_I6] @ sa_ip6 a) @ be16 (sa_port a) @ q)"
    by (rule wrn_mid [where old = "replicate 2 0"]) (use assms(1) in \<open>simp_all add: wellformed_addr_def\<close>)
  ultimately show ?thesis using False assms(1)
    by (simp add: s5_set_addr_def s5_header_def S_SIZE_I4_def S_SIZE_I6_def wellformed_addr_def numeral_eq_Suc)
qed

text \<open>Reading it back.\<close>

definition same_dst :: "sockaddr \<Rightarrow> sockaddr \<Rightarrow> bool" where
  "same_dst a b \<longleftrightarrow> sa_family a = sa_family b \<and> sa_port a = sa_port b \<and> addr_equ a b"

lemma s5_get_addr_header:
  assumes "wellformed_addr a" "sa_family a = AF_INET \<or> g_ipv6 (s_par s)"
  shows "\<exists>a'. s5_get_addr (s5_header a @ q) 0 (int (length (s5_header a @ q))) b type s =
    Some (int (length (s5_header a)), a', s) \<and> same_dst a' a"
proof (cases "sa_family a = AF_INET")
  case True
  have b: "s5_header a @ q = [0, 0, 0, S_ATP_I4] @ sa_ip4 a @ be16 (sa_port a) @ q"
    using True by (simp add: s5_header_def)
  have ip: "rdn (s5_header a @ q) 4 4 = Some (sa_ip4 a)"
    by (rule rdn_mid [OF b]) (use assms(1) in \<open>simp_all add: wellformed_addr_def\<close>)
  have "rd16 (s5_header a @ q) (int (length ([0, 0, 0, S_ATP_I4] @ sa_ip4 a))) = Some (sa_port a)"
    by (rule rd16_be16 [of _ _ _ q]) (use b assms(1) in \<open>simp_all add: wellformed_addr_def\<close>)
  then have port: "rd16 (s5_header a @ q) 8 = Some (sa_port a)" using assms(1) by (simp add: wellformed_addr_def)
  have t: "rd (s5_header a @ q) 3 = Some S_ATP_I4" unfolding b by simp
  show ?thesis using True assms(1) t ip port
    by (simp add: s5_get_addr_def s5_req_len_def s5_dst_def S_SIZE_MIN_def S_SIZE_I4_def length_s5_header
        same_dst_def addr_equ_def)
next
  case False
  then have f6: "sa_family a = AF_INET6" "AF_INET6 \<noteq> AF_INET" using assms(1) by (auto simp: wellformed_addr_def)
  have b: "s5_header a @ q = [0, 0, 0, S_ATP_I6] @ sa_ip6 a @ be16 (sa_port a) @ q"
    using False by (simp add: s5_header_def)
  have ip: "rdn (s5_header a @ q) 4 16 = Some (sa_ip6 a)"
    by (rule rdn_mid [OF b]) (use assms(1) in \<open>simp_all add: wellformed_addr_def\<close>)
  have "rd16 (s5_header a @ q) (int (length ([0, 0, 0, S_ATP_I6] @ sa_ip6 a))) = Some (sa_port a)"
    by (rule rd16_be16 [of _ _ _ q]) (use b assms(1) in \<open>simp_all add: wellformed_addr_def\<close>)
  then have port: "rd16 (s5_header a @ q) 20 = Some (sa_port a)" using assms(1) by (simp add: wellformed_addr_def)
  have t: "rd (s5_header a @ q) 3 = Some S_ATP_I6" unfolding b by simp
  show ?thesis using f6 assms t ip port
    by (simp add: s5_get_addr_def s5_req_len_def s5_dst_def S_SIZE_MIN_def S_SIZE_I6_def length_s5_header
        same_dst_def addr_equ_def atps)
qed

text \<open>C13: A datagram from a server reaches the client with a header in front of its payload, which is not
  changed; the header has no fragment number, and \<open>s5_get_addr\<close> reads back from it exactly the
  address and port that the datagram came from, an IPv4-mapped address as the IPv4 address.\<close>

theorem udp_reply_roundtrip:
  assumes a: "wellformed_addr a" and n: "0 \<le> n" "22 + n \<le> int (length d)"
    and v6: "sa_family (map_fix a 0) = AF_INET \<or> g_ipv6 (s_par t)"
  shows "\<exists>hd ns d' s' b.
    udp_from_server p d n a s = Some (Sent ns, d', map_fix a 0, s') \<and>
    s_trace s' = s_trace s @ [CSend (v_fd (s_ev s p)) (hd @ take (nat n) (drop 22 d)) False ns] \<and>
    take 3 hd = [0, 0, 0] \<and>
    s5_get_addr (hd @ take (nat n) (drop 22 d)) 0 (int (length hd) + n) c type t =
      Some (int (length hd), b, t) \<and>
    same_dst b (map_fix a 0)"
proof -
  let ?a = "map_fix a 0" and ?hd = "s5_header (map_fix a 0)" and ?x = "take (nat n) (drop 22 d)"
  have wf: "wellformed_addr ?a" using a by (rule map_fix_wellformed)
  have l: "length ?hd \<le> 22" using length_s5_header [OF wf] by simp
  have m: "memset d 0 0 22 = Some (replicate 22 0 @ drop 22 d)" using n by (simp add: memset_def wrn_def)
  let ?d = "replicate (22 - length ?hd) 0 @ ?hd @ drop 22 d"
  have sa: "s5_set_addr (replicate 22 0 @ drop 22 d) 22 22 ?a True = Some (int (length ?hd), ?d)"
    by (rule s5_set_addr_header [OF wf refl])
  have split: "?d = replicate (22 - length ?hd) 0 @ (?hd @ ?x) @ drop (nat n) (drop 22 d)"
    using append_take_drop_id [of "nat n" "drop 22 d"] by simp
  have r: "rdn ?d (22 - int (length ?hd)) (int (length ?hd) + n) = Some (?hd @ ?x)"
    by (rule rdn_mid [OF split]) (use l n in auto)
  have u: "udp_from_server p d n a s =
      (let (ns, s') = sys_send (v_fd (s_ev s p)) (?hd @ ?x) False s in Some (Sent ns, ?d, ?a, s'))"
    using m sa r l by (simp add: udp_from_server_def S_SIZE_I6_def Let_def)
  obtain b where b: "s5_get_addr (?hd @ ?x) 0 (int (length (?hd @ ?x))) c type t = Some (int (length ?hd), b, t)"
    "same_dst b ?a"
    using s5_get_addr_header [OF wf v6] by blast
  have "int (length (?hd @ ?x)) = int (length ?hd) + n" using n by simp
  moreover have "take 3 ?hd = [0, 0, 0]" by (simp add: s5_header_def)
  ultimately show ?thesis
    using u b by (auto simp: sys_send_def Let_def)
qed

theorem udp_reply_roundtrip_witness:
  "\<exists>hd b. s5_get_addr (hd @ [1, 2]) 0 (int (length hd) + 2) addr0 SOCK_DGRAM (st0 (\<lambda>_. res0)) =
     Some (int (length hd), b, st0 (\<lambda>_. res0)) \<and>
     same_dst b (map_fix (addr0\<lparr>sa_family := AF_INET6, sa_port := 53, sa_ip6 := v4_prefix @ [8, 8, 4, 4]\<rparr>) 0)"
  using udp_reply_roundtrip [of "addr0\<lparr>sa_family := AF_INET6, sa_port := 53, sa_ip6 := v4_prefix @ [8, 8, 4, 4]\<rparr>"
      2 "replicate 22 7 @ [1, 2, 3]" "st0 (\<lambda>_. res0)" 0 "st0 (\<lambda>_. res0)" addr0 SOCK_DGRAM]
  by (auto simp: wellformed_addr_def addr0_def v4_prefix_def AF_INET_def AF_INET6_def map_fix_def)

end
