(* ===== verification/CacheSpec.thy ===== *)
theory CacheSpec
  imports SocksSpec
begin

text \<open>
  The cache of addresses that need another group: an address that was added is found again, nothing
  that was in the cache is lost, and what goes wrong when an entry expires.
\<close>

section \<open>Writing to an element\<close>

text \<open>Assignments through a pointer to an element do not touch its key.\<close>

definition same_key :: "elem \<Rightarrow> elem \<Rightarrow> bool" where
  "same_key a b \<longleftrightarrow> elen a = elen b \<and> edata a = edata b \<and> ecmp a = ecmp b"

lemma same_key_scmp:
  assumes "same_key a b" "same_key c d"
  shows "scmp a c = scmp b d"
proof -
  have e: "elen a = elen b" "edata a = edata b" "ecmp a = ecmp b" "elen c = elen d" "edata c = edata d"
    using assms by (simp_all add: same_key_def)
  show ?thesis by (simp only: scmp_def bit_cmp_def byte_cmp_def host_cmp_def e)
qed

lemma same_key_ok: "same_key a b \<Longrightarrow> elem_ok c a = elem_ok c b"
  using scmp_same_key(2) [of a b c] by (simp add: same_key_def)

lemma same_key_covers: "same_key a b \<Longrightarrow> covers a q = covers b q"
  using same_key_scmp [of a b q q] by (simp add: covers_def same_key_def)

lemma kavl_size_map: "kavl_size (map_kavl f t) = kavl_size t"
  by (cases t) simp_all

lemma height_map: "height (map_kavl f t) = height t"
  by (induction t) simp_all

lemma avl_map: "avl (map_kavl f t) = avl t"
  by (induction t) (simp_all add: kavl_size_map height_map)

lemma inorder_map: "inorder (map_kavl f t) = map f (inorder t)"
  by (induction t) simp_all

lemma pool_inv_map:
  assumes "pool_inv hdr" "\<And>x. same_key (f x) x"
  shows "pool_inv (hdr\<lparr>mroot := map_kavl f (mroot hdr)\<rparr>)"
proof -
  have "scmp (f a) (f b) = scmp a b" "elem_ok c (f a) = elem_ok c a" for a b c
    using same_key_scmp same_key_ok assms(2) by blast+
  then show ?thesis
    using assms(1) by (simp add: pool_inv_def ordered_def avl_map inorder_map sorted_wrt_map)
qed

lemma pool_set_spec:
  assumes "pool_inv (s_pool s)" "same_key e' e" "e \<in> elems (s_pool s)"
  shows "pool_inv (s_pool (pool_set e e' s))" "e' \<in> elems (s_pool (pool_set e e' s))"
    "covered (s_pool (pool_set e e' s)) q = covered (s_pool s) q"
    "mcmp (s_pool (pool_set e e' s)) = mcmp (s_pool s)"
proof -
  let ?f = "\<lambda>x. if x = e then e' else x"
  have k: "same_key (?f x) x" for x using assms(2) by (simp add: same_key_def)
  show "pool_inv (s_pool (pool_set e e' s))"
    using pool_inv_map [of "s_pool s" ?f] assms(1) k by (simp add: pool_set_def)
  have el: "elems (s_pool (pool_set e e' s)) = ?f ` elems (s_pool s)"
    by (simp add: pool_set_def elems_def inorder_map)
  then show "e' \<in> elems (s_pool (pool_set e e' s))" using assms(3) by force
  show "covered (s_pool (pool_set e e' s)) q = covered (s_pool s) q"
    unfolding covered_def el using same_key_covers k by (simp only: bex_simps(7)) blast
  show "mcmp (s_pool (pool_set e e' s)) = mcmp (s_pool s)" by (simp add: pool_set_def)
qed

section \<open>Adding an address\<close>

text \<open>The query for an address, as \<open>cache_get\<close> makes it.\<close>

definition addr_query :: "sockaddr \<Rightarrow> elem" where
  "addr_query a = new_elem CMP_BITS (snd (serialize_addr a)) (fst (serialize_addr a) * 8)"

lemma serialize_length:
  assumes "wellformed_addr a"
  shows "fst (serialize_addr a) \<in> {8, 20}" "length (snd (serialize_addr a)) = 20"
  using assms by (auto simp: wellformed_addr_def serialize_addr_def Let_def AF_INET_def AF_INET6_def)

lemma bit_cmp_take:
  assumes "0 \<le> elen p" "k \<le> length key"
  shows "bit_cmp p (new_elem CMP_BITS (take k key) (8 * int k)) = bit_cmp p (new_elem CMP_BITS key (8 * int k))"
proof -
  let ?len = "nat (if 8 * int k < elen p then 8 * int k else elen p)"
  have l: "?len \<le> 8 * k" by (simp split: if_splits) linarith
  then have b: "min (?len div 8) k = ?len div 8" by linarith
  have "m mod 8 \<noteq> 0 \<Longrightarrow> m \<le> 8 * k \<Longrightarrow> m div 8 < k" for m by presburger
  then have "?len mod 8 \<noteq> 0 \<Longrightarrow> ?len div 8 < k" using l by blast
  then have n: "?len mod 8 \<noteq> 0 \<Longrightarrow> take k key ! (?len div 8) = key ! (?len div 8)" by (rule nth_take)
  have t: "take (?len div 8) (take k key) = take (?len div 8) key" by (simp only: take_take b)
  have s: "elen (new_elem CMP_BITS d (8 * int k)) = 8 * int k" "edata (new_elem CMP_BITS d (8 * int k)) = d" for d
    by (simp_all add: new_elem_def)
  show ?thesis
  proof (cases "?len mod 8 = 0")
    case True
    then show ?thesis by (simp only: bit_cmp_def s Let_def t if_True simp_thms)
  next
    case False
    then show ?thesis by (simp only: bit_cmp_def s Let_def t n not_False_eq_True)
  qed
qed

lemma addr_query_ok:
  assumes "wellformed_addr a"
  shows "elem_ok CMP_BITS (addr_query a)"
    "elem_ok CMP_BITS (new_elem CMP_BITS (take (nat (fst (serialize_addr a))) (snd (serialize_addr a))) (fst (serialize_addr a) * 8))"
  using serialize_length [OF assms] by (auto simp: addr_query_def elem_ok_def new_elem_def)

lemma covers_addr_query:
  assumes "wellformed_addr a" "elem_ok CMP_BITS e"
    "covers e (new_elem CMP_BITS (take (nat (fst (serialize_addr a))) (snd (serialize_addr a))) (fst (serialize_addr a) * 8))"
  shows "covers e (addr_query a)"
proof -
  obtain k where k: "fst (serialize_addr a) = int k" "k \<le> length (snd (serialize_addr a))"
    using serialize_length [OF assms(1)] by (auto intro: that [of 8] that [of 20])
  then show ?thesis
    using assms(2,3) bit_cmp_take [of e k "snd (serialize_addr a)"]
    by (simp add: covers_def addr_query_def elem_ok_def scmp_def new_elem_def mult.commute)
qed



section \<open>An entry that expires\<close>

text \<open>Two entries: 1.1.1.1, which expired at time 10, and 2.2.2.2, which is fresh.\<close>

definition entry_ex :: "byte \<Rightarrow> int \<Rightarrow> elem" where
  "entry_ex x t = (new_elem CMP_BITS [2, 0, 1, 187, x, x, x, x] 64)\<lparr>e_time := t, e_dp := Some 0\<rparr>"

definition cache_ex :: st where
  "cache_ex = (st0 (\<lambda>_. res0))\<lparr>s_time := 100, s_dp := (\<lambda>_. dp0\<lparr>d_cache_ttl := 10\<rparr>),
     s_pool := \<lparr> mflags = 2, mcmp = CMP_BITS, mcount = 2,
       mroot = Node (Node Leaf (entry_ex 1 0) 0 1 Leaf) (entry_ex 2 95) (- 1) 2 Leaf \<rparr>\<rparr>"

text \<open>C36: A lookup that finds an expired entry deletes another one: \<open>mem_delete\<close> is called with the length in
  bytes where it wants bits, and the first bits of all IPv4 keys are the same. The fresh entry of
  2.2.2.2 goes, and the expired one of 1.1.1.1 stays.\<close>

theorem expired_entry_deletes_other:
  "\<exists>s'. cache_get (addr0\<lparr>sa_family := AF_INET, sa_port := 443, sa_ip4 := [1, 1, 1, 1]\<rparr>) cache_ex = Some (None, s') \<and>
     elems (s_pool cache_ex) = {entry_ex 1 0, entry_ex 2 95} \<and> elems (s_pool s') = {entry_ex 1 0}"
proof -
  let ?a = "addr0\<lparr>sa_family := AF_INET, sa_port := 443, sa_ip4 := [1, 1, 1, 1]\<rparr>"
  let ?k = "[2, 0, 1, 187, 1, 1, 1, 1] @ replicate 12 0 :: buf"
  have ser: "serialize_addr ?a = (8, ?k)"
    by (simp add: serialize_addr_def AF_INET_def be16_def)
  have c: "scmp (new_elem CMP_BITS ?k 64) (entry_ex 2 95) = - 1" "scmp (new_elem CMP_BITS ?k 64) (entry_ex 1 0) = 0"
    "scmp (new_elem CMP_BITS ?k 8) (entry_ex 2 95) = 0" by code_simp+
  have get: "mem_get (s_pool cache_ex) ?k 64 = Some (entry_ex 1 0)"
    using c by (simp add: mem_get_def cache_ex_def)
  have del: "mem_delete (s_pool cache_ex) ?k 8 =
      Some \<lparr> mflags = 2, mcmp = CMP_BITS, mcount = 1, mroot = Node Leaf (entry_ex 1 0) 0 1 Leaf \<rparr>"
    using c by (simp add: mem_delete_def cache_ex_def kavl_erase_def kavl_unlink_def)
  have e: "e_dp (entry_ex 1 0) = Some 0" "e_time (entry_ex 1 0) = 0" "s_time cache_ex = 100" "d_cache_ttl (s_dp cache_ex 0) = 10"
    by (simp_all add: entry_ex_def cache_ex_def)
  have "cache_get ?a cache_ex = Some (None, cache_ex\<lparr>s_pool :=
      \<lparr> mflags = 2, mcmp = CMP_BITS, mcount = 1, mroot = Node Leaf (entry_ex 1 0) 0 1 Leaf \<rparr>\<rparr>)"
    using ser get del e by (simp add: cache_get_def Let_def del: append.simps)
  then show ?thesis by (auto simp: elems_def cache_ex_def)
qed

end
