(* ===== verification/TunnelSpec.thy ===== *)
theory TunnelSpec
  imports Tunnel
begin

unbundle bit_operations_syntax

text \<open>
  What the tunnel does with the data of the server: they reach the client unchanged and in order, and
  what the client does not take at once waits in the buffer of the connection.
\<close>

section \<open>Traffic\<close>

text \<open>What was received from the socket \<open>fr\<close> and accepted by the socket \<open>fs\<close>, in a trace with its results.\<close>

fun received :: "int \<Rightarrow> (call \<times> sysres) list \<Rightarrow> byte list" where
  "received fr [] = []"
| "received fr ((CRecv fd n, r) # t) =
     (if fd = fr \<and> r_ret r \<ge> 0 then take (nat n) (r_data r) else []) @ received fr t"
| "received fr (_ # t) = received fr t"

fun accepted :: "int \<Rightarrow> (call \<times> sysres) list \<Rightarrow> byte list" where
  "accepted fs [] = []"
| "accepted fs ((CSend fd d oob n, r) # t) = (if fd = fs \<and> \<not> oob then take (nat n) d else []) @ accepted fs t"
| "accepted fs (_ # t) = accepted fs t"

lemma received_append [simp]: "received fr (t @ u) = received fr t @ received fr u"
  by (induction fr t rule: received.induct) auto

lemma accepted_append [simp]: "accepted fs (t @ u) = accepted fs t @ accepted fs u"
  by (induction fs t rule: accepted.induct) auto

definition flow :: "int \<Rightarrow> int \<Rightarrow> st \<Rightarrow> byte list \<Rightarrow> byte list \<Rightarrow> st \<Rightarrow> bool" where
  "flow fr fs s xs ys s' \<longleftrightarrow> s_orc s' = s_orc s \<and>
     (\<exists>t. s_trace s' = s_trace s @ t \<and> s_k s' = s_k s + length t \<and>
       received fr (zip t (map (s_orc s) [s_k s ..< s_k s'])) = xs \<and>
       accepted fs (zip t (map (s_orc s) [s_k s ..< s_k s'])) = ys)"

text \<open>Neither of the two.\<close>

definition idle_io :: "st \<Rightarrow> st \<Rightarrow> bool" where
  "idle_io s s' \<longleftrightarrow> (\<forall>fr fs. flow fr fs s [] [] s')"

lemma upt_split: "i \<le> j \<Longrightarrow> j \<le> k \<Longrightarrow> [i ..< k] = [i ..< j] @ [j ..< k]"
  using upt_add_eq_append [of i j "k - j"] by simp

lemma flow_trans:
  assumes "flow fr fs s xs ys s1" "flow fr fs s1 xs' ys' s2"
  shows "flow fr fs s (xs @ xs') (ys @ ys') s2"
proof -
  obtain t where t: "s_trace s1 = s_trace s @ t" "s_k s1 = s_k s + length t"
    "received fr (zip t (map (s_orc s) [s_k s ..< s_k s1])) = xs"
    "accepted fs (zip t (map (s_orc s) [s_k s ..< s_k s1])) = ys" "s_orc s1 = s_orc s"
    using assms(1) by (auto simp: flow_def)
  obtain u where u: "s_trace s2 = s_trace s1 @ u" "s_k s2 = s_k s1 + length u"
    "received fr (zip u (map (s_orc s) [s_k s1 ..< s_k s2])) = xs'"
    "accepted fs (zip u (map (s_orc s) [s_k s1 ..< s_k s2])) = ys'" "s_orc s2 = s_orc s"
    using assms(2) t(5) by (auto simp: flow_def)
  have "zip (t @ u) (map (s_orc s) [s_k s ..< s_k s2]) =
      zip t (map (s_orc s) [s_k s ..< s_k s1]) @ zip u (map (s_orc s) [s_k s1 ..< s_k s2])"
    using upt_split [of "s_k s" "s_k s1" "s_k s2"] t(2) u(2) by simp
  then show ?thesis unfolding flow_def using t u by (intro conjI exI [of _ "t @ u"]) auto
qed

lemma idle_flow: "idle_io s s' \<Longrightarrow> flow fr fs s [] [] s'"
  by (simp add: idle_io_def)

lemma idle_trans: "idle_io s s1 \<Longrightarrow> idle_io s1 s2 \<Longrightarrow> idle_io s s2"
  unfolding idle_io_def using flow_trans [of _ _ s "[]" "[]" s1 "[]" "[]" s2] by simp

lemma idle_same: "s_trace s' = s_trace s \<Longrightarrow> s_k s' = s_k s \<Longrightarrow> s_orc s' = s_orc s \<Longrightarrow> idle_io s s'"
  by (simp add: idle_io_def flow_def)

lemma idle_refl [simp, intro]: "idle_io s s"
  by (simp add: idle_same)

fun dull :: "call \<Rightarrow> bool" where
  "dull (CSend fd d oob r) = False"
| "dull (CRecv fd n) = False"
| "dull _ = True"

lemma idle_sys: "dull c \<Longrightarrow> idle_io s (snd (sys c s))"
  by (cases c) (auto simp: idle_io_def flow_def)

lemma idle_after: "idle_io s s1 \<Longrightarrow> s_trace s' = s_trace s1 \<Longrightarrow> s_k s' = s_k s1 \<Longrightarrow> s_orc s' = s_orc s1 \<Longrightarrow> idle_io s s'"
  using idle_trans idle_same by blast

lemma flow_send:
  assumes "sys_send fd d False s = (n, s')"
  shows "flow fr fd s [] (take (nat n) d) s'" "s_ev s' = s_ev s" "s_free s' = s_free s" "n \<le> int (length d)" "- 1 \<le> n"
    "n < 0 \<Longrightarrow> n = - 1"
  using assms by (auto simp: sys_send_def Let_def flow_def)

lemma flow_recv:
  assumes "sys_recv fd n s = (m, d, s')"
  shows "flow fd fs s d [] s'" "s_ev s' = s_ev s" "s_free s' = s_free s" "m < 0 \<and> d = [] \<or> m = int (length d)"
  using assms by (auto simp: sys_recv_def Let_def flow_def sys_def split: if_splits)

section \<open>The calls of the tunnel that are idle\<close>

lemma cache_add_io:
  assumes "cache_add a h s = Some (e, h', s')"
  shows "idle_io s s'" "s_ev s' = s_ev s" "s_free s' = s_free s"
  using assms by (auto simp: cache_add_def pool_set_def Let_def bind_eq_Some_conv split: prod.splits option.splits if_splits intro!: idle_same)

lemma upd_dp_io [simp]:
  "s_trace (upd_dp d f s) = s_trace s" "s_k (upd_dp d f s) = s_k s" "s_orc (upd_dp d f s) = s_orc s"
  "s_ev (upd_dp d f s) = s_ev s" "s_par (upd_dp d f s) = s_par s" "s_pool (upd_dp d f s) = s_pool s"
  by (simp_all add: upd_dp_def)

lemma set_io [simp]:
  "s_trace (set_next p x s) = s_trace s" "s_k (set_next p x s) = s_k s" "s_orc (set_next p x s) = s_orc s"
  "s_trace (set_prev p x s) = s_trace s" "s_k (set_prev p x s) = s_k s" "s_orc (set_prev p x s) = s_orc s"
  "s_trace (set_level d i l s) = s_trace s" "s_k (set_level d i l s) = s_k s" "s_orc (set_level d i l s) = s_orc s"
  by (simp_all add: set_next_def set_prev_def set_level_def split: option.splits)

lemma swop_outer_io [simp]:
  "s_trace (swop_outer c n s) = s_trace s" "s_k (swop_outer c n s) = s_k s" "s_orc (swop_outer c n s) = s_orc s"
  unfolding swop_outer_def Let_def by (simp_all only: set_io)

lemma swop_links_io:
  assumes "swop_links c n s = Some s'"
  shows "s_trace s' = s_trace s \<and> s_k s' = s_k s \<and> s_orc s' = s_orc s"
proof -
  define t where "t = swop_outer c n s"
  have t: "s_trace t = s_trace s" "s_k t = s_k s" "s_orc t = s_orc s" by (simp_all add: t_def)
  show ?thesis
    using assms unfolding swop_links_def Let_def t_def [symmetric]
    by (cases "d_next (s_dp t n)"; cases "d_next (s_dp s c) = Some n") (auto simp: bind_eq_Some_conv t)
qed

lemma swop_groups_io: "swop_groups c n s = Some s' \<Longrightarrow> idle_io s s'"
  by (rule idle_same) (auto simp: swop_groups_def Let_def bind_eq_Some_conv dest!: swop_links_io)

lemma rank_groups_io: "rank_groups d n u c s = Some s' \<Longrightarrow> idle_io s s'"
  by (auto simp: rank_groups_def bind_eq_Some_conv split: option.splits if_splits
      dest!: swop_groups_io intro: idle_same elim!: idle_after)

lemma note_failure_io: "idle_io s (note_failure l ty d s)"
  by (rule idle_same) (simp_all add: note_failure_def)

lemma pool_set_io: "idle_io s (pool_set a b s)"
  by (rule idle_same) (simp_all add: pool_set_def)

lemma upd_ev_io: "idle_io s (upd_ev v f s)"
  by (rule idle_same) simp_all

text \<open>Without a reconnection, \<open>on_trigger\<close> fails.\<close>

lemma on_trigger_stays:
  assumes ot: "on_trigger type v alive s = Some (r, s')" "v_pair (s_ev s v) = Some l"
    and no: "\<not> alive \<or> v_sq_buff (s_ev s l) = None \<and> v_recv_count (s_ev s l) \<noteq> 0"
  shows "r = - 1 \<and> idle_io s s'"
proof -
  define can where "can = ((v_sq_buff (s_ev s l) \<noteq> None \<or> v_recv_count (s_ev s l) = 0 \<and> v_recv_count (s_ev s v) = 0) \<and> alive)"
  have can: "\<not> can" using no by (auto simp: can_def)
  obtain cache h s1 d nxt unch mk s5 where
    1: "cache_add (v_addr (s_ev s v)) (v_host (s_ev s l)) s = Some (cache, h, s1)" and
    5: "rank_groups d nxt unch cache (upd_ev l (\<lambda>e. e\<lparr>v_dp_mask := mk\<rparr>) (note_failure l type d (upd_ev l (\<lambda>e. e\<lparr>v_host := h\<rparr>) s1))) = Some s5" and
    e: "case nxt of
        None \<Rightarrow> r = - 1 \<and> s' = pool_set cache (cache\<lparr>e_dp_mask := 0, e_detect := 0, e_dp := g_dp (s_par s5)\<rparr>) s5
      | Some n \<Rightarrow> r = - 1 \<and> s' = pool_set cache (cache\<lparr>e_dp_mask := e_dp_mask cache OR mk, e_detect := type, e_dp := Some n\<rparr>) s5"
    using ot can unfolding on_trigger_def ot(2) Option.bind.simps(2) Let_def can_def [symmetric]
    by (auto simp: bind_eq_Some_conv split: option.splits)
  have "idle_io s s5"
    using idle_trans [OF cache_add_io(1) [OF 1]] rank_groups_io [OF 5] upd_ev_io note_failure_io idle_trans by meson
  then show ?thesis using e pool_set_io idle_trans by (auto split: option.splits)
qed

section \<open>The connection\<close>

text \<open>The server \<open>v\<close> and the client \<open>p\<close> once the client has sent a request that will not be sent again:
  \<open>sq_buff\<close> is released with the first answer that is accepted. The spare buffers start at 0.\<close>

definition relay :: "nat \<Rightarrow> nat \<Rightarrow> st \<Rightarrow> bool" where
  "relay v p s \<longleftrightarrow> v \<noteq> p \<and> v_flag (s_ev s v) = FLAG_CONN \<and> v_flag (s_ev s p) \<noteq> FLAG_CONN \<and>
     v_pair (s_ev s v) = Some p \<and> v_pair (s_ev s p) = Some v \<and>
     v_sq_buff (s_ev s p) = None \<and> v_recv_count (s_ev s p) \<noteq> 0 \<and>
     (\<forall>b\<in>set (s_free s). b_offset b = 0)"

text \<open>What a step keeps: the two are still connected, on the same sockets.\<close>

definition keeps :: "nat \<Rightarrow> nat \<Rightarrow> st \<Rightarrow> st \<Rightarrow> bool" where
  "keeps v p s s' \<longleftrightarrow> relay v p s' \<and> v_fd (s_ev s' v) = v_fd (s_ev s v) \<and> v_fd (s_ev s' p) = v_fd (s_ev s p)"

lemma keeps_trans: "keeps v p s s1 \<Longrightarrow> keeps v p s1 s2 \<Longrightarrow> keeps v p s s2"
  by (simp add: keeps_def)

lemma keeps_refl: "relay v p s \<Longrightarrow> keeps v p s s"
  by (simp add: keeps_def)

text \<open>Steps that change only fields the tunnel of the server does not depend on.\<close>

definition mild :: "nat \<Rightarrow> nat \<Rightarrow> st \<Rightarrow> st \<Rightarrow> bool" where
  "mild v p s s' \<longleftrightarrow> idle_io s s' \<and> s_free s' = s_free s \<and>
     (\<forall>u\<in>{v, p}. v_flag (s_ev s' u) = v_flag (s_ev s u) \<and> v_pair (s_ev s' u) = v_pair (s_ev s u) \<and>
        v_sq_buff (s_ev s' u) = v_sq_buff (s_ev s u) \<and> v_fd (s_ev s' u) = v_fd (s_ev s u) \<and>
        v_buff (s_ev s' u) = v_buff (s_ev s u)) \<and>
     v_recv_count (s_ev s' p) = v_recv_count (s_ev s p)"

lemma mild_refl [simp, intro]: "mild v p s s"
  by (simp add: mild_def)

lemma mild_trans: "mild v p s s1 \<Longrightarrow> mild v p s1 s2 \<Longrightarrow> mild v p s s2"
  unfolding mild_def using idle_trans by auto

lemma mild_relay: "mild v p s s' \<Longrightarrow> relay v p s \<Longrightarrow> keeps v p s s' \<and> idle_io s s' \<and> v_buff (s_ev s' v) = v_buff (s_ev s v)"
  by (auto simp: mild_def relay_def keeps_def)

lemma mild_sys: "dull c \<Longrightarrow> mild v p s (snd (sys c s))"
  by (simp add: mild_def idle_sys)

lemma mild_upd:
  assumes "\<And>e. v_flag (f e) = v_flag e \<and> v_pair (f e) = v_pair e \<and> v_sq_buff (f e) = v_sq_buff e \<and>
      v_fd (f e) = v_fd e \<and> v_buff (f e) = v_buff e \<and> (u = p \<longrightarrow> v_recv_count (f e) = v_recv_count e)"
  shows "mild v p s (upd_ev u f s)"
  using assms by (auto simp: mild_def upd_ev_io)

lemma mild_then:
  assumes "mild v p s s1"
    "\<And>e. v_flag (f e) = v_flag e \<and> v_pair (f e) = v_pair e \<and> v_sq_buff (f e) = v_sq_buff e \<and>
      v_fd (f e) = v_fd e \<and> v_buff (f e) = v_buff e \<and> (u = p \<longrightarrow> v_recv_count (f e) = v_recv_count e)"
  shows "mild v p s (upd_ev u f s1)"
  using mild_trans [OF assms(1) mild_upd] assms(2) by blast

lemma mild_case: "(\<And>q. mild v p s (f q)) \<Longrightarrow> mild v p s s1 \<Longrightarrow> mild v p s (case w of None \<Rightarrow> s1 | Some q \<Rightarrow> f q)"
  by (cases w) auto

lemma mild_if: "mild v p s s1 \<Longrightarrow> mild v p s s2 \<Longrightarrow> mild v p s (if b then s1 else s2)"
  by simp

lemma mild_tv: "mild v p s s1 \<Longrightarrow> mild v p s (s1\<lparr>s_tv_start := x\<rparr>)" "mild v p s s1 \<Longrightarrow> mild v p s (s1\<lparr>s_tv_end := x\<rparr>)"
  by (auto simp: mild_def elim!: idle_after)

lemmas mild_intros = mild_refl mild_case mild_if mild_tv mild_then

lemma mild_remove_timer: "mild v p s (remove_timer u s)"
  unfolding remove_timer_def Let_def by (intro mild_intros) simp_all

lemma mild_set_timer:
  assumes "set_timer u ms s = Some s'"
  shows "mild v p s s'"
proof (cases "v_tv_ms (s_ev s u) \<noteq> 0")
  case True
  then show ?thesis using assms by (simp add: set_timer_def)
next
  case False
  define s1 where "s1 = upd_ev u (\<lambda>e. e\<lparr>v_tv_ms := s_ms s + ms\<rparr>) s"
  have s1: "mild v p s s1" unfolding s1_def by (rule mild_upd) simp
  show ?thesis
  proof (cases "tv_scan (s_ev s1) (v_tv_ms (s_ev s1 u)) (s_tv_end s1) None")
    case None
    then show ?thesis using assms False unfolding set_timer_def s1_def [symmetric] Let_def by simp
  next
    case (Some x)
    obtain pr nx where x: "x = (pr, nx)" by (cases x)
    have "s' = (let s = upd_ev u (\<lambda>e. e\<lparr>v_tv_next := nx, v_tv_prev := pr\<rparr>) s1;
        s = (case nx of None \<Rightarrow> s | Some n \<Rightarrow> upd_ev n (\<lambda>e. e\<lparr>v_tv_prev := Some u\<rparr>) s);
        s = (case pr of None \<Rightarrow> s | Some q \<Rightarrow> upd_ev q (\<lambda>e. e\<lparr>v_tv_next := Some u\<rparr>) s);
        s = (if s_tv_start s = None \<or> nx = s_tv_start s then s\<lparr>s_tv_start := Some u\<rparr> else s) in
      if s_tv_end s = None \<or> pr = s_tv_end s then s\<lparr>s_tv_end := Some u\<rparr> else s)"
      using assms False Some x unfolding set_timer_def s1_def [symmetric] by (simp add: Let_def)
    then show ?thesis unfolding Let_def by (simp only:) (intro mild_intros s1, simp_all)
  qed
qed

lemma mild_set_timeout: "mild v p s (snd (set_timeout fd t s))"
  by (simp add: set_timeout_def Let_def case_prod_unfold mild_sys)

lemma mild_post_desync: "mild v p s (snd (post_desync fd d s))"
  by (simp add: post_desync_def Let_def case_prod_unfold mild_sys)

lemma mild_cancel: "cancel_setup u s = Some (x, s') \<Longrightarrow> mild v p s s'"
  using mild_post_desync by (auto simp: cancel_setup_def Let_def case_prod_unfold bind_eq_Some_conv)

lemma mild_try_timer:
  assumes "try_set_tls_timer u b n s = Some (x, s')"
  shows "mild v p s s'"
proof -
  have up: "mild v p s (upd_ev u (\<lambda>e. e\<lparr>v_tls_rec := a, v_tls_rec_pos := c, v_tls_rec_size := d\<rparr>) s)" for a c d
    by (rule mild_upd) simp
  then show ?thesis using assms mild_trans [OF up] mild_trans [OF mild_trans [OF up mild_remove_timer]] mild_remove_timer mild_set_timer
    by (auto simp: try_set_tls_timer_def Let_def bind_eq_Some_conv split: if_splits prod.splits) blast+
qed

lemma mild_new_round: "mild v p s (new_round u s)"
  unfolding new_round_def Let_def
  by (auto split: option.split intro!: mild_upd mild_trans [OF mild_upd mild_upd])

text \<open>Data from the server, when no request is kept.\<close>

lemma recv_remote_mild:
  assumes "recv_remote v b n s = Some (r, s')" "relay v p s"
  shows "r = None \<and> mild v p s s'"
proof -
  have p: "v_pair (s_ev s v) = Some p" "v_sq_buff (s_ev s p) = None" using assms(2) by (simp_all add: relay_def)
  obtain s1 where s1: "mild v p s s1" and
    r: "(let g = s_par s1;
       s = (if v_to_count (s_ev s1 v) \<ge> 0 \<and> g_timeout g \<noteq> 0 \<and> g_to_bytes_lim g \<noteq> 0 \<and>
                 v_recv_count (s_ev s1 v) > g_to_bytes_lim g
              then upd_ev v (\<lambda>e. e\<lparr>v_to_count := - 1\<rparr>) (snd (set_timeout (v_fd (s_ev s1 v)) 0 s1)) else s1) in
     if v_sq_buff (s_ev s p) \<noteq> None then do {
       (r, s) \<leftarrow> on_response v b n s;
       if r = 0 then Some (Some 0, s)
       else do {
         c \<leftarrow> v_pair (s_ev s v);
         Some (None, free_first_req c s) } }
     else Some (None, s)) = Some (r, s')"
  proof (cases "v_mark (s_ev s p)")
    case False
    then show thesis using assms(1) that [of s] unfolding recv_remote_def p(1) Option.bind.simps(2) by simp
  next
    case True
    then obtain t s0 where t: "try_set_tls_timer v b n s = Some (t, s0)"
      using assms(1) unfolding recv_remote_def p(1) Option.bind.simps(2)
      by (cases "try_set_tls_timer v b n s") auto
    have "mild v p s (if t \<noteq> 0 then upd_ev p (\<lambda>e. e\<lparr>v_mark := False\<rparr>) s0 else s0)"
      using mild_try_timer [OF t] by (auto intro!: mild_trans [OF _ mild_upd])
    then show thesis using assms(1) True t that unfolding recv_remote_def p(1) Option.bind.simps(2) by simp
  qed
  define s2 where "s2 = (if v_to_count (s_ev s1 v) \<ge> 0 \<and> g_timeout (s_par s1) \<noteq> 0 \<and> g_to_bytes_lim (s_par s1) \<noteq> 0 \<and>
                 v_recv_count (s_ev s1 v) > g_to_bytes_lim (s_par s1)
              then upd_ev v (\<lambda>e. e\<lparr>v_to_count := - 1\<rparr>) (snd (set_timeout (v_fd (s_ev s1 v)) 0 s1)) else s1)"
  have s2: "mild v p s s2"
    using s1 unfolding s2_def by (auto intro!: mild_trans [OF _ mild_trans [OF mild_set_timeout mild_upd]])
  then have "v_sq_buff (s_ev s2 p) = None" using p(2) by (simp add: mild_def)
  then show ?thesis using r s2 unfolding Let_def s2_def [symmetric] by simp
qed

section \<open>Receiving and sending\<close>

text \<open>After an error of either socket the connection ends.\<close>

lemma on_trigger_relay:
  assumes "on_trigger ty v True s = Some (r, s')" "relay v p s"
  shows "r = - 1 \<and> idle_io s s'"
  using on_trigger_stays [OF assms(1)] assms(2) by (auto simp: relay_def)

lemma on_fin_server:
  assumes "on_fin v s = Some (r, s')" "relay v p s"
  shows "r = - 1 \<and> idle_io s s'"
  using assms on_trigger_relay [of DETECT_TLS_ERR v s _ _ p]
  by (auto simp: on_fin_def Let_def relay_def bind_eq_Some_conv split: if_splits)

lemma on_fin_client:
  assumes "on_fin p s = Some (r, s')" "relay v p s"
  shows "r = - 1 \<and> idle_io s s'"
  using assms on_trigger_stays [of DETECT_TLS_ERR v False s _ _ p]
  by (auto simp: on_fin_def Let_def relay_def bind_eq_Some_conv split: if_splits)

lemma handle_err_relay:
  assumes "handle_err u e s = Some (r, s')" "relay v p s" "u = v \<or> u = p"
  shows "r = - 1 \<and> idle_io s s'"
proof (cases "u = v")
  case True
  then have f: "v_flag (s_ev s u) = FLAG_CONN" using assms(2) by (simp add: relay_def)
  show ?thesis
  proof (cases "e = ECONNRESET \<or> e = ECONNREFUSED \<or> e = ETIMEDOUT \<or> e = EHOSTUNREACH")
    case c: True
    then have t: "on_torst v s = Some (r, s')" using assms(1) f True by (simp add: handle_err_def)
    then obtain x s1 where x: "on_trigger DETECT_TORST v True s = Some (x, s1)"
      by (cases "on_trigger DETECT_TORST v True s") (auto simp: on_torst_def)
    then have "x = - 1" "idle_io s s1" using on_trigger_relay assms(2) by blast+
    then show ?thesis using t x idle_trans [OF _ idle_sys]
      by (auto simp: on_torst_def bind_eq_Some_conv)
  next
    case False
    then show ?thesis using assms(1) by (simp add: handle_err_def)
  qed
next
  case False
  then show ?thesis using assms on_fin_client [of p s r s' v]
    by (auto simp: handle_err_def relay_def split: if_splits)
qed

text \<open>One call of \<open>tcp_recv_hook\<close> on the server: nothing to read, the end, or new data in the buffer.\<close>

lemma tcp_recv_server:
  assumes "tcp_recv_hook v s = Some (n, s')" "relay v p s" "v_buff (s_ev s v) = Some b"
  shows "\<exists>d. flow (v_fd (s_ev s v)) (v_fd (s_ev s p)) s d [] s' \<and>
    (n \<ge> 0 \<longrightarrow> keeps v p s s' \<and> int (length d) = n \<and>
      (\<exists>data. v_buff (s_ev s' v) = Some (b\<lparr>b_data := data\<rparr>) \<and> take (nat n) data = d \<and> (n > 0 \<longrightarrow> n \<le> int (length data))))"
proof -
  obtain m d s1 where rv: "sys_recv (v_fd (s_ev s v)) (b_size b) s = (m, d, s1)" by (cases "sys_recv (v_fd (s_ev s v)) (b_size b) s")
  let ?fr = "v_fd (s_ev s v)" and ?fs = "v_fd (s_ev s p)"
  note fl = flow_recv(1) [OF rv, of ?fs] flow_recv(2,3,4) [OF rv]
  have rel1: "relay v p s1" "v_buff (s_ev s1 v) = Some b" using assms(2,3) fl(2,3) by (simp_all add: relay_def)
  have add: "flow ?fr ?fs s d [] s2" if "idle_io s1 s2" for s2
    using flow_trans [OF fl(1) idle_flow [OF that]] by simp
  consider "m = 0" | "m < 0" "s_errno s1 = EAGAIN" | "m < 0" "s_errno s1 \<noteq> EAGAIN" | "m \<ge> 1" by linarith
  then show ?thesis
  proof cases
    case 1
    then have "on_fin v s1 = Some (n, s')" using assms(1,3) rv by (simp add: tcp_recv_hook_def)
    then have "n = - 1 \<and> idle_io s1 s'" using on_fin_server rel1(1) by blast
    then show ?thesis using add by (intro exI [of _ d]) simp
  next
    case 2
    then have e: "n = 0" "s' = s1" using assms(1,3) rv by (auto simp: tcp_recv_hook_def)
    have k: "keeps v p s s1" using rel1 fl(2) by (simp add: keeps_def)
    have "d = []" using 2 fl(4) by auto
    moreover have "b = b\<lparr>b_data := b_data b\<rparr>" by simp
    moreover have "\<exists>data. v_buff (s_ev s1 v) = Some (b\<lparr>b_data := data\<rparr>) \<and> take 0 data = []"
      using rel1(2) by (intro exI [of _ "b_data b"]) simp
    ultimately show ?thesis using e k add [OF idle_refl] by (intro exI [of _ d]) simp
  next
    case 3
    then have "handle_err v (s_errno s1) s1 = Some (n, s')" using assms(1,3) rv by (simp add: tcp_recv_hook_def)
    then have "n = - 1 \<and> idle_io s1 s'" using handle_err_relay rel1(1) by blast
    then show ?thesis using add by (intro exI [of _ d]) simp
  next
    case 4
    have md: "m = int (length d)" using fl(4) 4 by auto
    obtain data where w: "wrn (b_data b) 0 d = Some data"
      using assms(1,3) rv 4 by (cases "wrn (b_data b) 0 d") (auto simp: tcp_recv_hook_def Let_def)
    have data: "take (length d) data = d" "length d \<le> length data"
      using w by (auto simp: wrn_def split: if_splits)
    define s2 where "s2 = upd_ev v (\<lambda>e. e\<lparr>v_buff := Some (b\<lparr>b_data := data\<rparr>), v_recv_count := v_recv_count e + m\<rparr>) s1"
    have k2: "keeps v p s s2" "v_buff (s_ev s2 v) = Some (b\<lparr>b_data := data\<rparr>)" "idle_io s1 s2"
      using rel1(1) fl(2) upd_ev_io by (auto simp: s2_def keeps_def relay_def)
    define s3 where "s3 = new_round v s2"
    have m3: "mild v p s2 s3" unfolding s3_def by (rule mild_new_round)
    have eq: "do {
       cancel \<leftarrow> last_round v s3;
       (x, s) \<leftarrow> (if cancel then cancel_setup v s3 else Some (0, s3));
       if x \<noteq> 0 then Some (- 1, s)
       else if v_flag (s_ev s v) = FLAG_CONN then do {
         (r, s) \<leftarrow> recv_remote v data m s;
         Some (case r of None \<Rightarrow> m | Some r \<Rightarrow> r, s) }
       else do { s \<leftarrow> recv_client v (b\<lparr>b_data := data\<rparr>) m s; Some (m, s) } } = Some (n, s')"
      using assms(1) 4 unfolding tcp_recv_hook_def assms(3) Option.bind.simps(2) rv Let_def prod.case w s3_def s2_def
      by simp
    obtain c where c: "last_round v s3 = Some c" using eq by (cases "last_round v s3") simp_all
    obtain x s4 where x: "(if c then cancel_setup v s3 else Some (0, s3)) = Some (x, s4)"
      using eq c by (cases "if c then cancel_setup v s3 else Some (0, s3)") auto
    have s4: "mild v p s2 s4"
    proof (cases c)
      case True
      then show ?thesis using x m3 mild_trans [OF m3 mild_cancel] by simp
    next
      case False
      then show ?thesis using x m3 by simp
    qed
    have rest: "(if x \<noteq> 0 then Some (- 1, s4)
       else if v_flag (s_ev s4 v) = FLAG_CONN then do {
         (r, s) \<leftarrow> recv_remote v data m s4;
         Some (case r of None \<Rightarrow> m | Some r \<Rightarrow> r, s) }
       else do { s \<leftarrow> recv_client v (b\<lparr>b_data := data\<rparr>) m s4; Some (m, s) }) = Some (n, s')"
      using eq unfolding c Option.bind.simps(2) x prod.case .
    have k4: "keeps v p s2 s4" "idle_io s2 s4" "v_buff (s_ev s4 v) = v_buff (s_ev s2 v)"
      using mild_relay [OF s4] k2(1) by (simp_all add: keeps_def)
    have f4: "flow ?fr ?fs s d [] s4" using add idle_trans k2(3) k4(2) by blast
    show ?thesis
    proof (cases "x = 0")
      case False
      then show ?thesis using rest f4 by (intro exI [of _ d]) auto
    next
      case True
      have rel4: "relay v p s4" using k4(1) by (simp add: keeps_def)
      have fc: "v_flag (s_ev s4 v) = FLAG_CONN" using rel4 by (simp add: relay_def)
      obtain r5 s5 where r5: "recv_remote v data m s4 = Some (r5, s5)" "s5 = s'" "n = (case r5 of None \<Rightarrow> m | Some r \<Rightarrow> r)"
        using rest True fc by (cases "recv_remote v data m s4") auto
      have m5: "mild v p s4 s'" and n: "n = m" using recv_remote_mild [OF r5(1) rel4] r5(2,3) by auto
      then have k5: "keeps v p s4 s'" "idle_io s4 s'" "v_buff (s_ev s' v) = v_buff (s_ev s4 v)"
        using mild_relay rel4 by blast+
      have "flow ?fr ?fs s d [] s'" using flow_trans [OF f4 idle_flow [OF k5(2)]] by simp
      moreover have "keeps v p s s'" using keeps_trans k2(1) k4(1) k5(1) by blast
      moreover have "v_buff (s_ev s' v) = Some (b\<lparr>b_data := data\<rparr>)" using k2(2) k4(3) k5(3) by simp
      ultimately show ?thesis using n md data by (intro exI [of _ d]) auto
    qed
  qed
qed

text \<open>One call of \<open>tcp_send_hook\<close> on the client: as plain as \<open>send\<close>.\<close>

lemma tcp_send_client:
  assumes ts: "tcp_send_hook p v np wait s = Some (sn, n, wait', s')" and rel: "relay v p s"
    and b: "v_buff (s_ev s v) = Some b" and d: "d = take (nat (n - b_offset b)) (drop (nat (b_offset b)) (b_data b))"
  shows "n = (case np of None \<Rightarrow> b_lock b | Some n \<Rightarrow> n)" "wait' = wait" "0 \<le> b_offset b"
    "\<exists>ys. flow (v_fd (s_ev s v)) (v_fd (s_ev s p)) s [] ys s' \<and>
      (sn < 0 \<longrightarrow> ys = []) \<and> (sn \<ge> 0 \<longrightarrow> keeps v p s s' \<and> v_buff (s_ev s' v) = Some b \<and> ys = take (nat sn) d \<and>
         sn \<le> n - b_offset b \<and> int (length d) = n - b_offset b)"
proof -
  define m where "m = (case np of None \<Rightarrow> b_lock b | Some n \<Rightarrow> n)"
  have fl: "v_flag (s_ev s p) \<noteq> FLAG_CONN" "v_pair (s_ev s p) = Some v" using rel by (simp_all add: relay_def)
  obtain x where x: "rdn (b_data b) (b_offset b) (m - b_offset b) = Some x"
    using ts fl(1) by (cases "rdn (b_data b) (b_offset b) (m - b_offset b)")
      (simp_all add: tcp_send_hook_def b m_def plain_send_def Let_def)
  obtain k s1 where k: "sys_send (v_fd (s_ev s p)) x False s = (k, s1)" by (cases "sys_send (v_fd (s_ev s p)) x False s")
  have res: "(if k < 0 \<and> s_errno s1 = EAGAIN then Some (0, m, wait, s1)
       else if k < 0 then do { (x, s) \<leftarrow> handle_err p (s_errno s1) s1; Some (x, m, wait, s) }
       else do {
         p \<leftarrow> v_pair (s_ev s1 p);
         Some (k, m, wait, upd_ev p (\<lambda>e. e\<lparr>v_round_sent := v_round_sent e + k\<rparr>) s1) }) = Some (sn, n, wait', s')"
    using ts fl(1) x k by (simp add: tcp_send_hook_def b m_def [symmetric] plain_send_def Let_def)
  have nm: "n = m" "wait' = wait"
    using res by (auto simp: bind_eq_Some_conv split: if_splits)
  show "n = (case np of None \<Rightarrow> b_lock b | Some n \<Rightarrow> n)" "wait' = wait" using nm by (simp_all add: m_def)
  show "0 \<le> b_offset b" using x by (auto simp: rdn_def split: if_splits)
  note fs = flow_send(1) [OF k, of "v_fd (s_ev s v)"] flow_send(2-) [OF k]
  have rel1: "relay v p s1" using rel fs(2,3) by (simp add: relay_def)
  have xd: "x = d" "int (length d) = n - b_offset b"
    using x d nm(1) by (auto simp: rdn_def split: if_splits)
  let ?P = "\<lambda>ys. flow (v_fd (s_ev s v)) (v_fd (s_ev s p)) s [] ys s' \<and>
      (sn < 0 \<longrightarrow> ys = []) \<and> (sn \<ge> 0 \<longrightarrow> keeps v p s s' \<and> v_buff (s_ev s' v) = Some b \<and> ys = take (nat sn) d \<and>
         sn \<le> n - b_offset b \<and> int (length d) = n - b_offset b)"
  consider "k < 0" "s_errno s1 = EAGAIN" | "k < 0" "s_errno s1 \<noteq> EAGAIN" | "k \<ge> 0" by linarith
  then have "\<exists>ys. ?P ys"
  proof cases
    case 1
    then have "sn = 0" "s' = s1" using res by simp_all
    moreover have "keeps v p s s1" using rel1 fs(2) by (simp add: keeps_def)
    ultimately have "?P []" using fs(1,2) 1 b xd(2) by simp
    then show ?thesis ..
  next
    case 2
    then have "handle_err p (s_errno s1) s1 = Some (sn, s')" using res by (auto simp: bind_eq_Some_conv)
    then have h: "sn = - 1" "idle_io s1 s'" using handle_err_relay [OF _ rel1] by blast+
    have "flow (v_fd (s_ev s v)) (v_fd (s_ev s p)) s [] [] s1" using fs(1) 2 by simp
    from flow_trans [OF this idle_flow [OF h(2)]] have "?P []" using h(1) by simp
    then show ?thesis ..
  next
    case 3
    then have e: "sn = k" "s' = upd_ev v (\<lambda>e. e\<lparr>v_round_sent := v_round_sent e + k\<rparr>) s1"
      using res fl(2) fs(2) by auto
    have m: "mild v p s1 s'" unfolding e(2) by (rule mild_upd) simp
    have f: "flow (v_fd (s_ev s v)) (v_fd (s_ev s p)) s [] (take (nat k) d) s'"
      using flow_trans [OF fs(1) idle_flow, of s'] mild_relay [OF m rel1] xd(1) by simp
    have kp: "keeps v p s s'" "v_buff (s_ev s' v) = Some b"
      using mild_relay [OF m rel1] fs(2) b by (simp_all add: keeps_def)
    have "?P (take (nat k) d)" using f kp e(1) 3 fs(4) xd by simp
    then show ?thesis ..
  qed
  then show "\<exists>ys. ?P ys" .
qed

section \<open>The tunnel\<close>

text \<open>What waits in the buffer of a connection.\<close>

definition pending :: "st \<Rightarrow> nat \<Rightarrow> byte list" where
  "pending s v =
     (case v_buff (s_ev s v) of
        None \<Rightarrow> []
      | Some b \<Rightarrow> take (nat (b_lock b - b_offset b)) (drop (nat (b_offset b)) (b_data b)))"

text \<open>A part of the tunnel that starts with \<open>w\<close> waiting: what it receives is appended, what the client
  accepts is taken from the front.\<close>

definition relays :: "nat \<Rightarrow> nat \<Rightarrow> byte list \<Rightarrow> st \<Rightarrow> int \<Rightarrow> st \<Rightarrow> bool" where
  "relays v p w s r s' \<longleftrightarrow>
     (\<exists>xs ys rest. flow (v_fd (s_ev s v)) (v_fd (s_ev s p)) s xs ys s' \<and> w @ xs = ys @ rest \<and>
        (r = 0 \<longrightarrow> relay v p s' \<and> rest = pending s' v))"

lemma mild_mod_etype: "mod_etype u x s = Some (r, s') \<Longrightarrow> mild v p s s'"
  using mild_sys [of "CEpollMod (v_fd (s_ev s u)) x" v p s]
  by (auto simp: mod_etype_def case_prod_unfold Let_def split: if_splits)

lemma mild_mod_both:
  assumes "mod_both a x b y s = Some (e, s')"
  shows "mild v p s s'"
proof -
  obtain r s1 where 1: "mod_etype a x s = Some (r, s1)" using assms by (cases "mod_etype a x s") (auto simp: mod_both_def)
  show ?thesis
  proof (cases "r = 0")
    case True
    then obtain r2 where "mod_etype b y s1 = Some (r2, s')" using assms 1 by (auto simp: mod_both_def bind_eq_Some_conv)
    then show ?thesis using mild_trans [OF mild_mod_etype [OF 1] mild_mod_etype] by blast
  next
    case False
    then show ?thesis using assms 1 mild_mod_etype by (auto simp: mod_both_def)
  qed
qed

lemma drop_buff_keeps:
  assumes "relay v p s"
  shows "keeps v p s (drop_buff v s) \<and> idle_io s (drop_buff v s) \<and> v_buff (s_ev (drop_buff v s) v) = None"
  using assms by (auto simp: drop_buff_def buff_push_def keeps_def relay_def split: option.split intro!: idle_same)

lemma relays_idle:
  assumes "idle_io s1 s2" "flow (v_fd (s_ev s v)) (v_fd (s_ev s p)) s xs ys s1" "w @ xs = ys @ rest"
    "r = 0 \<Longrightarrow> relay v p s2 \<and> rest = pending s2 v"
  shows "relays v p w s r s2"
proof -
  have "flow (v_fd (s_ev s v)) (v_fd (s_ev s p)) s xs ys s2"
    using flow_trans [OF assms(2) idle_flow [OF assms(1)]] by simp
  then show ?thesis unfolding relays_def using assms(3,4) by blast
qed

lemma relays_then:
  assumes "flow (v_fd (s_ev s v)) (v_fd (s_ev s p)) s xs ys s1" "w @ xs = ys @ u" "keeps v p s s1" "relays v p u s1 r s2"
  shows "relays v p w s r s2"
proof -
  obtain xs' ys' rest where 2: "flow (v_fd (s_ev s v)) (v_fd (s_ev s p)) s1 xs' ys' s2" "u @ xs' = ys' @ rest"
    "r = 0 \<longrightarrow> relay v p s2 \<and> rest = pending s2 v"
    using assms(3,4) by (auto simp: relays_def keeps_def)
  have "w @ (xs @ xs') = (w @ xs) @ xs'" by simp
  also have "\<dots> = ys @ (u @ xs')" using assms(2) by simp
  also have "\<dots> = (ys @ ys') @ rest" using 2(2) by simp
  finally have "w @ (xs @ xs') = (ys @ ys') @ rest" .
  then show ?thesis unfolding relays_def using flow_trans [OF assms(1) 2(1)] 2(3) by blast
qed

text \<open>The buffer that waits is sent first.\<close>

lemma flush_buff_relays:
  assumes fb: "flush_buff v p s = Some (r, s')" and rel: "relay v p s"
  shows "case r of
      Some r \<Rightarrow> relays v p (pending s v) s r s'
    | None \<Rightarrow> flow (v_fd (s_ev s v)) (v_fd (s_ev s p)) s [] (pending s v) s' \<and> keeps v p s s'"
proof (cases "v_buff (s_ev s v)")
  case None
  then show ?thesis using fb rel by (auto simp: flush_buff_def pending_def keeps_refl intro: idle_flow)
next
  case (Some b)
  obtain sn n wait s1 where ts: "tcp_send_hook p v None False s = Some (sn, n, wait, s1)"
    using fb Some by (cases "tcp_send_hook p v None False s") (auto simp: flush_buff_def)
  have pd: "pending s v = take (nat (n - b_offset b)) (drop (nat (b_offset b)) (b_data b))" and n: "n = b_lock b" "wait = False" "0 \<le> b_offset b"
    using tcp_send_client(1,2,3) [OF ts rel Some refl] Some by (simp_all add: pending_def)
  obtain ys where ys: "flow (v_fd (s_ev s v)) (v_fd (s_ev s p)) s [] ys s1" "sn < 0 \<longrightarrow> ys = []"
    "sn \<ge> 0 \<longrightarrow> keeps v p s s1 \<and> v_buff (s_ev s1 v) = Some b \<and> ys = take (nat sn) (pending s v) \<and>
         sn \<le> n - b_offset b \<and> int (length (pending s v)) = n - b_offset b"
    using tcp_send_client(4) [OF ts rel Some refl] unfolding pd by blast
  consider "sn < 0" | "sn \<ge> 0" "sn < n - b_offset b" | "sn \<ge> 0" "\<not> sn < n - b_offset b" by linarith
  then show ?thesis
  proof cases
    case 1
    then have e: "r = Some (- 1)" "s' = s1" using fb Some ts n by (simp_all add: flush_buff_def)
    have "relays v p (pending s v) s (- 1) s1"
      by (rule relays_idle [OF idle_refl ys(1), of _ "pending s v"]) (use 1 ys(2) in simp_all)
    then show ?thesis using e by simp
  next
    case 2
    have k: "keeps v p s s1" "v_buff (s_ev s1 v) = Some b" "ys = take (nat sn) (pending s v)" using ys(3) 2(1) by simp_all
    have e: "r = Some 0" "s' = upd_ev v (\<lambda>e. e\<lparr>v_buff := Some (b\<lparr>b_offset := b_offset b + sn\<rparr>)\<rparr>) s1"
      using fb Some ts n 2 k(2) by (simp_all add: flush_buff_def set_buff_def)
    have "nat (b_offset b + sn) = nat (b_offset b) + nat sn" "nat (n - (b_offset b + sn)) = nat (n - b_offset b) - nat sn"
      using n(3) 2 by linarith+
    then have "pending s' v = drop (nat sn) (pending s v)"
      unfolding pd using e(2) n(1) by (simp add: pending_def drop_take add.commute)
    moreover have "keeps v p s1 s'" "idle_io s1 s'" using k(1) e(2) upd_ev_io by (auto simp: keeps_def relay_def)
    ultimately have "relays v p (pending s v) s 0 s'"
      by (intro relays_idle [OF _ ys(1), of _ _ "drop (nat sn) (pending s v)"]) (simp_all add: k(3) keeps_def)
    then show ?thesis using e(1) by simp
  next
    case 3
    then have "nat sn = length (pending s v)" using ys(3) by linarith
    then have k: "keeps v p s s1" "ys = pending s v" using ys(3) 3 by simp_all
    have rel1: "relay v p s1" using k(1) by (simp add: keeps_def)
    define s2 where "s2 = drop_buff v s1"
    have k2: "keeps v p s1 s2" "idle_io s1 s2" "v_buff (s_ev s2 v) = None" using drop_buff_keeps [OF rel1] by (simp_all add: s2_def)
    obtain e where e: "mod_both v POLLIN p POLLIN s2 = Some (e, s')" "r = (if e then Some (- 1) else None)"
      using fb Some ts n 3 by (cases "mod_both v POLLIN p POLLIN s2") (auto simp: flush_buff_def s2_def)
    have rel2: "relay v p s2" using k2(1) by (simp add: keeps_def)
    have k3: "keeps v p s2 s'" "idle_io s2 s'"
      using mild_relay [OF mild_mod_both [OF e(1)] rel2] by simp_all
    have i: "idle_io s1 s'" using idle_trans k2(2) k3(2) by blast
    have f: "flow (v_fd (s_ev s v)) (v_fd (s_ev s p)) s [] (pending s v) s'"
      using flow_trans [OF ys(1) idle_flow [OF i]] k(2) by simp
    show ?thesis
    proof (cases e)
      case True
      have "relays v p (pending s v) s (- 1) s'"
        by (rule relays_idle [OF i ys(1), of _ "[]"]) (simp_all add: k(2))
      then show ?thesis using e(2) True by simp
    next
      case False
      then show ?thesis using e(2) f keeps_trans keeps_trans k(1) k2(1) k3(1) by (simp add: keeps_def)
    qed
  qed
qed

text \<open>Then it goes back and forth.\<close>

definition pump_ok :: "nat \<Rightarrow> nat \<Rightarrow> bool \<Rightarrow> st \<Rightarrow> int \<times> st \<Rightarrow> bool" where
  "pump_ok v p wait s y \<longleftrightarrow> relay v p s \<and> (\<exists>b. v_buff (s_ev s v) = Some b \<and> b_offset b = 0) \<and> \<not> wait \<longrightarrow>
     relays v p [] s (fst y) (snd y)"

text \<open>What happens with \<open>d\<close>, just received.\<close>

lemma pump_send:
  assumes IH: "\<And>v p bsize wait s y. f v p bsize wait s = Some y \<Longrightarrow> pump_ok v p wait s y"
    and eq: "do {
       (sn, n, wait, s) \<leftarrow> tcp_send_hook p v (Some n) False s;
       if sn < 0 then Some (- 1, s)
       else if sn < n \<or> wait then do {
         s \<leftarrow> set_buff v (\<lambda>b. b\<lparr>b_lock := n, b_offset := sn\<rparr>) s;
         (e, s) \<leftarrow> mod_both v 0 p (if wait then 0 else POLLOUT) s;
         Some (if e then - 1 else 0, s) }
       else if n = bsize then f v p bsize wait s
       else Some (0, drop_buff v s) } = Some y"
    and rel: "relay v p s" and b: "v_buff (s_ev s v) = Some b" "b_offset b = 0"
    and d: "d = take (nat n) (b_data b)" "n > 0"
  shows "relays v p d s (fst y) (snd y)"
proof -
  obtain sn n' wait s2 where ts: "tcp_send_hook p v (Some n) False s = Some (sn, n', wait, s2)"
    using eq by (cases "tcp_send_hook p v (Some n) False s") auto
  have n: "n' = n" "wait = False" using tcp_send_client(1,2) [OF ts rel b(1) refl] by simp_all
  have dd: "d = take (nat (n' - b_offset b)) (drop (nat (b_offset b)) (b_data b))" using d b(2) n by simp
  obtain ys where ys: "flow (v_fd (s_ev s v)) (v_fd (s_ev s p)) s [] ys s2" "sn < 0 \<longrightarrow> ys = []"
    "sn \<ge> 0 \<longrightarrow> keeps v p s s2 \<and> v_buff (s_ev s2 v) = Some b \<and> ys = take (nat sn) d \<and> sn \<le> n \<and> int (length d) = n"
    using tcp_send_client(4) [OF ts rel b(1) dd] b(2) n(1) by auto
  note eq' = eq [unfolded ts Option.bind.simps(2) prod.case n]
  consider "sn < 0" | "sn \<ge> 0" "sn < n" | "sn \<ge> 0" "\<not> sn < n" by linarith
  then show ?thesis
  proof cases
    case 1
    then have y: "y = (- 1, s2)" using eq' by simp
    show ?thesis unfolding y fst_conv snd_conv
      by (rule relays_idle [OF idle_refl ys(1), of _ d]) (use ys(2) 1 in simp_all)
  next
    case 2
    have k: "keeps v p s s2" "v_buff (s_ev s2 v) = Some b" "ys = take (nat sn) d" using ys(3) 2(1) by simp_all
    define s3 where "s3 = upd_ev v (\<lambda>e. e\<lparr>v_buff := Some (b\<lparr>b_lock := n, b_offset := sn\<rparr>)\<rparr>) s2"
    have "set_buff v (\<lambda>b. b\<lparr>b_lock := n, b_offset := sn\<rparr>) s2 = Some s3" using k(2) by (simp add: set_buff_def s3_def)
    then obtain e s4 where e: "mod_both v 0 p POLLOUT s3 = Some (e, s4)" "y = (if e then - 1 else 0, s4)"
      using eq' 2 by (cases "mod_both v 0 p POLLOUT s3") auto
    have k3: "keeps v p s2 s3" "idle_io s2 s3" using k(1) upd_ev_io by (auto simp: s3_def keeps_def relay_def)
    have "relay v p s3" using k3(1) by (simp add: keeps_def)
    then have k4: "relay v p s4" "idle_io s3 s4" "v_buff (s_ev s4 v) = v_buff (s_ev s3 v)"
      using mild_relay [OF mild_mod_both [OF e(1)]] by (simp_all add: keeps_def)
    have pe: "pending s4 v = drop (nat sn) d"
      using k4(3) 2 d(1) by (simp add: pending_def s3_def drop_take nat_diff_distrib)
    show ?thesis unfolding e(2) fst_conv snd_conv
      by (rule relays_idle [OF idle_trans [OF k3(2) k4(2)] ys(1), of _ "drop (nat sn) d"]) (simp_all add: k(3) k4(1) pe)
  next
    case 3
    then have "nat sn = length d" using ys(3) by linarith
    then have k: "keeps v p s s2" "v_buff (s_ev s2 v) = Some b" "ys = d" using ys(3) 3 by simp_all
    have rel2: "relay v p s2" using k(1) by (simp add: keeps_def)
    show ?thesis
    proof (cases "n = bsize")
      case True
      then have "f v p bsize False s2 = Some y" using eq' 3 by simp
      from IH [OF this] have "relays v p [] s2 (fst y) (snd y)" using rel2 k(2) b(2) by (simp add: pump_ok_def)
      then show ?thesis using relays_then [OF ys(1), of d "[]"] k by simp
    next
      case False
      then have y: "y = (0, drop_buff v s2)" using eq' 3 by simp
      have dk: "relay v p (drop_buff v s2)" "idle_io s2 (drop_buff v s2)" "pending (drop_buff v s2) v = []"
        using drop_buff_keeps [OF rel2] by (simp_all add: pending_def keeps_def)
      show ?thesis unfolding y fst_conv snd_conv
        by (rule relays_idle [OF dk(2) ys(1), of _ "[]"]) (simp_all add: k(3) dk)
    qed
  qed
qed

lemma pump_step:
  assumes IH: "\<And>v p bsize wait s y. f v p bsize wait s = Some y \<Longrightarrow> pump_ok v p wait s y"
    and eq: "do {
     (n, s) \<leftarrow> tcp_recv_hook v s;
     if n = 0 then Some (0, drop_buff v s)
     else if n < 0 then Some (- 1, s)
     else do {
       (sn, n, wait, s) \<leftarrow> tcp_send_hook p v (Some n) wait s;
       if sn < 0 then Some (- 1, s)
       else if sn < n \<or> wait then do {
         s \<leftarrow> set_buff v (\<lambda>b. b\<lparr>b_lock := n, b_offset := sn\<rparr>) s;
         (e, s) \<leftarrow> mod_both v 0 p (if wait then 0 else POLLOUT) s;
         Some (if e then - 1 else 0, s) }
       else if n = bsize then f v p bsize wait s
       else Some (0, drop_buff v s) } } = Some y"
  shows "pump_ok v p wait s y"
  unfolding pump_ok_def
proof (intro impI, elim conjE exE)
  fix b
  assume rel: "relay v p s" and b: "v_buff (s_ev s v) = Some b" "b_offset b = 0" and w: "\<not> wait"
  let ?fr = "v_fd (s_ev s v)" and ?fs = "v_fd (s_ev s p)"
  obtain n s1 where rv: "tcp_recv_hook v s = Some (n, s1)" using eq by (cases "tcp_recv_hook v s") auto
  obtain d where f1: "flow ?fr ?fs s d [] s1" and
    k1: "n \<ge> 0 \<longrightarrow> keeps v p s s1 \<and> int (length d) = n \<and>
      (\<exists>data. v_buff (s_ev s1 v) = Some (b\<lparr>b_data := data\<rparr>) \<and> take (nat n) data = d \<and> (n > 0 \<longrightarrow> n \<le> int (length data)))"
    using tcp_recv_server [OF rv rel b(1)] by blast
  note eq' = eq [unfolded rv Option.bind.simps(2) prod.case]
  consider "n = 0" | "n < 0" | "n > 0" by linarith
  then show "relays v p [] s (fst y) (snd y)"
  proof cases
    case 1
    have y: "y = (0, drop_buff v s1)" using eq' 1 by simp
    have k: "relay v p s1" "d = []" using k1 1 by (simp_all add: keeps_def)
    have dk: "relay v p (drop_buff v s1)" "idle_io s1 (drop_buff v s1)" "pending (drop_buff v s1) v = []"
      using drop_buff_keeps [OF k(1)] by (simp_all add: pending_def keeps_def)
    show ?thesis unfolding y fst_conv snd_conv
      by (rule relays_idle [OF dk(2) f1, of _ "[]"]) (simp_all add: k(2) dk)
  next
    case 2
    have y: "y = (- 1, s1)" using eq' 2 by simp
    show ?thesis unfolding y fst_conv snd_conv by (rule relays_idle [OF idle_refl f1, of _ d]) simp_all
  next
    case 3
    obtain data where k: "keeps v p s s1" "v_buff (s_ev s1 v) = Some (b\<lparr>b_data := data\<rparr>)" "take (nat n) data = d"
      using k1 3 by auto
    have "\<not> n = 0" "\<not> n < 0" using 3 by simp_all
    note eq3 = eq' [unfolded if_not_P [OF this(1)] if_not_P [OF this(2)]]
    have "wait = False" using w by simp
    have "relays v p d s1 (fst y) (snd y)"
      by (rule pump_send [where f = f and bsize = bsize, OF IH eq3 [unfolded \<open>wait = False\<close>], where b = "b\<lparr>b_data := data\<rparr>"])
        (use k b(2) 3 in \<open>simp_all add: keeps_def\<close>)
    then show ?thesis using relays_then [OF f1, of "[]" d] k(1) by simp
  qed
qed

lemma pump_relays:
  assumes "pump v p bsize wait s = Some (r, s')" "relay v p s" "v_buff (s_ev s v) = Some b" "b_offset b = 0" "\<not> wait"
  shows "relays v p [] s r s'"
proof -
  have "pump_ok v p wait s (r, s')"
    apply (rule pump.raw_induct [where P = "\<lambda>v p bsize wait s y. pump_ok v p wait s y", OF _ assms(1)])
    subgoal for f v p bsize wait s y by (rule pump_step [where f = f and bsize = bsize])
    done
  then show ?thesis using assms(2-5) by (simp add: pump_ok_def)
qed

text \<open>C2: The tunnel is a faithful pipe. When the callback on_tunnel runs for the server that has data or for
  the client that can take more, and the client has no request left that could be sent again, then
  what waited in the buffer followed by what was received from the server is what the client accepted followed
  by a rest: nothing is lost, added, repeated or reordered. When on_tunnel returns 0, the connection is
  still of this kind, and the rest is exactly what now waits in the buffer.\<close>

theorem tunnel_relays:
  assumes "on_tunnel x ty s = Some (r, s')" "relay v p s" "x = v \<and> ty = POLLIN \<or> x = p \<and> ty = POLLOUT"
  shows "\<exists>xs ys rest. flow (v_fd (s_ev s v)) (v_fd (s_ev s p)) s xs ys s' \<and> pending s v @ xs = ys @ rest \<and>
    (r = 0 \<longrightarrow> relay v p s' \<and> rest = pending s' v)"
proof -
  have pr: "v_pair (s_ev s v) = Some p" "v_pair (s_ev s p) = Some v" using assms(2) by (simp_all add: relay_def)
  have fl: "ty \<noteq> POLLTIMEOUT" "has_flag POLLIN POLLOUT = False" "has_flag POLLOUT POLLOUT"
    using assms(3) by (auto simp: has_flag_def POLLIN_def POLLOUT_def POLLTIMEOUT_def)
  have "do {
       (r, s) \<leftarrow> flush_buff v p s;
       (case r of
          Some r \<Rightarrow> Some (r, s)
        | None \<Rightarrow>
            (let (b, s) = buff_pop (g_bfsize (s_par s)) s in
             pump v p (b_size b) False (upd_ev v (\<lambda>e. e\<lparr>v_buff := Some b\<rparr>) s))) } = Some (r, s')"
    using assms(1,3) pr fl by (auto simp: on_tunnel_def)
  then obtain r1 s1 where fb: "flush_buff v p s = Some (r1, s1)" and
    rest: "(case r1 of
          Some r \<Rightarrow> Some (r, s1)
        | None \<Rightarrow>
            (let (b, s) = buff_pop (g_bfsize (s_par s1)) s1 in
             pump v p (b_size b) False (upd_ev v (\<lambda>e. e\<lparr>v_buff := Some b\<rparr>) s))) = Some (r, s')"
    by (cases "flush_buff v p s") auto
  note fbr = flush_buff_relays [OF fb assms(2)]
  have "relays v p (pending s v) s r s'"
  proof (cases r1)
    case (Some q)
    then show ?thesis using fbr rest by simp
  next
    case None
    then have 1: "flow (v_fd (s_ev s v)) (v_fd (s_ev s p)) s [] (pending s v) s1" "keeps v p s s1" using fbr by simp_all
    obtain b s2 where b: "buff_pop (g_bfsize (s_par s1)) s1 = (b, s2)" by (cases "buff_pop (g_bfsize (s_par s1)) s1")
    define s3 where "s3 = upd_ev v (\<lambda>e. e\<lparr>v_buff := Some b\<rparr>) s2"
    have b0: "b_offset b = 0" "keeps v p s1 s3" "idle_io s1 s3"
      using b 1(2) by (auto simp: buff_pop_def keeps_def relay_def s3_def split: list.splits intro!: idle_same)
    have pu: "pump v p (b_size b) False s3 = Some (r, s')" using rest None b by (simp add: s3_def)
    have f3: "flow (v_fd (s_ev s v)) (v_fd (s_ev s p)) s [] (pending s v) s3"
      using flow_trans [OF 1(1) idle_flow [OF b0(3)]] by simp
    have "relay v p s3" using b0(2) by (simp add: keeps_def)
    then have "relays v p [] s3 r s'" using pump_relays [OF pu, of b] b0(1) by (simp add: s3_def)
    then show ?thesis using relays_then [OF f3, of _ "[]"] keeps_trans [OF 1(2) b0(2)] by simp
  qed
  then show ?thesis by (simp add: relays_def)
qed

text \<open>The server sends three bytes, of which the client takes two.\<close>

definition tunnel_st :: st where
  "tunnel_st = (let s = st0 (\<lambda>k. [res0\<lparr>r_ret := 3, r_data := [1, 2, 3]\<rparr>, res0\<lparr>r_ret := 2\<rparr>, res0, res0] ! k) in
     s\<lparr>s_par := par0\<lparr>g_bfsize := 4\<rparr>,
       s_ev := (\<lambda>_. eval0)(0 := eval0\<lparr>v_fd := 5, v_flag := FLAG_S5, v_pair := Some 1, v_recv_count := 9\<rparr>,
         1 := eval0\<lparr>v_fd := 6, v_flag := FLAG_CONN, v_pair := Some 0, v_round_sent := 1\<rparr>)\<rparr>)"

declare pump.simps [code]

lemma tunnel_st_result:
  "case on_tunnel 1 POLLIN tunnel_st of None \<Rightarrow> False | Some (r, s') \<Rightarrow> r = 0 \<and> pending s' 1 = [3]"
  by code_simp

lemma tunnel_relays_witness:
  "\<exists>s' xs ys. on_tunnel 1 POLLIN tunnel_st = Some (0, s') \<and> relay 1 0 tunnel_st \<and> pending tunnel_st 1 = [] \<and>
     flow 6 5 tunnel_st xs ys s' \<and> xs = ys @ [3] \<and> relay 1 0 s'"
proof -
  obtain s' where s': "on_tunnel 1 POLLIN tunnel_st = Some (0, s')" "pending s' 1 = [3]"
    using tunnel_st_result by (auto split: option.splits)
  have rel: "relay 1 0 tunnel_st" "pending tunnel_st 1 = []" "v_fd (s_ev tunnel_st 1) = 6" "v_fd (s_ev tunnel_st 0) = 5"
    by (simp_all add: relay_def tunnel_st_def Let_def st0_def pending_def FLAG_CONN_def FLAG_S5_def eval0_def)
  show ?thesis using tunnel_relays [OF s'(1) rel(1)] rel s' by auto
qed

end
