(* ===== verification/OptionsSpec.thy ===== *)
theory OptionsSpec
  imports Options GroupSpec
begin

unbundle bit_operations_syntax

text \<open>
  What \<open>parse_args\<close> leaves: a well linked list of groups with a bit each, which the searches of
  \<open>src/extend.c\<close> rely on, and in it a group without limits.
\<close>

section \<open>What the options keep\<close>

definition links_of :: "dparams \<Rightarrow> int \<times> 64 word \<times> nat option \<times> nat option" where
  "links_of g = (d_id g, d_bit g, d_prev g, d_next g)"

text \<open>No filter at all: every connection is accepted.\<close>

definition unlimited :: "dparams \<Rightarrow> bool" where
  "unlimited g \<longleftrightarrow> d_hosts g = None \<and> d_proto g = 0 \<and> fst (d_pf g) = 0 \<and> d_detect g = 0 \<and> d_ipset g = None"

text \<open>The same list of groups, and the same limits but for the current group.\<close>

definition same_groups :: "opts \<Rightarrow> opts \<Rightarrow> bool" where
  "same_groups a a' \<longleftrightarrow>
     a_dpn a' = a_dpn a \<and> a_dp a' = a_dp a \<and> a_all_limited a' = a_all_limited a \<and>
     g_dp (s_par (a_st a')) = g_dp (s_par (a_st a)) \<and>
     g_dp_full_mask (s_par (a_st a')) = g_dp_full_mask (s_par (a_st a)) \<and>
     (\<forall>d. links_of (s_dp (a_st a') d) = links_of (s_dp (a_st a) d)) \<and>
     (\<forall>d. d \<noteq> a_dp a \<longrightarrow> unlimited (s_dp (a_st a') d) = unlimited (s_dp (a_st a) d))"

named_theorems sg \<open>steps that keep the groups\<close>

lemma sg_refl [sg]: "same_groups a a"
  by (simp add: same_groups_def)

lemma sg_trans: "same_groups a b \<Longrightarrow> same_groups b c \<Longrightarrow> same_groups a c"
  by (simp add: same_groups_def)

lemma sg_bad [sg]: "same_groups a b \<Longrightarrow> same_groups a (bad b)"
  by (simp add: same_groups_def bad_def)

lemma sg_bad_id [sg]: "same_groups a b \<Longrightarrow> same_groups a ((if x then bad else id) b)"
  by (simp add: sg_bad)

lemma sg_if [sg]: "same_groups a b \<Longrightarrow> same_groups a c \<Longrightarrow> same_groups a (if x then b else c)"
  by simp

lemma sg_par [sg]:
  "same_groups a b \<Longrightarrow> (\<And>g. g_dp (f g) = g_dp g \<and> g_dp_full_mask (f g) = g_dp_full_mask g) \<Longrightarrow>
     same_groups a (upd_par f b)"
  by (simp add: same_groups_def upd_par_def upd_st_def)

lemma sg_cur [sg]:
  "same_groups a b \<Longrightarrow> (\<And>g. links_of (f g) = links_of g) \<Longrightarrow> same_groups a (upd_cur f b)"
  by (simp add: same_groups_def upd_cur_def upd_st_def upd_dp_def)

text \<open>A new value of the current group, computed from the old one.\<close>

lemma sg_set_cur: "same_groups a b \<Longrightarrow> links_of g = links_of (cur b) \<Longrightarrow> same_groups a (upd_cur (\<lambda>_. g) b)"
  by (simp add: same_groups_def upd_cur_def upd_st_def upd_dp_def cur_def)

lemma sg_st: "same_groups a b \<Longrightarrow> s_dp s = s_dp (a_st b) \<Longrightarrow> s_par s = s_par (a_st b) \<Longrightarrow> same_groups a (b\<lparr>a_st := s\<rparr>)"
  by (simp add: same_groups_def)

lemma sg_fields [sg]:
  "same_groups a b \<Longrightarrow> same_groups a (b\<lparr>a_laddr := x1\<rparr>)"
  "same_groups a b \<Longrightarrow> same_groups a (b\<lparr>a_daemonize := x2\<rparr>)"
  "same_groups a b \<Longrightarrow> same_groups a (b\<lparr>a_pid_file := x3\<rparr>)"
  "same_groups a b \<Longrightarrow> same_groups a (b\<lparr>a_optind := x4\<rparr>)"
  "same_groups a b \<Longrightarrow> same_groups a (b\<lparr>a_str := x5\<rparr>)"
  "same_groups a b \<Longrightarrow> same_groups a (b\<lparr>a_cache_file := x6\<rparr>)"
  "same_groups a b \<Longrightarrow> same_groups a (b\<lparr>a_curr_optind := x7\<rparr>)"
  by (simp_all add: same_groups_def)

lemma addr_host_frame: "addr_host b i e addr s = Some (r, s') \<Longrightarrow> s_dp s' = s_dp s \<and> s_par s' = s_par s"
  by (auto simp: addr_host_def Let_def bind_eq_Some_conv case_prod_unfold split: if_splits)

lemma get_addr_frame:
  assumes "get_addr b addr s = Some (r, x, s')"
  shows "s_dp s' = s_dp s \<and> s_par s' = s_par s"
proof -
  obtain c where c: "rd b 0 = Some c" using assms by (cases "rd b 0") (simp_all add: get_addr_def)
  obtain e where e: "(if c = 91 then strchr b 0 93 else Some None) = Some e"
    using assms c by (cases "if c = 91 then strchr b 0 93 else Some None") (simp_all add: get_addr_def)
  show ?thesis
  proof (cases "c = 91 \<and> e = None")
    case True
    then show ?thesis using assms c e by (simp add: get_addr_def)
  next
    case False
    note eq = assms [unfolded get_addr_def c Option.bind.simps(2) e if_not_P [OF False]]
    obtain p where p: "strchr b (case e of None \<Rightarrow> 0 | Some e \<Rightarrow> e + 1) 58 = Some p"
      using eq by (cases "strchr b (case e of None \<Rightarrow> 0 | Some e \<Rightarrow> e + 1) 58") simp_all
    obtain pe where pe: "addr_port b p e = Some pe" using eq p by (cases "addr_port b p e") simp_all
    show ?thesis
    proof (cases pe)
      case None
      then show ?thesis using eq p pe by simp
    next
      case (Some z)
      obtain port e1 where z: "z = (port, e1)" by (cases z)
      obtain e2 where e2: "(if e1 = None then strchr b 0 0 else Some e1) = Some e2"
        using eq p pe Some z by (cases "if e1 = None then strchr b 0 0 else Some e1") simp_all
      obtain e3 where e3: "e2 = Some e3" using eq p pe Some z e2 by (cases e2) simp_all
      obtain a s1 where a: "addr_host b (if c = 91 then 1 else 0) e3 addr s = Some (a, s1)"
        using eq p pe Some z e2 e3 by (cases "addr_host b (if c = 91 then 1 else 0) e3 addr s") auto
      have "s' = s1" using eq p pe Some z e2 e3 a by (cases a) auto
      then show ?thesis using addr_host_frame [OF a] by simp
    qed
  qed
qed

lemma get_addr_scheme_frame: "get_addr_scheme b addr s = Some (r, x, s') \<Longrightarrow> s_dp s' = s_dp s \<and> s_par s' = s_par s"
  by (auto simp: get_addr_scheme_def bind_eq_Some_conv dest: get_addr_frame)

section \<open>The options one by one\<close>

lemma sg_flag: "same_groups a (opt_flag c b a)"
  unfolding opt_flag_def by (intro sg) (simp_all add: links_of_def)

lemma sg_number: "same_groups a (set_number c v z a)"
  unfolding set_number_def set_port_def set_sizes_def set_cache_def set_ttl_def set_tls_udp_def set_def_ttl_def Let_def
  by (intro sg) (simp_all add: links_of_def)

lemma sg_opt_number: "opt_number c b a = Some a' \<Longrightarrow> same_groups a a'"
  by (auto simp: opt_number_def bind_eq_Some_conv sg_number)

lemma sg_await: "opt_await b a = Some a' \<Longrightarrow> same_groups a a'"
  by (auto simp: opt_await_def bind_eq_Some_conv intro!: sg)

lemma sg_range:
  assumes "opt_range lim both one b a = Some a'"
    "\<And>v w g. links_of (both v w g) = links_of g" "\<And>v g. links_of (one v g) = links_of g"
  shows "same_groups a a'"
  using assms by (auto simp: opt_range_def bind_eq_Some_conv Let_def split: if_splits intro!: sg)

lemma sg_ports: "opt_ports b a = Some a' \<Longrightarrow> same_groups a a'"
  unfolding opt_ports_def by (erule sg_range) (simp_all add: links_of_def)

lemma sg_rounds: "opt_rounds b a = Some a' \<Longrightarrow> same_groups a a'"
  unfolding opt_rounds_def by (erule sg_range) (simp_all add: links_of_def)

lemma sg_part: "opt_part c b a = Some a' \<Longrightarrow> same_groups a a'"
  by (auto simp: opt_part_def bind_eq_Some_conv links_of_def split: option.splits intro!: sg)

lemma sg_tlsrec: "opt_tlsrec b a = Some a' \<Longrightarrow> same_groups a a'"
  by (auto simp: opt_tlsrec_def bind_eq_Some_conv links_of_def Let_def split: option.splits intro!: sg)

lemma sg_fake_offset: "opt_fake_offset b a = Some a' \<Longrightarrow> same_groups a a'"
  by (auto simp: opt_fake_offset_def bind_eq_Some_conv links_of_def split: option.splits intro!: sg)

lemma sg_data: "opt_data env c b a = Some a' \<Longrightarrow> same_groups a a'"
  by (auto simp: opt_data_def bind_eq_Some_conv links_of_def split: option.splits if_splits intro!: sg)

lemma sg_hosts: "opt_hosts env b a = Some a' \<Longrightarrow> same_groups a a'"
  by (auto simp: opt_hosts_def bind_eq_Some_conv links_of_def Let_def split: option.splits intro!: sg)

lemma sg_ipset: "opt_ipset env b a = Some a' \<Longrightarrow> same_groups a a'"
  by (auto simp: opt_ipset_def bind_eq_Some_conv links_of_def Let_def split: option.splits intro!: sg)

lemma sg_cache: "opt_cache env b a = Some a' \<Longrightarrow> same_groups a a'"
  by (auto simp: opt_cache_def bind_eq_Some_conv Let_def upd_st_def same_groups_def split: option.splits if_splits)

lemma sg_ip: "opt_ip b a = Some a' \<Longrightarrow> same_groups a a'"
  by (auto simp: opt_ip_def bind_eq_Some_conv Let_def split: if_splits dest!: get_addr_scheme_frame intro!: sg sg_st)

lemma sg_conn_ip: "opt_conn_ip b a = Some a' \<Longrightarrow> same_groups a a'"
  by (auto simp: opt_conn_ip_def bind_eq_Some_conv Let_def split: if_splits dest!: get_addr_frame intro!: sg sg_st)

lemma sg_connect_to: "opt_connect_to b a = Some a' \<Longrightarrow> same_groups a a'"
  by (auto simp: opt_connect_to_def bind_eq_Some_conv Let_def links_of_def split: if_splits
      dest!: get_addr_scheme_frame intro!: sg sg_st)

lemma sg_float_field:
  assumes "float_field env k f b i a = Some (a', i')" "\<And>v g. g_dp (f v g) = g_dp g \<and> g_dp_full_mask (f v g) = g_dp_full_mask g"
  shows "same_groups a a'"
  using assms by (auto simp: float_field_def bind_eq_Some_conv case_prod_unfold Let_def split: if_splits intro!: sg)

lemma sg_timeout:
  assumes "opt_timeout env b a = Some a'"
  shows "same_groups a a'"
proof -
  obtain v i where vi: "float_at env 1000 b 0 = (v, i)" by (cases "float_at env 1000 b 0")
  define a1 where "a1 = upd_par (\<lambda>g. g\<lparr>g_timeout := v mod 2 ^ 32\<rparr>) a"
  note eq = assms [unfolded opt_timeout_def vi Let_def prod.case a1_def [symmetric]]
  obtain a2 i2 where 2: "float_field env 1000 (\<lambda>v g. g\<lparr>g_ptimeout := v mod 2 ^ 32\<rparr>) b i a1 = Some (a2, i2)"
    using eq by (cases "float_field env 1000 (\<lambda>v g. g\<lparr>g_ptimeout := v mod 2 ^ 32\<rparr>) b i a1") auto
  obtain a3 i3 where 3: "float_field env 1 (\<lambda>v g. g\<lparr>g_to_count_lim := v\<rparr>) b i2 a2 = Some (a3, i3)"
    using eq 2 by (cases "float_field env 1 (\<lambda>v g. g\<lparr>g_to_count_lim := v\<rparr>) b i2 a2") auto
  obtain a4 i4 where 4: "float_field env 1 (\<lambda>v g. g\<lparr>g_to_bytes_lim := v\<rparr>) b i3 a3 = Some (a4, i4)"
    using eq 2 3 by (cases "float_field env 1 (\<lambda>v g. g\<lparr>g_to_bytes_lim := v\<rparr>) b i3 a3") auto
  obtain z :: byte where 5: "a' = (if z \<noteq> 0 then bad a4 else a4)"
    using eq 2 3 4 by (cases "rd b i4") auto
  have "same_groups a a1" unfolding a1_def by (intro sg) simp
  moreover have "same_groups a1 a2" "same_groups a2 a3" "same_groups a3 a4"
    using sg_float_field [OF 2] sg_float_field [OF 3] sg_float_field [OF 4] by simp_all
  ultimately have "same_groups a a4" using sg_trans by blast
  then show ?thesis unfolding 5 by (intro sg)
qed

section \<open>The lists of letters\<close>

lemma comma_loop_keeps:
  assumes "comma_loop f b e a = Some (x, a')" "Q a"
    "\<And>e a a' e'. f b e a = Some (Some (a', e')) \<Longrightarrow> Q a \<Longrightarrow> Q a'"
  shows "Q a'"
proof -
  let ?P = "\<lambda>f b e a y. (\<forall>e a a' e'. f b e a = Some (Some (a', e')) \<longrightarrow> Q a \<longrightarrow> Q a') \<longrightarrow> Q a \<longrightarrow> Q (snd y)"
  have "?P f b e a (x, a')"
  proof (rule comma_loop.raw_induct [where P = ?P, OF _ assms(1)])
    fix cl f b e a y
    assume IH: "\<And>f b e a y. cl f b e a = Some y \<Longrightarrow> ?P f b e a y"
      and eq: "do {
         r \<leftarrow> f b e a;
         (case r of
            None \<Rightarrow> Some (True, a)
          | Some (a, e) \<Rightarrow> do {
              e \<leftarrow> e;
              p \<leftarrow> strchr b e 44;
              (case p of None \<Rightarrow> Some (False, a) | Some p \<Rightarrow> cl f b (p + 1) a) }) } = Some y"
    show "?P f b e a y"
    proof (intro impI)
      assume step: "\<forall>e a a' e'. f b e a = Some (Some (a', e')) \<longrightarrow> Q a \<longrightarrow> Q a'" and q: "Q a"
      obtain r where r: "f b e a = Some r" using eq by (cases "f b e a") auto
      show "Q (snd y)"
      proof (cases r)
        case None
        then show ?thesis using eq r q by auto
      next
        case (Some z)
        obtain a1 e1 where z: "z = (a1, e1)" by (cases z)
        have q1: "Q a1" using step r q Some z by blast
        obtain e2 p where e2: "e1 = Some e2" "strchr b e2 44 = Some p"
          using eq r Some z by (auto simp: bind_eq_Some_conv)
        show ?thesis
        proof (cases p)
          case None
          then show ?thesis using eq r Some z e2 q1 by auto
        next
          case (Some p)
          then have "cl f b (p + 1) a1 = Some y" using eq r \<open>r = Some z\<close> z e2 by simp
          then show ?thesis using IH step q1 by blast
        qed
      qed
    qed
  qed
  then show ?thesis using assms(2,3) by simp
qed

lemma sg_letters:
  "opt_auto_mode b a = Some a' \<Longrightarrow> same_groups a a'"
  "opt_proto b a = Some a' \<Longrightarrow> same_groups a a'"
  "opt_mod_http b a = Some a' \<Longrightarrow> same_groups a a'"
  by (auto simp: opt_auto_mode_def opt_proto_def opt_mod_http_def bind_eq_Some_conv links_of_def intro!: sg)

lemma fake_switch_links: "fake_switch b e g = Some (Some (g', e')) \<Longrightarrow> links_of g' = links_of g"
  by (auto simp: fake_switch_def bind_eq_Some_conv links_of_def split: if_splits option.splits)

lemma sg_fake_mod:
  assumes "opt_fake_mod b a = Some a'"
  shows "same_groups a a'"
proof -
  obtain x g where g: "comma_loop fake_switch b 0 (cur a) = Some (x, g)" "a' = (if x then bad else id) (upd_cur (\<lambda>_. g) a)"
    using assms by (auto simp: opt_fake_mod_def bind_eq_Some_conv)
  have "links_of g = links_of (cur a)"
    by (rule comma_loop_keeps [OF g(1)]) (auto dest: fake_switch_links)
  then show ?thesis unfolding g(2) by (intro sg_bad_id sg_set_cur sg_refl)
qed

lemma sg_pri: "same_groups a b \<Longrightarrow> same_groups a (upd_st (upd_dp q (\<lambda>g. g\<lparr>d_pri := v\<rparr>)) b)"
  by (simp add: same_groups_def upd_st_def upd_dp_def links_of_def unlimited_def)

lemma sg_auto_switch:
  assumes "auto_switch env b e a = Some (Some (a', e'))"
  shows "same_groups a a'"
proof (cases "rd b e = Some (ch CHR ''p'')")
  case True
  then show ?thesis using assms
    by (auto simp: auto_switch_def bind_eq_Some_conv case_prod_unfold Let_def split: option.splits if_splits intro!: sg sg_pri)
next
  case False
  then show ?thesis using assms
    by (auto simp: auto_switch_def bind_eq_Some_conv case_prod_unfold Let_def links_of_def split: option.splits if_splits intro!: sg)
qed

section \<open>The invariant of the loop\<close>

definition chain :: "(nat \<Rightarrow> dparams) \<Rightarrow> nat \<Rightarrow> bool" where
  "chain dps n \<longleftrightarrow> (\<forall>d<n. links_of (dps d) =
     (int d, 2 ^ d, if d = 0 then None else Some (d - 1), if Suc d < n then Some (Suc d) else None))"

definition opts_inv :: "opts \<Rightarrow> bool" where
  "opts_inv a \<longleftrightarrow> (\<exists>n. n < 31 \<and> a_dpn a = int n + 1 \<and> a_dp a = n \<and> chain (s_dp (a_st a)) (Suc n) \<and>
     g_dp (s_par (a_st a)) = Some 0 \<and> g_dp_full_mask (s_par (a_st a)) = mask (Suc n) \<and>
     (a_all_limited a \<or> (\<exists>d<n. unlimited (s_dp (a_st a) d))))"

lemma opts_inv_same:
  assumes "same_groups a a'" "opts_inv a"
  shows "opts_inv a'"
proof -
  obtain n where n: "n < 31" "a_dpn a = int n + 1" "a_dp a = n" "chain (s_dp (a_st a)) (Suc n)"
     "g_dp (s_par (a_st a)) = Some 0" "g_dp_full_mask (s_par (a_st a)) = mask (Suc n)"
     "a_all_limited a \<or> (\<exists>d<n. unlimited (s_dp (a_st a) d))"
    using assms(2) by (auto simp: opts_inv_def)
  have "a_all_limited a' \<or> (\<exists>d<n. unlimited (s_dp (a_st a') d))"
    using n(3,7) assms(1) by (auto simp: same_groups_def)
  then show ?thesis using n assms(1) unfolding opts_inv_def
    by (intro exI [of _ n]) (simp add: same_groups_def chain_def)
qed

lemma add_group_next:
  assumes "add_group (Some (a_dp a)) a = Some a'" "opts_inv (a\<lparr>a_all_limited := True\<rparr>)"
    "a_all_limited a \<or> (\<exists>d\<le>a_dp a. unlimited (s_dp (a_st a) d))"
  shows "opts_inv a' \<and> cur a' = dp0\<lparr>d_prev := Some (a_dp a), d_id := a_dpn a, d_bit := 2 ^ nat (a_dpn a)\<rparr> \<and>
    a_all_limited a' = a_all_limited a"
proof -
  obtain n where n: "n < 31" "a_dpn a = int n + 1" "a_dp a = n" "chain (s_dp (a_st a)) (Suc n)"
     "g_dp (s_par (a_st a)) = Some 0" "g_dp_full_mask (s_par (a_st a)) = mask (Suc n)"
    using assms(2) by (auto simp: opts_inv_def)
  have lt: "n + 1 < 31" and a': "a' = a\<lparr>a_st := (let s = upd_dp n (\<lambda>g. g\<lparr>d_next := Some (Suc n)\<rparr>)
        (upd_dp (Suc n) (\<lambda>_. dp0\<lparr>d_prev := Some n, d_id := int n + 1, d_bit := 2 ^ Suc n\<rparr>) (a_st a)) in
      s\<lparr>s_par := (s_par s)\<lparr>g_dp_full_mask := mask (Suc n) OR 2 ^ Suc n\<rparr>\<rparr>),
      a_dpn := int n + 2, a_dp := Suc n, a_str := (a_str a)(Suc n := [0])\<rparr>"
    using assms(1) n by (auto simp: add_group_def Let_def nat_add_distrib upd_dp_def split: if_splits)
  have ln: "links_of (s_dp (a_st a') d) = (int d, 2 ^ d, if d = 0 then None else Some (d - 1), if Suc d < Suc (Suc n) then Some (Suc d) else None)"
    if "d < Suc (Suc n)" for d
    using that n(4) unfolding a' chain_def
    by (cases "d = Suc n"; cases "d = n") (auto simp: Let_def upd_dp_def links_of_def less_Suc_eq dp0_def)
  have ch: "chain (s_dp (a_st a')) (Suc (Suc n))" unfolding chain_def using ln by blast
  have m: "mask (Suc n) OR 2 ^ Suc n = (mask (Suc (Suc n)) :: 64 word)"
    by (simp only: mask_Suc_exp [of "Suc n"] or.commute)
  have f: "g_dp_full_mask (s_par (a_st a')) = mask (Suc (Suc n))" "g_dp (s_par (a_st a')) = Some 0"
      "a_dpn a' = int (Suc n) + 1" "a_dp a' = Suc n" "a_all_limited a' = a_all_limited a"
      "cur a' = dp0\<lparr>d_prev := Some n, d_id := int n + 1, d_bit := 2 ^ Suc n\<rparr>"
    using n(5) m unfolding a' by (simp_all add: Let_def upd_dp_def cur_def)
  have un: "unlimited (s_dp (a_st a') d) = unlimited (s_dp (a_st a) d)" if "d \<le> n" for d
    using that unfolding a' by (auto simp: Let_def upd_dp_def unlimited_def)
  then have "a_all_limited a' \<or> (\<exists>d<Suc n. unlimited (s_dp (a_st a') d))"
    using assms(3) f(5) n(3) by (auto simp: less_Suc_eq_le)
  then have "opts_inv a'" using lt ch f unfolding opts_inv_def by (intro exI [of _ "Suc n"]) simp
  then show ?thesis using f(5,6) n(2,3) by (simp add: nat_add_distrib)
qed

lemma opts_inv_all: "opts_inv a \<Longrightarrow> opts_inv (a\<lparr>a_all_limited := True\<rparr>)"
  by (auto simp: opts_inv_def)

lemma opts_inv_cur: "opts_inv a \<Longrightarrow> a_all_limited a \<or> (\<exists>d\<le>a_dp a. unlimited (s_dp (a_st a) d))"
  by (auto simp: opts_inv_def intro: less_imp_le)

lemma opt_auto_inv:
  assumes "opt_auto env b g a = Some (a', g')" "opts_inv a"
  shows "opts_inv a'"
proof (cases "e_optind env g < a_curr_optind a")
  case True
  then show ?thesis using assms by (simp add: opt_auto_def)
next
  case False
  define a1 where "a1 = note_limits a"
  note eq = assms(1) [unfolded opt_auto_def if_not_P [OF False] Let_def a1_def [symmetric]]
  obtain a2 where a2: "add_group (Some (a_dp a1)) a1 = Some a2"
    using eq by (cases "add_group (Some (a_dp a1)) a1") simp_all
  obtain x a3 where a3: "comma_loop (auto_switch env) b 0 a2 = Some (x, a3)"
    using eq a2 by (cases "comma_loop (auto_switch env) b 0 a2") auto
  have a': "a' = end_auto x (e_optind env g) a3" using eq a2 a3 by auto
  have dp: "a_dp a1 = a_dp a" and all: "a1\<lparr>a_all_limited := True\<rparr> = a\<lparr>a_all_limited := True\<rparr>"
    by (simp_all add: a1_def note_limits_def Let_def)
  have un: "a_all_limited a1 \<or> (\<exists>d\<le>a_dp a1. unlimited (s_dp (a_st a1) d))"
    using opts_inv_cur [OF assms(2)] by (auto simp: a1_def note_limits_def Let_def unlimited_def cur_def)
  have i2: "opts_inv a2"
    using add_group_next [OF a2] un opts_inv_all [OF assms(2)] all by simp
  have "same_groups a2 a3"
    by (rule comma_loop_keeps [OF a3]) (auto intro: sg_refl sg_trans dest: sg_auto_switch)
  then have "same_groups a2 a'" unfolding a' end_auto_def Let_def by (auto intro!: sg)
  then show ?thesis using opts_inv_same i2 by blast
qed

lemma opt_copy_inv:
  assumes "opt_copy env b g a = Some (a', g')" "opts_inv a"
  shows "opts_inv a'"
proof -
  have "same_groups a a'"
    using assms(1) by (auto simp: opt_copy_def bind_eq_Some_conv links_of_def split: if_splits option.splits intro!: sg)
  then show ?thesis using opts_inv_same assms(2) by blast
qed

lemma parse_opt_inv:
  assumes "parse_opt env c b g a = Some (Inr (a', g'))" "opts_inv a"
  shows "opts_inv a'"
proof -
  consider "same_groups a a'" | "opt_auto env b g a = Some (a', g')" | "opt_copy env b g a = Some (a', g')"
    using assms(1) unfolding parse_opt_def Let_def
    by (auto split: if_splits dest: sg_opt_number sg_letters sg_fake_mod sg_part sg_data sg_ip sg_conn_ip sg_connect_to
      sg_timeout sg_ports sg_rounds sg_await sg_hosts sg_ipset sg_cache sg_tlsrec sg_fake_offset simp: sg_flag sg_refl)
  then show ?thesis using opts_inv_same opt_auto_inv opt_copy_inv assms(2) by cases blast+
qed

lemma parse_opt_return: "parse_opt env c b g a = Some (Inl q) \<Longrightarrow> q \<noteq> 0"
  by (auto simp: parse_opt_def Let_def split: if_splits)

lemma arg_loop_inv:
  assumes "arg_loop env g a = Some (r, a')" "opts_inv a"
  shows "opts_inv a' \<and> r \<noteq> Some 0"
proof -
  let ?P = "\<lambda>env g a y. opts_inv a \<longrightarrow> opts_inv (snd y) \<and> fst y \<noteq> Some 0"
  have "?P env g a (r, a')"
  proof (rule arg_loop.raw_induct [where P = ?P, OF _ assms(1)])
    fix al env g a y
    assume IH: "\<And>env g a y. al env g a = Some y \<Longrightarrow> ?P env g a y"
      and eq: "(if a_invalid a then Some (None, a)
      else
        (case e_getopt env short_opts options g of
           (None, _) \<Rightarrow> Some (None, a)
         | (Some (c, b), g) \<Rightarrow> do {
             r \<leftarrow> parse_opt env c b g a;
             (case r of Inl r \<Rightarrow> Some (Some r, a) | Inr (a, g) \<Rightarrow> al env g a) })) = Some y"
    show "?P env g a y"
    proof
      assume inv: "opts_inv a"
      obtain n g1 where n: "e_getopt env short_opts options g = (n, g1)" by (cases "e_getopt env short_opts options g")
      show "opts_inv (snd y) \<and> fst y \<noteq> Some 0"
      proof (cases "a_invalid a \<or> n = None")
        case True
        then show ?thesis using eq n inv by (auto split: if_splits)
      next
        case False
        then obtain c b where cb: "n = Some (c, b)" by auto
        obtain r where r: "parse_opt env c b g1 a = Some r"
          using eq n cb False by (cases "parse_opt env c b g1 a") auto
        show ?thesis
        proof (cases r)
          case (Inl q)
          then have "y = (Some q, a)" "q \<noteq> 0" using eq n cb False r parse_opt_return [of env c b g1 a q] by auto
          then show ?thesis using inv by simp
        next
          case (Inr z)
          obtain a1 g2 where z: "z = (a1, g2)" by (cases z)
          have "al env g2 a1 = Some y" using eq n cb False r Inr z by simp
          moreover have "opts_inv a1" by (rule parse_opt_inv [OF r [unfolded Inr z] inv])
          ultimately show ?thesis using IH by simp
        qed
      qed
    qed
  qed
  then show ?thesis using assms(2) by simp
qed

section \<open>The list of groups\<close>

lemma start_args_inv:
  assumes "start_args a = Some a'" "a_dpn a = 0" "g_dp_full_mask (s_par (a_st a)) = 0"
  shows "opts_inv a'"
proof -
  define b where "b = check_ipv6 (default_port a)"
  have b: "a_dpn b = 0" "g_dp_full_mask (s_par (a_st b)) = 0"
    using assms(2,3) by (auto simp: b_def check_ipv6_def default_port_def ipv6_support_def Let_def case_prod_unfold
        close_fd_def upd_par_def upd_st_def)
  define c where "c = upd_st (\<lambda>s. s\<lparr>s_pool := mem_pool MF_EXTRA CMP_BITS\<rparr>) (b\<lparr>a_all_limited := True, a_curr_optind := 1, a_invalid := False\<rparr>)"
  have c: "a_dpn c = 0" "g_dp_full_mask (s_par (a_st c)) = 0" "a_all_limited c" using b by (simp_all add: c_def upd_st_def)
  obtain d where d: "add_group None c = Some d" "a' = upd_par (\<lambda>g. g\<lparr>g_dp := Some (a_dp d)\<rparr>) d"
    using assms(1) unfolding start_args_def Let_def b_def [symmetric] c_def [symmetric] by (auto simp: bind_eq_Some_conv)
  have "mask (Suc 0) = (1 :: 64 word)" by simp
  then show ?thesis using d c unfolding add_group_def Let_def
    by (auto simp: upd_par_def upd_st_def opts_inv_def chain_def links_of_def upd_dp_def dp0_def)
qed

lemma gbits_chain: "\<forall>d<n. d_bit (dps d) = 2 ^ d \<Longrightarrow> gbits dps [0..<n] = (mask n :: 64 word)"
  by (induction n) (simp_all add: mask_Suc_exp or.commute)

lemma gseg_chain:
  assumes "chain dps n" "k \<le> n"
  shows "gseg dps (if k = 0 then None else Some (k - 1)) [k..<n] None"
  using assms(2)
proof (induction "n - k" arbitrary: k)
  case (Suc m)
  then have k: "k < n" by simp
  have "gseg dps (Some k) [Suc k..<n] None" using Suc.hyps(1) [of "Suc k"] Suc.hyps(2) k by simp
  moreover have "d_prev (dps k) = (if k = 0 then None else Some (k - 1))"
      "d_next (dps k) = (if Suc k < n then Some (Suc k) else None)"
    using assms(1) k by (auto simp: chain_def links_of_def)
  ultimately show ?case using k by (auto simp: upt_conv_Cons hdO_def)
qed simp

lemma chain_groups:
  assumes ch: "chain (s_dp s) (Suc n)" "n < 31" and g: "g_dp (s_par s) = Some 0"
    "g_dp_full_mask (s_par s) = mask (Suc n)"
  shows "groups s [0..<Suc n]"
proof -
  have b: "\<forall>d<Suc n. d_bit (s_dp s d) = 2 ^ d" using ch(1) by (simp add: chain_def links_of_def)
  have nz: "(2 :: 64 word) ^ d \<noteq> 0" if "d < 31" for d
    using that by (simp add: exp_eq_zero_iff)
  have dis: "(2 :: 64 word) ^ d AND 2 ^ e = 0" if "d \<noteq> e" for d e
    using that by (auto simp: bit_eq_iff bit_simps)
  have "hdO [0..<Suc n] = Some 0" by (simp add: hdO_def upt_conv_Cons del: upt_Suc)
  moreover have "glinked (s_dp s) [0..<Suc n]" using gseg_chain [OF ch(1), of 0] by (simp add: glinked_def)
  ultimately show ?thesis
    using b nz dis g gbits_chain [OF b] ch(2) unfolding groups_def by (auto simp del: upt_Suc)
qed

text \<open>C14: Whenever \<open>parse_args\<close> accepts a command line, whatever its options are, the groups it leaves are in a well
  formed list: linked in both directions in the order of the options, each with a bit of its own, and the
  full mask made of exactly these bits. This is what the search for a group and the reaction to
  failures assume. And one of the groups has no limits, so that it takes every connection.\<close>

theorem parse_args_groups:
  assumes "parse_args env g a = Some (0, a')" "a_dpn a = 0" "g_dp_full_mask (s_par (a_st a)) = 0"
  shows "\<exists>n. n \<noteq> 0 \<and> n \<le> 31 \<and> groups (a_st a') [0..<n] \<and> (\<exists>d<n. unlimited (s_dp (a_st a') d))"
proof -
  obtain a1 where a1: "start_args a = Some a1" using assms(1) by (cases "start_args a") (simp_all add: parse_args_def)
  obtain r a2 where a2: "arg_loop env g a1 = Some (r, a2)" using assms(1) a1 by (cases "arg_loop env g a1") (auto simp: parse_args_def)
  have i2: "opts_inv a2" "r = None"
    using arg_loop_inv [OF a2 start_args_inv [OF a1 assms(2,3)]] assms(1) a1 a2
    by (auto simp: parse_args_def split: option.splits)
  then obtain a3 where a3: "(if a_all_limited a2 then add_group (Some (a_dp a2)) a2 else Some a2) = Some a3"
      "a' = upd_par (\<lambda>g. if g_mode g = 0 then g\<lparr>g_mode := 2 OR 1\<rparr> else g)
        (upd_par (\<lambda>g. if sa_family (g_baddr g) \<noteq> AF_INET6 then g\<lparr>g_ipv6 := False\<rparr> else g) a3)"
    using assms(1) a1 a2 by (auto simp: parse_args_def end_args_def Let_def bind_eq_Some_conv split: if_splits)
  have e: "s_dp (a_st a') = s_dp (a_st a3)" "g_dp (s_par (a_st a')) = g_dp (s_par (a_st a3))"
      "g_dp_full_mask (s_par (a_st a')) = g_dp_full_mask (s_par (a_st a3))"
    unfolding a3(2) by (simp_all add: upd_par_def upd_st_def)
  have "opts_inv a3 \<and> (\<exists>d\<le>a_dp a3. unlimited (s_dp (a_st a3) d))"
  proof (cases "a_all_limited a2")
    case True
    then have "add_group (Some (a_dp a2)) a2 = Some a3" using a3(1) by simp
    from add_group_next [OF this opts_inv_all [OF i2(1)] opts_inv_cur [OF i2(1)]]
    have "opts_inv a3" "unlimited (s_dp (a_st a3) (a_dp a3))" by (simp_all add: unlimited_def cur_def dp0_def)
    then show ?thesis by blast
  next
    case False
    then show ?thesis using a3(1) i2(1) opts_inv_cur [OF i2(1)] by simp
  qed
  then obtain n d where n: "n < 31" "a_dp a3 = n" "chain (s_dp (a_st a3)) (Suc n)"
     "g_dp (s_par (a_st a3)) = Some 0" "g_dp_full_mask (s_par (a_st a3)) = mask (Suc n)"
    and d: "d \<le> n" "unlimited (s_dp (a_st a3) d)"
    by (auto simp: opts_inv_def)
  have "chain (s_dp (a_st a')) (Suc n)" using e(1) n(3) by simp
  then have "groups (a_st a') [0..<Suc n]" by (rule chain_groups) (use e n(1,4,5) in simp_all)
  moreover have "\<exists>d<Suc n. unlimited (s_dp (a_st a') d)" using d e(1) by (auto simp: less_Suc_eq_le)
  ultimately show ?thesis using n(1) by (intro exI [of _ "Suc n"]) simp
qed

text \<open>A command line as a list of options with their arguments: \<open>-s 1 -A t -d 2\<close>.\<close>

definition list_env :: "(byte \<times> buf) list env" where
  "list_env = \<lparr> e_getopt = (\<lambda>_ _ g. case g of [] \<Rightarrow> (None, []) | x # xs \<Rightarrow> (Some x, xs)),
     e_optind = (\<lambda>g. 100 - int (length g)), e_set_optind = (\<lambda>i g. g), e_files = (\<lambda>_. None),
     e_pton = (\<lambda>_ _. None), e_ntop = (\<lambda>_ a. a), e_float = (\<lambda>_ _. (0, 0)) \<rparr>"

definition args_ex :: "(byte \<times> buf) list" where
  "args_ex = [(115, [49, 0]), (65, [116, 0]), (100, [50, 0])]"

lemma args_ex_result: "map_option fst (parse_args list_env args_ex (opts0 (st0 (\<lambda>_. res0)))) = Some 0"
  by code_simp

lemma parse_args_groups_witness:
  "\<exists>a' n. parse_args list_env args_ex (opts0 (st0 (\<lambda>_. res0))) = Some (0, a') \<and> n \<noteq> 0 \<and> groups (a_st a') [0..<n]"
proof -
  obtain a' where a': "parse_args list_env args_ex (opts0 (st0 (\<lambda>_. res0))) = Some (0, a')"
    using args_ex_result by auto
  have "a_dpn (opts0 (st0 (\<lambda>_. res0))) = 0" "g_dp_full_mask (s_par (a_st (opts0 (st0 (\<lambda>_. res0))))) = 0"
    by (simp_all add: opts0_def st0_def par0_def)
  from parse_args_groups [OF a' this] show ?thesis using a' by blast
qed

section \<open>An option that repeats itself\<close>

lemma arg_loop_stuck:
  assumes "e_getopt env short_opts options g = (Some (c, b), g')" "parse_opt env c b g' a = Some (Inr (a, g))"
    "\<not> a_invalid a"
  shows "arg_loop env g a = None"
proof (rule ccontr)
  assume "arg_loop env g a \<noteq> None"
  then obtain y where ret: "arg_loop env g a = Some y" by blast
  let ?P = "\<lambda>e x z (y :: int option \<times> opts). \<not> (e = env \<and> x = g \<and> z = a)"
  have "?P env g a y"
  proof (rule arg_loop.raw_induct [where P = ?P, OF _ ret], rule notI)
    fix f e x z y
    assume IH: "\<And>e x z y. f e x z = Some y \<Longrightarrow> ?P e x z y" and bad: "e = env \<and> x = g \<and> z = a"
      and eq: "(if a_invalid z then Some (None, z)
        else
          (case e_getopt e short_opts options x of
             (None, _) \<Rightarrow> Some (None, z)
           | (Some (c, b), x) \<Rightarrow> do {
               r \<leftarrow> parse_opt e c b x z;
               (case r of Inl r \<Rightarrow> Some (Some r, z) | Inr (z, x) \<Rightarrow> f e x z) })) = Some y"
    have "f env g a = Some y" using eq bad assms by simp
    then show False using IH by blast
  qed
  then show False by simp
qed

text \<open>\<open>-B\<close> as the first option of a group, with the number of that group: the index of \<open>getopt\<close> is set to
  the start of the options of the group, where \<open>-B\<close> is read again, and this never ends.\<close>

theorem copy_own_group_diverges:
  assumes o: "e_getopt env short_opts options g = (Some (ch CHR ''B'', b), g')" "\<not> e_optind env g' < a_curr_optind a"
    and num: "rd b 0 = Some c" "c \<noteq> ch CHR ''i''" "strtol0 b 0 = Some (v, e)"
    and grp: "find_group (s_dp (a_st a)) (v - 1) (g_dp (s_par (a_st a))) = Some (Some d)"
    and own: "e_set_optind env (a_optind a d) g' = g" and a: "\<not> a_invalid a"
  shows "arg_loop env g a = None"
proof -
  let ?a = "a\<lparr>a_curr_optind := e_optind env g'\<rparr>"
  have B: "parse_opt env (ch CHR ''B'') b g' x = map_option Inr (opt_copy env b g' x)" for x
    by (simp add: parse_opt_def chars_def ch_def)
  have s: "parse_opt env (ch CHR ''B'') b g' a = Some (Inr (?a, g))"
    using o num grp own unfolding B opt_copy_def by simp
  have "parse_opt env (ch CHR ''B'') b g' ?a = Some (Inr (?a, g))"
    using num grp own unfolding B opt_copy_def by simp
  then have "arg_loop env g ?a = None" using arg_loop_stuck [OF o(1)] a by simp
  then show ?thesis using o(1) s a by (subst arg_loop.simps) simp
qed

text \<open>A command line with the position of \<open>getopt\<close>: \<open>-A t -B 2\<close>.\<close>

definition index_env :: "(byte \<times> buf) list \<Rightarrow> nat env" where
  "index_env xs = \<lparr> e_getopt = (\<lambda>_ _ i. if i \<le> length xs then (Some (xs ! (i - 1)), i + 1) else (None, i)),
     e_optind = int, e_set_optind = (\<lambda>i _. nat i), e_files = (\<lambda>_. None),
     e_pton = (\<lambda>_ _. None), e_ntop = (\<lambda>_ a. a), e_float = (\<lambda>_ _. (0, 0)) \<rparr>"

definition args_copy :: "(byte \<times> buf) list" where
  "args_copy = [(65, [116, 0]), (66, [50, 0])]"

lemma copy_own_group_example: "parse_args (index_env args_copy) 1 (opts0 (st0 (\<lambda>_. res0))) = None"
proof -
  let ?env = "index_env args_copy" and ?a = "opts0 (st0 (\<lambda>_. res0))"
  let ?ok = "\<lambda>a. \<not> a_invalid a \<and> a_curr_optind a \<le> 3 \<and> a_optind a 1 = 2 \<and>
    find_group (s_dp (a_st a)) 1 (g_dp (s_par (a_st a))) = Some (Some 1)"
  have "(case start_args ?a of None \<Rightarrow> False
    | Some a1 \<Rightarrow> \<not> a_invalid a1 \<and>
       (case parse_opt ?env 65 [116, 0] 2 a1 of Some (Inr (a2, g)) \<Rightarrow> g = 2 \<and> ?ok a2 | _ \<Rightarrow> False))"
    by code_simp
  then obtain a1 a2 where a: "start_args ?a = Some a1" "\<not> a_invalid a1"
      "parse_opt ?env 65 [116, 0] 2 a1 = Some (Inr (a2, 2))" "?ok a2"
    by (auto split: option.splits sum.splits)
  have g: "e_getopt ?env short_opts options 1 = (Some (65, [116, 0]), 2)"
    "e_getopt ?env short_opts options 2 = (Some (66, [50, 0]), 3)"
    by (simp_all add: index_env_def args_copy_def)
  have "arg_loop ?env 2 a2 = None"
  proof (rule copy_own_group_diverges)
    show "e_getopt ?env short_opts options 2 = (Some (ch CHR ''B'', [50, 0]), 3)" using g(2) by (simp add: ch_def)
    show "rd [50, 0] 0 = Some 50" "50 \<noteq> ch CHR ''i''" by (simp_all add: ch_def)
    show "strtol0 [50, 0] 0 = Some (2, 1)" by code_simp
    show "find_group (s_dp (a_st a2)) (2 - 1) (g_dp (s_par (a_st a2))) = Some (Some 1)" using a(4) by simp
  qed (use a(4) in \<open>simp_all add: index_env_def\<close>)
  then have "arg_loop ?env 1 a1 = None" using g(1) a(2,3) by (subst arg_loop.simps) simp
  then show ?thesis using a(1) by (simp add: parse_args_def)
qed

end
