(* ===== verification/ArgsSpec.thy ===== *)
theory ArgsSpec
  imports Args
begin

unbundle bit_operations_syntax

text \<open>
  The parsers of arguments are defined on every C string and end inside of it; every sequence of bytes
  can be written with escapes.
\<close>

section \<open>Escapes\<close>

lemma scan_esc_safe:
  assumes "ends_at s z" "0 \<le> p" "p \<le> z"
  shows "\<exists>r. scan_esc s p = Some r \<and> (\<forall>v e. r = Some (v, e) \<longrightarrow> p < e \<and> e \<le> z)"
proof -
  obtain r8 where r8: "scan_num 8 3 s p = Some r8" "\<forall>v e. r8 = Some (v, e) \<longrightarrow> p < e \<and> e \<le> z"
    using scan_num_safe [OF assms, of 8 3] by auto
  show ?thesis
  proof (cases "s ! nat p = 120")
    case True
    then have "p < z" using assms by (cases "p = z") auto
    then obtain r where "scan_num 16 2 s (p + 1) = Some r" "\<forall>v e. r = Some (v, e) \<longrightarrow> p + 1 < e \<and> e \<le> z"
      using scan_num_safe [OF assms(1), of "p + 1" 16 2] assms(2) by auto
    then show ?thesis using True assms r8 by (cases r) (auto simp: scan_esc_def ends_at_rd)
  next
    case False
    then show ?thesis using assms r8 by (simp add: scan_esc_def ends_at_rd)
  qed
qed

lemma esca_nonzero: "map_of esca 0 = None"
  by (simp add: esca_def)

lemma cform_loop_safe:
  "ends_at s z \<Longrightarrow> 0 \<le> i \<Longrightarrow> i \<le> p \<Longrightarrow> p \<le> z \<Longrightarrow> blen \<le> int (length d) \<Longrightarrow>
     \<exists>d' i'. cform_loop s z blen d i p = Some (d', i') \<and> i \<le> i' \<and> i' \<le> max i blen \<and> i' \<le> z \<and> length d' = length d"
proof (induction "nat (z - p)" arbitrary: d i p rule: less_induct)
  case less
  note b = less.prems
  have IH: "\<exists>d' i'. cform_loop s z blen d1 i1 p1 = Some (d', i') \<and> i \<le> i' \<and> i' \<le> max i blen \<and> i' \<le> z \<and> length d' = length d"
    if "p < p1" "p1 \<le> z" "i \<le> i1" "i1 \<le> p1" "i1 \<le> max i blen" "length d1 = length d" "p < z" for d1 i1 p1
    using less.hyps [of p1 i1 d1] that b by fastforce
  show ?case
  proof (cases "p < z \<and> i < blen")
    case False
    then show ?thesis using b by (subst cform_loop.simps) auto
  next
    case True
    have w: "\<exists>d1. wr d i x = Some d1 \<and> length d1 = length d" for x using True b by simp
    have c: "rd s p = Some (s ! nat p)" "rd s (p + 1) = Some (s ! nat (p + 1))" using True b by (auto simp: ends_at_rd)
    show ?thesis
    proof (cases "s ! nat p = 92")
      case False
      obtain d1 where "wr d i (s ! nat p) = Some d1" "length d1 = length d" using w by blast
      then show ?thesis using True False c IH [of "p + 1" "i + 1" d1] b by (subst cform_loop.simps) simp
    next
      case bs: True
      show ?thesis
      proof (cases "map_of esca (s ! nat (p + 1))")
        case (Some x)
        have "p + 1 \<noteq> z" using Some esca_nonzero b(1) by auto
        moreover obtain d1 where "wr d i x = Some d1" "length d1 = length d" using w by blast
        ultimately show ?thesis using True bs Some c IH [of "p + 2" "i + 1" d1] b by (subst cform_loop.simps) simp
      next
        case None
        obtain r where r: "scan_esc s (p + 1) = Some r" "\<forall>v e. r = Some (v, e) \<longrightarrow> p + 1 < e \<and> e \<le> z"
          using scan_esc_safe [OF b(1), of "p + 1"] True b by auto
        show ?thesis
        proof (cases r)
          case None
          then show ?thesis using True bs \<open>map_of esca _ = None\<close> c r(1) IH [of "p + 1" i d] b by (subst cform_loop.simps) simp
        next
          case (Some z')
          obtain v e where ve: "z' = (v, e)" by (cases z')
          obtain d1 where "wr d i (word_of_int v) = Some d1" "length d1 = length d" using w by blast
          then show ?thesis using True bs None Some ve c r IH [of e "i + 1" d1] b by (subst cform_loop.simps) simp
        qed
      qed
    qed
  qed
qed

lemma strlen_safe:
  assumes "ends_at b z"
  shows "\<exists>n. strlen b 0 = Some n \<and> ends_at b n"
proof -
  obtain z0 where z0: "ends_at b z0" "\<forall>q. 0 \<le> q \<and> q < z0 \<longrightarrow> b ! nat q \<noteq> 0"
  proof -
    define k where "k = (LEAST k. b ! k = 0)"
    have k: "b ! k = 0" "k \<le> nat z" "\<And>q. q < k \<Longrightarrow> b ! q \<noteq> 0"
      using LeastI [of "\<lambda>k. b ! k = 0" "nat z"] Least_le [of "\<lambda>k. b ! k = 0" "nat z"] not_less_Least assms
      by (auto simp: k_def ends_at_def)
    show thesis by (rule that [of "int k"]) (use k assms in \<open>auto simp: ends_at_def\<close>)
  qed
  have go: "strchr_n n b i 0 = Some (Some z0)" if "0 \<le> i" "i \<le> z0" "z0 < i + int n" for n i
    using that
  proof (induction n arbitrary: i)
    case (Suc n)
    show ?case
    proof (cases "i = z0")
      case False
      then have "b ! nat i \<noteq> 0" "i < z0" using z0(2) Suc.prems by auto
      then show ?thesis using Suc z0(1) by (simp add: ends_at_rd)
    qed (use z0(1) Suc.prems in \<open>simp add: ends_at_rd\<close>)
  qed simp
  have "strchr b 0 0 = Some (Some z0)" unfolding strchr_def by (rule go) (use z0(1) in \<open>auto simp: ends_at_def\<close>)
  then show ?thesis using z0(1) by (simp add: strlen_def)
qed

lemma parse_cform_safe:
  assumes "ends_at s z" "blen \<le> int (length d)"
  shows "\<exists>d' i. parse_cform d blen s z = Some (d', i) \<and> 0 \<le> i \<and> i \<le> max 0 blen \<and> i \<le> z \<and> length d' = length d"
  unfolding parse_cform_def using cform_loop_safe [of s z 0 0 blen d] assms by (auto simp: ends_at_def)

lemma data_from_str_safe:
  assumes "ends_at s z"
  shows "\<exists>r. data_from_str s = Some r"
proof -
  obtain n where n: "strlen s 0 = Some n" "ends_at s n" using strlen_safe [OF assms] by blast
  obtain d i where "parse_cform (replicate (nat n) 0) n s n = Some (d, i)"
    using parse_cform_safe [OF n(2), of n "replicate (nat n) 0"] n(2) by (auto simp: ends_at_def)
  then show ?thesis using n by (simp add: data_from_str_def)
qed

lemma ftob_safe:
  assumes "ends_at s z"
  shows "\<exists>r. ftob files s = Some r"
proof -
  have s: "s \<noteq> []" "rd s 0 = Some (hd s)" using assms by (auto simp: ends_at_def rd_def hd_conv_nth)
  show ?thesis
  proof (cases "hd s = 58")
    case True
    then have "z \<noteq> 0" using assms s by (auto simp: ends_at_def hd_conv_nth)
    then have "ends_at (tl s) (z - 1)" using assms s
      by (auto simp: ends_at_def nth_tl nat_diff_distrib)
    then show ?thesis using data_from_str_safe True s by (auto simp: ftob_def)
  qed (use s in \<open>simp add: ftob_def\<close>)
qed

text \<open>Every byte as an octal escape.\<close>

definition oct_digit :: "int \<Rightarrow> byte" where
  "oct_digit k = word_of_int (48 + k)"

definition esc_byte :: "byte \<Rightarrow> byte list" where
  "esc_byte x = [92, oct_digit (uint x div 64), oct_digit (uint x div 8 mod 8), oct_digit (uint x mod 8)]"

definition escapes :: "byte list \<Rightarrow> buf" where
  "escapes ds = concat (map esc_byte ds) @ [0]"

lemma oct_digit_val:
  assumes "0 \<le> k" "k < 8"
  shows "uint (oct_digit k) = 48 + k" "digit_val (oct_digit k) = k" "\<not> isspace (oct_digit k)"
    "oct_digit k \<noteq> 43" "oct_digit k \<noteq> 45" "oct_digit k \<noteq> 120" "oct_digit k \<noteq> 88" "map_of esca (oct_digit k) = None"
proof -
  have "uint (oct_digit k) = (48 + k) mod 256" unfolding oct_digit_def by (simp only: uint_word_of_int) simp
  then show u: "uint (oct_digit k) = 48 + k" using assms by simp
  then show "digit_val (oct_digit k) = k" using assms by (simp add: digit_val_def isdigit_def)
  have ne: "oct_digit k \<noteq> x" if "uint x < 48 \<or> 56 \<le> uint x" for x using that u assms by auto
  show "\<not> isspace (oct_digit k)" using u assms ne [of 32] by (simp add: isspace_def)
  show "oct_digit k \<noteq> 43" "oct_digit k \<noteq> 45" "oct_digit k \<noteq> 120" "oct_digit k \<noteq> 88" by (rule ne, simp)+
  show "map_of esca (oct_digit k) = None" using ne by (simp add: esca_def)
qed

lemma scan_esc_octal:
  assumes r: "rd s p = Some (oct_digit a)" "rd s (p + 1) = Some (oct_digit b)" "rd s (p + 2) = Some (oct_digit c)"
    and v: "0 \<le> a" "a < 8" "0 \<le> b" "b < 8" "0 \<le> c" "c < 8"
  shows "scan_esc s p = Some (Some (64 * a + 8 * b + c, p + 3))"
proof -
  have ws: "skip_ws s p = Some p" using r(1) oct_digit_val(3) [OF v(1,2)] by (subst skip_ws.simps) simp
  have d: "num_digits 8 3 s p 0 = Some (64 * a + 8 * b + c, p + 3)"
    using r oct_digit_val(2) v by (simp add: eval_nat_numeral add.assoc)
  show ?thesis
    using r(1) ws d oct_digit_val(4,5,6) [OF v(1,2)] by (simp add: scan_esc_def scan_num_def)
qed

lemma byte_octal: "64 * (n div 64) + 8 * (n div 8 mod 8) + n mod 8 = (n :: int)"
proof -
  have "8 * (n div 8 div 8) + n div 8 mod 8 = n div 8" by simp
  moreover have "n div 64 = n div 8 div 8" using zdiv_zmult2_eq [of 8 n 8] by simp
  moreover have "8 * (n div 8) + n mod 8 = n" by simp
  ultimately show ?thesis by linarith
qed

lemma length_esc_byte [simp]: "length (esc_byte x) = 4"
  by (simp add: esc_byte_def)

lemma octal_bounds:
  assumes "0 \<le> n" "n < 256"
  shows "0 \<le> n div 64 \<and> n div 64 < 8 \<and> 0 \<le> n div 8 mod 8 \<and> n div 8 mod 8 < 8 \<and> 0 \<le> n mod 8 \<and> n mod 8 < (8 :: int)"
proof -
  have "0 \<le> n div 64" "n div 64 < 8" using assms by presburger+
  then show ?thesis by simp
qed

lemma rd_app: "rd (pre @ xs) (int (length pre) + int j) = (if j < length xs then Some (xs ! j) else None)"
  by (simp add: rd_def nth_append nat_int_add)

lemma cform_loop_escapes:
  assumes "int (length us) + int (length ds) \<le> blen" "length ds \<le> length zs"
  shows "cform_loop (pre @ concat (map esc_byte ds) @ [0]) (int (length pre) + 4 * int (length ds)) blen
      (us @ zs) (int (length us)) (int (length pre)) = Some (us @ ds @ drop (length ds) zs, int (length us) + int (length ds))"
  using assms
proof (induction ds arbitrary: pre us zs)
  case Nil
  then show ?case by (subst cform_loop.simps) simp
next
  case (Cons x ds)
  let ?s = "pre @ concat (map esc_byte (x # ds)) @ [0]"
  let ?p = "int (length pre)" and ?i = "int (length us)"
  have x: "0 \<le> uint x" "uint x < 256" using uint_byte_bounds by auto
  have r: "rd ?s ?p = Some 92" "rd ?s (?p + 1) = Some (oct_digit (uint x div 64))"
    "rd ?s (?p + 1 + 1) = Some (oct_digit (uint x div 8 mod 8))" "rd ?s (?p + 1 + 2) = Some (oct_digit (uint x mod 8))"
    using rd_app [of pre "concat (map esc_byte (x # ds)) @ [0]" 0] rd_app [of pre "concat (map esc_byte (x # ds)) @ [0]" 1]
      rd_app [of pre "concat (map esc_byte (x # ds)) @ [0]" 2] rd_app [of pre "concat (map esc_byte (x # ds)) @ [0]" 3]
    by (simp_all add: esc_byte_def eval_nat_numeral add.assoc)
  have v: "0 \<le> uint x div 64" "uint x div 64 < 8" "0 \<le> uint x div 8 mod 8" "uint x div 8 mod 8 < 8"
    "0 \<le> uint x mod 8" "uint x mod 8 < 8"
    using octal_bounds [of "uint x"] by simp_all
  have sc: "scan_esc ?s (?p + 1) = Some (Some (uint x, ?p + 4))"
    using scan_esc_octal [OF r(2,3,4) v] byte_octal [of "uint x"] by simp
  obtain z zs' where zs: "zs = z # zs'" using Cons.prems(2) by (cases zs) auto
  have w: "wr (us @ zs) ?i x = Some ((us @ [x]) @ zs')" by (simp add: wr_def zs)
  have IH: "cform_loop ?s (?p + 4 * int (length (x # ds))) blen ((us @ [x]) @ zs') (?i + 1) (?p + 4) =
      Some (us @ (x # ds) @ drop (length (x # ds)) zs, ?i + int (length (x # ds)))"
    using Cons.IH [of "us @ [x]" zs' "pre @ esc_byte x"] Cons.prems zs by (simp add: algebra_simps)
  have c: "?p < ?p + 4 * int (length (x # ds)) \<and> ?i < blen" using Cons.prems by simp
  show ?case
    using c r(1,2) sc w IH oct_digit_val(8) [OF v(1,2)] by (subst cform_loop.simps) simp
qed

lemma strlen_escapes: "strlen (escapes ds) 0 = Some (4 * int (length ds))"
proof -
  have nz: "x \<noteq> 0" if "x \<in> set (concat (map esc_byte ds))" for x
  proof -
    have "x = 92 \<or> (\<exists>k. 0 \<le> k \<and> k < 8 \<and> x = oct_digit k)"
      using that octal_bounds by (fastforce simp: esc_byte_def split: if_splits)
    then have "uint x > 0" using oct_digit_val(1) by auto
    then show ?thesis by auto
  qed
  have go: "strchr_n n (pre @ xs @ [0]) (int (length pre)) 0 = Some (Some (int (length pre) + int (length xs)))"
    if "\<forall>x\<in>set xs. x \<noteq> 0" "length xs < n" for n pre and xs :: "byte list"
    using that
  proof (induction xs arbitrary: n pre)
    case Nil
    then show ?case by (cases n) (simp_all add: rd_def nth_append)
  next
    case (Cons x xs)
    then obtain m where m: "n = Suc m" by (cases n) auto
    show ?case using Cons.IH [of m "pre @ [x]"] Cons.prems m by (simp add: rd_def nth_append add.commute)
  qed
  have len: "length (concat (map esc_byte ds)) = 4 * length ds"
    by (induction ds) (simp_all add: esc_byte_def)
  show ?thesis
    using go [of "concat (map esc_byte ds)" "length (escapes ds)" "[]"] nz len
    by (simp add: strlen_def strchr_def escapes_def)
qed

text \<open>C18: Every non-empty sequence of bytes can be given as an argument: written with octal escapes, it is read
  back exactly by \<open>data_from_str\<close>, whatever the bytes are, the zero byte and the backslash included.\<close>

theorem data_escapes_roundtrip:
  "ds \<noteq> [] \<Longrightarrow> data_from_str (escapes ds) = Some (Some ds)"
proof -
  assume ds: "ds \<noteq> []"
  have "parse_cform (replicate (4 * length ds) 0) (4 * int (length ds)) (escapes ds) (4 * int (length ds)) =
      Some (ds @ drop (length ds) (replicate (4 * length ds) 0), int (length ds))"
    using cform_loop_escapes [of "[]" ds "4 * int (length ds)" "replicate (4 * length ds) 0" "[]"]
    by (simp add: parse_cform_def escapes_def)
  then show ?thesis using ds strlen_escapes [of ds] by (simp add: data_from_str_def nat_mult_distrib)
qed

lemma data_escapes_roundtrip_witness:
  "data_from_str [92, 48, 48, 48, 92, 49, 51, 52, 0] = Some (Some [0, 92])"
  using data_escapes_roundtrip [of "[0, 92]"] by (simp add: escapes_def esc_byte_def oct_digit_def)

end
