(* ===== verification/KeyPool.thy ===== *)
theory KeyPool
  imports MpoolSpec
begin

text \<open>
  The contract of a pool as its users need it: adding keys one after the other makes it cover what the
  keys cover. It is proved from the law of one addition, and holds for the pools of \<open>Mpool\<close>.
\<close>

section \<open>The contract\<close>

fun add_all :: "('p \<Rightarrow> 'k \<Rightarrow> 'p option) \<Rightarrow> 'p \<Rightarrow> 'k list \<Rightarrow> 'p option" where
  "add_all add p [] = Some p"
| "add_all add p (k # ks) = Option.bind (add p k) (\<lambda>p. add_all add p ks)"

lemma add_all_append: "add_all add p (xs @ ys) = Option.bind (add_all add p xs) (\<lambda>p. add_all add p ys)"
  by (induction xs arbitrary: p) (auto split: Option.bind_splits)

locale key_pool =
  fixes inv :: "'p \<Rightarrow> bool" and ok :: "'k \<Rightarrow> bool" and keys :: "'p \<Rightarrow> 'k set"
    and covers :: "'k \<Rightarrow> 'k \<Rightarrow> bool" and add :: "'p \<Rightarrow> 'k \<Rightarrow> 'p option"
  assumes keys_ok: "inv p \<Longrightarrow> k \<in> keys p \<Longrightarrow> ok k"
    and covers_refl: "ok k \<Longrightarrow> covers k k"
    and add_law: "inv p \<Longrightarrow> ok k \<Longrightarrow> \<exists>p'. add p k = Some p' \<and> inv p' \<and>
      (\<forall>q. ok q \<longrightarrow> (\<exists>a\<in>keys p'. covers a q) \<longleftrightarrow> (\<exists>a\<in>keys p. covers a q) \<or> covers k q)"
begin

lemma add_all_law:
  "inv p \<Longrightarrow> \<forall>k\<in>set ks. ok k \<Longrightarrow> \<exists>p'. add_all add p ks = Some p' \<and> inv p' \<and>
     (\<forall>q. ok q \<longrightarrow> (\<exists>a\<in>keys p'. covers a q) \<longleftrightarrow> (\<exists>a\<in>keys p. covers a q) \<or> (\<exists>k\<in>set ks. covers k q))"
proof (induction ks arbitrary: p)
  case (Cons k ks)
  then obtain p1 where p1: "add p k = Some p1" "inv p1"
      "\<forall>q. ok q \<longrightarrow> (\<exists>a\<in>keys p1. covers a q) \<longleftrightarrow> (\<exists>a\<in>keys p. covers a q) \<or> covers k q"
    using add_law [of p k] by auto
  obtain p' where "add_all add p1 ks = Some p'" "inv p'"
      "\<forall>q. ok q \<longrightarrow> (\<exists>a\<in>keys p'. covers a q) \<longleftrightarrow> (\<exists>a\<in>keys p1. covers a q) \<or> (\<exists>k\<in>set ks. covers k q)"
    using Cons.IH [OF p1(2)] Cons.prems(2) by auto
  then show ?case using p1 by auto
qed simp

end

text \<open>Keys that are prefixes: two keys that cover the same one cover each other, in one direction.\<close>

locale prefix_pool = key_pool +
  assumes covers_trans: "ok a \<Longrightarrow> ok b \<Longrightarrow> ok c \<Longrightarrow> covers a b \<Longrightarrow> covers b c \<Longrightarrow> covers a c"
    and covers_join: "ok a \<Longrightarrow> ok b \<Longrightarrow> ok c \<Longrightarrow> covers a c \<Longrightarrow> covers b c \<Longrightarrow> covers a b \<or> covers b a"
begin

lemma add_all_meets:
  assumes "inv p" "keys p = {}" "\<forall>k\<in>set ks. ok k" "add_all add p ks = Some p'" "ok q"
  shows "(\<exists>a\<in>keys p'. covers a q \<or> covers q a) \<longleftrightarrow> (\<exists>k\<in>set ks. covers k q \<or> covers q k)"
proof -
  have inv': "inv p'" and cov: "\<And>q. ok q \<Longrightarrow> (\<exists>a\<in>keys p'. covers a q) \<longleftrightarrow> (\<exists>k\<in>set ks. covers k q)"
    using add_all_law [OF assms(1,3)] assms(2,4) by auto
  have meet: "covers b q \<or> covers q b" if "ok a" "ok b" "covers b a" "covers a q \<or> covers q a" for a b
    using that covers_trans [of b a q] covers_join [of b q a] assms(5) by blast
  show ?thesis
  proof
    assume "\<exists>a\<in>keys p'. covers a q \<or> covers q a"
    then obtain a where a: "a \<in> keys p'" "covers a q \<or> covers q a" by blast
    have "ok a" using keys_ok [OF inv' a(1)] .
    then obtain k where "k \<in> set ks" "covers k a" using cov a(1) covers_refl by blast
    then show "\<exists>k\<in>set ks. covers k q \<or> covers q k" using meet [OF \<open>ok a\<close> _ _ a(2)] assms(3) by blast
  next
    assume "\<exists>k\<in>set ks. covers k q \<or> covers q k"
    then obtain k where k: "k \<in> set ks" "covers k q \<or> covers q k" by blast
    have "ok k" using assms(3) k(1) by blast
    then obtain a where a: "a \<in> keys p'" "covers a k" using cov k(1) covers_refl by blast
    then show "\<exists>a\<in>keys p'. covers a q \<or> covers q a" using meet [OF \<open>ok k\<close> keys_ok [OF inv' a(1)] _ k(2)] by blast
  qed
qed

end

section \<open>The pools\<close>

text \<open>Adding the key of an element.\<close>

definition pool_add :: "mphdr \<Rightarrow> elem \<Rightarrow> mphdr option" where
  "pool_add hdr k = map_option fst (mem_add hdr (edata k) (elen k))"

lemma new_elem_key:
  assumes "elem_ok c k"
  shows "elem_ok c (new_elem c (edata k) (elen k))" "covers (new_elem c (edata k) (elen k)) q = covers k q"
proof -
  let ?n = "new_elem c (edata k) (elen k)"
  have e: "elen k = elen ?n" "edata k = edata ?n" "ecmp k = ecmp ?n"
    using assms by (simp_all add: new_elem_def elem_ok_def)
  show "elem_ok c ?n" using assms scmp_same_key(2) [OF e] by simp
  show "covers ?n q = covers k q" using scmp_same_key(1) [OF e] e(1) by (simp add: covers_def)
qed

interpretation key: key_pool "\<lambda>h. pool_inv h \<and> mcmp h = c" "elem_ok c" elems covers pool_add for c
proof
  fix h and k :: elem
  show "pool_inv h \<and> mcmp h = c \<Longrightarrow> k \<in> elems h \<Longrightarrow> elem_ok c k" using elems_ok by auto
next
  fix k assume "elem_ok c k"
  then show "covers k k" by (simp add: covers_def scmp_refl)
next
  fix h k assume h: "pool_inv h \<and> mcmp h = c" and k: "elem_ok c k"
  show "\<exists>h'. pool_add h k = Some h' \<and> (pool_inv h' \<and> mcmp h' = c) \<and>
      (\<forall>q. elem_ok c q \<longrightarrow> (\<exists>a\<in>elems h'. covers a q) \<longleftrightarrow> (\<exists>a\<in>elems h. covers a q) \<or> covers k q)"
    using mem_add_spec [of h "edata k" "elen k"] h new_elem_key [OF k]
    by (auto simp: pool_add_def covered_def)
qed

interpretation net: prefix_pool "\<lambda>h. pool_inv h \<and> mcmp h = CMP_BITS" "elem_ok CMP_BITS" elems covers pool_add
proof
  fix a b d assume ok: "elem_ok CMP_BITS a" "elem_ok CMP_BITS b" "elem_ok CMP_BITS d"
  then show "covers a b \<Longrightarrow> covers b d \<Longrightarrow> covers a d" by (rule covers_trans)
  assume c: "covers a d" "covers b d"
  have short: "elead x m = elead x k div 2 ^ (nat k - nat m)" if "elem_ok CMP_BITS x" "m \<le> k" "k \<le> elen x" for x k m
    using that by (intro lead_shorter) (auto simp: elem_ok_def)
  have "covers x y" if "elem_ok CMP_BITS x" "elem_ok CMP_BITS y" "covers x d" "covers y d" "elen x \<le> elen y" for x y
    using that ok(3) short [of d "elen x" "elen y"] short [of y "elen x" "elen y"]
    by (simp add: covers_bits_iff)
  then show "covers a b \<or> covers b a" using ok(1,2) c by (metis linear)
qed

text \<open>Lookup finds a key exactly when one covers the query or is covered by it.\<close>

lemma mem_get_meets:
  assumes "pool_inv hdr" "elem_ok (mcmp hdr) (new_elem (mcmp hdr) data len)"
  defines "q \<equiv> new_elem (mcmp hdr) data len"
  shows "mem_get hdr data len \<noteq> None \<longleftrightarrow> (\<exists>a\<in>elems hdr. covers a q \<or> covers q a)"
proof -
  have "covers a q \<or> covers q a \<longleftrightarrow> scmp q a = 0" if "a \<in> elems hdr" for a
    using scmp_zero_flip [OF elems_ok [OF assms(1) that] assms(2)] by (auto simp: covers_def q_def)
  then show ?thesis using mem_get_spec [OF assms(1,2)] by (auto simp: q_def split: option.splits)
qed

end
