(* ===== verification/HostList.thy ===== *)
theory HostList
  imports Args KeyPool
begin

text \<open>
  A list of hosts, as a file or an argument gives it, makes a pool that accepts exactly the hosts of the
  list and the hosts below them.
\<close>

section \<open>The words of a text\<close>

text \<open>The reference: the text is cut at the separators, words with a character that is not allowed are left
  out, and letters are lower case.\<close>

fun words_from :: "byte list \<Rightarrow> byte list \<Rightarrow> byte list list" where
  "words_from w [] = (if w = [] then [] else [w])"
| "words_from w (c # cs) =
     (if is_sep c then (if w = [] then words_from [] cs else w # words_from [] cs) else words_from (w @ [c]) cs)"

definition low :: "byte \<Rightarrow> byte" where
  "low c = (case lower_char c of None \<Rightarrow> c | Some y \<Rightarrow> y)"

definition valid_host :: "byte list \<Rightarrow> bool" where
  "valid_host w \<longleftrightarrow> (\<forall>c\<in>set w. lower_char c \<noteq> None)"

definition host_words :: "byte list \<Rightarrow> byte list list" where
  "host_words ls = map (map low) (filter valid_host (words_from [] ls))"

definition host_elem :: "byte list \<Rightarrow> elem" where
  "host_elem w = new_elem CMP_HOST w (int (length w))"

text \<open>The hyphen breaks the order of hosts, and is left out here.\<close>

lemma lower_char_ok:
  assumes "lower_char c = Some y" "c \<noteq> 45"
  shows "46 \<le> sint y"
proof -
  have u: "sint c \<noteq> 45" using assms(2) signed_word_eqI [of c 45] by auto
  show ?thesis
  proof (cases "65 \<le> sint c \<and> sint c \<le> 90")
    case True
    have "uint c < 128"
    proof (rule ccontr)
      assume "\<not> uint c < 128"
      then have "sint c = uint c - 256" by (simp add: sint_byte)
      then show False using True uint_byte_bounds(2) [of c] by linarith
    qed
    then have "sint (c + 32) = sint c + 32" using True by (simp add: sint_byte uint_plus_if')
    moreover have "y = c + 32" using True assms(1) by (simp add: lower_char_def)
    ultimately show ?thesis using True by simp
  next
    case False
    then have "y = c \<and> 45 \<le> sint c"
      using assms(1) by (auto simp: lower_char_def Let_def split: if_splits)
    then show ?thesis using u by simp
  qed
qed

definition no_hyphen :: "byte list \<Rightarrow> bool" where
  "no_hyphen w \<longleftrightarrow> 45 \<notin> set w"

lemma host_elem_ok:
  assumes "valid_host w" "no_hyphen w"
  shows "elem_ok CMP_HOST (host_elem (map low w))"
proof -
  have "46 \<le> sint (low c)" if c: "c \<in> set w" for c
  proof -
    obtain y where "lower_char c = Some y" using assms(1) c by (auto simp: valid_host_def)
    moreover have "c \<noteq> 45" using assms(2) c by (auto simp: no_hyphen_def)
    ultimately show ?thesis using lower_char_ok by (simp add: low_def)
  qed
  then show ?thesis by (simp add: elem_ok_def host_elem_def new_elem_def)
qed

section \<open>The loop\<close>

text \<open>The words that a word becomes.\<close>

definition taken :: "byte list \<Rightarrow> byte list list" where
  "taken w = (if w = [] \<or> \<not> valid_host w then [] else [map low w])"

text \<open>The end of a word: it is added, and the loop goes on behind it.\<close>

lemma hosts_loop_end:
  assumes bad: "bad \<longleftrightarrow> \<not> valid_host w"
    and e: "s = int (length pre)" "e = s + int (length w)" "e \<le> n"
    and c: "e = n \<or> (\<exists>c. rd b e = Some c \<and> is_sep c)" and b: "b = pre @ map low w @ rest"
  shows "hosts_loop hdr b n e s bad =
    Option.bind (add_all pool_add hdr (map host_elem (taken w))) (\<lambda>hdr. hosts_loop hdr b n (e + 1) (e + 1) False)"
proof -
  have c': "(if e = n then Some 32 else rd b e) = Some x \<Longrightarrow> \<not> (e \<noteq> n \<and> \<not> is_sep x)" for x
    using c by (auto split: if_splits)
  obtain x where x: "(if e = n then Some 32 else rd b e) = Some x" using c by (cases "e = n") auto
  consider "w = []" | "w \<noteq> []" "valid_host w" | "w \<noteq> []" "\<not> valid_host w" by blast
  then show ?thesis
  proof cases
    case 1
    then have "s = e" "\<not> bad" using e bad by (simp_all add: valid_host_def)
    then have "hosts_loop hdr b n e s bad = hosts_loop hdr b n (e + 1) (e + 1) False"
      using e(3) x c' [OF x] by (subst hosts_loop.simps) (simp del: de_Morgan_conj)
    then show ?thesis using 1 by (simp add: taken_def)
  next
    case 2
    have ne: "s \<noteq> e" and len: "e - s = int (length w)" using e(2) 2(1) by simp_all
    have d: "rdn b s (int (length w)) = Some (map low w)" using b e(1) by simp
    have "hosts_loop hdr b n e s bad =
        Option.bind (mem_add hdr (map low w) (int (length w))) (\<lambda>(hdr, _). hosts_loop hdr b n (e + 1) (e + 1) bad)"
      using e(3) x c' [OF x] ne bad 2 d by (subst hosts_loop.simps) (simp add: len del: de_Morgan_conj)
    then show ?thesis using 2 bad
      by (auto simp: taken_def pool_add_def host_elem_def new_elem_def split: Option.bind_splits)
  next
    case 3
    then have "s \<noteq> e" using e(2) by simp
    then have "hosts_loop hdr b n e s bad = hosts_loop hdr b n (e + 1) (e + 1) False"
      using e(3) x c' [OF x] 3 bad by (subst hosts_loop.simps) (simp del: de_Morgan_conj)
    then show ?thesis using 3 by (simp add: taken_def)
  qed
qed

lemma hosts_loop_words:
  "(bad \<longleftrightarrow> \<not> valid_host w) \<Longrightarrow> n = int (length pre + length w + length rest) \<Longrightarrow>
     map_option fst (hosts_loop hdr (pre @ map low w @ rest) n (int (length pre) + int (length w)) (int (length pre)) bad) =
       add_all pool_add hdr (map host_elem (concat (map taken (words_from w rest))))"
proof (induction rest arbitrary: hdr w pre bad)
  case Nil
  have l: "hosts_loop hdr (pre @ map low w @ []) n (int (length pre) + int (length w)) (int (length pre)) bad =
      Option.bind (add_all pool_add hdr (map host_elem (taken w))) (\<lambda>hdr. hosts_loop hdr (pre @ map low w @ []) n (n + 1) (n + 1) False)"
    using hosts_loop_end [of bad w "int (length pre)" pre "int (length pre) + int (length w)" n "pre @ map low w @ []" "[]" hdr]
      Nil.prems by auto
  have "hosts_loop hdr' (pre @ map low w @ []) n (n + 1) (n + 1) False = Some (hdr', pre @ map low w @ [])" for hdr'
    by (subst hosts_loop.simps) simp
  moreover have "concat (map taken (words_from w [])) = taken w" by (simp add: taken_def)
  ultimately show ?case unfolding l by (cases "add_all pool_add hdr (map host_elem (taken w))") simp_all
next
  case (Cons c rest)
  let ?b = "pre @ map low w @ c # rest" and ?e = "int (length pre) + int (length w)"
  have rc: "rd ?b ?e = Some c" by (simp add: rd_def nth_append nat_int_add)
  show ?case
  proof (cases "is_sep c")
    case True
    have l: "hosts_loop hdr ?b n ?e (int (length pre)) bad =
        Option.bind (add_all pool_add hdr (map host_elem (taken w))) (\<lambda>hdr. hosts_loop hdr ?b n (?e + 1) (?e + 1) False)"
      by (rule hosts_loop_end [where pre = pre and rest = "c # rest"]) (use Cons.prems rc True in auto)
    have IH: "map_option fst (hosts_loop hdr' ?b n (?e + 1) (?e + 1) False) =
        add_all pool_add hdr' (map host_elem (concat (map taken (words_from [] rest))))" for hdr'
      using Cons.IH [of False "[]" "pre @ map low w @ [c]" hdr'] Cons.prems
      by (simp add: valid_host_def add.commute add.left_commute)
    have "concat (map taken (words_from w (c # rest))) = taken w @ concat (map taken (words_from [] rest))"
      using True by (simp add: taken_def)
    then show ?thesis using IH unfolding l
      by (cases "add_all pool_add hdr (map host_elem (taken w))") (simp_all add: add_all_append)
  next
    case False
    have n: "?e \<noteq> n" "\<not> ?e > n" using Cons.prems by auto
    have step: "hosts_loop hdr ?b n ?e (int (length pre)) bad =
      hosts_loop hdr (pre @ map low (w @ [c]) @ rest) n (?e + 1) (int (length pre)) (\<not> valid_host (w @ [c]))"
    proof (cases "lower_char c")
      case None
      then show ?thesis using n rc False by (subst hosts_loop.simps) (simp add: low_def valid_host_def)
    next
      case (Some y)
      have "wr ?b ?e y = Some (pre @ map low w @ y # rest)"
        by (simp add: wr_def nat_int_add list_update_append)
      then show ?thesis using n rc False Some Cons.prems(1) by (subst hosts_loop.simps) (auto simp: low_def valid_host_def)
    qed
    have e': "int (length pre) + int (length (w @ [c])) = ?e + 1" by simp
    have "map_option fst (hosts_loop hdr (pre @ map low (w @ [c]) @ rest) n (?e + 1) (int (length pre)) (\<not> valid_host (w @ [c]))) =
        add_all pool_add hdr (map host_elem (concat (map taken (words_from (w @ [c]) rest))))"
      using Cons.IH [of "\<not> valid_host (w @ [c])" "w @ [c]" pre hdr] Cons.prems(2) unfolding e' by auto
    then show ?thesis unfolding step using False by simp
  qed
qed

lemma kept_words: "[] \<notin> set ws \<Longrightarrow> concat (map taken ws) = map (map low) (filter valid_host ws)"
  by (induction ws) (auto simp: taken_def)

lemma words_from_nonempty: "[] \<notin> set (words_from w cs)"
  by (induction w cs rule: words_from.induct) auto

lemma parse_hosts_refines:
  "map_option fst (parse_hosts hdr ls (int (length ls))) = add_all pool_add hdr (map host_elem (host_words ls))"
  using hosts_loop_words [of False "[]" "int (length ls)" "[]" ls hdr]
  by (simp add: parse_hosts_def host_words_def valid_host_def kept_words [OF words_from_nonempty])

text \<open>The words of a list without hyphens are keys of a pool of hosts.\<close>

lemma words_from_chars: "u \<in> set (words_from v cs) \<Longrightarrow> c \<in> set u \<Longrightarrow> c \<in> set (v @ cs)"
  by (induction v cs rule: words_from.induct) (auto split: if_splits)

lemma host_words_ok:
  assumes "no_hyphen ls" "w \<in> set (host_words ls)"
  shows "elem_ok CMP_HOST (host_elem w)"
proof -
  obtain u where u: "w = map low u" "valid_host u" "u \<in> set (words_from [] ls)"
    using assms(2) by (auto simp: host_words_def)
  then have "no_hyphen u" using assms(1) words_from_chars [OF u(3)] by (auto simp: no_hyphen_def)
  then show ?thesis using host_elem_ok [OF u(2)] u(1) by simp
qed

lemma rhost_elem: "rhost (host_elem w) = rev w"
  by (simp add: rhost_def host_elem_def new_elem_def)

lemma rev_below: "(\<exists>zs. rev name = rev w @ x # zs) \<longleftrightarrow> (\<exists>sub. name = sub @ [x] @ w)"
proof
  assume "\<exists>zs. rev name = rev w @ x # zs"
  then obtain zs where "rev name = rev w @ x # zs" ..
  then have "name = rev zs @ [x] @ w" by (simp add: rev_swap)
  then show "\<exists>sub. name = sub @ [x] @ w" ..
qed auto

text \<open>C16: Reading a list of hosts always succeeds, and the test that \<open>check_host\<close> makes on the pool accepts a name
  if and only if it is one of the words of the list, in lower case, or a name below one, with words that
  hold a character that is not allowed left out. This is for hosts without a hyphen, which breaks the order of the pool.\<close>

theorem parse_hosts_accepts:
  assumes "no_hyphen ls" "\<forall>c\<in>set name. 46 \<le> sint c"
  shows "\<exists>hosts b. parse_hosts (mem_pool MF_STATIC CMP_HOST) ls (int (length ls)) = Some (hosts, b) \<and>
    ((\<exists>v. mem_get hosts name (int (length name)) = Some v \<and> elen v \<le> int (length name)) \<longleftrightarrow>
      (\<exists>w\<in>set (host_words ls). name = w \<or> (\<exists>sub. name = sub @ [46] @ w)))"
proof -
  let ?h = "mem_pool MF_STATIC CMP_HOST" and ?q = "host_elem name" and ?ks = "map host_elem (host_words ls)"
  have ok: "\<forall>k\<in>set ?ks. elem_ok CMP_HOST k" using host_words_ok [OF assms(1)] by auto
  have h: "pool_inv ?h \<and> mcmp ?h = CMP_HOST" "elems ?h = {}" using pool_inv_empty by (simp_all add: mem_pool_def elems_def)
  obtain hosts where a: "add_all pool_add ?h ?ks = Some hosts" "pool_inv hosts \<and> mcmp hosts = CMP_HOST"
      and cov: "\<And>q. elem_ok CMP_HOST q \<Longrightarrow> (\<exists>k\<in>elems hosts. covers k q) \<longleftrightarrow> (\<exists>k\<in>set ?ks. covers k q)"
    using key.add_all_law [OF h(1) ok] h(2) by auto
  then obtain b where p: "parse_hosts ?h ls (int (length ls)) = Some (hosts, b)"
    using parse_hosts_refines [of ?h ls] by auto
  have q: "elem_ok CMP_HOST ?q" using assms(2) by (simp add: elem_ok_def host_elem_def new_elem_def)
  have "(\<exists>v. mem_get hosts name (int (length name)) = Some v \<and> elen v \<le> int (length name)) \<longleftrightarrow> covered hosts ?q"
    using mem_get_covered [of hosts name "int (length name)"] a(2) q by (auto simp: host_elem_def)
  also have "\<dots> \<longleftrightarrow> (\<exists>w\<in>set (host_words ls). covers (host_elem w) ?q)"
    using cov [OF q] by (auto simp: covered_def)
  also have "\<dots> \<longleftrightarrow> (\<exists>w\<in>set (host_words ls). name = w \<or> (\<exists>sub. name = sub @ [46] @ w))"
    using covers_host_iff [OF host_words_ok [OF assms(1)] q]
    by (simp only: rhost_elem rev_below rev_is_rev_conv cong: bex_cong)
  finally show ?thesis using p by auto
qed

text \<open>The list \<open>A.b\<close>, \<open>c\<close>, with a line that is not a host; the name \<open>x.a.b\<close>.\<close>

lemma parse_hosts_accepts_witness:
  "\<exists>hosts b v. parse_hosts (mem_pool MF_STATIC CMP_HOST) [65, 46, 98, 10, 40, 10, 99] 7 = Some (hosts, b) \<and>
    mem_get hosts [120, 46, 97, 46, 98] 5 = Some v"
proof -
  let ?t = "[65, 46, 98, 10, 40, 10, 99] :: byte list" and ?n = "[120, 46, 97, 46, 98] :: byte list"
  have h: "no_hyphen ?t" "\<forall>c\<in>set ?n. 46 \<le> sint c" by (simp_all add: no_hyphen_def)
  have "[97, 46, 98] \<in> set (host_words ?t)" by code_simp
  moreover have "?n = [120] @ [46] @ [97, 46, 98]" by simp
  ultimately have w: "\<exists>w\<in>set (host_words ?t). ?n = w \<or> (\<exists>sub. ?n = sub @ [46] @ w)" by blast
  obtain hosts b where "parse_hosts (mem_pool MF_STATIC CMP_HOST) ?t (int (length ?t)) = Some (hosts, b)"
    "(\<exists>v. mem_get hosts ?n (int (length ?n)) = Some v \<and> elen v \<le> int (length ?n)) \<longleftrightarrow>
      (\<exists>w\<in>set (host_words ?t). ?n = w \<or> (\<exists>sub. ?n = sub @ [46] @ w))"
    using parse_hosts_accepts [OF h] by blast
  then have "parse_hosts (mem_pool MF_STATIC CMP_HOST) ?t 7 = Some (hosts, b)" "\<exists>v. mem_get hosts ?n 5 = Some v \<and> elen v \<le> 5"
    using w by simp_all
  then show ?thesis by blast
qed

end
