(* ===== verification/NetList.thy ===== *)
theory NetList
  imports HostList
begin

text \<open>
  A list of networks makes a pool that accepts the addresses in one of the networks of the list, and,
  because lookup does not ask for the length, more than these.
\<close>

section \<open>One network\<close>

text \<open>What is asked of \<open>inet_pton\<close>: an address has the length of its family.\<close>

definition pton_ok :: "pton \<Rightarrow> bool" where
  "pton_ok pton \<longleftrightarrow> (\<forall>xs a. (pton AF_INET xs = Some a \<longrightarrow> length a = 4) \<and> (pton AF_INET6 xs = Some a \<longrightarrow> length a = 16))"

text \<open>The address and the length of a network, \<open>None\<close> for a word that is left out.\<close>

definition net_of :: "pton \<Rightarrow> byte list \<Rightarrow> (byte list \<times> int) option" where
  "net_of pton w =
     (case parse_ip pton (w @ [0]) (int (length w) + 1) of
        None \<Rightarrow> None
      | Some (bits, ip) \<Rightarrow> if bits \<le> 0 then None else Some (ip, bits))"

definition net_elem :: "byte list \<times> int \<Rightarrow> elem" where
  "net_elem n = new_elem CMP_BITS (take (nat (snd n div 8 + (if snd n mod 8 \<noteq> 0 then 1 else 0))) (fst n)) (snd n)"

lemma strtol10_ends:
  assumes b: "ends_at b z" "0 \<le> i" "i \<le> z"
  shows "\<exists>v e. strtol10 b i = Some (v, e)"
proof -
  obtain j where j: "skip_ws b i = Some j" "i \<le> j" "j \<le> z" using skip_ws_stop b by blast
  let ?k = "if b ! nat j = 43 \<or> b ! nat j = 45 then j + 1 else j"
  have k: "0 \<le> ?k \<and> ?k \<le> z" using j b by (cases "j = z") auto
  have "z < int (length b)" "\<not> isdigit (b ! nat z)" using b(1) by (simp_all add: ends_at_def)
  then obtain v e where "dec_digits b ?k 0 = Some (v, e)" using dec_digits_safe k by blast
  then show ?thesis using j b by (auto simp: strtol10_def ends_at_rd Let_def)
qed

lemma ip_bits_range:
  assumes "pton_ok pton" "ip_bits pton b bits = (k, ip)" "0 \<le> bits"
  shows "0 \<le> k \<and> k \<le> 8 * int (length ip)"
  using assms by (auto simp: ip_bits_def pton_ok_def split: option.splits if_splits)

lemma parse_ip_safe:
  assumes "pton_ok pton"
  shows "\<exists>bits ip. parse_ip pton (w @ [0]) (int (length w) + 1) = Some (bits, ip) \<and> 0 \<le> bits \<and> bits \<le> 8 * int (length ip)"
proof -
  let ?b = "w @ [0]"
  obtain sep where s: "memchr ?b 0 47 (int (length w) + 1) = Some sep" using memchr_safe [of 0 "int (length w) + 1" ?b 47] by auto
  have z: "ends_at ?b (int (length w))" by (simp add: ends_at_def)
  show ?thesis
  proof (cases sep)
    case None
    obtain k ip where k: "ip_bits pton ?b 0 = (k, ip)" by fastforce
    then show ?thesis using ip_bits_range [OF assms k] s None by (simp add: parse_ip_def)
  next
    case (Some p)
    have p: "0 \<le> p" "p < int (length ?b)" "?b ! nat p = 47"
      using memchr_safe [of 0 "int (length w) + 1" ?b 47] s Some by (auto simp: first_at_def)
    then have "p \<noteq> int (length w)" by auto
    then obtain v e where v: "strtol10 ?b (p + 1) = Some (v, e)" using strtol10_ends [OF z, of "p + 1"] p by auto
    obtain b' where b': "wr ?b p 0 = Some b'" using p by simp
    show ?thesis
    proof (cases "v \<le> 0")
      case True
      then show ?thesis using s Some v by (simp add: parse_ip_def)
    next
      case False
      obtain k ip where k: "ip_bits pton b' v = (k, ip)" by fastforce
      then show ?thesis using ip_bits_range [OF assms k] s Some v b' False by (simp add: parse_ip_def)
    qed
  qed
qed

lemma net_of_range: "pton_ok pton \<Longrightarrow> net_of pton w = Some (ip, bits) \<Longrightarrow> 0 < bits \<and> bits \<le> 8 * int (length ip)"
  using parse_ip_safe [of pton w] by (auto simp: net_of_def split: if_splits)

lemma bytes_of_bits:
  assumes "len = bits div 8 + (if bits mod 8 \<noteq> 0 then 1 else 0)" "0 < (bits :: int)" "bits \<le> 8 * int n"
  shows "0 < len" "len \<le> int n" "bits \<le> 8 * len"
proof -
  obtain q r where qr: "bits = 8 * q + r" "0 \<le> r" "r < 8" "bits div 8 = q" "bits mod 8 = r"
    by (rule that [of "bits div 8" "bits mod 8"]) simp_all
  have l: "len = q + (if r \<noteq> 0 then 1 else 0)" using assms(1) unfolding qr(4,5) .
  show "0 < len" "len \<le> int n" "bits \<le> 8 * len"
    using l qr(1-3) assms(2,3) by (simp_all split: if_splits)
qed

lemma net_elem_ok:
  assumes "pton_ok pton" "net_of pton w = Some n"
  shows "elem_ok CMP_BITS (net_elem n)" "k \<le> snd n \<Longrightarrow> elead (net_elem n) k = lead (fst n) (nat k)"
proof -
  obtain ip bits where n: "n = (ip, bits)" by (cases n)
  define len where "len = bits div 8 + (if bits mod 8 \<noteq> 0 then 1 else 0)"
  have r: "0 < bits" "bits \<le> 8 * int (length ip)" using net_of_range [OF assms(1)] assms(2) n by auto
  have l: "0 < len" "len \<le> int (length ip)" "bits \<le> 8 * len" using bytes_of_bits [OF len_def r] by blast+
  have e: "edata (net_elem n) = take (nat len) ip" "elen (net_elem n) = bits" "ecmp (net_elem n) = CMP_BITS"
    by (simp_all add: net_elem_def new_elem_def n len_def)
  show "elem_ok CMP_BITS (net_elem n)" using r l by (simp add: elem_ok_def e)
  assume "k \<le> snd n"
  then have k: "nat k \<le> 8 * nat len" using l n by simp
  have le: "nat len \<le> length ip" using l by simp
  have "lead ip (nat k) = lead ip (8 * nat len) div 2 ^ (8 * nat len - nat k)" using k le by (intro lead_shorter) simp_all
  then show "elead (net_elem n) k = lead (fst n) (nat k)"
    using le unfolding e(1) lead_bytes [OF le] by (simp add: n lead_def min_def)
qed

section \<open>The loop\<close>

definition net_kept :: "pton \<Rightarrow> byte list \<Rightarrow> elem list" where
  "net_kept pton w = (case net_of pton w of None \<Rightarrow> [] | Some n \<Rightarrow> [net_elem n])"

lemma ipset_loop_end:
  assumes p: "pton_ok pton" and e: "s = int (length pre)" "e = s + int (length w)" "e \<le> n"
    and c: "e = n \<or> (\<exists>c. rd b e = Some c \<and> is_sep c)" and b: "b = pre @ w @ rest"
  shows "ipset_loop pton hdr b n e s =
    Option.bind (add_all pool_add hdr (if w = [] then [] else net_kept pton w)) (\<lambda>hdr. ipset_loop pton hdr b n (e + 1) (e + 1))"
proof -
  have c': "(if e = n then Some 32 else rd b e) = Some x \<Longrightarrow> \<not> (e \<noteq> n \<and> \<not> is_sep x)" for x
    using c by (auto split: if_splits)
  obtain x where x: "(if e = n then Some 32 else rd b e) = Some x" using c by (cases "e = n") auto
  show ?thesis
  proof (cases "w = []")
    case True
    then have "s = e" using e by simp
    then show ?thesis using e(3) x c' [OF x] True by (subst ipset_loop.simps) (simp del: de_Morgan_conj)
  next
    case False
    then have ne: "s \<noteq> e" and len: "e - s = int (length w)" using e(2) by simp_all
    have d: "rdn b s (int (length w)) = Some w" using b e(1) by simp
    obtain bits ip where ip: "parse_ip pton (w @ [0]) (int (length w) + 1) = Some (bits, ip)" "0 \<le> bits" "bits \<le> 8 * int (length ip)"
      using parse_ip_safe [OF p] by blast
    show ?thesis
    proof (cases "bits \<le> 0")
      case True
      then have "ipset_loop pton hdr b n e s = ipset_loop pton hdr b n (e + 1) (e + 1)"
        using e(3) x c' [OF x] ne d ip by (subst ipset_loop.simps) (simp add: len del: de_Morgan_conj)
      then show ?thesis using True False ip by (simp add: net_kept_def net_of_def)
    next
      case pos: False
      define l where "l = bits div 8 + (if bits mod 8 \<noteq> 0 then 1 else 0)"
      have l: "0 < l" "l \<le> int (length ip)" using bytes_of_bits [OF l_def _ ip(3)] pos by simp_all
      then have r: "rdn ip 0 l = Some (take (nat l) ip)" by simp
      have "ipset_loop pton hdr b n e s =
          Option.bind (mem_add hdr (take (nat l) ip) bits) (\<lambda>(hdr, _). ipset_loop pton hdr b n (e + 1) (e + 1))"
        using e(3) x c' [OF x] ne d ip(1) pos r
        by (subst ipset_loop.simps) (simp add: len Let_def l_def [symmetric] del: de_Morgan_conj)
      then show ?thesis using pos False ip(1)
        by (auto simp: net_kept_def net_of_def net_elem_def l_def pool_add_def new_elem_def split: Option.bind_splits)
    qed
  qed
qed

lemma words_from_sep: "is_sep c \<Longrightarrow> words_from w (c # cs) = (if w = [] then [] else [w]) @ words_from [] cs"
  by simp

lemma ipset_loop_words:
  "pton_ok pton \<Longrightarrow> n = int (length pre + length w + length rest) \<Longrightarrow>
     ipset_loop pton hdr (pre @ w @ rest) n (int (length pre) + int (length w)) (int (length pre)) =
       add_all pool_add hdr (concat (map (net_kept pton) (words_from w rest)))"
proof (induction rest arbitrary: hdr w pre)
  case Nil
  have "ipset_loop pton hdr (pre @ w @ []) n (int (length pre) + int (length w)) (int (length pre)) =
      Option.bind (add_all pool_add hdr (if w = [] then [] else net_kept pton w))
        (\<lambda>hdr. ipset_loop pton hdr (pre @ w @ []) n (n + 1) (n + 1))"
    using ipset_loop_end [OF Nil.prems(1), of "int (length pre)" pre "int (length pre) + int (length w)" w n "pre @ w @ []" "[]" hdr]
      Nil.prems(2) by auto
  moreover have "ipset_loop pton hdr' (pre @ w @ []) n (n + 1) (n + 1) = Some hdr'" for hdr'
    by (subst ipset_loop.simps) simp
  ultimately show ?case by (cases "add_all pool_add hdr (net_kept pton w)") simp_all
next
  case (Cons c rest)
  let ?b = "pre @ w @ c # rest" and ?e = "int (length pre) + int (length w)"
  have rc: "rd ?b ?e = Some c" by (simp add: rd_def nth_append nat_int_add)
  show ?case
  proof (cases "is_sep c")
    case True
    have l: "ipset_loop pton hdr ?b n ?e (int (length pre)) =
        Option.bind (add_all pool_add hdr (if w = [] then [] else net_kept pton w)) (\<lambda>hdr. ipset_loop pton hdr ?b n (?e + 1) (?e + 1))"
      by (rule ipset_loop_end [where pre = pre and rest = "c # rest"]) (use Cons.prems rc True in auto)
    have IH: "ipset_loop pton hdr' ?b n (?e + 1) (?e + 1) =
        add_all pool_add hdr' (concat (map (net_kept pton) (words_from [] rest)))" for hdr'
      using Cons.IH [of "pre @ w @ [c]" "[]" hdr'] Cons.prems
      by (simp add: add.commute add.left_commute)
    show ?thesis using IH unfolding l words_from_sep [OF True]
      by (cases "add_all pool_add hdr (net_kept pton w)") (simp_all add: add_all_append)
  next
    case False
    have n: "?e \<noteq> n" "\<not> ?e > n" using Cons.prems by auto
    have "ipset_loop pton hdr ?b n ?e (int (length pre)) = ipset_loop pton hdr ?b n (?e + 1) (int (length pre))"
      using n rc False by (subst ipset_loop.simps) simp
    moreover have e': "int (length pre) + int (length (w @ [c])) = ?e + 1" by simp
    moreover have "ipset_loop pton hdr ?b n (?e + 1) (int (length pre)) =
        add_all pool_add hdr (concat (map (net_kept pton) (words_from (w @ [c]) rest)))"
      using Cons.IH [of pre "w @ [c]" hdr] Cons.prems unfolding e' by simp
    ultimately show ?thesis using False by simp
  qed
qed

lemma parse_ipset_refines:
  "pton_ok pton \<Longrightarrow> parse_ipset pton hdr ls (int (length ls)) =
     add_all pool_add hdr (concat (map (net_kept pton) (words_from [] ls)))"
  using ipset_loop_words [of pton "int (length ls)" "[]" "[]" ls hdr] by (simp add: parse_ipset_def)

section \<open>What is accepted\<close>

lemma ex_net_kept:
  "(\<exists>k\<in>set (concat (map (net_kept pton) ws)). P k) \<longleftrightarrow>
     (\<exists>w\<in>set ws. \<exists>ip bits. net_of pton w = Some (ip, bits) \<and> P (net_elem (ip, bits)))"
proof -
  have "(\<exists>k\<in>set (net_kept pton w). P k) \<longleftrightarrow> (\<exists>ip bits. net_of pton w = Some (ip, bits) \<and> P (net_elem (ip, bits)))" for w
    by (cases "net_of pton w") (auto simp: net_kept_def)
  then show ?thesis by auto
qed

lemma meets_lead:
  assumes "elem_ok CMP_BITS a" "elem_ok CMP_BITS b"
  shows "covers a b \<or> covers b a \<longleftrightarrow> elead a (min (elen a) (elen b)) = elead b (min (elen a) (elen b))"
  using covers_bits_iff [OF assms] covers_bits_iff [OF assms(2,1)]
  by (cases "elen a \<le> elen b"; cases "elen b \<le> elen a") (auto simp: min_def)

definition dst_bytes :: "sockaddr \<Rightarrow> byte list" where
  "dst_bytes dst = (if sa_family dst = AF_INET6 then sa_ip6 dst else sa_ip4 dst)"

text \<open>C17: Reading a list of networks always succeeds, and \<open>check_ip\<close> accepts an address if and only if it
  agrees with a network of the list in as many bits as both have. An address in a network of its family
  is accepted, and so is an IPv4 address whose bits start a longer IPv6 network. Nothing depends on the
  order of the list or on networks that contain each other.\<close>

theorem parse_ipset_accepts:
  assumes "pton_ok pton"
  shows "\<exists>ipset. parse_ipset pton (mem_pool 0 CMP_BITS) ls (int (length ls)) = Some ipset \<and>
    (\<forall>dst. check_ip ipset dst \<longleftrightarrow>
      (\<exists>w\<in>set (words_from [] ls). \<exists>ip bits. net_of pton w = Some (ip, bits) \<and>
         (let k = nat (min bits (8 * int (length (dst_bytes dst)))) in lead ip k = lead (dst_bytes dst) k)))"
proof -
  let ?h = "mem_pool 0 CMP_BITS" and ?ks = "concat (map (net_kept pton) (words_from [] ls))"
  have h: "pool_inv ?h \<and> mcmp ?h = CMP_BITS" "elems ?h = {}" using pool_inv_empty by (simp_all add: mem_pool_def elems_def)
  have ok: "\<forall>k\<in>set ?ks. elem_ok CMP_BITS k"
    using net_elem_ok(1) [OF assms] by (auto simp: net_kept_def split: option.splits)
  obtain ipset where a: "add_all pool_add ?h ?ks = Some ipset" "pool_inv ipset" "mcmp ipset = CMP_BITS"
    using key.add_all_law [OF h(1) ok] by auto
  have "check_ip ipset dst \<longleftrightarrow> (\<exists>w\<in>set (words_from [] ls). \<exists>ip bits. net_of pton w = Some (ip, bits) \<and>
      (let k = nat (min bits (8 * int (length (dst_bytes dst)))) in lead ip k = lead (dst_bytes dst) k))" for dst
  proof -
    let ?q = "new_elem CMP_BITS (dst_bytes dst) (int (length (dst_bytes dst)) * 8)"
    have q: "elem_ok CMP_BITS ?q" by (simp add: elem_ok_def new_elem_def)
    have "check_ip ipset dst \<longleftrightarrow> (\<exists>k\<in>elems ipset. covers k ?q \<or> covers ?q k)"
      using mem_get_meets [of ipset "dst_bytes dst"] a(2,3) q by (simp add: check_ip_def dst_bytes_def Let_def)
    also have "\<dots> \<longleftrightarrow> (\<exists>k\<in>set ?ks. covers k ?q \<or> covers ?q k)" by (rule net.add_all_meets [OF h ok a(1) q])
    also have "\<dots> \<longleftrightarrow> (\<exists>w\<in>set (words_from [] ls). \<exists>ip bits. net_of pton w = Some (ip, bits) \<and>
        (covers (net_elem (ip, bits)) ?q \<or> covers ?q (net_elem (ip, bits))))"
      by (rule ex_net_kept)
    also have "\<dots> \<longleftrightarrow> (\<exists>w\<in>set (words_from [] ls). \<exists>ip bits. net_of pton w = Some (ip, bits) \<and>
        (let k = nat (min bits (8 * int (length (dst_bytes dst)))) in lead ip k = lead (dst_bytes dst) k))"
    proof -
      have "covers (net_elem (ip, bits)) ?q \<or> covers ?q (net_elem (ip, bits)) \<longleftrightarrow>
          (let k = nat (min bits (8 * int (length (dst_bytes dst)))) in lead ip k = lead (dst_bytes dst) k)"
        if n: "net_of pton w = Some (ip, bits)" for w ip bits
        using meets_lead [OF net_elem_ok(1) [OF assms n] q] net_elem_ok(2) [OF assms n, of "min bits (8 * int (length (dst_bytes dst)))"]
        by (simp add: Let_def net_elem_def new_elem_def mult.commute)
      then show ?thesis by blast
    qed
    finally show ?thesis .
  qed
  then show ?thesis using parse_ipset_refines [OF assms, of ?h ls] a(1) by auto
qed

text \<open>The network 20.1.0.0/16, whose word is taken for its address by a reader of two words; and a network of
  IPv6 with 64 bits, 14:1::, which accepts the IPv4 address 0.20.0.1.\<close>

definition pton_nets :: pton where
  "pton_nets fam xs =
     (if fam = AF_INET \<and> xs = [97] then Some [20, 1, 0, 0]
      else if fam = AF_INET6 \<and> xs = [98] then Some ([0, 20, 0, 1] @ replicate 12 0) else None)"

lemma parse_ipset_accepts_witness:
  "\<exists>ipset. parse_ipset pton_nets (mem_pool 0 CMP_BITS) [97, 47, 49, 54, 10, 98, 47, 54, 52] 9 = Some ipset \<and>
    check_ip ipset (addr0\<lparr>sa_family := AF_INET, sa_ip4 := [20, 1, 9, 9]\<rparr>) \<and>
    check_ip ipset (addr0\<lparr>sa_family := AF_INET, sa_ip4 := [0, 20, 0, 1]\<rparr>) \<and>
    \<not> check_ip ipset (addr0\<lparr>sa_family := AF_INET, sa_ip4 := [20, 2, 0, 0]\<rparr>)"
proof -
  let ?t = "[97, 47, 49, 54, 10, 98, 47, 54, 52] :: byte list"
  have p: "pton_ok pton_nets" by (auto simp: pton_ok_def pton_nets_def AF_INET_def AF_INET6_def)
  have w: "words_from [] ?t = [[97, 47, 49, 54], [98, 47, 54, 52]]" by code_simp
  have n: "net_of pton_nets [97, 47, 49, 54] = Some ([20, 1, 0, 0], 16)"
    "net_of pton_nets [98, 47, 54, 52] = Some ([0, 20, 0, 1] @ replicate 12 0, 64)" by code_simp+
  have d: "dst_bytes (addr0\<lparr>sa_family := AF_INET, sa_ip4 := x\<rparr>) = x" for x
    by (simp add: dst_bytes_def AF_INET_def AF_INET6_def)
  have l: "lead [20, 1, 0, 0] 16 = lead [20, 1, 9, 9] 16" "lead ([0, 20, 0, 1] @ replicate 12 0) 32 = lead [0, 20, 0, 1] 32"
    "lead [20, 1, 0, 0] 16 \<noteq> lead [20, 2, 0, 0] 16" "lead ([0, 20, 0, 1] @ replicate 12 0) 32 \<noteq> lead [20, 2, 0, 0] 32"
    by code_simp+
  obtain ipset where i: "parse_ipset pton_nets (mem_pool 0 CMP_BITS) ?t (int (length ?t)) = Some ipset"
    and c: "\<And>dst. check_ip ipset dst \<longleftrightarrow> (\<exists>w\<in>set (words_from [] ?t). \<exists>ip bits. net_of pton_nets w = Some (ip, bits) \<and>
      (let k = nat (min bits (8 * int (length (dst_bytes dst)))) in lead ip k = lead (dst_bytes dst) k))"
    using parse_ipset_accepts [OF p, of ?t] by blast
  have c': "check_ip ipset (addr0\<lparr>sa_family := AF_INET, sa_ip4 := x\<rparr>) \<longleftrightarrow>
      lead [20, 1, 0, 0] (nat (min 16 (8 * int (length x)))) = lead x (nat (min 16 (8 * int (length x)))) \<or>
      lead ([0, 20, 0, 1] @ replicate 12 0) (nat (min 64 (8 * int (length x)))) = lead x (nat (min 64 (8 * int (length x))))" for x
    unfolding c w d Let_def by (simp add: n del: append.simps)
  have "check_ip ipset (addr0\<lparr>sa_family := AF_INET, sa_ip4 := [20, 1, 9, 9]\<rparr>)"
    "check_ip ipset (addr0\<lparr>sa_family := AF_INET, sa_ip4 := [0, 20, 0, 1]\<rparr>)"
    "\<not> check_ip ipset (addr0\<lparr>sa_family := AF_INET, sa_ip4 := [20, 2, 0, 0]\<rparr>)"
    unfolding c' using l by (simp_all del: append.simps)
  then show ?thesis using i by simp
qed

end
