(* ===== verification/CacheFileSpec.thy ===== *)
theory CacheFileSpec
  imports CacheFile CacheSpec
begin

text \<open>
  The cache files: what \<open>dump_cache\<close> writes for a group, \<open>load_cache\<close> reads back.
\<close>

section \<open>Numbers and words of a line\<close>

lemma dec_digit: "n < 10 \<Longrightarrow> uint (word_of_nat (48 + n) :: byte) = 48 + int n"
  by (simp add: unsigned_of_nat take_bit_nat_eq_self del: of_nat_add)

lemma dec_value_snoc: "dec_value (xs @ [c]) = 10 * dec_value xs + (uint c - 48)"
  by (simp add: dec_value_def)

lemma dec_nat_spec: "dec_nat n \<noteq> [] \<and> (\<forall>c\<in>set (dec_nat n). isdigit c) \<and> dec_value (dec_nat n) = int n"
proof (induction n rule: dec_nat.induct)
  case (1 n)
  show ?case
  proof (cases "n < 10")
    case True
    have "uint (word_of_nat (48 + n) :: byte) = 48 + int n" by (rule dec_digit [OF True])
    then show ?thesis using True dec_value_snoc [of "[]"]
      by (subst (1 2 3) dec_nat.simps) (simp add: isdigit_def dec_value_def)
  next
    case False
    have m: "n mod 10 < 10" by simp
    have u: "uint (word_of_nat (48 + n mod 10) :: byte) = 48 + int (n mod 10)" by (rule dec_digit [OF m])
    have e: "dec_nat n = dec_nat (n div 10) @ [word_of_nat (48 + n mod 10)]"
      using False by (subst dec_nat.simps) simp
    have "10 * int (n div 10) + int (n mod 10) = int n" by presburger
    then show ?thesis using 1 [OF False] u m unfolding e by (simp add: isdigit_def dec_value_snoc del: of_nat_add)
  qed
qed

lemma dec_nat_Cons: obtains c cs where "dec_nat n = c # cs" "isdigit c" "c \<noteq> 43" "c \<noteq> 45"
proof -
  obtain c cs where c: "dec_nat n = c # cs" using dec_nat_spec [of n] by (cases "dec_nat n") auto
  then have "isdigit c" using dec_nat_spec [of n] by simp
  moreover from this have "c \<noteq> 43" "c \<noteq> 45" by (auto simp: isdigit_def)
  ultimately show thesis using c that by blast
qed

lemma takeWhile_stop: "\<forall>x\<in>set xs. P x \<Longrightarrow> \<not> P y \<Longrightarrow> takeWhile P (xs @ y # ys) = xs"
  by (simp add: takeWhile_append2)

lemma skip_space_stop: "isspace s \<Longrightarrow> \<not> isspace c \<Longrightarrow> skip_space (s # c # cs) = c # cs"
  by (simp add: skip_space_def)

text \<open>A decimal number reads back.\<close>

lemma scan_dec_int:
  assumes "isspace s" "\<not> isdigit t" "- (2 ^ 63) \<le> v" "v < 2 ^ 63"
  shows "scan_dec (s # dec_int v @ t # rest) = (Some v, t # rest)"
proof -
  have cl: "clamp_long v = v" using assms(3,4) by (simp add: clamp_long_def)
  have all: "takeWhile isdigit (dec_nat n @ t # rest) = dec_nat n" for n
    using dec_nat_spec assms(2) by (blast intro: takeWhile_stop)
  show ?thesis
  proof (cases "v < 0")
    case True
    have sp: "skip_space (s # dec_int v @ t # rest) = 45 # dec_nat (nat (- v)) @ t # rest"
      using True assms(1) by (simp add: dec_int_def skip_space_stop isspace_def)
    have "dec_value (dec_nat (nat (- v))) = - v" using dec_nat_spec [of "nat (- v)"] True by simp
    then show ?thesis using sp all dec_nat_spec cl by (simp add: scan_dec_def)
  next
    case False
    obtain c cs where c: "dec_nat (nat v) = c # cs" "isdigit c" "c \<noteq> 43" "c \<noteq> 45" by (rule dec_nat_Cons)
    then have "\<not> isspace c" using isspace_not_digit by blast
    then have sp: "skip_space (s # dec_int v @ t # rest) = dec_nat (nat v) @ t # rest"
      using False assms(1) c(1) by (simp add: dec_int_def skip_space_stop)
    have val: "dec_value (dec_nat (nat v)) = v" using dec_nat_spec [of "nat v"] False by simp
    have sg: "(case dec_nat (nat v) @ t # rest of c # _ \<Rightarrow> c = 43 \<or> c = 45 | [] \<Rightarrow> False) = False" using c by simp
    show ?thesis using dec_nat_spec [of "nat v"] by (simp add: scan_dec_def sp sg all val cl)
  qed
qed

text \<open>A word reads back.\<close>

definition plain :: "nat \<Rightarrow> byte list \<Rightarrow> bool" where
  "plain n w \<longleftrightarrow> w \<noteq> [] \<and> length w \<le> n \<and> (\<forall>c\<in>set w. \<not> isspace c \<and> c \<noteq> 0)"

lemma scan_word_plain:
  assumes "isspace s" "plain n w" "isspace t"
  shows "scan_word n (s # w @ t # rest) = (w, t # rest)"
proof -
  obtain c cs where c: "w = c # cs" using assms(2) by (cases w) (auto simp: plain_def)
  then have sp: "skip_space (s # w @ t # rest) = w @ t # rest"
    using assms(1,2) by (simp add: skip_space_stop plain_def)
  have "takeWhile (\<lambda>c. \<not> isspace c) (take n (w @ t # rest)) = w"
  proof (cases "length w = n")
    case True
    then show ?thesis using assms(2) by (simp add: plain_def)
  next
    case False
    then obtain m where "n = length w + Suc m" using assms(2) less_imp_Suc_add [of "length w" n] by (auto simp: plain_def)
    then show ?thesis using assms(2,3) by (simp add: plain_def takeWhile_append2)
  qed
  then show ?thesis by (simp add: scan_word_def sp)
qed

lemma cstr_plain: "plain n w \<Longrightarrow> cstr w = w"
  by (simp add: plain_def cstr_def)

section \<open>Entries\<close>

text \<open>The key of an entry, and the host that is written for it.\<close>

definition key_of :: "int \<Rightarrow> int \<Rightarrow> byte list \<Rightarrow> buf" where
  "key_of fam port ip = [word_of_int (fam mod 256), word_of_int (fam div 256)] @ be16 port @ ip"

definition entry_host :: "elem \<Rightarrow> byte list" where
  "entry_host e =
     (case e_extra e of None \<Rightarrow> [45]
      | Some x \<Rightarrow> cstr (take (nat (if e_extra_len e \<noteq> 0 then e_extra_len e else 1)) x))"

text \<open>What is asked of an address: its text is a word that reads back, and the text of an IPv6 address is not
  an IPv4 address.\<close>

definition text_ok :: "ntop \<Rightarrow> pton \<Rightarrow> int \<Rightarrow> byte list \<Rightarrow> bool" where
  "text_ok ntop pton fam ip \<longleftrightarrow>
     (fam = AF_INET \<and> length ip = 4 \<and> pton AF_INET (ntop AF_INET ip) = Some ip \<or>
      fam = AF_INET6 \<and> length ip = 16 \<and> pton AF_INET (ntop AF_INET6 ip) = None \<and>
        pton AF_INET6 (ntop AF_INET6 ip) = Some ip) \<and> plain 39 (ntop fam ip)"

definition cache_entry :: "ntop \<Rightarrow> pton \<Rightarrow> elem \<Rightarrow> bool" where
  "cache_entry ntop pton e \<longleftrightarrow>
     (\<exists>fam port ip. edata e = key_of fam port ip \<and> 0 \<le> port \<and> port < 65536 \<and> text_ok ntop pton fam ip) \<and>
     - (2 ^ 63) \<le> e_time e \<and> e_time e < 2 ^ 63 \<and> plain 255 (entry_host e)"

text \<open>The entry that comes back. A host of one character stands for none.\<close>

definition restored :: "nat \<Rightarrow> elem \<Rightarrow> elem" where
  "restored d e =
     (let host = entry_host e in
      (new_elem CMP_BITS (edata e) (elen e))
        \<lparr>e_time := e_time e, e_extra_len := int (length host), e_dp := Some d,
         e_extra := (if length host > 1 then Some (host @ [0]) else None)\<rparr>)"

lemma be16_bytes:
  assumes "0 \<le> port" "port < 65536"
  shows "256 * uint (be16 port ! 0) + uint (be16 port ! 1) = port"
  using assms by (simp add: be16_def uint_word_of_int)

lemma dump_line_text:
  assumes "edata e = key_of fam port ip" "0 \<le> port" "port < 65536" "text_ok ntop pton fam ip"
  shows "dump_line ntop e = Some ([48, 32] @ ntop fam ip @ [32] @ dec_int (elen e - 32) @ [32] @ dec_int port @ [32] @
    dec_int (e_time e) @ [32] @ entry_host e @ [10])"
proof -
  have f: "fam = AF_INET \<and> length ip = 4 \<or> fam = AF_INET6 \<and> length ip = 16" using assms(4) by (auto simp: text_ok_def)
  have p: "rdn (edata e) 2 2 = Some (be16 port)"
    by (rule rdn_mid [of _ "[word_of_int (fam mod 256), word_of_int (fam div 256)]" _ ip]) (simp_all add: assms(1) key_of_def)
  have a: "rdn (edata e) 4 (int (length ip)) = Some ip"
    by (rule rdn_mid [of _ "[word_of_int (fam mod 256), word_of_int (fam div 256)] @ be16 port" _ "[]"])
      (simp_all add: assms(1) key_of_def)
  have k: "rd (edata e) 0 = Some (word_of_int (fam mod 256))" "rd (edata e) 1 = Some (word_of_int (fam div 256))"
    by (simp_all add: assms(1) key_of_def)
  show ?thesis
    using f a be16_bytes [OF assms(2,3)]
    by (auto simp: dump_line_def k p AF_INET_def AF_INET6_def entry_host_def)
qed

lemma line_end: "rest = [] \<or> hd rest = 48 \<Longrightarrow> skip_space (10 # rest) = rest"
  by (cases rest) (auto simp: skip_space_def isspace_def)

lemma scan_line_text:
  assumes "plain 39 addr" "plain 255 host" "- (2 ^ 31) \<le> bits" "bits < 2 ^ 31" "0 \<le> port" "port < 65536"
    "- (2 ^ 63) \<le> time" "time < 2 ^ 63" "rest = [] \<or> hd rest = 48"
  shows "scan_line (([48, 32] @ addr @ [32] @ dec_int bits @ [32] @ dec_int port @ [32] @ dec_int time @ [32] @ host @ [10]) @ rest) =
    Some (\<lparr> l_addr = addr, l_bits = Some bits, l_port = Some port, l_time = Some time, l_host = host \<rparr>, rest)"
proof -
  have s: "isspace 32" "isspace 10" "\<not> isdigit 32" by (simp_all add: isspace_def isdigit_def)
  have ne: "addr \<noteq> []" "host \<noteq> []" using assms(1,2) by (simp_all add: plain_def)
  have "to_int bits = bits" using assms(3,4) by (simp add: to_int_def)
  moreover have "u16 port = port" using assms(5,6) by (simp add: u16_def)
  moreover have "scan_dec (32 # dec_int bits @ 32 # r) = (Some bits, 32 # r)"
    "scan_dec (32 # dec_int port @ 32 # r) = (Some port, 32 # r)"
    "scan_dec (32 # dec_int time @ 32 # r) = (Some time, 32 # r)" for r
    using assms(3-8) by (intro scan_dec_int s; simp)+
  moreover have "scan_word 39 (32 # addr @ 32 # r) = (addr, 32 # r)" for r by (rule scan_word_plain [OF s(1) assms(1) s(1)])
  moreover have "scan_word 255 (32 # host @ 10 # r) = (host, 10 # r)" for r by (rule scan_word_plain [OF s(1) assms(2) s(2)])
  ultimately show ?thesis using ne line_end [OF assms(9)] by (simp add: scan_line_def Let_def)
qed

section \<open>Loading an entry\<close>

lemma mem_add_new:
  assumes inv: "pool_inv hdr" and ok: "elem_ok (mcmp hdr) (new_elem (mcmp hdr) data len)"
    and new: "\<forall>a\<in>elems hdr. scmp (new_elem (mcmp hdr) data len) a \<noteq> 0"
  shows "\<exists>hdr'. mem_add hdr data len = Some (hdr', None) \<and> pool_inv hdr' \<and> mcmp hdr' = mcmp hdr \<and>
    elems hdr' = insert (new_elem (mcmp hdr) data len) (elems hdr)"
proof -
  let ?e = "new_elem (mcmp hdr) data len"
  have o: "ordered scmp (elem_ok (mcmp hdr)) (mroot hdr)" using inv by (simp add: pool_inv_def)
  have "kavl_find scmp (mroot hdr) ?e = None"
    using pool.find_correct [OF o ok] new by (auto simp: elems_def split: option.splits)
  then obtain t xs ys where t: "kavl_insert scmp (mroot hdr) ?e = Some (t, None)" "ordered scmp (elem_ok (mcmp hdr)) t"
      "inorder (mroot hdr) = xs @ ys" "inorder t = xs @ ?e # ys"
    using pool.insert_correct [OF o ok] by auto
  let ?h = "hdr\<lparr>mroot := t, mcount := mcount hdr + 1\<rparr>"
  have "mem_add hdr data len = Some (?h, None)"
    using t(1) by (simp add: mem_add_def mem_add_loop.simps)
  moreover have "pool_inv ?h" using inv t by (simp add: pool_inv_def)
  moreover have "elems ?h = insert ?e (elems hdr)" by (auto simp: elems_def t)
  ultimately show ?thesis by auto
qed

lemma line_key_entry:
  assumes "text_ok ntop pton fam ip" "0 \<le> len" "len \<le> 8 * int (length (key_of fam port ip))"
  shows "line_key pton \<lparr> l_addr = ntop fam ip, l_bits = Some (len - 32), l_port = Some port, l_time = t, l_host = h \<rparr> =
    Some (Some (key_of fam port ip, len))"
  using assms by (auto simp: text_ok_def line_key_def cstr_plain key_of_def AF_INET_def AF_INET6_def)

lemma load_line_entry:
  assumes inv: "pool_inv hdr" "mcmp hdr = CMP_BITS" and e: "elem_ok CMP_BITS e"
    and new: "\<forall>a\<in>elems hdr. scmp e a \<noteq> 0"
    and k: "line_key pton ln = Some (Some (edata e, elen e))" and l: "l_time ln = Some (e_time e)" "l_host ln = entry_host e"
    and h: "plain 255 (entry_host e)"
  shows "\<exists>hdr'. load_line pton hdr ln d = Some hdr' \<and> pool_inv hdr' \<and> mcmp hdr' = CMP_BITS \<and>
    elems hdr' = insert (restored d e) (elems hdr)"
proof -
  let ?n = "new_elem CMP_BITS (edata e) (elen e)"
  have sk: "same_key ?n e" using e by (simp add: same_key_def new_elem_def elem_ok_def)
  have ok: "elem_ok CMP_BITS ?n" using same_key_ok [OF sk] e by simp
  have sc: "scmp ?n a = scmp e a" for a using same_key_scmp [OF sk] by (simp add: same_key_def)
  obtain h1 where h1: "mem_add hdr (edata e) (elen e) = Some (h1, None)" "pool_inv h1" "mcmp h1 = CMP_BITS"
      "elems h1 = insert ?n (elems hdr)"
    using mem_add_new [OF inv(1), of "edata e" "elen e"] inv(2) ok new sc by auto
  have fresh: "?n \<notin> elems hdr" using new sc scmp_refl [OF ok] by force
  let ?f = "\<lambda>x. if x = ?n then restored d e else x"
  let ?h = "h1\<lparr>mroot := map_kavl ?f (mroot h1)\<rparr>"
  have "same_key (?f x) x" for x by (simp add: same_key_def restored_def Let_def new_elem_def)
  then have "pool_inv ?h" by (rule pool_inv_map [OF h1(2)])
  moreover have "elems ?h = insert (restored d e) (elems hdr)"
    using h1(4) fresh by (auto simp: elems_def inorder_map image_iff)
  moreover have "load_line pton hdr ln d = Some ?h"
    using k l h1(1,3) cstr_plain [OF h]
    by (simp add: load_line_def restored_def Let_def new_elem_def cong: if_cong)
  ultimately show ?thesis using h1(3) by auto
qed

section \<open>The file\<close>

lemma dump_loop_lines:
  "fst itr \<noteq> [] \<Longrightarrow> \<forall>e\<in>set (itr_rest itr). e_dp e = Some d \<longrightarrow> dump_line ntop e \<noteq> None \<Longrightarrow>
     dump_loop ntop d itr =
       Some (concat (map (\<lambda>e. the (dump_line ntop e)) (filter (\<lambda>e. e_dp e = Some d) (itr_rest itr))))"
proof (induction "length (itr_rest itr)" arbitrary: itr rule: less_induct)
  case less
  obtain itr' more where n: "kavl_itr_next itr = (itr', more)" by (cases "kavl_itr_next itr")
  obtain e es where es: "itr_rest itr = e # es"
    using less.prems(1) by (cases "fst itr") (auto simp: itr_rest_def)
  have at: "kavl_at itr = Some e" "itr_rest itr' = es" "more \<longleftrightarrow> es \<noteq> []"
    using itr_next_rest [OF less.prems(1)] es n by auto
  have line: "(if e_dp e \<noteq> Some d then Some [] else dump_line ntop e) =
      Some (if e_dp e = Some d then the (dump_line ntop e) else [])"
    using less.prems(2) es by auto
  show ?case
  proof (cases more)
    case True
    then have "fst itr' \<noteq> []" using at by (auto simp: itr_rest_def)
    then have "dump_loop ntop d itr' = Some (concat (map (\<lambda>e. the (dump_line ntop e)) (filter (\<lambda>e. e_dp e = Some d) es)))"
      using less.hyps [of itr'] less.prems(2) es at(2) by simp
    then show ?thesis using at(1) line n True es by (subst dump_loop.simps) simp
  next
    case False
    then show ?thesis using at line n es by (subst dump_loop.simps) simp
  qed
qed

lemma dump_cache_lines:
  assumes "\<forall>e\<in>elems hdr. e_dp e = Some d \<longrightarrow> dump_line ntop e \<noteq> None"
  shows "dump_cache ntop hdr d =
    Some (concat (map (\<lambda>e. the (dump_line ntop e)) (filter (\<lambda>e. e_dp e = Some d) (inorder (mroot hdr)))))"
proof (cases "mroot hdr = Leaf")
  case False
  obtain itr where i: "kavl_itr_first (mroot hdr) = Some itr" "itr_rest itr = inorder (mroot hdr)"
    using itr_first_rest [OF False] by blast
  then have "fst itr \<noteq> []" using False by (cases "mroot hdr") (auto simp: itr_rest_def)
  from dump_loop_lines [OF this, of d ntop] show ?thesis
    using assms i False by (simp add: dump_cache_def elems_def)
qed (simp add: dump_cache_def)

text \<open>Entries that compare different from each other, one after the other.\<close>

lemma load_cache_lines:
  "pool_inv hdr \<Longrightarrow> mcmp hdr = CMP_BITS \<Longrightarrow> \<forall>e\<in>set es. elem_ok CMP_BITS e \<and> cache_entry ntop pton e \<Longrightarrow>
     \<forall>e\<in>set es. \<forall>a\<in>elems hdr. scmp e a \<noteq> 0 \<Longrightarrow> sorted_wrt (\<lambda>a b. scmp b a \<noteq> 0) es \<Longrightarrow>
     \<exists>hdr'. load_cache pton hdr (concat (map (\<lambda>e. the (dump_line ntop e)) es)) d = Some hdr' \<and> pool_inv hdr' \<and>
       elems hdr' = elems hdr \<union> restored d ` set es"
proof (induction es arbitrary: hdr)
  case Nil
  then show ?case by (simp add: load_cache.simps scan_line_def)
next
  case (Cons e es)
  let ?rest = "concat (map (\<lambda>e. the (dump_line ntop e)) es)"
  have ok: "elem_ok CMP_BITS e" and ce: "cache_entry ntop pton e" using Cons.prems(3) by auto
  obtain fam port ip where k: "edata e = key_of fam port ip" "0 \<le> port" "port < 65536" "text_ok ntop pton fam ip"
    using ce by (auto simp: cache_entry_def)
  have tm: "- (2 ^ 63) \<le> e_time e" "e_time e < 2 ^ 63" "plain 255 (entry_host e)" "plain 39 (ntop fam ip)"
    using ce k(4) by (auto simp: cache_entry_def text_ok_def)
  have len: "0 \<le> elen e" "elen e \<le> 8 * int (length (key_of fam port ip))"
    using ok k(1) by (simp_all add: elem_ok_def)
  have len': "length (key_of fam port ip) \<le> 20" using k(4) by (auto simp: key_of_def text_ok_def)
  have rest: "?rest = [] \<or> hd ?rest = 48"
  proof (cases es)
    case (Cons e2 es2)
    then obtain f2 p2 i2 where "edata e2 = key_of f2 p2 i2" "0 \<le> p2" "p2 < 65536" "text_ok ntop pton f2 i2"
      using Cons.prems(3) by (auto simp: cache_entry_def)
    from dump_line_text [OF this] Cons show ?thesis by simp
  qed simp
  define ln where "ln = \<lparr> l_addr = ntop fam ip, l_bits = Some (elen e - 32), l_port = Some port, l_time = Some (e_time e),
    l_host = entry_host e \<rparr>"
  have sc: "scan_line (the (dump_line ntop e) @ ?rest) = Some (ln, ?rest)"
    unfolding dump_line_text [OF k] option.sel ln_def
    by (rule scan_line_text) (use tm len len' k(2,3) rest in simp_all)
  have lk: "line_key pton ln = Some (Some (edata e, elen e))"
    unfolding ln_def k(1) by (rule line_key_entry [OF k(4) len])
  have new: "\<forall>a\<in>elems hdr. scmp e a \<noteq> 0" using Cons.prems(4) by simp
  have "l_time ln = Some (e_time e)" "l_host ln = entry_host e" by (simp_all add: ln_def)
  from load_line_entry [OF Cons.prems(1,2) ok new lk this tm(3), of d]
  obtain h1 where h1: "load_line pton hdr ln d = Some h1" "pool_inv h1" "mcmp h1 = CMP_BITS"
      "elems h1 = insert (restored d e) (elems hdr)" by blast
  have sk: "same_key (restored d e) e" using ok by (simp add: same_key_def restored_def Let_def new_elem_def elem_ok_def)
  have "\<forall>x\<in>set es. scmp x (restored d e) \<noteq> 0"
    using Cons.prems(5) same_key_scmp [of _ _ "restored d e" e] sk by (auto simp: same_key_def)
  then have "\<forall>x\<in>set es. \<forall>a\<in>elems h1. scmp x a \<noteq> 0" using Cons.prems(4) h1(4) by auto
  from Cons.IH [OF h1(2,3) _ this] Cons.prems(3,5) obtain hdr' where
    "load_cache pton h1 ?rest d = Some hdr'" "pool_inv hdr'" "elems hdr' = elems h1 \<union> restored d ` set es" by auto
  then show ?case using sc h1(1,4) by (subst load_cache.simps) auto
qed


text \<open>Two IPv4 entries, with a writer and a reader of addresses.\<close>

definition ntop_ex :: ntop where
  "ntop_ex fam ip = concat (map (\<lambda>x. dec_int (uint x) @ [46]) (butlast ip)) @ dec_int (uint (last ip))"

definition pton_ex :: pton where
  "pton_ex fam xs =
     (if xs = [49, 46, 49, 46, 49, 46, 49] then Some [1, 1, 1, 1]
      else if xs = [50, 46, 50, 46, 50, 46, 50] then Some [2, 2, 2, 2] else None)"

lemma entry_ex_cached: "cache_entry ntop_ex pton_ex (entry_ex 1 0)" "cache_entry ntop_ex pton_ex (entry_ex 2 95)"
proof -
  have n: "ntop_ex AF_INET [1, 1, 1, 1] = [49, 46, 49, 46, 49, 46, 49]" "ntop_ex AF_INET [2, 2, 2, 2] = [50, 46, 50, 46, 50, 46, 50]"
    by (simp_all add: ntop_ex_def dec_int_def dec_nat.simps)
  have t: "text_ok ntop_ex pton_ex AF_INET [1, 1, 1, 1]" "text_ok ntop_ex pton_ex AF_INET [2, 2, 2, 2]"
    by (simp_all add: text_ok_def n pton_ex_def plain_def isspace_def)
  have k: "edata (entry_ex x y) = key_of AF_INET 443 [x, x, x, x]" for x y
    by (simp add: entry_ex_def new_elem_def key_of_def AF_INET_def be16_def)
  have h: "plain 255 (entry_host (entry_ex x y))" for x y
    by (simp add: entry_ex_def new_elem_def entry_host_def plain_def isspace_def)
  have "cache_entry ntop_ex pton_ex (entry_ex x y)"
    if "text_ok ntop_ex pton_ex AF_INET [x, x, x, x]" "- (2 ^ 63) \<le> y" "y < 2 ^ 63" for x y
  proof -
    have "0 \<le> (443 :: int) \<and> (443 :: int) < 65536" "e_time (entry_ex x y) = y" by (simp_all add: entry_ex_def)
    then show ?thesis unfolding cache_entry_def using that k h by metis
  qed
  then show "cache_entry ntop_ex pton_ex (entry_ex 1 0)" "cache_entry ntop_ex pton_ex (entry_ex 2 95)"
    using t by simp_all
qed


end
