(* ===== verification/Frame.thy ===== *)
theory Frame
  imports Proxy
begin

unbundle bit_operations_syntax

text \<open>
  What most of the program leaves alone: the connections that are open, their descriptors, pairs and
  callbacks, and the settings. Such steps keep the invariant of the event pool. The theory gives the rule
  of each operation, in a small calculus of postconditions.
\<close>

section \<open>Postconditions\<close>

text \<open>\<open>Q\<close> holds of the result, if there is one.\<close>

definition post :: "'a option \<Rightarrow> ('a \<Rightarrow> bool) \<Rightarrow> bool" where
  "post m Q \<longleftrightarrow> (\<forall>x. m = Some x \<longrightarrow> Q x)"

lemma post_simps [simp]:
  "post (Some x) Q = Q x" "post None Q = True" "post (Option.bind m f) Q = post m (\<lambda>x. post (f x) Q)"
  "post (map_option g m) Q = post m (\<lambda>x. Q (g x))"
  by (auto simp: post_def split: Option.bind_splits)

lemma post_rules:
  "Q x \<Longrightarrow> post (Some x) Q" "post None Q" "post m0 (\<lambda>x. post (f x) Q) \<Longrightarrow> post (Option.bind m0 f) Q"
  "(b \<Longrightarrow> post m Q) \<Longrightarrow> (\<not> b \<Longrightarrow> post m' Q) \<Longrightarrow> post (if b then m else m') Q"
  "(x' = None \<Longrightarrow> post m Q) \<Longrightarrow> (\<And>y. x' = Some y \<Longrightarrow> post (h y) Q) \<Longrightarrow>
     post (case x' of None \<Rightarrow> m | Some y \<Rightarrow> h y) Q"
  by (auto simp: post_def split: Option.bind_splits option.splits)

lemma post_cases:
  "(\<And>r w. x = Returned r w \<Longrightarrow> post (f r w) Q) \<Longrightarrow> (\<And>lp. x = Reached lp \<Longrightarrow> post (g lp) Q) \<Longrightarrow>
     post (case x of Returned r w \<Rightarrow> f r w | Reached lp \<Rightarrow> g lp) Q"
  "(\<And>r. y = Stop r \<Longrightarrow> post (h r) Q) \<Longrightarrow> post h1 Q \<Longrightarrow> (\<And>r. post (h2 r) Q) \<Longrightarrow>
     post (case y of Stop r \<Rightarrow> h r | Skip \<Rightarrow> h1 | Sent r \<Rightarrow> h2 r) Q"
  "(\<And>r. u = Inl r \<Longrightarrow> post (k r) Q) \<Longrightarrow> (\<And>r. u = Inr r \<Longrightarrow> post (l r) Q) \<Longrightarrow>
     post (case u of Inl r \<Rightarrow> k r | Inr r \<Rightarrow> l r) Q"
  by ((cases x; simp), (cases y; simp), (cases u; simp))

lemma post_let: "post (f e) Q \<Longrightarrow> post (let x = e in f x) Q"
  by simp

lemma post_pair: "post (f a b) Q \<Longrightarrow> post (case (a, b) of (x, y) \<Rightarrow> f x y) Q"
  by simp

lemma post_split: "(\<And>a b. x = (a, b) \<Longrightarrow> post (f a b) Q) \<Longrightarrow> post (case x of (a, b) \<Rightarrow> f a b) Q"
  by (cases x) simp

lemma post_inv: "I e \<Longrightarrow> (\<And>x. I x \<Longrightarrow> post (f x) Q) \<Longrightarrow> post (let x = e in f x) Q"
  by simp

lemma post_any: "(\<And>x. Q x) \<Longrightarrow> post m Q"
  by (simp add: post_def)

lemma postI: "(\<And>x. m = Some x \<Longrightarrow> Q x) \<Longrightarrow> post m Q"
  by (simp add: post_def)

lemma postD: "post m Q \<Longrightarrow> m = Some x \<Longrightarrow> Q x"
  by (simp add: post_def)

section \<open>The frame\<close>

definition fev :: "eval \<Rightarrow> int \<times> nat \<times> nat \<times> nat option \<times> cb \<times> cb" where
  "fev e = (v_fd e, v_index e, v_mod_iter e, v_pair e, v_cb e, v_after_conn_cb e)"

definition framed :: "st \<Rightarrow> nat \<times> nat \<times> (nat \<Rightarrow> nat) \<times> nat \<times> (nat \<times> int) list \<times> params \<times>
    (nat \<Rightarrow> int \<times> nat \<times> nat \<times> nat option \<times> cb \<times> cb)" where
  "framed s = (s_max s, s_count s, s_links s, s_iters s, s_pevents s, (s_par s)\<lparr>g_dp := None\<rparr>, \<lambda>u. fev (s_ev s u))"

text \<open>The clock runs, and timers are not set to the past.\<close>

definition clock_ok :: "st \<Rightarrow> bool" where
  "clock_ok s \<longleftrightarrow> 0 < s_ms s \<and> 0 \<le> g_await_int (s_par s) \<and> 0 \<le> g_ptimeout (s_par s)"

definition calm :: "st \<Rightarrow> bool" where
  "calm s \<longleftrightarrow> pool_ok s \<and> clock_ok s"

definition kept :: "st \<Rightarrow> st \<Rightarrow> bool" where
  "kept s s' \<longleftrightarrow> framed s' = framed s \<and> (calm s \<longrightarrow> calm s')"

lemma kept_refl [simp, intro]: "kept s s"
  by (simp add: kept_def)

lemma kept_trans: "kept s s1 \<Longrightarrow> kept s1 s2 \<Longrightarrow> kept s s2"
  by (simp add: kept_def)

lemma frame_fields:
  assumes "framed s' = framed s"
  shows "s_max s' = s_max s" "s_count s' = s_count s" "s_links s' = s_links s" "s_iters s' = s_iters s"
    "s_pevents s' = s_pevents s" "(s_par s')\<lparr>g_dp := None\<rparr> = (s_par s)\<lparr>g_dp := None\<rparr>"
    "v_fd (s_ev s' u) = v_fd (s_ev s u)" "v_index (s_ev s' u) = v_index (s_ev s u)"
    "v_mod_iter (s_ev s' u) = v_mod_iter (s_ev s u)" "v_pair (s_ev s' u) = v_pair (s_ev s u)"
    "v_cb (s_ev s' u) = v_cb (s_ev s u)" "v_after_conn_cb (s_ev s' u) = v_after_conn_cb (s_ev s u)"
    "live s' u = live s u" "closed s' u = closed s u"
proof -
  have "fev (s_ev s' u) = fev (s_ev s u)" using assms by (simp add: framed_def fun_eq_iff)
  then show "v_fd (s_ev s' u) = v_fd (s_ev s u)" "v_index (s_ev s' u) = v_index (s_ev s u)"
    "v_mod_iter (s_ev s' u) = v_mod_iter (s_ev s u)" "v_pair (s_ev s' u) = v_pair (s_ev s u)"
    "v_cb (s_ev s' u) = v_cb (s_ev s u)" "v_after_conn_cb (s_ev s' u) = v_after_conn_cb (s_ev s u)"
    by (simp_all add: fev_def)
  show "s_max s' = s_max s" "s_count s' = s_count s" "s_links s' = s_links s" "s_iters s' = s_iters s"
    "s_pevents s' = s_pevents s" "(s_par s')\<lparr>g_dp := None\<rparr> = (s_par s)\<lparr>g_dp := None\<rparr>"
    using assms by (simp_all add: framed_def)
  then show "live s' u = live s u" "closed s' u = closed s u"
    using \<open>v_fd (s_ev s' u) = v_fd (s_ev s u)\<close> \<open>v_mod_iter (s_ev s' u) = v_mod_iter (s_ev s u)\<close>
    by (simp_all add: live_def closed_def)
qed

lemma par_fields:
  assumes "(p :: params)\<lparr>g_dp := None\<rparr> = q\<lparr>g_dp := None\<rparr>"
  shows "g_await_int p = g_await_int q" "g_ptimeout p = g_ptimeout q" "g_delay_conn p = g_delay_conn q"
proof -
  have "g_await_int (p\<lparr>g_dp := None\<rparr>) = g_await_int (q\<lparr>g_dp := None\<rparr>)"
    "g_ptimeout (p\<lparr>g_dp := None\<rparr>) = g_ptimeout (q\<lparr>g_dp := None\<rparr>)"
    "g_delay_conn (p\<lparr>g_dp := None\<rparr>) = g_delay_conn (q\<lparr>g_dp := None\<rparr>)"
    by (simp_all only: assms)
  then show "g_await_int p = g_await_int q" "g_ptimeout p = g_ptimeout q" "g_delay_conn p = g_delay_conn q" by simp_all
qed

text \<open>With the same frame, the invariant needs the timers and the spare buffers only.\<close>

lemma kept_frame:
  assumes f: "framed s' = framed s" and ms: "s_ms s \<le> s_ms s'"
    and t: "\<And>ts. calm s \<Longrightarrow> timers s ts \<Longrightarrow> \<exists>ts'. timers s' ts'" and b: "bufs_ok s \<Longrightarrow> bufs_ok s'"
  shows "kept s s'"
proof -
  note ff = frame_fields [OF f]
  have "clock_ok s \<Longrightarrow> clock_ok s'" using ms par_fields [OF ff(6)] by (simp add: clock_ok_def)
  moreover have "links_ok s \<Longrightarrow> links_ok s'" by (simp add: links_ok_def ff)
  moreover have "evs_ok s \<Longrightarrow> evs_ok s'" by (simp add: evs_ok_def ff)
  ultimately show ?thesis using t b f by (auto simp: kept_def calm_def pool_ok_def)
qed

lemma kept_same:
  assumes f: "framed s' = framed s" "s_ms s \<le> s_ms s'"
    and t: "s_tv_start s' = s_tv_start s" "s_tv_end s' = s_tv_end s"
      "\<And>u. v_tv_ms (s_ev s' u) = v_tv_ms (s_ev s u) \<and> v_tv_next (s_ev s' u) = v_tv_next (s_ev s u) \<and>
        v_tv_prev (s_ev s' u) = v_tv_prev (s_ev s u)"
    and b: "bufs_ok s \<Longrightarrow> bufs_ok s'"
  shows "kept s s'"
proof (rule kept_frame [OF f _ b])
  fix ts assume "timers s ts"
  then have "timers s' ts"
    using t frame_fields(2,3) [OF f(1)] by (intro timers_cong [of s ts s']) auto
  then show "\<exists>ts'. timers s' ts'" ..
qed

lemma bufs_cong: "s_free s' = s_free s \<Longrightarrow> s_buff_count s' = s_buff_count s \<Longrightarrow> bufs_ok s \<Longrightarrow> bufs_ok s'"
  by (simp add: bufs_ok_def)

section \<open>Steps that keep the frame\<close>

text \<open>A change of other fields of a connection.\<close>

definition inert :: "(eval \<Rightarrow> eval) \<Rightarrow> bool" where
  "inert f \<longleftrightarrow> (\<forall>e. fev (f e) = fev e \<and> v_tv_ms (f e) = v_tv_ms e \<and> v_tv_next (f e) = v_tv_next e \<and> v_tv_prev (f e) = v_tv_prev e)"

lemma inertI [simp]:
  "inert (\<lambda>e. e\<lparr>v_buff := a\<rparr>)" "inert (\<lambda>e. e\<lparr>v_sq_buff := a\<rparr>)" "inert (\<lambda>e. e\<lparr>v_flag := f\<rparr>)" "inert (\<lambda>e. e\<lparr>v_addr := d\<rparr>)"
  "inert (\<lambda>e. e\<lparr>v_host := h\<rparr>)" "inert (\<lambda>e. e\<lparr>v_mark := m\<rparr>)" "inert (\<lambda>e. e\<lparr>v_dp := p\<rparr>)"
  by (simp_all add: inert_def fev_def)

named_theorems kept_simps

lemma kept_frame_step:
  assumes "kept s0 s" "framed s' = framed s" "s_ms s \<le> s_ms s'" "s_tv_start s' = s_tv_start s" "s_tv_end s' = s_tv_end s"
    "\<And>u. v_tv_ms (s_ev s' u) = v_tv_ms (s_ev s u) \<and> v_tv_next (s_ev s' u) = v_tv_next (s_ev s u) \<and>
        v_tv_prev (s_ev s' u) = v_tv_prev (s_ev s u)"
    "bufs_ok s \<Longrightarrow> bufs_ok s'"
  shows "kept s0 s'"
  using kept_trans [OF assms(1) kept_same [OF assms(2-7)]] .

lemma kept_sys [kept_simps]: "kept s0 s \<Longrightarrow> kept s0 (snd (sys c s))"
  by (erule kept_frame_step) (auto simp: framed_def intro: bufs_cong, simp add: sys_def Let_def)

lemma kept_send [kept_simps]: "kept s0 s \<Longrightarrow> kept s0 (snd (sys_send fd d oob s))"
  by (simp add: sys_send_def Let_def kept_sys)

lemma kept_recv [kept_simps]: "kept s0 s \<Longrightarrow> kept s0 (snd (snd (sys_recv fd n s)))"
  by (simp add: sys_recv_def Let_def case_prod_unfold kept_sys)

lemma kept_upd [kept_simps]: "kept s0 s \<Longrightarrow> inert f \<Longrightarrow> kept s0 (upd_ev u f s)"
  by (erule kept_frame_step) (auto simp: framed_def inert_def fun_eq_iff intro: bufs_cong)

lemma kept_upd_dp [kept_simps]: "kept s0 s \<Longrightarrow> kept s0 (upd_dp d f s)"
  by (erule kept_frame_step) (auto simp: framed_def upd_dp_def bufs_ok_def)

lemma kept_push [kept_simps]: "kept s0 s \<Longrightarrow> kept s0 (buff_push b s)"
proof (erule kept_frame_step)
  have e: "s_par (buff_push b s) = s_par s" "s_ms (buff_push b s) = s_ms s"
    by (auto simp: buff_push_def split: option.splits)
  show "framed (buff_push b s) = framed s" "s_ms s \<le> s_ms (buff_push b s)" by (simp_all add: framed_def e)
qed (simp_all add: bufs_ok_push)

lemma kept_pop [kept_simps]: "kept s0 s \<Longrightarrow> kept s0 (snd (buff_pop n s))"
proof (erule kept_frame_step)
  have e: "s_ev (snd (buff_pop n s)) = s_ev s" "s_ms (snd (buff_pop n s)) = s_ms s" "framed (snd (buff_pop n s)) = framed s"
    "s_tv_start (snd (buff_pop n s)) = s_tv_start s" "s_tv_end (snd (buff_pop n s)) = s_tv_end s"
    by (auto simp: buff_pop_def framed_def split: list.splits)
  show "framed (snd (buff_pop n s)) = framed s" "s_ms s \<le> s_ms (snd (buff_pop n s))"
    "s_tv_start (snd (buff_pop n s)) = s_tv_start s" "s_tv_end (snd (buff_pop n s)) = s_tv_end s"
    "v_tv_ms (s_ev (snd (buff_pop n s)) u) = v_tv_ms (s_ev s u) \<and> v_tv_next (s_ev (snd (buff_pop n s)) u) = v_tv_next (s_ev s u) \<and>
      v_tv_prev (s_ev (snd (buff_pop n s)) u) = v_tv_prev (s_ev s u)" for u
    by (simp_all add: e)
qed (simp add: bufs_ok_pop)

lemma kept_ppop [kept_simps]: "kept s0 s \<Longrightarrow> kept s0 (snd (buff_ppop n s))"
  by (simp add: buff_ppop_def case_prod_unfold Let_def kept_simps)

lemma kept_top [kept_simps]: "kept s0 s \<Longrightarrow> kept s0 (set_top d s)"
proof (erule kept_frame_step)
  have e: "s_ev (set_top d s) = s_ev s" "s_ms (set_top d s) = s_ms s" "framed (set_top d s) = framed s"
    "s_tv_start (set_top d s) = s_tv_start s" "s_tv_end (set_top d s) = s_tv_end s"
    by (simp_all add: set_top_def framed_def split: list.split)
  show "framed (set_top d s) = framed s" "s_ms s \<le> s_ms (set_top d s)"
    "s_tv_start (set_top d s) = s_tv_start s" "s_tv_end (set_top d s) = s_tv_end s"
    "v_tv_ms (s_ev (set_top d s) u) = v_tv_ms (s_ev s u) \<and> v_tv_next (s_ev (set_top d s) u) = v_tv_next (s_ev s u) \<and>
      v_tv_prev (s_ev (set_top d s) u) = v_tv_prev (s_ev s u)" for u
    by (simp_all add: e)
  show "bufs_ok s \<Longrightarrow> bufs_ok (set_top d s)" by (cases "s_free s") (simp_all add: set_top_def bufs_ok_def)
qed

lemma kept_fields [kept_simps]:
  "kept s0 s \<Longrightarrow> kept s0 (s\<lparr>s_rk := k\<rparr>)" "kept s0 s \<Longrightarrow> kept s0 (s\<lparr>s_pool := p\<rparr>)" "kept s0 s \<Longrightarrow> kept s0 (s\<lparr>s_brk := b\<rparr>)"
  "kept s0 s \<Longrightarrow> kept s0 (s\<lparr>s_par := (s_par s)\<lparr>g_dp := d\<rparr>\<rparr>)"
  by (erule kept_frame_step; simp add: framed_def bufs_ok_def)+

lemma kept_case [kept_simps]:
  "kept s0 (snd a) \<Longrightarrow> (\<And>y. x = Some y \<Longrightarrow> kept s0 (snd (f y))) \<Longrightarrow> kept s0 (snd (case x of None \<Rightarrow> a | Some y \<Rightarrow> f y))"
  by (cases x) simp_all

lemma kept_if [kept_simps]: "(c \<Longrightarrow> kept s0 a) \<Longrightarrow> (\<not> c \<Longrightarrow> kept s0 b) \<Longrightarrow> kept s0 (if c then a else b)"
  "(c \<Longrightarrow> kept s0 (snd x)) \<Longrightarrow> (\<not> c \<Longrightarrow> kept s0 (snd y)) \<Longrightarrow> kept s0 (snd (if c then x else y))"
  by simp_all

text \<open>The timers of a live connection.\<close>

lemma remove_timer_step: "kept s0 s \<Longrightarrow> live s v \<Longrightarrow> kept s0 (remove_timer v s)"
proof (erule kept_trans)
  assume v: "live s v"
  have e: "s_par (remove_timer v s) = s_par s" "s_ms (remove_timer v s) = s_ms s" "s_free (remove_timer v s) = s_free s"
    "s_buff_count (remove_timer v s) = s_buff_count s" "s_pevents (remove_timer v s) = s_pevents s"
    "fev (s_ev (remove_timer v s) u) = fev (s_ev s u)" for u
    by (auto simp: remove_timer_def Let_def fev_def split: option.split)
  show "kept s (remove_timer v s)"
  proof (rule kept_frame)
    show "framed (remove_timer v s) = framed s" by (simp add: framed_def e)
    show "\<exists>ts'. timers (remove_timer v s) ts'" if "timers s ts" for ts using remove_timer_refines(1) [OF that v] ..
  qed (use bufs_cong [of "remove_timer v s" s] in \<open>simp_all add: e\<close>)
qed

lemma frame_upd: "(\<And>e. fev (f e) = fev e) \<Longrightarrow> framed (upd_ev v f s) = framed s"
  by (simp add: framed_def fun_eq_iff)

lemma frame_ends: "framed (s\<lparr>s_tv_start := a\<rparr>) = framed s" "framed (s\<lparr>s_tv_end := a\<rparr>) = framed s"
  by (simp_all add: framed_def)

lemma set_timer_step:
  assumes v: "live s v" and ms: "ms = g_await_int (s_par s) \<or> ms = g_ptimeout (s_par s)"
  shows "post (set_timer v ms s) (kept s)"
proof (rule postI)
  fix s' assume s': "set_timer v ms s = Some s'"
  let ?I = "\<lambda>t. framed t = framed s \<and> s_ms t = s_ms s \<and> s_free t = s_free s \<and> s_buff_count t = s_buff_count s"
  have "post (set_timer v ms s) ?I"
    unfolding set_timer_def
    by (rule post_rules(4), simp, rule post_inv [where I = ?I], simp add: frame_upd fev_def, rule post_rules(3), rule post_any,
      rule post_split, (rule post_inv [where I = ?I], simp add: frame_upd frame_ends fev_def split: option.split)+,
      rule post_rules(1), assumption)
  then have f: "framed s' = framed s" "s_ms s' = s_ms s" "s_free s' = s_free s" "s_buff_count s' = s_buff_count s"
    using s' by (simp_all add: post_def)
  show "kept s s'"
  proof (rule kept_frame [OF f(1)])
    fix ts assume c: "calm s" and t: "timers s ts"
    show "\<exists>ts'. timers s' ts'"
    proof (cases "v_tv_ms (s_ev s v) = 0")
      case True
      then have "v \<notin> set ts" using t v by (auto simp: timers_def deadline_def)
      moreover have "s_ms s + ms \<noteq> 0" using c ms by (auto simp: calm_def clock_ok_def)
      ultimately show ?thesis using set_timer_refines [OF t v] s' by fastforce
    next
      case False
      then show ?thesis using s' t by (auto simp: set_timer_def)
    qed
  qed (use f(2) bufs_cong [OF f(3,4)] in simp_all)
qed

section \<open>Rules for operations\<close>

lemma kept_live: "kept s0 s \<Longrightarrow> live s u = live s0 u"
  unfolding kept_def by (elim conjE) (rule frame_fields)

lemma kept_pair: "kept s0 s \<Longrightarrow> v_pair (s_ev s u) = v_pair (s_ev s0 u)"
  unfolding kept_def by (elim conjE) (rule frame_fields)

lemma kept_limits: "kept z s \<Longrightarrow> g_await_int (s_par s) = g_await_int (s_par z)"
  "kept z s \<Longrightarrow> g_ptimeout (s_par s) = g_ptimeout (s_par z)" "kept z s \<Longrightarrow> g_delay_conn (s_par s) = g_delay_conn (s_par z)"
  unfolding kept_def by ((elim conjE, drule frame_fields(6), erule par_fields)+)

text \<open>The rules of the operations are collected in \<open>kept_posts\<close>, and are used by the first of these rules
  that fits their results; the others take an operation apart.\<close>

named_theorems kept_posts

lemma post_call:
  "post m (kept z) \<Longrightarrow> (\<And>s'. kept z s' \<Longrightarrow> Q s') \<Longrightarrow> post m Q"
  "post m2 (\<lambda>(r, s'). kept z s') \<Longrightarrow> (\<And>r s'. kept z s' \<Longrightarrow> Q2 (r, s')) \<Longrightarrow> post m2 Q2"
  "post m3 (\<lambda>(r, a, s'). kept z s') \<Longrightarrow> (\<And>r a s'. kept z s' \<Longrightarrow> Q3 (r, a, s')) \<Longrightarrow> post m3 Q3"
  "post m4 (\<lambda>(r, a, b, s'). kept z s') \<Longrightarrow> (\<And>r a b s'. kept z s' \<Longrightarrow> Q4 (r, a, b, s')) \<Longrightarrow> post m4 Q4"
  by (auto simp: post_def)

lemmas post_vcg = post_rules post_cases post_let post_pair

text \<open>The state that a call returns.\<close>

lemma post_state:
  "kept z (snd (snd x3)) \<Longrightarrow> (\<And>a b s. x3 = (a, b, s) \<Longrightarrow> kept z s \<Longrightarrow> post (f3 a b s) Q) \<Longrightarrow>
     post (case x3 of (a, b, s) \<Rightarrow> f3 a b s) Q"
  "kept z (snd x) \<Longrightarrow> (\<And>a s. x = (a, s) \<Longrightarrow> kept z s \<Longrightarrow> post (f a s) Q) \<Longrightarrow> post (case x of (a, s) \<Rightarrow> f a s) Q"
  by (cases x3, simp) (cases x, simp)

end
