(* ===== verification/Kept.thy ===== *)
theory Kept
  imports Frame
begin

unbundle bit_operations_syntax

text \<open>
  The operations that keep the frame (\<open>Frame\<close>): all of \<open>desync.c\<close>, the parsers of requests, the cache and
  the groups, the hooks up to the point where a connection fails, and the relay of datagrams. Each rule
  follows the code of its operation.
\<close>

section \<open>Calls without a way to fail\<close>

lemma kept_ev [kept_simps]:
  "kept s0 s \<Longrightarrow> (\<And>e. fev (f e) = fev e \<and> v_tv_ms (f e) = v_tv_ms e \<and> v_tv_next (f e) = v_tv_next e \<and> v_tv_prev (f e) = v_tv_prev e) \<Longrightarrow>
     kept s0 (upd_ev u f s)"
  by (rule kept_upd) (simp_all add: inert_def)

declare fev_def [kept_simps]

lemmas kept_defs = Let_def case_prod_unfold

lemma kept_sockopts [kept_simps]:
  "kept s0 s \<Longrightarrow> kept s0 (snd (setttl fd t s))" "kept s0 s \<Longrightarrow> kept s0 (snd (drop_sack fd s))"
  "kept s0 s \<Longrightarrow> kept s0 (snd (sock_has_notsent fd s))" "kept s0 s \<Longrightarrow> kept s0 (snd (set_md5sig fd n s))"
  "kept s0 s \<Longrightarrow> kept s0 (snd (set_timeout fd t s))" "kept s0 s \<Longrightarrow> kept s0 (snd (nb_socket d ty s))"
  "kept s0 s \<Longrightarrow> kept s0 (close_fd fd s)" "kept s0 s \<Longrightarrow> kept s0 (snd (sock_error fd s))"
  "kept s0 s \<Longrightarrow> kept s0 (snd (snd (resolve h a ty s)))" "kept s0 s \<Longrightarrow> kept s0 (snd (resp_s5_error fd e s))"
  by (simp_all add: kept_simps kept_defs setttl_def drop_sack_def sock_has_notsent_def set_md5sig_def set_timeout_def nb_socket_def
      close_fd_def sock_error_def resolve_def resp_s5_error_def)

lemma kept_pre_desync [kept_simps]: "kept s0 s \<Longrightarrow> kept s0 (snd (pre_desync fd dp s))"
  "kept s0 s \<Longrightarrow> kept s0 (snd (post_desync fd dp s))" "kept s0 s \<Longrightarrow> kept s0 (snd (resp_error fd e fl s))"
  by (simp_all add: kept_simps kept_defs pre_desync_def post_desync_def resp_error_def)

lemma kept_fakes [kept_simps]:
  "kept s0 s \<Longrightarrow> kept s0 (snd (rand s))" "kept s0 s \<Longrightarrow> kept s0 (snd (alloc_pktd n s))"
  by (simp_all add: kept_simps kept_defs rand_def alloc_pktd_def)

lemma kept_pick_sni [kept_simps]: "kept s0 s \<Longrightarrow> kept s0 (snd (pick_sni opt s))"
  by (simp add: kept_simps kept_defs pick_sni_def)

lemma kept_restore_opts [kept_simps]: "kept s0 s \<Longrightarrow> kept s0 (restore_opts v s)"
  by (simp add: kept_simps kept_defs restore_opts_def)

lemma kept_send_fakes [kept_simps]: "kept s0 s \<Longrightarrow> kept s0 (snd (send_fakes k fd d s))"
  by (induction k arbitrary: s) (simp_all add: kept_simps kept_defs)

lemma kept_set_opts [kept_simps]: "kept s0 s \<Longrightarrow> kept s0 (snd (set_opts fd opts s))"
  by (induction opts arbitrary: s) (auto simp: kept_simps kept_defs)

lemma kept_groups [kept_simps]: "kept s0 s \<Longrightarrow> kept s0 (set_next d x s)" "kept s0 s \<Longrightarrow> kept s0 (set_prev d x s)"
  "kept s0 s \<Longrightarrow> kept s0 (set_level g t l s)" "kept s0 s \<Longrightarrow> kept s0 (note_failure u t g s)"
  "kept s0 s \<Longrightarrow> kept s0 (pool_set e e' s)"
  by (simp_all add: kept_simps kept_defs set_next_def set_prev_def set_level_def note_failure_def pool_set_def split: option.split)

lemma kept_swop_outer [kept_simps]: "kept s0 s \<Longrightarrow> kept s0 (swop_outer c n s)"
  by (simp add: kept_simps kept_defs swop_outer_def)

lemma kept_buffers [kept_simps]: "kept s0 s \<Longrightarrow> kept s0 (free_first_req c s)" "kept s0 s \<Longrightarrow> kept s0 (drop_buff v s)"
  "kept s0 s \<Longrightarrow> kept s0 (new_round v s)" "kept s0 s \<Longrightarrow> kept s0 (set_flag v f s)" "kept s0 s \<Longrightarrow> kept s0 (udp_count v p n s)"
  by (simp_all add: kept_simps kept_defs free_first_req_def drop_buff_def new_round_def set_flag_def udp_count_def split: option.split)

lemma kept_claims [kept_simps]: "kept s0 s \<Longrightarrow> kept s0 (snd (claim_client v a s))"
  "kept s0 s \<Longrightarrow> kept s0 (snd (snd (claim_server p a s)))"
  by (simp_all add: kept_simps kept_defs claim_client_def claim_server_def)

section \<open>Sending a request in parts\<close>

lemma set_timer_kept [kept_posts]:
  "kept s0 s \<Longrightarrow> live s0 v \<Longrightarrow> kept s0 s1 \<Longrightarrow> post (set_timer v (g_await_int (s_par s1)) s) (kept s0)"
  "kept s0 s \<Longrightarrow> live s0 v \<Longrightarrow> kept s0 s1 \<Longrightarrow> post (set_timer v (g_ptimeout (s_par s1)) s) (kept s0)"
  using set_timer_step [of s v] kept_live kept_limits kept_trans unfolding post_def by metis+

lemma desync_pieces_kept [kept_posts]:
  "kept s0 s \<Longrightarrow> post (gen_offset pos fl b n lp info s) (\<lambda>(r, i, s'). kept s0 s')"
  "kept s0 s \<Longrightarrow> post (change_sni sni b n nn s) (\<lambda>(r, b', s'). kept s0 s')"
  "kept s0 s \<Longrightarrow> post (splice_fake v fd pos p s) (\<lambda>(r, s'). kept s0 s')"
  "kept s0 s \<Longrightarrow> post (restore_state v b s) (kept s0)"
  "kept s0 s \<Longrightarrow> post (send_oob fd b lp n pos c s) (\<lambda>(r, s'). kept s0 s')"
  "kept s0 s \<Longrightarrow> post (send_rest fd b off n lp s) (\<lambda>(r, s'). kept s0 s')"
  unfolding gen_offset_def change_sni_def splice_fake_def restore_state_def send_oob_def send_rest_def
  by (rule post_vcg post_state [where z = s0] post_split | rule post_any
     | (simp add: kept_simps kept_defs; fail))+

lemma fill_fake_kept [kept_posts]: "kept s0 s \<Longrightarrow> post (fill_fake b n ty opt data sz sni p s) (\<lambda>(p', s'). kept s0 s')"
  unfolding fill_fake_def
  by (rule post_call [where z = s0], rule kept_posts | rule post_vcg post_state [where z = s0] post_split | rule post_any
     | (simp add: kept_simps kept_defs; fail))+

lemma fake_pieces_kept [kept_posts]:
  "kept s0 s \<Longrightarrow> post (pick_off b n opt off ps info s) (\<lambda>(r, i, s'). kept s0 s')"
  "kept s0 s \<Longrightarrow> post (lend_fake v fd pos opt p s) (\<lambda>(r, s'). kept s0 s')"
  unfolding pick_off_def lend_fake_def
  by (rule post_call [where z = s0], rule kept_posts | rule post_vcg post_state [where z = s0] post_split | rule post_any
     | (simp add: kept_simps kept_defs; fail))+

lemma fakes_kept [kept_posts]:
  "kept s0 s \<Longrightarrow> post (get_tcp_fake b n info opt s) (\<lambda>(p, i, s'). kept s0 s')"
  "kept s0 s \<Longrightarrow> post (send_fake v orig pos opt pkt s) (\<lambda>(r, s'). kept s0 s')"
  unfolding get_tcp_fake_def send_fake_def
  by (rule post_call [where z = s0], rule kept_posts | rule post_vcg post_state [where z = s0] post_split | rule post_any
     | (simp add: kept_simps kept_defs; fail))+

lemma desync_part_kept [kept_posts]:
  "kept s0 s \<Longrightarrow> post (desync_part v dp b bs n part k lp pos info s) (\<lambda>(r, i, s'). kept s0 s')"
  unfolding desync_part_def
  by (cases "p_m part"; (simp only: demode.simps simp_thms if_True if_False)?;
      (rule post_call [where z = s0], rule kept_posts | rule post_vcg post_state [where z = s0] post_split | rule post_any
     | (simp add: kept_simps kept_defs; fail))+)

lemma after_part_kept [kept_posts]:
  "kept s0 s \<Longrightarrow> live s0 v \<Longrightarrow> post (after_part v b off lp pos c ps r s) (\<lambda>(x, s'). kept s0 s')"
  unfolding after_part_def
  by (rule post_call [where z = s0], rule kept_posts | rule post_vcg post_state [where z = s0] post_split | rule post_any
     | (simp add: kept_simps kept_defs; fail))+

lemma tlsrec_loop_kept [kept_posts]:
  "kept s0 s \<Longrightarrow> post (tlsrec_loop bs ps rc lp b n info s) (\<lambda>(x, a, i, s'). kept s0 s')"
proof (induction ps arbitrary: rc lp b n info s)
  case (Cons pk ps)
  show ?case
    by (cases pk, simp only: tlsrec_loop.simps)
      (rule post_call [where z = s0], rule kept_posts Cons.IH Cons.prems
     | rule post_vcg post_state [where z = s0] post_split | rule post_any
     | (simp add: Cons.prems kept_simps; fail))+
qed simp

lemma desync_loop_kept [kept_posts]:
  "kept s0 s \<Longrightarrow> live s0 v \<Longrightarrow> post (desync_loop v c dp b bs n off sk psk ps cp lp info s) (\<lambda>(x, s'). kept s0 s')"
proof (induction ps arbitrary: cp lp info s)
  case (Cons pk ps)
  show ?case
    by (cases pk, simp only: desync_loop.simps)
      (rule post_call [where z = s0], rule kept_posts Cons.IH 
     | rule post_vcg post_state [where z = s0] post_split | rule post_any
     | (simp add: Cons.prems kept_simps; fail))+
qed simp

lemma desync_run_kept [kept_posts]:
  "kept s0 s \<Longrightarrow> post (tamp b bs n dp info s) (\<lambda>(x, a, i, s'). kept s0 s')"
  "kept s0 s \<Longrightarrow> live s0 v \<Longrightarrow> post (desync_run v c dp buff b n w info s) (\<lambda>(x, s'). kept s0 s')"
  unfolding tamp_def desync_run_def
  by (rule post_call [where z = s0], rule kept_posts | rule post_vcg post_state [where z = s0] post_split | rule post_any
     | (simp add: kept_simps kept_defs; fail))+

lemma desync_kept [kept_posts]:
  "kept s0 s \<Longrightarrow> live s0 v \<Longrightarrow> post (desync v buff np w s) (\<lambda>(x, s'). kept s0 s')"
  "kept s0 s \<Longrightarrow> post (desync_udp fd b off n dp s) (\<lambda>(x, s'). kept s0 s')"
  unfolding desync_def desync_udp_def
  by (rule post_call [where z = s0], rule kept_posts | rule post_vcg post_state [where z = s0] post_split | rule post_any
     | (simp add: kept_simps kept_defs; fail))+

section \<open>Sockets and requests\<close>

lemma protect_kept [kept_posts]: "kept s0 s \<Longrightarrow> post (protect fd path s) (\<lambda>(r, s'). kept s0 s')"
  unfolding protect_def by (rule post_call [where z = s0], rule kept_posts | rule post_vcg post_state [where z = s0] post_split | rule post_any
     | (simp add: kept_simps kept_defs; fail))+

lemma socket_mod_kept [kept_posts]: "kept s0 s \<Longrightarrow> post (socket_mod fd s) (\<lambda>(r, s'). kept s0 s')"
  unfolding socket_mod_def by (rule post_call [where z = s0], rule kept_posts | rule post_vcg post_state [where z = s0] post_split | rule post_any
     | (simp add: kept_simps kept_defs; fail))+

lemma remote_sock_kept [kept_posts]: "kept s0 s \<Longrightarrow> post (remote_sock dst ty s) (\<lambda>(r, a, s'). kept s0 s')"
  unfolding remote_sock_def by (rule post_call [where z = s0], rule kept_posts | rule post_vcg post_state [where z = s0] post_split | rule post_any
     | (simp add: kept_simps kept_defs; fail))+

lemma requests_kept [kept_posts]:
  "kept s0 s \<Longrightarrow> post (auth_socks5 fd b n s) (\<lambda>(r, s'). kept s0 s')"
  "kept s0 s \<Longrightarrow> post (s4_get_addr b n dst s) (\<lambda>(r, a, s'). kept s0 s')"
  "kept s0 s \<Longrightarrow> post (s5_dst b off atp dst ty s) (\<lambda>(r, a, s'). kept s0 s')"
  "kept s0 s \<Longrightarrow> post (http_get_addr b n dst s) (\<lambda>(r, a, s'). kept s0 s')"
  "kept s0 s \<Longrightarrow> post (tls_get_addr b n dst s) (\<lambda>(r, a, s'). kept s0 s')"
  "kept s0 s \<Longrightarrow> post (save_buffer v n s) (\<lambda>(r, s'). kept s0 s')"
  "kept s0 s \<Longrightarrow> post (mod_etype v ty s) (\<lambda>(r, s'). kept s0 s')"
  unfolding auth_socks5_def s4_get_addr_def s5_dst_def http_get_addr_def tls_get_addr_def save_buffer_def mod_etype_def
  by (rule post_call [where z = s0], rule kept_posts | rule post_vcg post_state [where z = s0] post_split | rule post_any
     | (simp add: kept_simps kept_defs; fail))+

lemma s5_get_addr_kept [kept_posts]: "kept s0 s \<Longrightarrow> post (s5_get_addr b off n dst ty s) (\<lambda>(r, a, s'). kept s0 s')"
  unfolding s5_get_addr_def by (rule post_call [where z = s0], rule kept_posts | rule post_vcg post_state [where z = s0] post_split | rule post_any
     | (simp add: kept_simps kept_defs; fail))+

section \<open>Groups and hooks\<close>

lemma kept_remove_timer [kept_simps]: "kept s0 s \<Longrightarrow> live s0 v \<Longrightarrow> kept s0 (remove_timer v s)"
  using remove_timer_step kept_live by blast

lemma cache_kept [kept_posts]:
  "kept s0 s \<Longrightarrow> post (cache_get dst s) (\<lambda>(r, s'). kept s0 s')"
  "kept s0 s \<Longrightarrow> post (cache_add dst h s) (\<lambda>(r, h', s'). kept s0 s')"
  "kept s0 s \<Longrightarrow> post (find_dp c data dst s) (\<lambda>(r, s'). kept s0 s')"
  "kept s0 s \<Longrightarrow> post (restore_first_req c s) (kept s0)"
  "kept s0 s \<Longrightarrow> post (swop_links dpc dpn s) (kept s0)"
  "kept s0 s \<Longrightarrow> post (save_hostname c b n s) (kept s0)"
  unfolding cache_get_def cache_add_def find_dp_def restore_first_req_def swop_links_def save_hostname_def
  by (rule post_call [where z = s0], rule kept_posts | rule post_vcg post_state [where z = s0] post_split | rule post_any
     | (simp add: kept_simps kept_defs; fail))+

lemma swop_groups_kept [kept_posts]: "kept s0 s \<Longrightarrow> post (swop_groups c n s) (kept s0)"
  unfolding swop_groups_def by (rule post_call [where z = s0], rule kept_posts | rule post_vcg post_state [where z = s0] post_split | rule post_any
     | (simp add: kept_simps kept_defs; fail))+

lemma hooks_kept [kept_posts]:
  "kept s0 s \<Longrightarrow> post (rank_groups d nxt unch cache s) (kept s0)"
  "kept s0 s \<Longrightarrow> live s0 v \<Longrightarrow> post (try_set_tls_timer v b n s) (\<lambda>(r, s'). kept s0 s')"
  "kept s0 s \<Longrightarrow> post (setup_conn c b n s) (\<lambda>(r, s'). kept s0 s')"
  "kept s0 s \<Longrightarrow> post (cancel_setup v s) (\<lambda>(r, s'). kept s0 s')"
  "kept s0 s \<Longrightarrow> post (plain_send r x n s) (\<lambda>(r, s'). kept s0 s')"
  "kept s0 s \<Longrightarrow> live s0 r \<Longrightarrow> post (desync_send r u np w s) (\<lambda>(x, n', w', s'). kept s0 s')"
  "kept s0 s \<Longrightarrow> post (recv_client v x n s) (kept s0)"
  "kept s0 s \<Longrightarrow> post (mod_both a i u j s) (\<lambda>(r, s'). kept s0 s')"
  "kept s0 s \<Longrightarrow> post (set_buff v f s) (kept s0)"
  "kept s0 s \<Longrightarrow> post (answer v e s) (\<lambda>(r, s'). kept s0 s')"
  unfolding rank_groups_def try_set_tls_timer_def setup_conn_def cancel_setup_def plain_send_def desync_send_def recv_client_def
    mod_both_def set_buff_def answer_def
  by (rule post_call [where z = s0], rule kept_posts | rule post_vcg post_state [where z = s0] post_split | rule post_any
     | (simp add: kept_simps kept_defs; fail))+

section \<open>Datagrams\<close>

lemma udp_hook_kept [kept_posts]: "kept s0 s \<Longrightarrow> post (udp_hook v b off n dst s) (\<lambda>(r, s'). kept s0 s')"
  unfolding udp_hook_def by (rule post_call [where z = s0], rule kept_posts | rule post_vcg post_state [where z = s0] post_split | rule post_any
     | (simp add: kept_simps kept_defs; fail))+

lemma udp_messages_kept [kept_posts]:
  "kept s0 s \<Longrightarrow> post (udp_from_client v p d n addr s) (\<lambda>(r, a, s'). kept s0 s')"
  "kept s0 s \<Longrightarrow> post (udp_from_server p d n addr s) (\<lambda>(r, d', a, s'). kept s0 s')"
  "kept s0 s \<Longrightarrow> post (answer_udp v fd a s) (\<lambda>(r, s'). kept s0 s')"
  unfolding udp_from_client_def udp_from_server_def answer_udp_def by (rule post_call [where z = s0], rule kept_posts | rule post_vcg post_state [where z = s0] post_split | rule post_any
     | (simp add: kept_simps kept_defs; fail))+

lemma udp_turn_kept [kept_posts]: "kept s0 s \<Longrightarrow> post (udp_turn v p conn d n addr s) (\<lambda>(r, d', a, s'). kept s0 s')"
  unfolding udp_turn_def by (rule post_call [where z = s0], rule kept_posts | rule post_vcg post_state [where z = s0] post_split | rule post_any
     | (simp add: kept_simps kept_defs; fail))+

text \<open>The loop that receives datagrams may go on for ever.\<close>

lemma udp_loop_kept [kept_posts]:
  assumes "kept s0 s"
  shows "post (udp_loop v p conn d n addr s) (\<lambda>(r, s'). kept s0 s')"
proof (rule postI)
  fix x assume x: "udp_loop v p conn d n addr s = Some x"
  have "kept s0 s \<longrightarrow> kept s0 (snd x)"
  proof (rule udp_loop.raw_induct [where P = "\<lambda>v p conn d n addr s x. kept s0 s \<longrightarrow> kept s0 (snd x)", OF _ x], rule impI)
    fix f v p conn d n addr s x
    assume ih: "\<And>v p conn d n addr s x. f v p conn d n addr s = Some x \<Longrightarrow> kept s0 s \<longrightarrow> kept s0 (snd x)" and k: "kept s0 s"
      and x: "udp_turn v p conn d n addr s \<bind> (\<lambda>(res, d, addr, s). case res of Stop r \<Rightarrow> Some (r, set_top d s) |
           Skip \<Rightarrow> f v p conn d n addr s | Sent k \<Rightarrow> f v p conn d n addr s) = Some x"
    have f: "kept s0 s \<Longrightarrow> post (f v p conn d n addr s) (\<lambda>(r, s'). kept s0 s')" for v p conn d n addr s
      using ih by (auto intro!: postI)
    have "post (udp_turn v p conn d n addr s \<bind> (\<lambda>(res, d, addr, s). case res of Stop r \<Rightarrow> Some (r, set_top d s) |
           Skip \<Rightarrow> f v p conn d n addr s | Sent k \<Rightarrow> f v p conn d n addr s)) (\<lambda>(r, s'). kept s0 s')"
      by (rule post_call [where z = s0], rule kept_posts f | rule post_vcg post_state [where z = s0] post_split
        | (simp add: k kept_simps; fail))+
    then show "kept s0 (snd x)" unfolding x by (simp add: case_prod_unfold)
  qed
  then show "case x of (r, s') \<Rightarrow> kept s0 s'" using assms by (simp add: case_prod_unfold)
qed

lemma on_udp_tunnel_kept [kept_posts]: "kept s0 s \<Longrightarrow> post (on_udp_tunnel v s) (\<lambda>(r, s'). kept s0 s')"
  unfolding on_udp_tunnel_def by (rule post_call [where z = s0], rule kept_posts | rule post_vcg post_state [where z = s0] post_split | rule post_any
     | (simp add: kept_simps kept_defs; fail))+

end
