(* ===== verification/Wiring.thy ===== *)
theory Wiring
  imports Kept
begin

text \<open>
  The connections of the server among each other: pairs form cycles (two connections for TCP, three for an
  association of UDP), and a callback that hands over to the pair is only set where the pair points
  back. The theory gives what opening, linking and closing connections do to this, and closing a
  connection closes the cycle it is in.
\<close>

section \<open>The invariant\<close>

text \<open>\<open>z\<close> is a connection that was closed already and that may still be the pair of another one.\<close>

definition plugged :: "nat option \<Rightarrow> st \<Rightarrow> nat \<Rightarrow> bool" where
  "plugged z s u \<longleftrightarrow>
     (v_cb (s_ev s u) \<in> {On_accept, On_request} \<longrightarrow> v_pair (s_ev s u) = None) \<and> v_cb (s_ev s u) \<noteq> Recv_and_connect \<and>
     v_after_conn_cb (s_ev s u) \<in> {NoCb, On_connect} \<and>
     (\<forall>q. v_pair (s_ev s u) = Some q \<longrightarrow>
        Some q = z \<or> live s q \<and> q \<noteq> u \<and> v_pair (s_ev s q) \<noteq> None \<and>
           (v_cb (s_ev s u) \<notin> {On_udp_tunnel, On_ignore} \<longrightarrow> v_pair (s_ev s q) = Some u))"

definition pair_inj :: "st \<Rightarrow> bool" where
  "pair_inj s \<longleftrightarrow> (\<forall>u u' q. live s u \<longrightarrow> live s u' \<longrightarrow> v_pair (s_ev s u) = Some q \<longrightarrow> v_pair (s_ev s u') = Some q \<longrightarrow> u = u')"

definition wired :: "nat option \<Rightarrow> st \<Rightarrow> bool" where
  "wired z s \<longleftrightarrow> pair_inj s \<and> (\<forall>u. live s u \<longrightarrow> plugged z s u)"

definition server_ok :: "st \<Rightarrow> bool" where
  "server_ok s \<longleftrightarrow> calm s \<and> wired None s \<and> \<not> g_delay_conn (s_par s)"

text \<open>What stays in all steps of one turn: the reported events that were touched stay touched.\<close>

definition drift :: "st \<Rightarrow> st \<Rightarrow> bool" where
  "drift s s' \<longleftrightarrow> s_max s' = s_max s \<and> s_iters s' = s_iters s \<and> s_pevents s' = s_pevents s \<and>
     (s_par s')\<lparr>g_dp := None\<rparr> = (s_par s)\<lparr>g_dp := None\<rparr> \<and>
     (\<forall>u. v_mod_iter (s_ev s u) = s_iters s \<or> live s u \<longrightarrow> v_mod_iter (s_ev s' u) = s_iters s \<or> live s' u)"

lemma drift_refl [simp, intro]: "drift s s"
  by (simp add: drift_def)

lemma drift_trans: "drift s t \<Longrightarrow> drift t u \<Longrightarrow> drift s u"
  by (auto simp: drift_def)

section \<open>Closing\<close>

text \<open>A connection that others do not point to can leave, and its own pair may be cut.\<close>

lemma wired_less:
  assumes "wired z s" "\<And>u. live s' u \<Longrightarrow> live s u"
    "\<And>u. live s' u \<Longrightarrow> v_pair (s_ev s' u) = v_pair (s_ev s u) \<and> v_cb (s_ev s' u) = v_cb (s_ev s u) \<and>
       v_after_conn_cb (s_ev s' u) = v_after_conn_cb (s_ev s u)"
    "\<And>u q. live s' u \<Longrightarrow> v_pair (s_ev s u) = Some q \<Longrightarrow> Some q = z' \<or> Some q \<noteq> z \<and> (live s q \<longrightarrow> live s' q)"
  shows "wired z' s'"
proof -
  have "pair_inj s'" using assms(1,2,3) unfolding wired_def pair_inj_def by metis
  moreover have "plugged z' s' u" if u: "live s' u" for u
  proof -
    have "plugged z s u" using assms(1,2) u by (simp add: wired_def)
    then show ?thesis using assms(3) [OF u] assms(4) [OF u] assms(3) unfolding plugged_def by metis
  qed
  ultimately show ?thesis by (simp add: wired_def)
qed

text \<open>What the removal of one connection leaves alone.\<close>

lemma release_kept: "kept s (release_event v s)"
  by (simp add: release_event_def kept_simps Let_def split: option.split)

lemma release_ms: "s_ms s \<le> s_ms (release_event v s)"
proof -
  have [simp]: "s_ms (buff_push b s) = s_ms s" for b s by (simp add: buff_push_def split: option.split)
  have [simp]: "s_ms (snd (sys c s)) = s_ms s + int (r_dt (s_orc s (s_k s)))" for c s by (simp add: sys_def Let_def)
  show ?thesis by (simp add: release_event_def Let_def split: option.split)
qed

lemma shut_fields:
  "v_cb (s_ev (shut_event v s) u) = v_cb (s_ev s u)" "v_after_conn_cb (s_ev (shut_event v s) u) = v_after_conn_cb (s_ev s u)"
  "(s_par (shut_event v s))\<lparr>g_dp := None\<rparr> = (s_par s)\<lparr>g_dp := None\<rparr>" "s_ms s \<le> s_ms (shut_event v s)"
proof -
  let ?d = "snd (sys (CEpollDel (v_fd (s_ev s v))) s)"
  have k: "framed (release_event v ?d) = framed ?d" using release_kept [of ?d v] by (simp add: kept_def)
  note f = frame_fields(6,11,12) [OF k]
  have [simp]: "v_cb (s_ev (remove_timer v s) u) = v_cb (s_ev s u)"
    "v_after_conn_cb (s_ev (remove_timer v s) u) = v_after_conn_cb (s_ev s u)" "s_ms (remove_timer v s) = s_ms s" for s
    by (auto simp: remove_timer_def Let_def split: option.splits)
  show "v_cb (s_ev (shut_event v s) u) = v_cb (s_ev s u)" "v_after_conn_cb (s_ev (shut_event v s) u) = v_after_conn_cb (s_ev s u)"
    "(s_par (shut_event v s))\<lparr>g_dp := None\<rparr> = (s_par s)\<lparr>g_dp := None\<rparr>"
    using f by (simp_all add: shut_event_def close_event_def Let_def)
  have m: "s_ms s \<le> s_ms (snd (sys c s))" for c s by (simp add: sys_def Let_def)
  have "s_ms s \<le> s_ms (release_event v ?d)" using order_trans [OF m release_ms [of ?d v]] by blast
  then show "s_ms s \<le> s_ms (shut_event v s)" using m order_trans by (simp add: shut_event_def close_event_def Let_def) blast
qed

lemma unlink_fields:
  "v_cb (s_ev (unlink_event v s) u) = v_cb (s_ev s u)" "v_after_conn_cb (s_ev (unlink_event v s) u) = v_after_conn_cb (s_ev s u)"
  "s_par (unlink_event v s) = s_par s" "s_ms (unlink_event v s) = s_ms s"
  by (auto simp: unlink_event_def Let_def)

text \<open>One connection is taken away, and the pairs are cut as \<open>del_event\<close> does.\<close>

definition take_out :: "nat \<Rightarrow> st \<Rightarrow> st" where
  "take_out v s = unlink_event v (shut_event v s)"

lemma take_out_fields:
  "v_cb (s_ev (take_out v s) u) = v_cb (s_ev s u)" "v_after_conn_cb (s_ev (take_out v s) u) = v_after_conn_cb (s_ev s u)"
  "v_pair (s_ev (take_out v s) u) = v_pair (s_ev s u)" "s_count (take_out v s) = s_count s - 1"
  by (simp_all add: take_out_def unlink_fields shut_fields unlink_frame shut_event_frame)

lemma take_out_calm:
  assumes c: "calm s" and v: "live s v"
  shows "calm (take_out v s)" "drift s (take_out v s)"
proof -
  have p: "pool_ok s" using c by (simp add: calm_def)
  have g: "(s_par (take_out v s))\<lparr>g_dp := None\<rparr> = (s_par s)\<lparr>g_dp := None\<rparr>" "s_ms s \<le> s_ms (take_out v s)"
    using shut_fields(3) [of v s] shut_fields(4) [of s v] by (simp_all add: take_out_def unlink_fields)
  have "clock_ok (take_out v s)" using c g par_fields [OF g(1)] by (simp add: calm_def clock_ok_def)
  then show "calm (take_out v s)" using shut_unlink_ok(1) [OF p v] by (simp add: calm_def take_out_def)
  show "drift s (take_out v s)" unfolding drift_def
    using g(1) shut_unlink_ok(2) [OF p v] by (auto simp: take_out_def unlink_frame shut_event_frame)
qed

definition cut_pair :: "nat \<Rightarrow> nat \<Rightarrow> st \<Rightarrow> st" where
  "cut_pair v q s = upd_ev v (\<lambda>e. e\<lparr>v_pair := None\<rparr>)
     (if v_pair (s_ev s q) = Some v then upd_ev q (\<lambda>e. e\<lparr>v_pair := None\<rparr>) (take_out v s) else take_out v s)"

lemma del_event_step:
  assumes c: "calm s" and v: "live s v"
  shows "del_event v s = (case v_pair (s_ev s v) of None \<Rightarrow> Some (take_out v s) | Some p \<Rightarrow> del_event p (cut_pair v p s))"
proof -
  have "v_fd (s_ev s v) > 0" "v_mod_iter (s_ev s v) \<le> s_iters s" "s_count s > 0"
    using c v by (auto simp: calm_def pool_ok_def evs_ok_def live_def)
  then show ?thesis
    by (subst del_event.simps) (auto simp: Let_def unpair_def cut_pair_def take_out_def shut_event_frame unlink_frame split: option.split)
qed

lemma unpair_calm: "calm s \<Longrightarrow> calm (upd_ev p (\<lambda>e. e\<lparr>v_pair := None\<rparr>) s)"
  "drift s0 s \<Longrightarrow> drift s0 (upd_ev p (\<lambda>e. e\<lparr>v_pair := None\<rparr>) s)"
  by (auto simp: calm_def clock_ok_def unpair_ok drift_def live_def)

lemma take_out_live:
  assumes "calm s" "live s v"
  shows "live (take_out v s) u \<longleftrightarrow> live s u \<and> u \<noteq> v" "closed s u \<or> u = v \<Longrightarrow> closed (take_out v s) u"
proof -
  have p: "pool_ok s" using assms(1) by (simp add: calm_def)
  show "live (take_out v s) u \<longleftrightarrow> live s u \<and> u \<noteq> v" using shut_unlink_ok(2) [OF p assms(2)] by (simp add: take_out_def)
  show "closed s u \<or> u = v \<Longrightarrow> closed (take_out v s) u"
    using shut_unlink_ok(3,4) [OF p assms(2)] by (cases "u = v") (auto simp: take_out_def)
qed

lemma cut_pair_ok:
  assumes c: "calm s" and v: "live s v"
  shows "calm (cut_pair v q s)" "drift s (cut_pair v q s)" "s_count (cut_pair v q s) < s_count s"
    "live (cut_pair v q s) u \<longleftrightarrow> live s u \<and> u \<noteq> v" "closed s u \<or> u = v \<Longrightarrow> closed (cut_pair v q s) u"
    "v_cb (s_ev (cut_pair v q s) u) = v_cb (s_ev s u)"
    "v_after_conn_cb (s_ev (cut_pair v q s) u) = v_after_conn_cb (s_ev s u)"
    "u \<noteq> v \<Longrightarrow> v_pair (s_ev (cut_pair v q s) u) = (if u = q \<and> v_pair (s_ev s q) = Some v then None else v_pair (s_ev s u))"
proof -
  have "0 < s_count s" using v by (auto simp: live_def)
  then show "s_count (cut_pair v q s) < s_count s" by (simp add: cut_pair_def take_out_fields)
qed (use take_out_calm [OF c v] take_out_live [OF c v] in \<open>simp_all add: cut_pair_def unpair_calm unpair_ok take_out_fields\<close>)

definition closes :: "st \<Rightarrow> st \<Rightarrow> bool" where
  "closes s s' \<longleftrightarrow> calm s' \<and> wired None s' \<and> drift s s' \<and> (\<forall>u. closed s u \<longrightarrow> closed s' u) \<and>
     (\<forall>u. live s' u \<longrightarrow> live s u) \<and> (\<forall>u. live s u \<longrightarrow> live s' u \<or> closed s' u)"

lemma closes_cut:
  assumes c: "calm s" and v: "live s v" and s': "closes (cut_pair v q s) s'"
  shows "closes s s' \<and> closed s' v"
  using s' drift_trans [OF cut_pair_ok(2) [OF c v]] cut_pair_ok(5) [OF c v]
  unfolding closes_def cut_pair_ok(4) [OF c v] by blast

text \<open>The connections of a cycle are closed one after the other, until the one is reached that was closed
  first.\<close>

lemma close_chain:
  assumes "calm s" "wired (Some z) s" "closed s z" "\<forall>u. live s u \<longrightarrow> v_pair (s_ev s u) \<noteq> Some v"
    "v = z \<or> live s v \<and> (v_pair (s_ev s v) = None \<longrightarrow> (\<forall>u. live s u \<longrightarrow> v_pair (s_ev s u) \<noteq> Some z))"
  shows "\<exists>s'. del_event v s = Some s' \<and> closes s s' \<and> closed s' v"
  using assms
proof (induction "s_count s" arbitrary: s v rule: less_induct)
  case less
  note c = less.prems(1)
  show ?case
  proof (cases "v = z")
    case True
    have "wired None s" by (rule wired_less [OF less.prems(2)]) (use True less.prems(4) in auto)
    then show ?thesis using True less.prems by (simp add: del_event_closed closes_def)
  next
    case False
    then have v: "live s v" and nz: "v_pair (s_ev s v) = None \<Longrightarrow> \<forall>u. live s u \<longrightarrow> v_pair (s_ev s u) \<noteq> Some z"
      using less.prems(5) by auto
    show ?thesis
    proof (cases "v_pair (s_ev s v)")
      case None
      have "wired None (take_out v s)"
        by (rule wired_less [OF less.prems(2)]) (use less.prems(4) nz [OF None] in \<open>auto simp: take_out_live [OF c v] take_out_fields\<close>)
      then show ?thesis using take_out_calm [OF c v] None by (simp add: del_event_step [OF c v] closes_def take_out_live [OF c v])
    next
      case (Some q)
      let ?w = "cut_pair v q s"
      note w = cut_pair_ok [OF c v, where q = q]
      have pl: "plugged (Some z) s v" and inj: "pair_inj s" using less.prems(2) v by (auto simp: wired_def)
      have q: "q \<noteq> v" "q = z \<or> live s q \<and> v_pair (s_ev s q) \<noteq> None"
        using Some less.prems(4) v pl unfolding plugged_def by blast+
      have fp: "v_pair (s_ev ?w u) = v_pair (s_ev s u)" if "u \<noteq> v" "live s u" for u
        using less.prems(4) that by (auto simp: w)
      have ww: "wired (Some z) ?w"
        by (rule wired_less [OF less.prems(2)]) (use less.prems(4) in \<open>auto simp: w fp\<close>)
      have nq: "\<forall>u. live ?w u \<longrightarrow> v_pair (s_ev ?w u) \<noteq> Some q"
        using inj v Some unfolding pair_inj_def by (metis fp w(4))
      have cz: "closed ?w z" using w(5) less.prems(3) by simp
      have qz: "q = z \<or> live ?w q \<and> (v_pair (s_ev ?w q) = None \<longrightarrow> (\<forall>u. live ?w u \<longrightarrow> v_pair (s_ev ?w u) \<noteq> Some z))"
        using q fp [of q] by (auto simp: w)
      obtain s' where s': "del_event q ?w = Some s'" "closes ?w s'" "closed s' q"
        using less.hyps [OF w(3) w(1) ww cz nq qz] by (elim exE conjE)
      then show ?thesis using closes_cut [OF c v s'(2)] Some by (simp add: del_event_step [OF c v])
    qed
  qed
qed

lemma server_fields: "server_ok s \<Longrightarrow> calm s" "server_ok s \<Longrightarrow> wired None s" "server_ok s \<Longrightarrow> \<not> g_delay_conn (s_par s)"
  by (simp_all add: server_ok_def)

lemma server_pair:
  assumes "server_ok s" "live s u" "v_pair (s_ev s u) = Some q"
  shows "live s q" "q \<noteq> u" "v_pair (s_ev s q) \<noteq> None" "v_cb (s_ev s u) \<notin> {On_udp_tunnel, On_ignore} \<Longrightarrow> v_pair (s_ev s q) = Some u"
    "live s u' \<Longrightarrow> v_pair (s_ev s u') = Some q \<Longrightarrow> u' = u" "v_cb (s_ev s u) \<notin> {On_accept, On_request}"
proof -
  have "plugged None s u" "pair_inj s" using assms(1,2) by (simp_all add: server_ok_def wired_def)
  then show "live s q" "q \<noteq> u" "v_pair (s_ev s q) \<noteq> None" "v_cb (s_ev s u) \<notin> {On_udp_tunnel, On_ignore} \<Longrightarrow> v_pair (s_ev s q) = Some u"
    "live s u' \<Longrightarrow> v_pair (s_ev s u') = Some q \<Longrightarrow> u' = u" "v_cb (s_ev s u) \<notin> {On_accept, On_request}"
    using assms(2,3) unfolding plugged_def pair_inj_def by fastforce+
qed

lemma drift_delay: "drift s s' \<Longrightarrow> g_delay_conn (s_par s') = g_delay_conn (s_par s)"
  using par_fields(3) [of "s_par s'" "s_par s"] by (simp add: drift_def)

text \<open>Closing any connection keeps the invariant of the server.\<close>

lemma close_ok:
  assumes s: "server_ok s" and v: "live s v \<or> closed s v"
  shows "\<exists>s'. del_event v s = Some s' \<and> server_ok s' \<and> closes s s' \<and> closed s' v"
proof -
  note f = server_fields [OF s]
  have pl: "plugged None s u" if "live s u" for u using f(2) that by (simp add: wired_def)
  have inj: "pair_inj s" using f(2) by (simp add: wired_def)
  have "\<exists>s'. del_event v s = Some s' \<and> closes s s' \<and> closed s' v"
  proof (cases "live s v")
    case False
    then show ?thesis using v f by (simp add: del_event_closed closes_def)
  next
    case True
    then have v: "live s v" by simp
    note c = f(1)
    show ?thesis
    proof (cases "v_pair (s_ev s v)")
      case None
      have nv: "v_pair (s_ev s u) \<noteq> Some v" if "live s u" for u using pl [OF that] None by (auto simp: plugged_def)
      have "wired None (take_out v s)"
        by (rule wired_less [OF f(2)]) (use nv in \<open>auto simp: take_out_live [OF c v] take_out_fields\<close>)
      then show ?thesis using take_out_calm [OF c v] None by (simp add: del_event_step [OF c v] closes_def take_out_live [OF c v])
    next
      case (Some q)
      let ?w = "cut_pair v q s"
      note w = cut_pair_ok [OF c v, where q = q]
      have q: "live s q" "v_pair (s_ev s q) \<noteq> None" using Some pl [OF v] by (auto simp: plugged_def)
      have nv: "u = q" if "live s u" "v_pair (s_ev s u) = Some v" "v_pair (s_ev s q) = Some v" for u
        using inj q(1) that by (auto simp: pair_inj_def)
      have nu: "u = v" if "live s u" "v_pair (s_ev s u) = Some q" for u
        using inj v Some that by (auto simp: pair_inj_def)
      have "pair_inj ?w" using inj w(8) unfolding pair_inj_def w(4) by (metis option.distinct(1))
      moreover have "plugged (Some v) ?w u" if "live ?w u" for u
      proof -
        have u: "plugged None s u" "u \<noteq> v" "live s u" using that pl w(4) by auto
        have pu: "v_pair (s_ev ?w u) = Some x \<Longrightarrow> v_pair (s_ev s u) = Some x" for x using w(8) [OF u(2)] by (simp split: if_splits)
        have px: "v_pair (s_ev ?w x) = v_pair (s_ev s x)" if "v_pair (s_ev s u) = Some x" "x \<noteq> v" for x
          using nu [of u] that u w(8) [of x] by auto
        show ?thesis
          using u(1) pu px unfolding plugged_def w(4,6,7) by (metis option.distinct(1) not_None_eq)
      qed
      ultimately have ww: "wired (Some v) ?w" by (simp add: wired_def)
      have nq: "\<forall>u. live ?w u \<longrightarrow> v_pair (s_ev ?w u) \<noteq> Some q" using nu w(4,8) by auto
      have qv: "q = v \<or> live ?w q \<and> (v_pair (s_ev ?w q) = None \<longrightarrow> (\<forall>u. live ?w u \<longrightarrow> v_pair (s_ev ?w u) \<noteq> Some v))"
        using q nv w(4,8) by (auto split: if_splits)
      have cv: "closed ?w v" using w(5) by simp
      obtain s' where s': "del_event q ?w = Some s'" "closes ?w s'" "closed s' q"
        using close_chain [OF w(1) ww cv nq qv] by (elim exE conjE)
      then show ?thesis using closes_cut [OF c v s'(2)] Some by (simp add: del_event_step [OF c v])
    qed
  qed
  then show ?thesis using f(3) drift_delay unfolding server_ok_def closes_def by metis
qed

section \<open>Growing and moving\<close>

text \<open>Connections may be opened, or some closed as well.\<close>

definition grown :: "st \<Rightarrow> st \<Rightarrow> bool" where
  "grown s s' \<longleftrightarrow> server_ok s' \<and> drift s s' \<and>
     (\<forall>u. live s u \<longrightarrow> live s' u \<and> v_pair (s_ev s' u) = v_pair (s_ev s u) \<and> v_cb (s_ev s' u) = v_cb (s_ev s u))"

definition moved :: "st \<Rightarrow> st \<Rightarrow> bool" where
  "moved s s' \<longleftrightarrow> server_ok s' \<and> drift s s' \<and> (\<forall>u. live s u \<longrightarrow> live s' u \<or> closed s' u)"

lemma grown_moved: "grown s s' \<Longrightarrow> moved s s'"
  by (auto simp: grown_def moved_def)

lemma grown_trans: "grown s t \<Longrightarrow> grown t u \<Longrightarrow> grown s u"
  unfolding grown_def using drift_trans by fastforce

lemma grown_then_moved: "grown s t \<Longrightarrow> moved t u \<Longrightarrow> moved s u"
  unfolding grown_def moved_def using drift_trans by fastforce

lemma kept_drift:
  assumes "kept s s'"
  shows "drift s s'"
proof -
  have f: "framed s' = framed s" using assms by (simp add: kept_def)
  show ?thesis using frame_fields [OF f] by (simp add: drift_def)
qed

lemma kept_server:
  assumes k: "kept s s'" and s: "server_ok s"
  shows "server_ok s'"
proof -
  have f: "framed s' = framed s" using k by (simp add: kept_def)
  have "wired None s' = wired None s"
    unfolding wired_def pair_inj_def plugged_def using frame_fields(10,11,12,13) [OF f] by simp
  then show ?thesis using s k kept_limits(3) [OF k] by (simp add: server_ok_def kept_def)
qed

lemma kept_grown: "kept s s' \<Longrightarrow> server_ok s \<Longrightarrow> grown s s'"
  using kept_server [of s s'] kept_drift [of s s'] kept_live [of s s'] frame_fields(10,11) [of s' s]
  unfolding grown_def kept_def by simp

lemma moved_then_kept:
  assumes m: "moved s t" and k: "kept t u"
  shows "moved s u"
proof -
  have f: "framed u = framed t" using k by (simp add: kept_def)
  show ?thesis
    using m kept_server [OF k] drift_trans [OF _ kept_drift [OF k]] frame_fields(13,14) [OF f] by (simp add: moved_def)
qed

lemma close_single:
  assumes s: "server_ok s" and v: "live s v" "v_pair (s_ev s v) = None"
  shows "\<exists>s'. del_event v s = Some s' \<and> moved s s' \<and> closed s' v \<and>
    (\<forall>u. live s u \<longrightarrow> u \<noteq> v \<longrightarrow> live s' u \<and> v_pair (s_ev s' u) = v_pair (s_ev s u) \<and> v_cb (s_ev s' u) = v_cb (s_ev s u))"
proof -
  have c: "calm s" using s by (simp add: server_ok_def)
  have d: "del_event v s = Some (take_out v s)" using v by (simp add: del_event_step [OF c v(1)])
  then have "server_ok (take_out v s) \<and> closes s (take_out v s) \<and> closed (take_out v s) v" using close_ok [OF s, of v] v by simp
  then show ?thesis using d by (auto simp: moved_def closes_def take_out_live [OF c v(1)] take_out_fields)
qed

section \<open>Opening\<close>

lemma add_event_frame:
  assumes l: "links_ok s" and a: "add_event cb fd e s = Some (r, s')"
  shows "\<forall>u. live s u \<longrightarrow> s_ev s' u = s_ev s u" "s_iters s' = s_iters s" "s_pevents s' = s_pevents s" "s_par s' = s_par s"
    "s_ms s \<le> s_ms s'" "v_mod_iter (s_ev s u) = s_iters s \<Longrightarrow> v_mod_iter (s_ev s' u) = s_iters s"
    "r = Some p \<Longrightarrow> v_after_conn_cb (s_ev s' p) = NoCb"
proof -
  have n: "u \<noteq> s_links s (s_count s)" if "live s u" "s_count s < s_max s" for u
  proof -
    from that(1) have "u \<in> s_links s ` {..< s_count s}" by (simp add: live_def)
    then obtain k where "u = s_links s k" "k < s_count s" by (elim imageE) simp
    then show ?thesis using links_inj [OF l, of k "s_count s"] that(2) by simp
  qed
  have m: "s_ms s \<le> s_ms (snd (sys c s))" for c s by (simp add: sys_def Let_def)
  show "\<forall>u. live s u \<longrightarrow> s_ev s' u = s_ev s u"
    using a n by (auto simp: add_event_def Let_def case_prod_unfold split: if_splits)
  show "s_iters s' = s_iters s" "s_pevents s' = s_pevents s" "s_par s' = s_par s"
    using a by (auto simp: add_event_def Let_def case_prod_unfold split: if_splits)
  show "s_ms s \<le> s_ms s'"
    using a order_trans [OF _ m] by (auto simp: add_event_def Let_def case_prod_unfold split: if_splits)
  show "v_mod_iter (s_ev s u) = s_iters s \<Longrightarrow> v_mod_iter (s_ev s' u) = s_iters s"
    "r = Some p \<Longrightarrow> v_after_conn_cb (s_ev s' p) = NoCb"
    using a by (auto simp: add_event_def Let_def case_prod_unfold eval0_def split: if_splits)
qed

lemma add_event_grown:
  assumes s: "server_ok s" and cb: "cb \<noteq> Recv_and_connect"
  shows "post (add_event cb fd e s) (\<lambda>(r, s'). grown s s' \<and> (\<forall>p. r = Some p \<longrightarrow> \<not> live s p \<and> live s' p \<and>
    v_pair (s_ev s' p) = None \<and> v_cb (s_ev s' p) = cb \<and> (\<forall>u. live s' u \<longleftrightarrow> live s u \<or> u = p)))"
proof (rule postI, clarify)
  fix r s' assume a: "add_event cb fd e s = Some (r, s')"
  note f = server_fields [OF s]
  have p: "pool_ok s" and cl: "clock_ok s" using f(1) by (simp_all add: calm_def)
  have fd: "fd > 0" using a by (auto simp: add_event_def split: if_splits)
  have pl: "plugged None s u" if "live s u" for u using f(2) that by (simp add: wired_def)
  have pq: "\<And>u q. live s u \<Longrightarrow> v_pair (s_ev s u) = Some q \<Longrightarrow> live s q" by (rule server_pair(1) [OF s])
  have "\<exists>r s'. add_event cb fd e s = Some (r, s') \<and> pool_ok s' \<and> s_max s' = s_max s \<and>
    (r = None \<longrightarrow> s_count s' = s_count s \<and> (\<forall>u. live s' u \<longleftrightarrow> live s u)) \<and>
    (\<forall>v. r = Some v \<longrightarrow> \<not> live s v \<and> (\<forall>u. live s' u \<longleftrightarrow> live s u \<or> u = v) \<and>
       s_count s' = s_count s + 1 \<and> v_fd (s_ev s' v) = fd \<and> v_cb (s_ev s' v) = cb \<and>
       v_pair (s_ev s' v) = None \<and> v_mod_iter (s_ev s' v) = s_iters s)"
    by (rule add_event_ok [OF p fd]) (rule pq)
  then obtain r' t where t: "add_event cb fd e s = Some (r', t)" "pool_ok t" "s_max t = s_max s"
      "r' = None \<longrightarrow> (\<forall>u. live t u \<longleftrightarrow> live s u)"
      "\<forall>v. r' = Some v \<longrightarrow> \<not> live s v \<and> (\<forall>u. live t u \<longleftrightarrow> live s u \<or> u = v) \<and> v_cb (s_ev t v) = cb \<and> v_pair (s_ev t v) = None"
    by blast
  have eq: "r' = r" "t = s'" using t(1) a by simp_all
  note k = t(2,3) t(5) [rule_format, THEN conjunct2, THEN conjunct2] and k0 = t(4,5)
  have kl: "live t u \<longleftrightarrow> live s u \<or> r' = Some u" for u using k0 by (cases r') blast+
  note k = k [unfolded eq] and k0 = k0 [unfolded eq] and kl = kl [unfolded eq]
  have l: "links_ok s" using p by (simp add: pool_ok_def)
  note g = add_event_frame [OF l a]
  have pi: "pair_inj s'"
    using f(2) g(1) kl k(3) unfolding wired_def pair_inj_def by (metis option.distinct(1))
  have ps: "plugged None s' u" if u: "live s' u" for u
  proof (cases "live s u")
    case True
    then show ?thesis using pl [OF True] g(1) kl unfolding plugged_def by auto
  next
    case False
    then have r: "r = Some u" using kl u by simp
    show ?thesis using k(3) [OF r] g(7) [OF r] cb by (simp add: plugged_def)
  qed
  have c: "calm s'" using k(1) g(4,5) cl by (simp add: calm_def clock_ok_def)
  have "server_ok s'" using c pi ps f(3) g(4) by (simp add: server_ok_def wired_def)
  moreover have "drift s s'" using g(2,3,4,6) k(2) kl by (auto simp: drift_def)
  ultimately show "grown s s' \<and> (\<forall>p. r = Some p \<longrightarrow> \<not> live s p \<and> live s' p \<and>
    v_pair (s_ev s' p) = None \<and> v_cb (s_ev s' p) = cb \<and> (\<forall>u. live s' u \<longleftrightarrow> live s u \<or> u = p))"
    using k0(2) kl g(1) unfolding grown_def by auto
qed

end
