(* ===== verification/Linking.thy ===== *)
theory Linking
  imports Wiring
begin

unbundle bit_operations_syntax

text \<open>
  New connections (\<open>create_conn\<close>, \<open>connect_hook\<close>) and what they do to the pairs: the connection of a
  client is linked with a new one to the server, and the old one, if there was one, still has to be cut off.
\<close>

section \<open>Linking two connections\<close>

text \<open>A change of pairs and callbacks.\<close>

definition relinked :: "st \<Rightarrow> st \<Rightarrow> bool" where
  "relinked s s' \<longleftrightarrow> s_max s' = s_max s \<and> s_count s' = s_count s \<and> s_links s' = s_links s \<and> s_iters s' = s_iters s \<and>
     s_pevents s' = s_pevents s \<and> s_par s' = s_par s \<and> s_ms s' = s_ms s \<and> s_free s' = s_free s \<and>
     s_buff_count s' = s_buff_count s \<and> s_tv_start s' = s_tv_start s \<and> s_tv_end s' = s_tv_end s \<and>
     (\<forall>u. v_fd (s_ev s' u) = v_fd (s_ev s u) \<and> v_index (s_ev s' u) = v_index (s_ev s u) \<and>
        v_mod_iter (s_ev s' u) = v_mod_iter (s_ev s u) \<and> v_tv_ms (s_ev s' u) = v_tv_ms (s_ev s u) \<and>
        v_tv_next (s_ev s' u) = v_tv_next (s_ev s u) \<and> v_tv_prev (s_ev s' u) = v_tv_prev (s_ev s u))"

lemma relinked_same:
  assumes "relinked s s'"
  shows "live s' u = live s u" "closed s' u = closed s u" "drift s s'"
  using assms by (simp_all add: relinked_def live_def closed_def drift_def)

lemma relinked_calm:
  assumes r: "relinked s s'" and c: "calm s"
    and p: "\<And>u q. live s u \<Longrightarrow> v_pair (s_ev s' u) = Some q \<Longrightarrow> live s q \<or> closed s q"
  shows "calm s'"
proof -
  note q = r [unfolded relinked_def]
  have "links_ok s'" "bufs_ok s'" "clock_ok s'" using q c by (simp_all add: calm_def pool_ok_def links_ok_def bufs_ok_def clock_ok_def)
  moreover have "evs_ok s'" using q c p by (simp add: calm_def pool_ok_def evs_ok_def relinked_same [OF r])
  moreover have "timers s ts \<Longrightarrow> timers s' ts" for ts by (erule timers_cong) (use q in simp_all)
  ultimately show ?thesis using c by (auto simp: calm_def pool_ok_def)
qed

definition freed :: "nat option \<Rightarrow> st \<Rightarrow> st" where
  "freed w s = (case w of None \<Rightarrow> s | Some w \<Rightarrow> upd_ev w (\<lambda>e. e\<lparr>v_pair := None\<rparr>) s)"

text \<open>\<open>v\<close> has a new pair, and the old one, if there was one, still has to be cut off.\<close>

definition linked_up :: "nat \<Rightarrow> st \<Rightarrow> st \<Rightarrow> bool" where
  "linked_up v s s' \<longleftrightarrow> server_ok (freed (v_pair (s_ev s v)) s') \<and> calm s' \<and> drift s s' \<and> (\<forall>u. live s u \<longrightarrow> live s' u) \<and>
     (\<exists>p. v_pair (s_ev s' v) = Some p \<and> live s' p \<and> p \<noteq> v \<and> v_pair (s_ev s v) \<noteq> Some p)"

definition mutual :: "st \<Rightarrow> nat \<Rightarrow> bool" where
  "mutual s v \<longleftrightarrow> (\<forall>w. v_pair (s_ev s v) = Some w \<longrightarrow> v_pair (s_ev s w) = Some v)"

lemma link_pair_relinked: "relinked s (link_pair v p dst s)"
  by (simp add: link_pair_def relinked_def)

lemma link_pair_ok:
  assumes s: "server_ok s" and v: "live s v" "mutual s v"
    and p: "live s p" "p \<noteq> v" "v_pair (s_ev s p) = None" "v_cb (s_ev s p) \<in> {On_connect, On_socks_conn}"
  shows "linked_up v s (link_pair v p dst s)"
proof -
  note f = server_fields [OF s]
  let ?t = "link_pair v p dst s"
  let ?u = "freed (v_pair (s_ev s v)) ?t"
  have pv: "v_pair (s_ev s v) \<noteq> Some p" using v(2) p(3) by (auto simp: mutual_def)
  have np: "v_pair (s_ev s u) \<noteq> Some p" if "live s u" for u using server_pair(3) [OF s that] p(3) by blast
  have pt: "v_pair (s_ev ?t u) = (if u = v then Some p else if u = p then Some v else v_pair (s_ev s u))" for u
    using p(2) by (simp add: link_pair_def)
  have pu: "v_pair (s_ev ?u u) =
      (if u = v then Some p else if u = p then Some v else if v_pair (s_ev s v) = Some u then None else v_pair (s_ev s u))" for u
    using pt pv server_pair(2) [OF s v(1)] by (auto simp: freed_def split: option.split)
  have cu: "v_cb (s_ev ?u u) = (if u = v then On_ignore else v_cb (s_ev s u))"
      "v_after_conn_cb (s_ev ?u u) = v_after_conn_cb (s_ev s u)" for u
    by (simp_all add: freed_def link_pair_def split: option.split)
  have ru: "relinked s ?u"
    by (simp add: freed_def link_pair_def relinked_def split: option.split)
  have pl: "live s u \<Longrightarrow> v_pair (s_ev s u) = Some q \<Longrightarrow> live s q" for u q using server_pair(1) [OF s] .
  have ct: "calm ?t" "calm ?u"
    by (rule relinked_calm [OF _ f(1)]; use link_pair_relinked ru pt pu pl v(1) p(1) in \<open>auto split: if_splits\<close>)+
  have cases: "(u = v \<and> q = p) \<or> (u = p \<and> q = v) \<or> (u \<noteq> v \<and> u \<noteq> p \<and> v_pair (s_ev s u) = Some q \<and> q \<noteq> v \<and> q \<noteq> p \<and>
      v_pair (s_ev s v) \<noteq> Some q \<and> v_pair (s_ev s v) \<noteq> Some u)"
    if u: "live s u" "v_pair (s_ev ?u u) = Some q" for u q
  proof -
    have q: "v_pair (s_ev s u) = Some q" "v_pair (s_ev s v) \<noteq> Some u" if "u \<noteq> v" "u \<noteq> p"
      using u(2) that by (simp_all add: pu split: if_splits)
    have "q \<noteq> v" if n: "u \<noteq> v" "u \<noteq> p"
    proof
      assume "q = v"
      then obtain w where w: "v_pair (s_ev s v) = Some w" using server_pair(3) [OF s u(1) q(1) [OF n]] by auto
      then have "v_pair (s_ev s w) = Some v" "live s w" using v server_pair(1) [OF s v(1)] by (auto simp: mutual_def)
      then show False using server_pair(5) [OF s u(1) q(1) [OF n]] q(2) [OF n] w \<open>q = v\<close> by blast
    qed
    moreover have "q \<noteq> p" "v_pair (s_ev s v) \<noteq> Some q" if n: "u \<noteq> v" "u \<noteq> p"
      using np [OF u(1)] q(1) [OF n] server_pair(5) [OF s u(1) q(1) [OF n] v(1)] n by auto
    ultimately show ?thesis using u(2) q p(2) by (cases "u = v \<or> u = p") (auto simp: pu)
  qed
  have l: "live ?u u = live s u" for u by (rule relinked_same(1) [OF ru])
  have "pair_inj ?u"
    unfolding pair_inj_def l
  proof (intro allI impI)
    fix u u' q assume a: "live s u" "live s u'" "v_pair (s_ev ?u u) = Some q" "v_pair (s_ev ?u u') = Some q"
    show "u = u'" using cases [OF a(1,3)] cases [OF a(2,4)] server_pair(5) [OF s a(1) _ a(2)] by auto
  qed
  moreover have "plugged None ?u u" if u: "live s u" for u
  proof -
    have pls: "plugged None s u" using f(2) u by (simp add: wired_def)
    have "live s q \<and> q \<noteq> u \<and> v_pair (s_ev ?u q) \<noteq> None \<and>
        (v_cb (s_ev ?u u) \<notin> {On_udp_tunnel, On_ignore} \<longrightarrow> v_pair (s_ev ?u q) = Some u)" if q: "v_pair (s_ev ?u u) = Some q" for q
      using cases [OF u q] server_pair(1,2,3,4) [OF s u, of q] v(1) p(1,2) by (auto simp: pu cu)
    moreover have "v_pair (s_ev ?u u) = None" if "v_cb (s_ev ?u u) \<in> {On_accept, On_request}"
      using that pls p(2,4) by (auto simp: pu cu plugged_def split: if_splits)
    ultimately show ?thesis using pls unfolding plugged_def l cu by (auto split: if_splits)
  qed
  ultimately have "server_ok ?u" using ct(2) f(3) ru by (simp add: server_ok_def wired_def l relinked_def)
  then show ?thesis
    using ct(1) relinked_same [OF link_pair_relinked [of s v p dst]] p(1,2) pv pt by (simp add: linked_up_def)
qed

section \<open>New connections\<close>

lemma post_weaken: "post m P \<Longrightarrow> (\<And>x. P x \<Longrightarrow> Q x) \<Longrightarrow> post m Q"
  by (simp add: post_def)

definition conn_post :: "nat \<Rightarrow> st \<Rightarrow> int \<times> st \<Rightarrow> bool" where
  "conn_post v s = (\<lambda>(r, s'). if r = 0 then linked_up v s s' else grown s s')"

lemma linked_up_grown:
  assumes "grown s t" "live s v" "linked_up v t u"
  shows "linked_up v s u"
  using assms drift_trans unfolding linked_up_def grown_def by metis

lemma mutual_grown: "grown s t \<Longrightarrow> server_ok s \<Longrightarrow> live s v \<Longrightarrow> mutual s v \<Longrightarrow> mutual t v"
  using server_pair(1) [of s v] unfolding mutual_def grown_def by metis

lemma link_tail:
  assumes s: "grown s t" "server_ok s" "live s v" "mutual s v"
    and p: "live t p" "p \<noteq> v" "v_pair (s_ev t p) = None" "v_cb (s_ev t p) \<in> {On_connect, On_socks_conn}"
  shows "post (do { (m, t) \<leftarrow> mod_etype v 0 t; if m < 0 then Some (- 1, t) else Some (0, link_pair v p dst t) }) (conn_post v s)"
proof (rule post_rules, rule post_weaken [OF requests_kept(7) [OF kept_refl]], clarify)
  fix m u assume k: "kept t u"
  have g: "grown t u" using kept_grown [OF k] s(1) by (simp add: grown_def)
  have g': "grown s u" using grown_trans [OF s(1) g] .
  have "linked_up v u (link_pair v p dst u)"
    by (rule link_pair_ok) (use g g' p s(3) mutual_grown [OF g' s(2-4)] in \<open>auto simp: grown_def\<close>)
  then show "post (if m < 0 then Some (- 1, u) else Some (0, link_pair v p dst u)) (conn_post v s)"
    using g' linked_up_grown [OF g' s(3)] by (simp add: conn_post_def)
qed

lemma create_conn_ok:
  assumes s: "server_ok s" "live s v" "mutual s v" and cb: "next \<in> {On_connect, On_socks_conn}"
  shows "post (create_conn v dst next s) (conn_post v s)"
proof -
  have g: "kept s t \<Longrightarrow> conn_post v s (- 1, t)" for t using kept_grown s(1) by (simp add: conn_post_def)
  have a: "post (add_event next fd e t) Q"
    if k: "kept s t" and n: "\<And>u. grown s u \<Longrightarrow> Q (None, u)"
      and p: "\<And>u p. grown s u \<Longrightarrow> live u p \<Longrightarrow> p \<noteq> v \<Longrightarrow> v_pair (s_ev u p) = None \<Longrightarrow> v_cb (s_ev u p) = next \<Longrightarrow> Q (Some p, u)"
    for fd e t Q
  proof (rule post_weaken [OF add_event_grown [OF kept_server [OF k s(1)]]])
    show "next \<noteq> Recv_and_connect" using cb by auto
    fix x assume x: "case x of (r, u) \<Rightarrow> grown t u \<and> (\<forall>p. r = Some p \<longrightarrow> \<not> live t p \<and> live u p \<and>
      v_pair (s_ev u p) = None \<and> v_cb (s_ev u p) = next \<and> (\<forall>q. live u q \<longleftrightarrow> live t q \<or> q = p))"
    have "grown s u" if "grown t u" for u using grown_trans [OF kept_grown [OF k s(1)] that] .
    then show "Q x" using x n p s(2) kept_live [OF k] by (cases x; cases "fst x") auto
  qed
  have c: "grown s t \<Longrightarrow> conn_post v s (- 1, close_fd fd t)" for t fd
    using grown_trans [of s t] kept_grown [of t "close_fd fd t"] by (simp add: conn_post_def grown_def kept_simps)
  show ?thesis
    unfolding create_conn_def
    by (rule post_call [where z = s], rule kept_posts | rule a link_tail [OF _ s] | rule post_vcg post_state [where z = s] post_split
      | (simp add: kept_simps kept_defs g c; fail) | (use cb in force))+
qed

lemma server_after:
  assumes s: "server_ok s"
  shows "server_ok (upd_ev p (\<lambda>x. x\<lparr>v_after_conn_cb := On_connect, v_addr := d\<rparr>) s)"
    (is "server_ok ?t")
proof -
  note f = server_fields [OF s]
  have r: "relinked s ?t" by (simp add: relinked_def)
  have e: "v_pair (s_ev ?t u) = v_pair (s_ev s u)" "v_cb (s_ev ?t u) = v_cb (s_ev s u)"
    "v_after_conn_cb (s_ev ?t u) = (if u = p then On_connect else v_after_conn_cb (s_ev s u))" for u by simp_all
  have "calm ?t" by (rule relinked_calm [OF r f(1)]) (metis e(1) server_pair(1) [OF s])
  moreover have "plugged None ?t u" if "plugged None s u" for u
    using that unfolding plugged_def relinked_same(1) [OF r] e by (elim conjE, intro conjI) (assumption | (simp split: if_split; fail))+
  then have "wired None ?t"
    using f(2) unfolding wired_def pair_inj_def relinked_same(1) [OF r] e(1) by blast
  ultimately show ?thesis using f(3) by (simp add: server_ok_def)
qed

lemma linked_up_after:
  assumes "linked_up v s t" and p: "v_pair (s_ev t v) = Some p"
  shows "linked_up v s (upd_ev p (\<lambda>x. x\<lparr>v_after_conn_cb := On_connect, v_addr := d\<rparr>) t)"
    (is "linked_up v s ?t")
proof -
  have l: "server_ok (freed (v_pair (s_ev s v)) t)" "calm t" "drift s t" "\<And>u. live s u \<Longrightarrow> live t u"
    "live t p" "p \<noteq> v" "v_pair (s_ev s v) \<noteq> Some p"
    using assms by (auto simp: linked_up_def)
  have r: "relinked t ?t" by (simp add: relinked_def)
  have "freed w ?t = upd_ev p (\<lambda>x. x\<lparr>v_after_conn_cb := On_connect, v_addr := d\<rparr>) (freed w t)" if "w \<noteq> Some p" for w
    using that by (auto simp: freed_def upd_ev_def fun_upd_twist split: option.split)
  then have "server_ok (freed (v_pair (s_ev s v)) ?t)" using server_after [OF l(1)] l(7) by simp
  moreover have "calm ?t"
    by (rule relinked_calm [OF r l(2)]) (use l(2) in \<open>auto simp: calm_def pool_ok_def evs_ok_def split: if_splits\<close>)
  ultimately show ?thesis
    using l p relinked_same [OF r] drift_trans [OF l(3)] by (simp add: linked_up_def)
qed

lemma conn_post_kept:
  assumes "kept s t" "server_ok s" "live s v" "conn_post v t x"
  shows "conn_post v s x"
  using assms(4) linked_up_grown [OF kept_grown [OF assms(1,2)] assms(3)] grown_trans [OF kept_grown [OF assms(1,2)]]
  by (cases x) (auto simp: conn_post_def split: if_splits)

lemma connect_hook_ok:
  assumes s: "server_ok s" "live s v" "mutual s v"
  shows "post (connect_hook v dst On_connect s) (conn_post v s)"
proof -
  have g: "kept s t \<Longrightarrow> conn_post v s (- 1, t)" for t using kept_grown s(1) by (simp add: conn_post_def)
  have c: "post (create_conn v a cb t) Q"
    if k: "kept s t" and cb: "cb \<in> {On_connect, On_socks_conn}"
      and q: "\<And>r u. conn_post v s (r, u) \<Longrightarrow> Q (r, u)" for a cb t Q
  proof -
    have m: "live t v" "mutual t v" using s kept_live [OF k] kept_pair [OF k] by (simp_all add: mutual_def)
    show ?thesis
      by (rule post_weaken [OF create_conn_ok [OF kept_server [OF k s(1)] m cb]])
        (use conn_post_kept [OF k s(1,2)] q in \<open>auto simp: conn_post_def\<close>)
  qed
  have d: "kept s t \<Longrightarrow> \<not> g_delay_conn (s_par t)" for t using kept_server s(1) by (auto simp: server_ok_def)
  have a: "conn_post v s (r, t) \<Longrightarrow> r = 0 \<Longrightarrow> v_pair (s_ev t v) = Some p \<Longrightarrow>
      conn_post v s (r, upd_ev p (\<lambda>x. x\<lparr>v_after_conn_cb := On_connect, v_addr := dst\<rparr>) t)" for r t p
    using linked_up_after by (simp add: conn_post_def)
  show ?thesis
    unfolding connect_hook_def
    by (rule post_call [where z = s], rule kept_posts | rule c | rule post_vcg post_state [where z = s] post_split | rule postI
      | (simp add: kept_simps kept_defs g; fail) | (use d in \<open>simp add: kept_simps kept_defs; fail\<close>) | (erule a; simp; fail))+
qed

end
