(* ===== verification/ServerSpec.thy ===== *)
theory ServerSpec
  imports Linking
begin

unbundle bit_operations_syntax

text \<open>
  Every callback of the server keeps the invariant \<open>server_ok\<close> (\<open>Wiring\<close>), so the event loop only calls
  callbacks of live connections, and all connections can be closed in the end.
\<close>

section \<open>Failures\<close>

text \<open>A connection whose callback runs, with the pair that points back.\<close>

definition ready :: "st \<Rightarrow> nat \<Rightarrow> bool" where
  "ready s v \<longleftrightarrow> server_ok s \<and> live s v \<and> mutual s v"

lemma readyD: "ready s v \<Longrightarrow> server_ok s" "ready s v \<Longrightarrow> live s v" "ready s v \<Longrightarrow> mutual s v"
  by (simp_all add: ready_def)

lemma ready_grown: "grown s t \<Longrightarrow> ready s v \<Longrightarrow> ready t v"
  using mutual_grown [of s t v] unfolding ready_def by (auto simp: grown_def)

lemma ready_kept: "kept s t \<Longrightarrow> ready s v \<Longrightarrow> ready t v"
  using ready_grown kept_grown readyD by blast

lemma ready_pair:
  assumes "ready s v" "v_pair (s_ev s v) = Some c"
  shows "ready s c" "v_pair (s_ev s c) = Some v" "c \<noteq> v"
proof -
  note p = server_pair [OF readyD(1,2) [OF assms(1)] assms(2)]
  show m: "v_pair (s_ev s c) = Some v" using readyD(3) [OF assms(1)] assms(2) by (simp add: mutual_def)
  show "ready s c" using readyD(1) [OF assms(1)] p(1) assms(2) m by (simp add: ready_def mutual_def)
  show "c \<noteq> v" by (rule p(2))
qed

text \<open>Zero tells that the request goes over a new connection: the old one, or its pair, is closed.\<close>

definition gone :: "st \<Rightarrow> nat \<Rightarrow> st \<Rightarrow> bool" where
  "gone s v s' \<longleftrightarrow> closed s' v \<or> (\<exists>q. v_pair (s_ev s v) = Some q \<and> closed s' q)"

definition fail_post :: "nat \<Rightarrow> st \<Rightarrow> int \<times> st \<Rightarrow> bool" where
  "fail_post v s = (\<lambda>(r, s'). moved s s' \<and> (r = 0 \<and> gone s v s' \<or> grown s s'))"

lemma grown_kept: "grown s t \<Longrightarrow> kept t u \<Longrightarrow> grown s u"
  using grown_trans [of s t u] kept_grown [of t u] by (metis grown_def)

lemma fail_grown: "grown s t \<Longrightarrow> fail_post v s (r, t)"
  by (simp add: fail_post_def grown_moved)

lemma fail_kept: "kept s t \<Longrightarrow> ready s v \<Longrightarrow> fail_post v s (r, t)"
  using fail_grown kept_grown readyD(1) by blast

lemma fail_after:
  assumes "kept s t" "ready s v" "fail_post v t x"
  shows "fail_post v s x"
proof -
  have g: "grown s t" using assms(1,2) kept_grown readyD(1) by blast
  then show ?thesis
    using assms(3) grown_then_moved [OF g] grown_trans [OF g] unfolding fail_post_def gone_def kept_pair [OF assms(1)] by blast
qed

lemma fail_then:
  assumes "fail_post v s (r, t)" "kept t u" "r = 0 \<Longrightarrow> r' = 0"
  shows "fail_post v s (r', u)"
proof -
  have f: "framed u = framed t" using assms(2) by (simp add: kept_def)
  have c: "gone s v u = gone s v t" unfolding gone_def frame_fields(14) [OF f] ..
  have "grown s u" if "grown s t" using grown_kept [OF that assms(2)] .
  then show ?thesis using assms(1,3) moved_then_kept [OF _ assms(2)] unfolding fail_post_def c prod.case by blast
qed

lemma reconnect_ok:
  assumes s: "ready s v"
  shows "post (reconnect v s) (fail_post v s)"
proof (cases "v_pair (s_ev s v)")
  case None
  then show ?thesis by (simp add: reconnect_def)
next
  case (Some c)
  note c = ready_pair [OF s Some]
  have k: "post (connect_hook c a On_connect t) Q" if k: "kept s t" and q: "\<And>r t. conn_post c s (r, t) \<Longrightarrow> Q (r, t)" for a t Q
  proof -
    have r: "ready t c" by (rule ready_kept [OF k c(1)])
    show ?thesis
      by (rule post_weaken [OF connect_hook_ok]) (use r readyD [OF c(1)] conn_post_kept [OF k] q in \<open>auto simp: ready_def\<close>)
  qed
  have d: "post (del_event v (upd_ev v (\<lambda>e. e\<lparr>v_pair := None\<rparr>) t)) Q"
    if l: "linked_up c s t" and q: "\<And>u. moved s u \<Longrightarrow> closed u v \<Longrightarrow> Q u" for t Q
  proof -
    let ?t = "upd_ev v (\<lambda>e. e\<lparr>v_pair := None\<rparr>) t"
    have t: "server_ok ?t" "drift s t" "\<And>u. live s u \<Longrightarrow> live t u" using l c(2) by (simp_all add: linked_up_def freed_def)
    have l: "live ?t u = live t u" for u by (simp add: live_def)
    obtain u where u: "del_event v ?t = Some u" "moved ?t u" "closed u v"
      using close_single [OF t(1), of v] t(3) readyD(2) [OF s] by (auto simp: l)
    have "drift s ?t" using t(2) by (rule unpair_calm)
    then have "moved s u" using u(2) t(3) drift_trans unfolding moved_def l by blast
    then show ?thesis using u q by simp
  qed
  show ?thesis
    unfolding reconnect_def Some bind.bind_lunit
    by (rule post_call [where z = s], rule kept_posts | rule k d | rule post_vcg post_state [where z = s] post_split
      | (simp add: kept_simps; fail) | (simp add: conn_post_def fail_post_def gone_def grown_moved; fail))+
qed

lemma fail_call:
  assumes f: "\<And>t. ready t v \<Longrightarrow> post (f t) (fail_post v t)" and s: "ready s v" "kept s t"
    and q: "\<And>r u. fail_post v s (r, u) \<Longrightarrow> Q (r, u)"
  shows "post (f t) Q"
  by (rule post_weaken [OF f [OF ready_kept [OF s(2,1)]]]) (use q fail_after [OF s(2,1)] in auto)

lemma on_trigger_ok:
  assumes s: "ready s v"
  shows "post (on_trigger ty v alive s) (fail_post v s)"
  unfolding on_trigger_def
  by (rule post_call [where z = s], rule kept_posts | rule fail_call [OF reconnect_ok s]
    | rule post_vcg post_state [where z = s] post_split | rule post_any
    | (simp add: kept_simps; fail) | (rule fail_kept [OF _ s], simp add: kept_simps; fail) | assumption)+

lemma fail_minus: "fail_post v s (r, t) \<Longrightarrow> r \<noteq> 0 \<Longrightarrow> kept t u \<Longrightarrow> fail_post v s (- 1, u)"
  by (erule fail_then) simp_all

lemma on_torst_ok:
  assumes s: "ready s v"
  shows "post (on_torst v s) (fail_post v s)"
  unfolding on_torst_def
  by (rule fail_call [OF on_trigger_ok s] | rule post_vcg | rule post_any | (simp; fail)
    | (erule (1) fail_minus, simp add: kept_simps; fail))+

lemma fail_pair:
  assumes "ready s v" "v_pair (s_ev s v) = Some c" "fail_post c s x"
  shows "fail_post v s x"
  using assms(3) ready_pair(2) [OF assms(1,2)] assms(2) unfolding fail_post_def gone_def by auto

lemma on_fin_ok:
  assumes s: "ready s v"
  shows "post (on_fin v s) (fail_post v s)"
proof -
  have w: "ready s w \<and> (\<forall>x. fail_post w s x \<longrightarrow> fail_post v s x)"
    if "(if v_flag (s_ev s v) \<noteq> FLAG_CONN then v_pair (s_ev s v) else Some v) = Some w" for w
    using that s ready_pair(1) [OF s, of w] fail_pair [OF s, of w] by (auto split: if_splits)
  have t: "post (on_trigger DETECT_TLS_ERR w a s) Q"
    if "(if v_flag (s_ev s v) \<noteq> FLAG_CONN then v_pair (s_ev s v) else Some v) = Some w"
      "\<And>r u. fail_post v s (r, u) \<Longrightarrow> Q (r, u)" for w a Q
    using w [OF that(1)] that(2) by (intro fail_call [OF on_trigger_ok _ kept_refl]) auto
  show ?thesis
    unfolding on_fin_def Let_def
    by (rule t, assumption | rule post_vcg | rule post_any | (rule fail_kept [OF _ s], simp; fail)
      | (erule fail_then, simp, simp; fail))+
qed

lemma handle_err_ok:
  assumes s: "ready s v"
  shows "post (handle_err v e s) (fail_post v s)"
  unfolding handle_err_def
  by (rule on_torst_ok [OF s] on_fin_ok [OF s] | rule post_vcg | (rule fail_kept [OF _ s], simp; fail))+

lemma on_timeout_ok:
  assumes s: "ready s v"
  shows "post (on_timeout v s) (fail_post v s)"
  unfolding on_timeout_def
  by (rule post_call [where z = s], rule kept_posts | rule fail_call [OF on_torst_ok s] | rule post_vcg
    | (simp add: kept_simps readyD(2) [OF s]; fail) | (rule fail_kept [OF _ s], simp add: kept_simps; fail) | assumption)+

lemma on_response_ok:
  assumes s: "ready s v"
  shows "post (on_response v resp n s) (fail_post v s)"
  unfolding on_response_def
  by (rule post_call [where z = s], rule kept_posts | rule fail_call [OF on_trigger_ok s] | rule post_vcg | rule post_any
    | (simp add: kept_simps; fail) | (rule fail_kept [OF _ s], simp add: kept_simps; fail) | assumption)+

section \<open>The tunnel\<close>

lemma recv_remote_ok:
  assumes s: "ready s v"
  shows "post (recv_remote v b n s) (\<lambda>(r, s'). fail_post v s (case r of None \<Rightarrow> k | Some x \<Rightarrow> x, s'))"
proof -
  have g: "fail_post v s (r, t) \<Longrightarrow> r \<noteq> 0 \<Longrightarrow> kept t u \<Longrightarrow> fail_post v s (k, u)" for r t u
    by (erule fail_then) simp_all
  show ?thesis
    unfolding recv_remote_def
    by (rule post_call [where z = s], rule kept_posts | rule fail_call [OF on_response_ok s] | rule post_vcg | rule post_any
      | (simp add: kept_simps kept_defs readyD(2) [OF s]; fail) | (simp add: fail_kept [OF _ s] kept_simps; fail)
      | (simp only: prod.case option.case, erule (1) g, simp add: kept_simps; fail) | (simp; fail) | assumption)+
qed

lemma tcp_recv_hook_ok:
  assumes s: "ready s v"
  shows "post (tcp_recv_hook v s) (fail_post v s)"
proof -
  have r: "post (recv_remote v d n t) Q"
    if k: "kept s t" and q: "\<And>x u. fail_post v s (case x of None \<Rightarrow> n | Some r \<Rightarrow> r, u) \<Longrightarrow> Q (x, u)" for d n t Q
    by (rule post_weaken [OF recv_remote_ok [OF ready_kept [OF k s]]]) (use q fail_after [OF k s] in auto)
  show ?thesis
    unfolding tcp_recv_hook_def
    by (rule post_call [where z = s], rule kept_posts | rule fail_call [OF on_fin_ok s] fail_call [OF handle_err_ok s] r
      | rule post_vcg post_state [where z = s] | rule post_any
      | (simp add: kept_simps kept_defs; fail) | (rule fail_kept [OF _ s], simp add: kept_simps; fail) | assumption)+
qed

lemma tcp_send_hook_ok:
  assumes s: "ready s v"
  shows "post (tcp_send_hook v w np wait s) (\<lambda>(sn, n, wt, s'). fail_post v s (sn, s'))"
  unfolding tcp_send_hook_def
  by (rule post_call [where z = s], rule kept_posts | rule fail_call [OF handle_err_ok s]
    | rule post_vcg post_state [where z = s] | rule post_any
    | (simp add: kept_simps kept_defs readyD(2) [OF s]; fail) | (simp add: fail_kept [OF _ s] kept_simps; fail) | assumption)+

text \<open>The request does not get shorter on its way.\<close>

lemma tlsrec_loop_longer: "post (tlsrec_loop z ps rc lp b n info s) (\<lambda>(b', n', i, s'). n \<le> n')"
proof (induction ps arbitrary: rc lp b n info s)
  case (Cons pk ps)
  have i: "post (tlsrec_loop z ps rc' lp' b' (n + 5) info' s') (\<lambda>(b', n', i, s'). n \<le> n')" for rc' lp' b' info' s'
    by (rule post_weaken [OF Cons.IH]) auto
  show ?case by (cases pk, simp only: tlsrec_loop.simps) (rule i post_vcg | (simp; fail) | rule post_split | rule post_any)+
qed simp

lemma tamp_longer: "post (tamp b z n dp info s) (\<lambda>(b', n', i, s'). n \<le> n')"
  unfolding tamp_def by (rule tlsrec_loop_longer post_vcg | (simp; fail) | rule post_split | rule post_any)+

lemma desync_longer: "post (desync v buff n w s) (\<lambda>(r, s'). n \<le> ds_n r)"
proof -
  have t: "post (if k then tamp b z n dp info s else Some (b, n, info, s)) Q"
    if "\<And>b' n' i s'. n \<le> n' \<Longrightarrow> Q (b', n', i, s')" for k b z dp info Q
    by (cases k) (use that post_weaken [OF tamp_longer, of n Q] in auto)
  show ?thesis unfolding desync_def desync_run_def
    by (rule t post_vcg | (simp; fail) | rule post_split | rule post_any)+
qed

lemma tcp_send_hook_longer: "post (tcp_send_hook v w (Some n) wait s) (\<lambda>(sn, n', wt, s'). n \<le> n')"
proof -
  have d: "post (desync_send v w (Some n) wait t) Q" if "\<And>sn n' wt u. n \<le> n' \<Longrightarrow> Q (sn, n', wt, u)" for t Q
    unfolding desync_send_def option.case
    by (rule post_rules, rule post_any, rule post_rules, rule post_weaken [OF desync_longer]) (use that in auto)
  show ?thesis unfolding tcp_send_hook_def option.case
    by (rule d post_vcg | (simp; fail) | rule post_split | rule post_any)+
qed

text \<open>Both connections were there when their events were changed.\<close>

lemma mod_both_ok:
  assumes k: "kept s t"
  shows "post (mod_both a x b y t) (\<lambda>(e, u). kept s u \<and> (\<not> e \<longrightarrow> v_fd (s_ev t a) > 0 \<and> v_fd (s_ev t b) > 0))"
  unfolding mod_both_def mod_etype_def
  by (auto simp: Let_def case_prod_unfold kept_simps k)

lemma mod_both_call:
  assumes "kept s t" "\<And>e u. kept s u \<Longrightarrow> e \<or> v_fd (s_ev s a) > 0 \<and> v_fd (s_ev s b) > 0 \<Longrightarrow> Q (e, u)"
  shows "post (mod_both a x b y t) Q"
proof (rule post_weaken [OF mod_both_ok [OF assms(1)]], clarify)
  fix e u assume u: "kept s u" "\<not> e \<longrightarrow> v_fd (s_ev t a) > 0 \<and> v_fd (s_ev t b) > 0"
  have f: "framed t = framed s" using assms(1) by (simp add: kept_def)
  show "Q (e, u)" using u assms(2) frame_fields(7) [OF f] by auto
qed

lemma set_buff_call: "(\<And>u. kept s u \<Longrightarrow> Q u) \<Longrightarrow> post (set_buff v f s) Q"
  by (rule post_weaken [OF hooks_kept(9) [OF kept_refl]])

lemma fail_moved: "fail_post v s (r, t) \<Longrightarrow> kept t u \<Longrightarrow> moved s u"
  using moved_then_kept by (auto simp: fail_post_def)

lemma fail_alive:
  assumes "fail_post p s (r, t)" "v_pair (s_ev s p) = Some v" "kept t u" "v_fd (s_ev t p) > 0" "v_fd (s_ev t v) > 0"
  shows "grown s u"
proof -
  have "\<not> gone s p t" using assms(2,4,5) by (simp add: gone_def closed_def)
  then have "grown s t" using assms(1) by (simp add: fail_post_def)
  then show ?thesis using assms(3) by (rule grown_kept)
qed

lemma flush_buff_ok:
  assumes s: "ready s v" "v_pair (s_ev s v) = Some p"
  shows "post (flush_buff v p s) (\<lambda>(r, s'). moved s s' \<and> (r = None \<longrightarrow> grown s s'))"
proof -
  note p = ready_pair [OF s]
  have t: "post (tcp_send_hook p v None False s) Q" if "\<And>sn n wt t. fail_post p s (sn, t) \<Longrightarrow> Q (sn, n, wt, t)" for Q
    by (rule post_weaken [OF tcp_send_hook_ok [OF p(1)]]) (use that in auto)
  have k: "kept t (drop_buff v t)" for t by (simp add: kept_simps)
  show ?thesis
    unfolding flush_buff_def
    by (rule t set_buff_call mod_both_call [OF k] | rule post_vcg
      | (simp add: fail_moved kept_grown grown_moved readyD(1) [OF s(1)]; fail)
      | (auto intro: fail_moved fail_alive [OF _ p(2)] grown_moved; fail))+
qed

definition move_post :: "st \<Rightarrow> int \<times> st \<Rightarrow> bool" where
  "move_post s = (\<lambda>(r, s'). moved s s')"

text \<open>The body of the loop of \<open>on_tunnel\<close>; \<open>f\<close> is the next turn.\<close>

lemma pump_turn:
  assumes s: "ready s v" "v_pair (s_ev s v) = Some p"
    and f: "\<And>wt t. ready t v \<Longrightarrow> v_pair (s_ev t v) = Some p \<Longrightarrow> post (f wt t) (move_post t)"
  shows "post (do {
     (n, s) \<leftarrow> tcp_recv_hook v s;
     if n = 0 then Some (0, drop_buff v s)
     else if n < 0 then Some (- 1, s)
     else do {
       (sn, n, wait, s) \<leftarrow> tcp_send_hook p v (Some n) wait s;
       if sn < 0 then Some (- 1, s)
       else if sn < n \<or> wait then do {
         s \<leftarrow> set_buff v (\<lambda>b. b\<lparr>b_lock := n, b_offset := sn\<rparr>) s;
         (e, s) \<leftarrow> mod_both v 0 p (if wait then 0 else POLLOUT) s;
         Some (if e then - 1 else 0, s) }
       else if n = bsize then f wait s
       else Some (0, drop_buff v s) } }) (move_post s)"
proof -
  note p = ready_pair [OF s]
  have r: "post (tcp_recv_hook v s) Q"
    if "\<And>n t. fail_post v s (n, t) \<Longrightarrow> Q (n, t)" for Q
    by (rule post_weaken [OF tcp_recv_hook_ok [OF s(1)]]) (use that in auto)
  have t: "post (tcp_send_hook p v (Some n) w t) Q"
    if g: "fail_post v s (n, t)" "n \<noteq> 0" "\<not> n < 0"
      and q: "\<And>sn n wt u. moved s u \<Longrightarrow> sn < n \<or> wt \<or> grown s u \<Longrightarrow> Q (sn, n, wt, u)" for n w t Q
  proof -
    have gr: "grown s t" using g by (auto simp: fail_post_def)
    note h = tcp_send_hook_ok [OF ready_grown [OF gr p(1)], of v "Some n" w] tcp_send_hook_longer [of p v n w t]
    show ?thesis
    proof (rule postI)
      fix x assume x: "tcp_send_hook p v (Some n) w t = Some x"
      obtain sn n' wt u where [simp]: "x = (sn, n', wt, u)" by (cases x)
      have "fail_post p t (sn, u)" "n \<le> n'" using postD [OF h(1) x] postD [OF h(2) x] by simp_all
      then have "moved s u" "sn < n' \<or> grown s u"
        using g(2,3) grown_then_moved [OF gr] grown_trans [OF gr] by (auto simp: fail_post_def)
      then show "Q x" using q by auto
    qed
  qed
  have m: "moved s t \<Longrightarrow> kept t u \<Longrightarrow> moved s u" for t u by (rule moved_then_kept)
  have n: "post (f wt t) (move_post s)" if "grown s t" for wt t
    by (rule post_weaken [OF f [OF ready_grown [OF that s(1)]]])
      (use that s readyD(2) [OF s(1)] grown_then_moved [OF that] in \<open>auto simp: grown_def move_post_def\<close>)
  have d: "moved s t \<Longrightarrow> moved s (drop_buff v t)" for t by (erule m) (simp add: kept_simps)
  have fm: "fail_post v s (k, t) \<Longrightarrow> moved s t" for k t by (simp add: fail_post_def)
  show ?thesis
    by (rule r t set_buff_call mod_both_call n | rule post_vcg | assumption | (simp; fail)
      | (auto simp: move_post_def intro: d fm m; fail))+
qed

lemma pump_ok:
  assumes "ready s v" "v_pair (s_ev s v) = Some p"
  shows "post (pump v p n w s) (move_post s)"
proof (rule postI)
  fix y assume y: "pump v p n w s = Some y"
  have "ready s v \<longrightarrow> v_pair (s_ev s v) = Some p \<longrightarrow> move_post s y"
  proof (rule pump.raw_induct [where P = "\<lambda>v p n w s y. ready s v \<longrightarrow> v_pair (s_ev s v) = Some p \<longrightarrow> move_post s y", OF _ y])
    fix f v p bsize wait s y
    assume ih: "\<And>v p n w s y. f v p n w s = Some y \<Longrightarrow> ready s v \<longrightarrow> v_pair (s_ev s v) = Some p \<longrightarrow> move_post s y"
      and y: "(tcp_recv_hook v s \<bind> (\<lambda>(n, s). if n = 0 then Some (0, drop_buff v s) else if n < 0 then Some (- 1, s)
         else tcp_send_hook p v (Some n) wait s \<bind> (\<lambda>(sn, n, wait, s). if sn < 0 then Some (- 1, s)
           else if sn < n \<or> wait then set_buff v (\<lambda>b. b\<lparr>b_lock := n, b_offset := sn\<rparr>) s \<bind>
             (\<lambda>s. mod_both v 0 p (if wait then 0 else POLLOUT) s \<bind> (\<lambda>(e, s). Some (if e then - 1 else 0, s)))
           else if n = bsize then f v p bsize wait s else Some (0, drop_buff v s)))) = Some y"
    have ihp: "post (f v p bsize w t) (move_post t)" if "ready t v" "v_pair (s_ev t v) = Some p" for w t
      using ih that by (intro postI) blast
    show "ready s v \<longrightarrow> v_pair (s_ev s v) = Some p \<longrightarrow> move_post s y"
      using pump_turn [where f = "f v p bsize", OF _ _ ihp] y by (intro impI) (rule postD)
  qed
  then show "move_post s y" using assms by blast
qed

lemma move_grown: "grown s t \<Longrightarrow> move_post s (r, t)"
  by (simp add: move_post_def grown_moved)

lemma move_kept: "kept s t \<Longrightarrow> ready s v \<Longrightarrow> move_post s (r, t)"
  using move_grown kept_grown readyD(1) by blast

lemma fail_move: "fail_post v s x \<Longrightarrow> move_post s x"
  by (auto simp: fail_post_def move_post_def)

lemma move_then: "move_post s (r, t) \<Longrightarrow> kept t u \<Longrightarrow> move_post s (r', u)"
  using moved_then_kept by (simp add: move_post_def)

text \<open>All connections are spared.\<close>

definition spared :: "st \<Rightarrow> st \<Rightarrow> bool" where
  "spared s t \<longleftrightarrow> server_ok t \<and> drift s t \<and> (\<forall>u. live s u \<longrightarrow> live t u)"

lemma spared_trans: "spared s t \<Longrightarrow> spared t u \<Longrightarrow> spared s u"
  using drift_trans unfolding spared_def by blast

lemma grown_spared: "grown s t \<Longrightarrow> spared s t"
  by (simp add: grown_def spared_def)

lemma spared_move: "spared s t \<Longrightarrow> move_post s (r, t)"
  by (simp add: spared_def move_post_def moved_def)

lemma spared_then_moved: "spared s t \<Longrightarrow> move_post t x \<Longrightarrow> move_post s x"
  unfolding move_post_def moved_def spared_def using drift_trans by blast

lemma kept_spared: "kept s t \<Longrightarrow> server_ok s \<Longrightarrow> spared s t"
  by (rule grown_spared, rule kept_grown)

lemma relay_body_ok:
  assumes s: "ready s a" "v_pair (s_ev s a) = Some b"
  shows "post (do {
       (r, s) \<leftarrow> flush_buff a b s;
       (case r of
          Some r \<Rightarrow> Some (r, s)
        | None \<Rightarrow>
            (let (x, s) = buff_pop (g_bfsize (s_par s)) s in
             pump a b (b_size x) False (upd_ev a (\<lambda>e. e\<lparr>v_buff := Some x\<rparr>) s))) }) (move_post s)"
proof -
  have f: "post (flush_buff a b s) Q" if "\<And>r t. moved s t \<Longrightarrow> r = None \<longrightarrow> grown s t \<Longrightarrow> Q (r, t)" for Q
    by (rule post_weaken [OF flush_buff_ok [OF s]]) (use that in auto)
  have p: "post (pump a b k False (upd_ev a (\<lambda>e. e\<lparr>v_buff := Some x\<rparr>) u)) (move_post s)"
    if g: "grown s t" and b: "buff_pop n t = (x, u)" for n k x t u
  proof -
    let ?u = "upd_ev a (\<lambda>e. e\<lparr>v_buff := Some x\<rparr>) u"
    have u: "u = snd (buff_pop n t)" by (simp add: b)
    have gu: "grown s ?u" by (rule grown_kept [OF g]) (simp add: u kept_simps)
    have "v_pair (s_ev ?u a) = Some b" using gu s(2) readyD(2) [OF s(1)] unfolding grown_def by metis
    from post_weaken [OF pump_ok [OF ready_grown [OF gu s(1)] this], where Q = "move_post s"]
    show ?thesis using grown_then_moved [OF gu] by (auto simp: move_post_def)
  qed
  show ?thesis
    by (rule f p | rule post_vcg post_split | (simp add: move_post_def; fail) | assumption)+
qed

lemma on_tunnel_ok:
  assumes s: "ready s v"
  shows "post (on_tunnel v ty s) (move_post s)"
proof (cases "v_pair (s_ev s v)")
  case None
  then show ?thesis by (simp add: on_tunnel_def)
next
  case (Some p)
  note p = ready_pair [OF s Some]
  have t: "post (on_timeout v s) (move_post s)" by (rule post_weaken [OF on_timeout_ok [OF s]]) (rule fail_move)
  show ?thesis
    unfolding on_tunnel_def Some bind.bind_lunit
    unfolding p(2) bind.bind_lunit
    by (rule t relay_body_ok [OF s Some] relay_body_ok [OF p(1,2)] | rule post_vcg)+
qed

section \<open>New connections to servers\<close>

lemma set_cb_ok:
  assumes s: "ready s v" and c: "c \<notin> {On_accept, On_request, Recv_and_connect}"
  shows "ready (upd_ev v (\<lambda>e. e\<lparr>v_cb := c\<rparr>) s) v" "spared s (upd_ev v (\<lambda>e. e\<lparr>v_cb := c\<rparr>) s)"
proof -
  let ?t = "upd_ev v (\<lambda>e. e\<lparr>v_cb := c\<rparr>) s"
  note f = server_fields [OF readyD(1) [OF s]]
  have r: "relinked s ?t" by (simp add: relinked_def)
  have l: "live ?t u = live s u" for u by (rule relinked_same(1) [OF r])
  have e: "v_pair (s_ev ?t u) = v_pair (s_ev s u)" "v_after_conn_cb (s_ev ?t u) = v_after_conn_cb (s_ev s u)"
    "v_cb (s_ev ?t u) = (if u = v then c else v_cb (s_ev s u))" for u by simp_all
  have "calm ?t" by (rule relinked_calm [OF r f(1)]) (metis e(1) server_pair(1) [OF readyD(1) [OF s]])
  moreover have "plugged None ?t u" if u: "plugged None s u" for u
  proof (cases "u = v")
    case True
    have "live s q \<and> q \<noteq> v \<and> v_pair (s_ev s q) = Some v" if "v_pair (s_ev s v) = Some q" for q
      using ready_pair [OF s that] readyD(2) by blast
    then show ?thesis using u c True unfolding plugged_def l e by simp
  next
    case False
    then show ?thesis using u unfolding plugged_def l e by simp
  qed
  then have "wired None ?t" using f(2) unfolding wired_def pair_inj_def l e(1) by blast
  ultimately have "server_ok ?t" using f(3) by (simp add: server_ok_def)
  then show "ready ?t v" "spared s ?t"
    using readyD(2,3) [OF s] relinked_same(3) [OF r] by (simp_all add: ready_def l mutual_def e spared_def)
qed

lemma tunnel_cb_ok:
  assumes s: "ready s v" "v_pair (s_ev s v) = Some p"
  defines "t \<equiv> upd_ev p (\<lambda>x. x\<lparr>v_cb := On_tunnel\<rparr>) (upd_ev v (\<lambda>x. x\<lparr>v_cb := On_tunnel\<rparr>) s)"
  shows "ready t v" "spared s t"
proof -
  have 1: "ready (upd_ev v (\<lambda>x. x\<lparr>v_cb := On_tunnel\<rparr>) s) v" "spared s (upd_ev v (\<lambda>x. x\<lparr>v_cb := On_tunnel\<rparr>) s)"
    by (rule set_cb_ok [OF s(1)]; simp)+
  have p: "ready (upd_ev v (\<lambda>x. x\<lparr>v_cb := On_tunnel\<rparr>) s) p" by (rule ready_pair [OF 1(1)]) (simp add: s)
  have 2: "ready t p" "spared (upd_ev v (\<lambda>x. x\<lparr>v_cb := On_tunnel\<rparr>) s) t" unfolding t_def by (rule set_cb_ok [OF p]; simp)+
  have "v_pair (s_ev t p) = Some v" using ready_pair(2) [OF s] by (auto simp: t_def)
  then show "ready t v" by (rule ready_pair [OF 2(1)])
  show "spared s t" by (rule spared_trans [OF 1(2) 2(2)])
qed

lemma on_connect_ok:
  assumes s: "ready s v"
  shows "post (on_connect v ty s) (move_post s)"
proof (cases "has_flag ty POLLERR")
  case True
  have a: "post (answer v e t) (move_post s)" if "fail_post v s (r, t)" for e r t
    by (rule post_weaken [OF hooks_kept(10) [OF kept_refl]]) (use fail_move [OF that] move_then in auto)
  show ?thesis
    unfolding on_connect_def on_connerr_def if_P [OF True]
    by (rule a fail_call [OF on_trigger_ok s] | rule post_vcg post_state [where z = s]
      | (simp add: kept_simps; fail) | (rule move_kept [OF _ s], simp; fail) | (rule fail_kept [OF _ s], assumption)
      | (rule fail_move, simp; fail) | assumption)+
next
  case False
  show ?thesis
  proof (cases "v_pair (s_ev s v)")
    case None
    then show ?thesis using False by (simp add: on_connect_def)
  next
    case (Some p)
    let ?g = "\<lambda>t. upd_ev p (\<lambda>x. x\<lparr>v_cb := On_tunnel\<rparr>) (upd_ev v (\<lambda>x. x\<lparr>v_cb := On_tunnel\<rparr>) t)"
    have g: "ready (?g t) v" "move_post (?g t) x \<Longrightarrow> move_post s x" if k: "kept s t" for t x
    proof -
      have t: "ready t v" "v_pair (s_ev t v) = Some p" using ready_kept [OF k s] kept_pair [OF k] Some by simp_all
      show "ready (?g t) v" by (rule tunnel_cb_ok [OF t])
      show "move_post (?g t) x \<Longrightarrow> move_post s x"
        by (rule spared_then_moved [OF spared_trans [OF kept_spared [OF k readyD(1) [OF s]] tunnel_cb_ok(2) [OF t]]])
    qed
    have a: "post (answer v e (?g t)) (move_post s)" "post (on_tunnel v ty (?g t)) (move_post s)" if k: "kept s t" for e t
      by (rule post_weaken [OF hooks_kept(10) [OF kept_refl]], use g [OF k] move_kept in auto)
        (rule post_weaken [OF on_tunnel_ok [OF g(1) [OF k]]], rule g(2) [OF k])
    show ?thesis
      unfolding on_connect_def if_not_P [OF False] Some bind.bind_lunit
      by (rule a | rule post_call [where z = s], rule kept_posts | rule post_vcg | (simp; fail)
        | (rule move_kept [OF _ s], assumption) | assumption)+
  qed
qed

end
