(* ===== verification/ServerRequest.thy ===== *)
theory ServerRequest
  imports ServerSpec
begin

unbundle bit_operations_syntax

text \<open>
  New clients: their requests, the associations of UDP that they ask for, and the callback that
  accepts them.
\<close>

section \<open>An association of UDP\<close>

lemma link_udp_ok:
  assumes s: "server_ok s" and l: "live s v" "live s c" "live s p" and d: "v \<noteq> c" "v \<noteq> p" "c \<noteq> p"
    and n: "v_pair (s_ev s v) = None" "v_pair (s_ev s c) = None" "v_pair (s_ev s p) = None"
    and cb: "v_cb (s_ev s c) = On_udp_tunnel" "v_cb (s_ev s p) = On_udp_tunnel"
  shows "moved s (link_udp v c p s)"
proof -
  let ?t = "link_udp v c p s"
  note f = server_fields [OF s]
  have r: "relinked s ?t" by (simp add: link_udp_def relinked_def Let_def)
  have lv: "live ?t u = live s u" for u by (rule relinked_same(1) [OF r])
  have e: "v_pair (s_ev ?t u) = (if u = v then Some c else if u = c then Some p else if u = p then Some v else v_pair (s_ev s u))"
    "v_after_conn_cb (s_ev ?t u) = v_after_conn_cb (s_ev s u)"
    "v_cb (s_ev ?t u) = (if u = v then On_ignore else v_cb (s_ev s u))" for u
    using d by (simp_all add: link_udp_def Let_def)
  have q: "live s q \<and> q \<notin> {v, c, p}" if "live s u" "v_pair (s_ev s u) = Some q" for u q
    using server_pair(1,3) [OF s that] n by auto
  have cs: "u = v \<and> x = c \<or> u = c \<and> x = p \<or> u = p \<and> x = v \<or> v_pair (s_ev s u) = Some x \<and> live s x \<and> x \<notin> {v, c, p}"
    if "live s u" "v_pair (s_ev ?t u) = Some x" for u x
    using that(2) q [OF that(1)] unfolding e by (simp split: if_splits)
  have "calm ?t" by (rule relinked_calm [OF r f(1)]) (use cs l in blast)
  moreover have "pair_inj ?t"
    unfolding pair_inj_def lv
  proof (intro allI impI)
    fix u u' x assume a: "live s u" "live s u'" "v_pair (s_ev ?t u) = Some x" "v_pair (s_ev ?t u') = Some x"
    show "u = u'"
      using cs [OF a(1,3)] cs [OF a(2,4)] server_pair(5) [OF s a(1) _ a(2), of x] d by blast
  qed
  moreover have "plugged None ?t u" if u: "live s u" for u
  proof -
    have "plugged None s u" using f(2) u by (simp add: wired_def)
    then have "v_after_conn_cb (s_ev s u) \<in> {NoCb, On_connect}" "v_cb (s_ev s u) \<noteq> Recv_and_connect"
      "v_cb (s_ev s u) \<in> {On_accept, On_request} \<Longrightarrow> v_pair (s_ev s u) = None" by (simp_all add: plugged_def)
    note pl = this
    show ?thesis
    proof (cases "v_pair (s_ev s u)")
      case None
      then show ?thesis using pl l d cb by (auto simp: plugged_def lv e)
    next
      case (Some x)
      have "u \<notin> {v, c, p}" using Some n by auto
      then show ?thesis using pl Some q [OF u Some] server_pair(2,3,4) [OF s u Some] by (auto simp: plugged_def lv e)
    qed
  qed
  ultimately have "server_ok ?t" using f(3) r by (simp add: server_ok_def wired_def lv relinked_def)
  then show ?thesis using relinked_same [OF r] by (simp add: moved_def)
qed

text \<open>A connection that was opened since \<open>s\<close> and has no pair yet.\<close>

definition fresh :: "st \<Rightarrow> st \<Rightarrow> nat \<Rightarrow> bool" where
  "fresh s t p \<longleftrightarrow> grown s t \<and> \<not> live s p \<and> live t p \<and> v_pair (s_ev t p) = None \<and> v_cb (s_ev t p) = On_udp_tunnel"

lemma fresh_kept: "fresh s t p \<Longrightarrow> kept t u \<Longrightarrow> fresh s u p"
  using grown_kept [of s t u] frame_fields(10,11,13) [of u t] by (simp add: fresh_def kept_def)

lemma add_udp_call:
  assumes s: "server_ok t" and k: "kept t u"
    and q: "\<And>x. grown t x \<Longrightarrow> Q (None, x)" "\<And>p x. fresh t x p \<Longrightarrow> Q (Some p, x)"
  shows "post (add_event On_udp_tunnel fd e u) Q"
proof (rule post_weaken [OF add_event_grown [OF kept_server [OF k s]]])
  note g = kept_grown [OF k s]
  fix x assume x: "case x of (r, w) \<Rightarrow> grown u w \<and> (\<forall>p. r = Some p \<longrightarrow> \<not> live u p \<and> live w p \<and>
      v_pair (s_ev w p) = None \<and> v_cb (s_ev w p) = On_udp_tunnel \<and> (\<forall>q. live w q \<longleftrightarrow> live u q \<or> q = p))"
  obtain r w where [simp]: "x = (r, w)" by (cases x)
  have "grown t w" using x grown_trans [OF g] by simp
  then show "Q x" using x q kept_live [OF k] by (cases r) (auto simp: fresh_def)
qed simp

lemma close_fresh:
  assumes f: "fresh s t p" and k: "kept t u" and q: "\<And>w. grown s w \<Longrightarrow> Q w"
  shows "post (del_event p u) Q"
proof -
  have u: "fresh s u p" by (rule fresh_kept [OF f k])
  have g: "server_ok u" using u by (simp add: fresh_def grown_def)
  obtain w where w: "del_event p u = Some w" "moved u w"
      "\<And>x. live u x \<Longrightarrow> x \<noteq> p \<Longrightarrow> live w x \<and> v_pair (s_ev w x) = v_pair (s_ev u x) \<and> v_cb (s_ev w x) = v_cb (s_ev u x)"
    using close_single [OF g, of p] u by (auto simp: fresh_def)
  have "grown s w"
    using u w(2,3) drift_trans unfolding fresh_def grown_def moved_def by metis
  then show ?thesis using w(1) q by simp
qed

lemma udp_client_ok:
  assumes s: "ready s v" "v_pair (s_ev s v) = None" and f: "fresh s t p"
  shows "post (udp_client v p addr t) (move_post s)"
proof -
  have gt: "server_ok t" "grown s t" using f by (simp_all add: fresh_def grown_def)
  have ug: "fresh t u c \<Longrightarrow> grown s u" for u c using grown_trans [OF gt(2)] by (simp add: fresh_def)
  have l: "post (answer_udp v cfd a (link_udp v c p u)) (move_post s)" if c: "fresh t u c" for u c cfd a
  proof -
    have "live s v" "\<not> live s p" "live t v" "live t p" "\<not> live t c"
      using readyD(2) [OF s(1)] f gt(2) c by (auto simp: fresh_def grown_def)
    then have m: "moved u (link_udp v c p u)"
      by (intro link_udp_ok) (use f c s ug [OF c] in \<open>auto simp: fresh_def grown_def\<close>)
    show ?thesis
      by (rule post_weaken [OF udp_messages_kept(3) [OF kept_refl]])
        (use move_then moved_then_kept [OF grown_then_moved [OF ug [OF c] m]] in \<open>auto simp: move_post_def\<close>)
  qed
  have c: "grown s u \<Longrightarrow> move_post s (- 1, close_fd fd u)" "grown s u \<Longrightarrow> move_post s (- 1, u)" for fd u
    using move_grown grown_kept [of s u "close_fd fd u"] by (simp_all add: kept_simps)
  have d: "post (del_event p u) Q" if "grown t u" "\<And>w. grown s w \<Longrightarrow> Q w" for u Q
    by (rule close_fresh [where s = s and t = u, OF _ kept_refl])
      (use that f grown_trans [OF gt(2) that(1)] in \<open>auto simp: fresh_def grown_def\<close>)
  show ?thesis
    unfolding udp_client_def
    by (rule close_fresh [OF f] add_udp_call [OF gt(1)] l d | rule post_vcg post_state [where z = t]
      | (simp add: kept_simps; fail) | (erule c) | assumption)+
qed

lemma udp_associate_ok:
  assumes s: "ready s v" "v_pair (s_ev s v) = None"
  shows "post (udp_associate v dst s) (move_post s)"
proof -
  have k: "sys c t = (r, w) \<Longrightarrow> kept t w" for c t r w using kept_sys [OF kept_refl, of t c] by simp
  have u: "post (udp_client v p' a w) (move_post s)" if "fresh s t p" "Some p = Some p'" "sys c t = (r, w)" for p p' a c t r w
    by (rule udp_client_ok [OF s fresh_kept [OF _ k [OF that(3)]]]) (use that in simp)
  have c: "grown s u \<Longrightarrow> move_post s (- 1, close_fd fd u)" for fd u
    using move_grown grown_kept [of s u "close_fd fd u"] by (simp add: kept_simps)
  have c2: "fresh s u p \<Longrightarrow> sys cl u = (r, w) \<Longrightarrow> move_post s (- 1, w)" for u p cl r w
    unfolding fresh_def by (rule move_grown, erule conjE, erule grown_kept, erule k)
  show ?thesis
    unfolding udp_associate_def
    by (rule post_call [where z = s], rule kept_posts | rule add_udp_call [OF readyD(1) [OF s(1)]] u
      | rule post_vcg | rule post_split | (simp add: kept_simps; fail) | (rule move_kept [OF _ s(1)], assumption) | (erule c)
      | (erule (1) c2) | assumption)+
qed

section \<open>Requests\<close>

lemma connect_call:
  assumes s: "ready s v" "v_pair (s_ev s v) = None" and k: "kept s t"
    and q: "\<And>r u. spared s u \<Longrightarrow> r = 0 \<or> grown s u \<Longrightarrow> Q (r, u)"
  shows "post (connect_hook v a On_connect t) Q"
proof (rule postI)
  fix x assume x: "connect_hook v a On_connect t = Some x"
  obtain r u where [simp]: "x = (r, u)" by (cases x)
  have "ready t v" by (rule ready_kept [OF k s(1)])
  then have "conn_post v t x" using postD [OF connect_hook_ok x] by (simp add: ready_def)
  then have "conn_post v s (r, u)" using conn_post_kept [OF k readyD(1,2) [OF s(1)]] by simp
  then show "Q x" using q s(2)
    by (cases "r = 0") (auto simp: conn_post_def spared_def linked_up_def freed_def grown_def)
qed

lemma handle_s5_ok:
  assumes s: "ready s v" "v_pair (s_ev s v) = None"
  shows "post (handle_s5 v b n dst s) (move_post s)"
proof -
  have u: "post (udp_associate v a t) (move_post s)" if k: "kept s t" for a t
  proof -
    have t: "ready t v" "v_pair (s_ev t v) = None" using ready_kept [OF k s(1)] kept_pair [OF k] s(2) by simp_all
    show ?thesis
      by (rule post_weaken [OF udp_associate_ok [OF t]])
        (rule spared_then_moved [OF kept_spared [OF k readyD(1) [OF s(1)]]])
  qed
  show ?thesis
    unfolding handle_s5_def refuse_s5_def
    by (rule post_call [where z = s], rule kept_posts | rule u connect_call [OF s] | rule post_vcg | rule post_any
      | (simp add: kept_simps; fail) | (rule move_kept [OF _ s(1)], simp add: kept_simps; fail)
      | (rule spared_move, assumption) | assumption)+
qed

definition request_post :: "st \<Rightarrow> (int + int \<times> bool \<times> sockaddr) \<times> st \<Rightarrow> bool" where
  "request_post s = (\<lambda>(x, t). move_post s (0, t) \<and> (\<forall>e dst. x = Inr (e, False, dst) \<longrightarrow> kept s t))"

lemma read_request_ok:
  assumes s: "ready s v" "v_pair (s_ev s v) = None"
  shows "post (read_request v d n s) (request_post s)"
proof -
  have h: "post (handle_s5 v d n dst s) Q" if "\<And>r u. move_post s (0, u) \<Longrightarrow> Q (r, u)" for dst Q
    by (rule post_weaken [OF handle_s5_ok [OF s]]) (use that in \<open>auto simp: move_post_def\<close>)
  have k: "request_post s (x, t)" if "kept s t" for x t
    using move_kept [OF that s(1)] that by (simp add: request_post_def)
  show ?thesis
    unfolding read_request_def
    by (rule post_call [where z = s], rule kept_posts | rule h | rule post_vcg | rule post_any
      | (simp add: kept_simps; fail) | (rule k, simp add: kept_simps; fail) | (simp add: request_post_def; fail) | assumption)+
qed

lemma on_request_ok:
  assumes s: "ready s v" "v_pair (s_ev s v) = None"
  shows "post (on_request v s) (move_post s)"
proof -
  have r: "post (read_request v d n t) Q" if k: "kept s t" and q: "\<And>x u. request_post s (x, u) \<Longrightarrow> Q (x, u)" for d n t Q
  proof -
    have t: "ready t v" "v_pair (s_ev t v) = None" using ready_kept [OF k s(1)] kept_pair [OF k] s(2) by simp_all
    show ?thesis
    proof (rule post_weaken [OF read_request_ok [OF t]])
      fix x assume x: "request_post t x"
      obtain y u where [simp]: "x = (y, u)" by (cases x)
      have "move_post s (0, u)"
        by (rule spared_then_moved [OF kept_spared [OF k readyD(1) [OF s(1)]]]) (use x in \<open>simp add: request_post_def\<close>)
      then show "Q x" using x q kept_trans [OF k] by (auto simp: request_post_def)
    qed
  qed
  have m: "request_post s (x, u) \<Longrightarrow> move_post s (r, u)" for x u r by (simp add: request_post_def move_post_def)
  have e: "move_post s (r, t) \<Longrightarrow> move_post s (r', snd (resp_error fd e f t))" for r t r' fd e f
    by (erule move_then) (simp add: kept_simps)
  show ?thesis
    unfolding on_request_def
    by (rule r connect_call [OF s] | rule post_vcg post_state [where z = s] post_split
      | (simp add: kept_simps kept_defs; fail) | (rule move_kept [OF _ s(1)], simp add: kept_simps; fail)
      | (erule m) | (rule e, erule m) | (rule spared_move, assumption) | (rule e, erule spared_move) | (auto simp: request_post_def move_post_def; fail) | assumption | rule post_any)+
qed

section \<open>Accepting clients\<close>

lemma transp_conn_ok:
  assumes s: "ready s v" "v_pair (s_ev s v) = None"
  shows "post (transp_conn v s) (\<lambda>(r, t). spared s t \<and> (r = 0 \<or> grown s t))"
proof -
  have k: "kept s t \<Longrightarrow> spared s t" "kept s t \<Longrightarrow> grown s t" for t
    using kept_grown [OF _ readyD(1) [OF s(1)]] grown_spared by blast+
  show ?thesis
    unfolding transp_conn_def
    by (rule connect_call [OF s] | rule post_vcg post_state [where z = s]
      | (simp add: kept_simps kept_defs; fail) | (simp add: k; fail) | (auto; fail) | assumption)+
qed

lemma accept_client_ok:
  assumes s: "server_ok s"
  shows "post (accept_client c addr s) (spared s)"
proof -
  have k: "kept s t \<Longrightarrow> spared s t" for t using kept_spared s by blast
  have n: "spared s (close_fd fd t)" if "grown s t" for fd t
    using grown_spared [OF grown_kept [OF that, of "close_fd fd t"]] by (simp add: kept_simps)
  have a: "post (add_event On_request fd e t) Q"
    if k: "kept s t" and q: "\<And>x. grown s x \<Longrightarrow> Q (None, x)"
      "\<And>p x. grown s x \<Longrightarrow> \<not> live s p \<Longrightarrow> ready x p \<Longrightarrow> v_pair (s_ev x p) = None \<Longrightarrow> Q (Some p, x)" for fd e t Q
  proof (rule post_weaken [OF add_event_grown [OF kept_server [OF k s]]])
    fix x assume x: "case x of (r, w) \<Rightarrow> grown t w \<and> (\<forall>p. r = Some p \<longrightarrow> \<not> live t p \<and> live w p \<and>
        v_pair (s_ev w p) = None \<and> v_cb (s_ev w p) = On_request \<and> (\<forall>q. live w q \<longleftrightarrow> live t q \<or> q = p))"
    obtain r w where [simp]: "x = (r, w)" by (cases x)
    have "grown s w" using x grown_trans [OF kept_grown [OF k s]] by simp
    then show "Q x" using x q kept_live [OF k] by (cases r) (auto simp: ready_def mutual_def grown_def)
  qed simp
  have t: "post (transp_conn p u \<bind> (\<lambda>(r, s). if r < 0 \<and> m s then del_event p s else Some s)) (spared s)"
    if g: "grown s u" "\<not> live s p" and p: "ready u p" "v_pair (s_ev u p) = None" for p u m
  proof (rule post_rules, rule post_weaken [OF transp_conn_ok [OF p]], clarify)
    fix r :: int and w assume w: "spared u w" "r = 0 \<or> grown u w"
    have sw: "spared s w" by (rule spared_trans [OF grown_spared [OF g(1)] w(1)])
    have "post (del_event p w) (spared s)" if "r < 0"
    proof -
      have gw: "server_ok w" "live w p" "v_pair (s_ev w p) = None" using w that p by (auto simp: grown_def ready_def)
      obtain x where x: "del_event p w = Some x" "moved w x" "\<And>y. live w y \<Longrightarrow> y \<noteq> p \<Longrightarrow> live x y"
        using close_single [OF gw] by blast
      have "spared s x" using sw x(2,3) g(2) drift_trans unfolding spared_def moved_def by metis
      then show ?thesis using x(1) by simp
    qed
    then show "post (if r < 0 \<and> m w then del_event p w else Some w) (spared s)" using sw by simp
  qed
  let ?u = "\<lambda>p x. upd_ev p (\<lambda>e. e\<lparr>v_addr := addr\<rparr>) x"
  have u: "post (let t = ?u p x in if fl t then transp_conn p t \<bind> (\<lambda>(r, s). if r < 0 \<and> m s then del_event p s else Some s)
      else Some t) (spared s)"
    if "grown s x" "\<not> live s p" "ready x p" "v_pair (s_ev x p) = None" for p x fl m
  proof -
    have k: "kept x (?u p x)" by (simp add: kept_simps)
    have g: "grown s (?u p x)" "ready (?u p x) p" "v_pair (s_ev (?u p x) p) = None"
      using grown_kept [OF that(1) k] ready_kept [OF k that(3)] that(4) by simp_all
    show ?thesis using t [OF g(1) that(2) g(2,3)] grown_spared [OF g(1)] by (simp add: Let_def)
  qed
  show ?thesis
    unfolding accept_client_def
    by (rule a u | rule post_vcg post_state [where z = s]
      | (simp add: kept_simps; fail) | (rule k, simp add: kept_simps; fail) | (erule n) | assumption)+
qed

text \<open>The loop ends when no client waits.\<close>

lemma on_accept_ok:
  assumes "server_ok s"
  shows "post (on_accept v s) (\<lambda>(r, t). spared s t)"
proof (rule postI)
  fix y assume y: "on_accept v s = Some y"
  have "server_ok s \<longrightarrow> spared s (snd y)"
  proof (rule on_accept.raw_induct [where P = "\<lambda>v s y. server_ok s \<longrightarrow> spared s (snd y)", OF _ y], rule impI)
    fix f v s y
    assume ih: "\<And>v s y. f v s = Some y \<Longrightarrow> server_ok s \<longrightarrow> spared s (snd y)" and s: "server_ok s"
      and y: "(let (r, s) = sys (CAccept (v_fd (s_ev s v))) s in
        if r_ret r < 0 then Some (if s_errno s = EAGAIN \<or> s_errno s = EINPROGRESS then (0, s) else (- 1, s\<lparr>s_brk := True\<rparr>))
        else accept_client (r_ret r) (r_addr r) s \<bind> f v) = Some y"
    have k: "kept s t \<Longrightarrow> spared s t" for t using kept_spared s by blast
    have i: "post (accept_client c a t \<bind> f v) (\<lambda>y. spared s (snd y))" if t: "kept s t" for c a t
    proof (rule post_rules, rule post_weaken [OF accept_client_ok [OF kept_server [OF t s]]], rule postI)
      fix w z assume w: "spared t w" "f v w = Some z"
      have "spared w (snd z)" using ih w by (simp add: spared_def)
      then show "spared s (snd z)" using spared_trans [OF k [OF t]] spared_trans [OF w(1)] by blast
    qed
    have "post (let (r, s) = sys (CAccept (v_fd (s_ev s v))) s in
        if r_ret r < 0 then Some (if s_errno s = EAGAIN \<or> s_errno s = EINPROGRESS then (0, s) else (- 1, s\<lparr>s_brk := True\<rparr>))
        else accept_client (r_ret r) (r_addr r) s \<bind> f v) (\<lambda>y. spared s (snd y))"
      by (rule i | rule post_vcg(1,2,4-) post_state [where z = s] | (simp add: kept_simps; fail) | assumption
        | (rule k, simp add: kept_simps; fail))+
    then show "spared s (snd y)" unfolding y by simp
  qed
  then show "case y of (r, t) \<Rightarrow> spared s t" using assms by (simp add: case_prod_unfold)
qed

section \<open>Callbacks\<close>

text \<open>When the callback \<open>f\<close> may be called for \<open>v\<close>.\<close>

definition callable :: "cb \<Rightarrow> nat \<Rightarrow> st \<Rightarrow> bool" where
  "callable f v s \<longleftrightarrow> server_ok s \<and> live s v \<and> f \<noteq> Recv_and_connect \<and>
     (f \<in> {On_accept, On_request} \<longrightarrow> v_pair (s_ev s v) = None) \<and> (f \<notin> {On_udp_tunnel, On_ignore} \<longrightarrow> mutual s v)"

lemma callable_own:
  assumes s: "server_ok s" and v: "live s v"
  shows "callable (v_cb (s_ev s v)) v s"
proof -
  have "plugged None s v" using server_fields(2) [OF s] v by (simp add: wired_def)
  then show ?thesis using s v server_pair(4) [OF s v] by (auto simp: callable_def plugged_def mutual_def)
qed

text \<open>The result of a callback, or the callback that goes on.\<close>

definition cb_post :: "nat \<Rightarrow> st \<Rightarrow> cb_result \<times> st \<Rightarrow> bool" where
  "cb_post v s = (\<lambda>(x, t). case x of Inl r \<Rightarrow> move_post s (r, t) | Inr (f, ty) \<Rightarrow> spared s t \<and> callable f v t)"

lemma after_callable:
  assumes "ready s v"
  shows "callable (v_after_conn_cb (s_ev s v)) v s" "v_after_conn_cb (s_ev s v) \<notin> {On_accept, On_request, Recv_and_connect}"
proof -
  have "plugged None s v" using server_fields(2) [OF readyD(1) [OF assms]] readyD(2) [OF assms] by (simp add: wired_def)
  then have "v_after_conn_cb (s_ev s v) \<in> {NoCb, On_connect}" by (simp add: plugged_def)
  then show "callable (v_after_conn_cb (s_ev s v)) v s" "v_after_conn_cb (s_ev s v) \<notin> {On_accept, On_request, Recv_and_connect}"
    using assms by (auto simp: callable_def ready_def)
qed

lemma after_kept:
  assumes "kept s t" "ready s v"
  shows "cb_post v s (Inr (v_after_conn_cb (s_ev t v), ty), t)"
  using after_callable(1) [OF ready_kept [OF assms]] kept_spared [OF assms(1) readyD(1) [OF assms(2)]]
  by (simp add: cb_post_def)

lemma on_socks_conn_ok:
  assumes s: "ready s v"
  shows "post (on_socks_conn v ty s) (cb_post v s)"
proof -
  have i: "kept s t \<Longrightarrow> cb_post v s (Inl r, t)" for r t using move_kept [OF _ s] by (simp add: cb_post_def)
  have c: "cb_post v s (Inl r, upd_ev v (\<lambda>e. e\<lparr>v_cb := On_socks_recv\<rparr>) t)" if k: "kept s t" for r t
    using spared_move [OF spared_trans [OF kept_spared [OF k readyD(1) [OF s]] set_cb_ok(2) [OF ready_kept [OF k s]]]]
    by (simp add: cb_post_def)
  show ?thesis
    unfolding on_socks_conn_def
    by (rule post_call [where z = s], rule kept_posts | rule post_vcg post_state [where z = s]
      | (simp add: kept_simps; fail) | (rule after_kept [OF _ s], assumption) | (rule i, assumption) | (rule c, assumption) | assumption)+
qed

lemma on_socks_recv_ok:
  assumes s: "ready s v"
  shows "post (on_socks_recv v s) (cb_post v s)"
proof -
  have i: "kept s t \<Longrightarrow> cb_post v s (Inl r, t)" for r t using move_kept [OF _ s] by (simp add: cb_post_def)
  have a: "cb_post v s (Inr (v_after_conn_cb (s_ev t v), ty), u)" if t: "kept s t" "kept s u" for t u ty
  proof -
    have "v_after_conn_cb (s_ev t v) = v_after_conn_cb (s_ev u v)" using t frame_fields(12) by (metis kept_def)
    then show ?thesis using after_kept [OF t(2) s] by simp
  qed
  have c: "cb_post v s (Inr (v_after_conn_cb (s_ev t v), ty), upd_ev v (\<lambda>e. e\<lparr>v_cb := v_after_conn_cb e\<rparr>) t)"
    if k: "kept s t" for t ty
  proof -
    have r: "ready t v" by (rule ready_kept [OF k s])
    have e: "upd_ev v (\<lambda>e. e\<lparr>v_cb := v_after_conn_cb e\<rparr>) t = upd_ev v (\<lambda>e. e\<lparr>v_cb := v_after_conn_cb (s_ev t v)\<rparr>) t"
      by (simp add: upd_ev_def)
    note n = set_cb_ok [OF r after_callable(2) [OF r]]
    show ?thesis unfolding e cb_post_def
      using after_callable(1) [OF n(1)] spared_trans [OF kept_spared [OF k readyD(1) [OF s]] n(2)] by simp
  qed
  show ?thesis
    unfolding on_socks_recv_def
    by (rule post_vcg post_state [where z = s] post_split
      | (simp add: kept_simps; fail) | (rule a, assumption, assumption) | (rule i, simp add: kept_simps; fail) | (rule c, assumption)
      | assumption | rule post_any)+
qed

end
