(* ===== verification/ServerLoop.thy ===== *)
theory ServerLoop
  imports ServerRequest
begin

text \<open>
  The event loop as a relation of its turns, and the invariant of the whole server: it holds in every state
  that is reached from the start, so every callback is called for a live connection, and the pool can be
  destroyed.
\<close>

section \<open>One callback\<close>

lemma callback_ok:
  assumes c: "callable f v s"
  shows "post (callback f v ty s) (cb_post v s)"
proof -
  have s: "server_ok s" "live s v" using c by (simp_all add: callable_def)
  have r: "ready s v" if "f \<notin> {On_udp_tunnel, On_ignore}" using c that by (simp add: callable_def ready_def)
  have res: "post (result m) (cb_post v s)" if "post m (move_post s)" for m
    using that by (auto simp: post_def result_def cb_post_def)
  have a: "post (on_accept v s) (move_post s)"
    by (rule post_weaken [OF on_accept_ok [OF s(1)]]) (auto intro: spared_move)
  have u: "post (on_udp_tunnel v s) (move_post s)"
    by (rule post_weaken [OF on_udp_tunnel_kept [OF kept_refl]]) (auto intro: spared_move kept_spared s(1))
  have i: "cb_post v s (Inl k, s)" for k using kept_spared [OF kept_refl s(1)] by (simp add: cb_post_def spared_move)
  show ?thesis
    using c r res a u i on_request_ok on_connect_ok on_tunnel_ok on_socks_conn_ok on_socks_recv_ok
    by (cases f) (simp_all add: callback_def callable_def)
qed

lemma dispatch_ok:
  assumes "callable f v s"
  shows "post (dispatch f v ty s) (move_post s)"
proof (rule postI)
  fix y assume y: "dispatch f v ty s = Some y"
  have "callable f v s \<longrightarrow> move_post s y"
  proof (rule dispatch.raw_induct [where P = "\<lambda>f v ty s y. callable f v s \<longrightarrow> move_post s y", OF _ y], rule impI)
    fix d f v ty s y
    assume ih: "\<And>f v ty s y. d f v ty s = Some y \<Longrightarrow> callable f v s \<longrightarrow> move_post s y" and c: "callable f v s"
      and y: "callback f v ty s \<bind> (\<lambda>(r, s). case r of Inl r \<Rightarrow> Some (r, s) | Inr (f, t) \<Rightarrow> d f v t s) = Some y"
    obtain x t where x: "callback f v ty s = Some (x, t)" using y by (auto split: Option.bind_splits)
    have p: "cb_post v s (x, t)" using postD [OF callback_ok [OF c] x] .
    show "move_post s y"
    proof (cases x)
      case (Inl r)
      then show ?thesis using p x y by (simp add: cb_post_def)
    next
      case (Inr ft)
      then obtain g k where g: "x = Inr (g, k)" by (cases ft) simp
      have "move_post t y" using ih [of g v k t y] p x y g by (simp add: cb_post_def)
      moreover have "spared s t" using p g by (simp add: cb_post_def)
      ultimately show ?thesis by (rule spared_then_moved [rotated])
    qed
  qed
  then show "move_post s y" using assms by simp
qed

section \<open>Waiting for events\<close>

lemma drift_pending: "drift s t \<Longrightarrow> pending_ok i s \<Longrightarrow> pending_ok i t"
  unfolding pending_ok_def Let_def drift_def by auto

text \<open>What waiting may change: the clock, and the reported events.\<close>

definition waited :: "st \<Rightarrow> st \<Rightarrow> bool" where
  "waited s t \<longleftrightarrow> s_ev t = s_ev s \<and> s_max t = s_max s \<and> s_count t = s_count s \<and> s_links t = s_links s \<and> s_iters s \<le> s_iters t \<and>
     s_par t = s_par s \<and> s_ms s \<le> s_ms t \<and> s_free t = s_free s \<and> s_buff_count t = s_buff_count s \<and>
     s_tv_start t = s_tv_start s \<and> s_tv_end t = s_tv_end s"

lemma waited_ok:
  assumes w: "waited s t" and s: "server_ok s"
  shows "server_ok t"
proof -
  note w = w [unfolded waited_def] and f = server_fields [OF s]
  have l: "live t = live s" using w by (simp add: live_def fun_eq_iff)
  have c: "closed s u \<Longrightarrow> closed t u" for u using w by (simp add: closed_def)
  have "links_ok t" "bufs_ok t" "clock_ok t"
    using w f(1) by (simp_all add: calm_def pool_ok_def links_ok_def bufs_ok_def clock_ok_def)
  moreover have "evs_ok t"
    unfolding evs_ok_def l
  proof (intro allI impI)
    fix u assume "live s u"
    then have "v_fd (s_ev s u) > 0" "v_mod_iter (s_ev s u) \<le> s_iters s" "\<forall>p. v_pair (s_ev s u) = Some p \<longrightarrow> live s p \<or> closed s p"
      using f(1) unfolding calm_def pool_ok_def evs_ok_def by blast+
    then show "v_fd (s_ev t u) > 0 \<and> v_mod_iter (s_ev t u) \<le> s_iters t \<and> (\<forall>p. v_pair (s_ev t u) = Some p \<longrightarrow> live s p \<or> closed t p)"
      using w c by auto
  qed
  moreover have "timers s ts \<Longrightarrow> timers t ts" for ts by (erule timers_cong) (use w in simp_all)
  ultimately have "calm t" using f(1) by (auto simp: calm_def pool_ok_def)
  moreover have "s_ev t = s_ev s" "s_par t = s_par s" using w by simp_all
  then have "wired None t = wired None s" "g_delay_conn (s_par t) = g_delay_conn (s_par s)"
    unfolding wired_def pair_inj_def plugged_def l by (simp_all only:)
  ultimately show ?thesis using f(2,3) unfolding server_ok_def by blast
qed

lemma epoll_refill_waited: "epoll_refill ms s = (i, t) \<Longrightarrow> waited s t"
  by (auto simp: epoll_refill_def waited_def Let_def case_prod_unfold sys_def split: if_splits)

lemma next_event_waited:
  assumes "next_event i ty ms s = Some (v, i', ty', t)"
  shows "waited s t"
proof -
  have r: "waited s s" and tr: "\<And>u. waited s t \<Longrightarrow> waited t u \<Longrightarrow> waited s u" for s t by (simp_all add: waited_def)
  have "waited s (snd (snd (snd (v, i', ty', t))))"
  proof (rule next_event.raw_induct [where P = "\<lambda>i ty ms s y. waited s (snd (snd (snd y)))", OF _ assms])
    fix f i ty ms s y
    assume ih: "\<And>i ty ms s y. f i ty ms s = Some y \<Longrightarrow> waited s (snd (snd (snd y)))"
      and y: "(if \<not> (- 1 \<le> i \<and> i < int (s_max s)) then None
        else let (i', s) = if i < 0 then let (ret, s) = epoll_refill ms s in (ret - 1, s) else (i, s)
             in if i' < 0 then Some (None, i, if i' = - 1 then POLLTIMEOUT else ty, s)
                else if \<not> i' < int (length (s_pevents s)) then None
                else let (v, e) = s_pevents s ! nat i'
                     in if v_mod_iter (s_ev s v) = s_iters s then f (i' - 1) ty ms s else Some (Some v, i' - 1, e, s)) = Some y"
    define t where "t = (if i < 0 then snd (epoll_refill ms s) else s)"
    have w: "waited s t" using epoll_refill_waited [of ms s] r by (cases "epoll_refill ms s") (simp add: t_def)
    have "t = snd (snd (snd y)) \<or> (\<exists>k. f k ty ms t = Some y)"
      using y by (cases "epoll_refill ms s") (auto simp: t_def Let_def split: if_splits prod.splits)
    then show "waited s (snd (snd (snd y)))" using w tr ih by blast
  qed
  then show ?thesis by simp
qed

lemma first_timer_live:
  assumes "server_ok s" "s_tv_start s = Some u"
  shows "live s u"
proof -
  obtain ts where ts: "timers s ts" using server_fields(1) [OF assms(1)] by (auto simp: calm_def pool_ok_def)
  then have "u \<in> set ts" using assms(2) hdO_SomeD [of ts u] by (simp add: timers_def)
  then show ?thesis using ts by (simp add: timers_def)
qed

lemma next_event_tv_ok:
  assumes s: "server_ok s" and e: "epoll_law s" and o: "pending_ok i s"
  shows "\<exists>v i' ty' t. next_event_tv i ty s = Some (v, i', ty', t) \<and> server_ok t \<and> pending_ok i' t \<and> (\<forall>u. v = Some u \<longrightarrow> live t u)"
proof -
  have p: "pool_ok s" using server_fields(1) [OF s] by (simp add: calm_def)
  have n: "\<exists>v i' ty' t. next_event i ty ms s = Some (v, i', ty', t) \<and> server_ok t \<and> pending_ok i' t \<and> (\<forall>u. v = Some u \<longrightarrow> live t u)" for ms
  proof -
    obtain v i' ty' t where r: "next_event i ty ms s = Some (v, i', ty', t)" "pending_ok i' t" "\<forall>u. v = Some u \<longrightarrow> live t u"
      using next_event_live [OF p e o, of ty ms] by (auto simp: dispatched_def)
    then show ?thesis using waited_ok [OF next_event_waited [OF r(1)] s] by blast
  qed
  have tm: "server_ok (remove_timer u t) \<and> pending_ok k (remove_timer u t) \<and> live (remove_timer u t) u"
    if "server_ok t" "pending_ok k t" "s_tv_start t = Some u" for t u k
  proof -
    have l: "live t u" by (rule first_timer_live [OF that(1,3)])
    then have k: "kept t (remove_timer u t)" using kept_remove_timer [OF kept_refl] by simp
    show ?thesis using kept_server [OF k that(1)] drift_pending [OF kept_drift [OF k] that(2)] kept_live [OF k] l by simp
  qed
  show ?thesis
  proof (cases "s_tv_start s")
    case None
    then show ?thesis using n by (simp add: next_event_tv_def)
  next
    case (Some u)
    obtain v i' ty' t where r: "(if v_tv_ms (s_ev s u) - s_ms s > 0 then next_event i ty (v_tv_ms (s_ev s u) - s_ms s) s
        else Some (None, i, POLLTIMEOUT, s)) = Some (v, i', ty', t)" "server_ok t" "pending_ok i' t" "\<forall>w. v = Some w \<longrightarrow> live t w"
      using n [of "v_tv_ms (s_ev s u) - s_ms s"] s o by (cases "v_tv_ms (s_ev s u) - s_ms s > 0") auto
    have "next_event_tv i ty s = (case s_tv_start t of None \<Rightarrow> Some (v, i', ty', t)
        | Some w \<Rightarrow> if v = None \<and> ty' = POLLTIMEOUT then Some (Some w, i', ty', remove_timer w t) else Some (v, i', ty', t))"
      using Some r(1) by (simp add: next_event_tv_def Let_def)
    then show ?thesis using r tm [OF r(2,3)] by (cases "s_tv_start t") auto
  qed
qed

section \<open>The event loop\<close>

text \<open>A turn of \<open>loop_event\<close>, between the values of \<open>i\<close>, \<open>etype\<close> and the state at its head.\<close>

inductive turn :: "int \<Rightarrow> int \<Rightarrow> st \<Rightarrow> int \<Rightarrow> int \<Rightarrow> st \<Rightarrow> bool" where
  interrupted: "\<lbrakk> \<not> s_brk s; next_event_tv i ty s = Some (None, i', ty', t); s_errno t = EINTR \<rbrakk> \<Longrightarrow> turn i ty s i' ty' t"
| served: "\<lbrakk> \<not> s_brk s; next_event_tv i ty s = Some (Some v, i', ty', t); dispatch (v_cb (s_ev t v)) v ty' t = Some (r, u);
     (if r < 0 then del_event v u else Some u) = Some w \<rbrakk> \<Longrightarrow> turn i ty s i' ty' w"

inductive_simps turn_simps: "turn i ty s i' ty' t"

lemma turn_loop: "turn i ty s i' ty' t \<Longrightarrow> loop_event dispatch i ty s = loop_event dispatch i' ty' t"
  by (induction rule: turn.induct) (auto simp: loop_event.simps [of _ _ _ s for s])

text \<open>\<open>loop_event\<close> is the repetition of turns, until the program is told to stop or waiting fails.\<close>

inductive turns :: "int \<Rightarrow> int \<Rightarrow> st \<Rightarrow> st \<Rightarrow> bool" where
  stopped: "s_brk s \<Longrightarrow> turns i ty s s"
| failed: "\<lbrakk> \<not> s_brk s; next_event_tv i ty s = Some (None, i', ty', t); s_errno t \<noteq> EINTR \<rbrakk> \<Longrightarrow> turns i ty s t"
| more: "\<lbrakk> turn i ty s i' ty' t; turns i' ty' t u \<rbrakk> \<Longrightarrow> turns i ty s u"

lemma loop_event_turns: "loop_event dispatch i ty s = Some t \<longleftrightarrow> turns i ty s t"
proof
  assume "turns i ty s t"
  then show "loop_event dispatch i ty s = Some t"
  proof (induction rule: turns.induct)
    case (stopped s i ty)
    then show ?case by (simp add: loop_event.simps)
  next
    case (failed s i ty i' ty' t)
    then show ?case by (simp add: loop_event.simps [of dispatch i ty s])
  next
    case (more i ty s i' ty' t u)
    then show ?case using turn_loop by simp
  qed
next
  assume l: "loop_event dispatch i ty s = Some t"
  have "dispatch = dispatch \<longrightarrow> turns i ty s t"
  proof (rule loop_event.raw_induct [where P = "\<lambda>call i ty s t. call = dispatch \<longrightarrow> turns i ty s t", OF _ l], rule impI)
    fix f call i ty s t
    assume ih: "\<And>call i ty s t. f call i ty s = Some t \<Longrightarrow> call = dispatch \<longrightarrow> turns i ty s t" and c: "call = dispatch"
      and t: "(if s_brk s then Some s else next_event_tv i ty s \<bind> (\<lambda>(v, i, ty, s). case v of
          None \<Rightarrow> if s_errno s = EINTR then f call i ty s else Some s
        | Some v \<Rightarrow> call (v_cb (s_ev s v)) v ty s \<bind> (\<lambda>(r, s). (if r < 0 then del_event v s else Some s) \<bind> f call i ty))) = Some t"
    show "turns i ty s t"
    proof (cases "s_brk s")
      case True
      then show ?thesis using t by (simp add: stopped)
    next
      case False
      then obtain v i' ty' w where n: "next_event_tv i ty s = Some (v, i', ty', w)" using t by (auto split: Option.bind_splits)
      show ?thesis
      proof (cases v)
        case None
        then show ?thesis using False n t ih [of call i' ty' w t] c
          by (cases "s_errno w = EINTR") (auto intro: turns.failed turns.more turn.interrupted)
      next
        case (Some x)
        then obtain r w' u where "dispatch (v_cb (s_ev w x)) x ty' w = Some (r, w')"
            "(if r < 0 then del_event x w' else Some w') = Some u" "f call i' ty' u = Some t"
          using False n t c by (auto split: Option.bind_splits)
        then show ?thesis using False n Some ih c by (blast intro: turns.more turn.served)
      qed
    qed
  qed
  then show "turns i ty s t" by simp
qed

text \<open>The states at the head of the loop after the start on the listening socket \<open>fd\<close>, on a system that
  reports events only for registered descriptors.\<close>

inductive reached :: "nat \<Rightarrow> int \<Rightarrow> st \<Rightarrow> int \<Rightarrow> int \<Rightarrow> st \<Rightarrow> bool" for n fd s0 where
  start: "\<lbrakk> init_pool n s0 = (True, s); add_event On_accept fd POLLIN s = Some (Some v, t) \<rbrakk> \<Longrightarrow> reached n fd s0 (- 1) (- 1) t"
| turn: "\<lbrakk> reached n fd s0 i ty s; epoll_law s; turn i ty s i' ty' t \<rbrakk> \<Longrightarrow> reached n fd s0 i' ty' t"

lemma turn_ok:
  assumes "turn i ty s i' ty' t" "server_ok s" "epoll_law s" "pending_ok i s"
  shows "server_ok t \<and> pending_ok i' t"
  using assms
proof (induction rule: turn.induct)
  case (interrupted s i ty i' ty' t)
  then show ?case using next_event_tv_ok [of s i ty] by auto
next
  case (served s i ty v i' ty' t r u w)
  have t: "server_ok t" "pending_ok i' t" "live t v" using next_event_tv_ok [of s i ty] served by auto
  have "move_post t (r, u)" using postD [OF dispatch_ok [OF callable_own [OF t(1,3)]]] served(3) .
  then have u: "server_ok u" "pending_ok i' u" "live u v \<or> closed u v"
    using drift_pending t(2,3) by (auto simp: move_post_def moved_def)
  show ?case
  proof (cases "r < 0")
    case True
    obtain x where x: "del_event v u = Some x" "server_ok x" "closes u x" using close_ok [OF u(1,3)] by blast
    then show ?thesis using served(4) True u(2) drift_pending by (auto simp: closes_def)
  next
    case False
    then show ?thesis using served(4) u by simp
  qed
qed

lemma start_ok:
  assumes i: "init_pool n s0 = (True, s)" and a: "add_event On_accept fd e s = Some (Some v, t)"
    and p: "0 < s_ms s0" "0 \<le> g_await_int (s_par s0)" "0 \<le> g_ptimeout (s_par s0)" "\<not> g_delay_conn (s_par s0)"
  shows "server_ok t"
proof -
  have q: "pool_ok s" "s_count s = 0" using init_pool_ok [OF i] by simp_all
  have "s_par s = s_par s0 \<and> s_ms s0 \<le> s_ms s"
    using i by (auto simp: init_pool_def Let_def case_prod_unfold sys_def split: if_splits)
  moreover have "\<not> live s u" for u using q(2) by (simp add: live_def)
  ultimately have "server_ok s" using p q(1) by (simp add: server_ok_def calm_def clock_ok_def wired_def pair_inj_def)
  from postD [OF add_event_grown [OF this] a] show ?thesis by (simp add: grown_def)
qed

lemma reached_ok:
  assumes "reached n fd s0 i ty s" "0 < s_ms s0" "0 \<le> g_await_int (s_par s0)" "0 \<le> g_ptimeout (s_par s0)" "\<not> g_delay_conn (s_par s0)"
  shows "server_ok s \<and> pending_ok i s"
  using assms
proof (induction rule: reached.induct)
  case (start s v t)
  then show ?case using start_ok [OF start(1,2)] by (simp add: pending_ok_None)
next
  case (turn i ty s i' ty' t)
  then show ?case using turn_ok by blast
qed

section \<open>The server\<close>

text \<open>C3: The whole server keeps its connections in order. Take any state that the event loop reaches from its
  start by turns whose callbacks have a defined result (and without the delayed connections of hosts and
  protocols, \<open>delay_conn\<close>), whatever the clients, the servers and the system answer. In it the pool of
  connections is well formed; the pair of an open connection is another open one, which points back where a
  callback hands over to it; the next event is found and belongs to an open connection with a descriptor,
  whose callback is one that may run; and the pool can be destroyed, which closes everything.\<close>

theorem server_keeps_order:
  assumes "reached n fd s0 i ty s" "0 < s_ms s0" "0 \<le> g_await_int (s_par s0)" "0 \<le> g_ptimeout (s_par s0)"
    "\<not> g_delay_conn (s_par s0)" "epoll_law s"
  shows "pool_ok s \<and>
    (\<forall>u p. live s u \<longrightarrow> v_pair (s_ev s u) = Some p \<longrightarrow> live s p \<and> p \<noteq> u \<and>
       (v_cb (s_ev s u) \<in> {On_connect, On_tunnel, On_socks_conn, On_socks_recv} \<longrightarrow> v_pair (s_ev s p) = Some u)) \<and>
    (\<exists>v i' ty' t. next_event_tv i ty s = Some (v, i', ty', t) \<and>
       (\<forall>u. v = Some u \<longrightarrow> live t u \<and> v_fd (s_ev t u) > 0 \<and> callable (v_cb (s_ev t u)) u t)) \<and>
    (\<exists>t. destroy_pool s = Some t \<and> s_count t = 0)"
proof (intro conjI)
  have ok: "server_ok s" "pending_ok i s" using reached_ok [OF assms(1-5)] by simp_all
  show p: "pool_ok s" using server_fields(1) [OF ok(1)] by (simp add: calm_def)
  show "\<forall>u p. live s u \<longrightarrow> v_pair (s_ev s u) = Some p \<longrightarrow> live s p \<and> p \<noteq> u \<and>
       (v_cb (s_ev s u) \<in> {On_connect, On_tunnel, On_socks_conn, On_socks_recv} \<longrightarrow> v_pair (s_ev s p) = Some u)"
  proof (intro allI impI)
    fix u p assume "live s u" "v_pair (s_ev s u) = Some p"
    note q = server_pair(1,2,4) [OF ok(1) this]
    have "v_pair (s_ev s p) = Some u" if "v_cb (s_ev s u) \<in> {On_connect, On_tunnel, On_socks_conn, On_socks_recv}"
      by (rule q(3)) (use that in \<open>simp\<close>; fastforce)
    then show "live s p \<and> p \<noteq> u \<and>
       (v_cb (s_ev s u) \<in> {On_connect, On_tunnel, On_socks_conn, On_socks_recv} \<longrightarrow> v_pair (s_ev s p) = Some u)"
      using q(1,2) by blast
  qed
  show "\<exists>t. destroy_pool s = Some t \<and> s_count t = 0" using del_all_ok [OF p] by (auto simp: destroy_pool_def buff_destroy_def)
  obtain v i' ty' t where t: "next_event_tv i ty s = Some (v, i', ty', t)" "server_ok t" "\<forall>u. v = Some u \<longrightarrow> live t u"
    using next_event_tv_ok [OF ok(1) assms(6) ok(2), of ty] by blast
  have "v_fd (s_ev t u) > 0" if "live t u" for u
    using server_fields(1) [OF t(2)] that by (simp add: calm_def pool_ok_def evs_ok_def)
  then show "\<exists>v i' ty' t. next_event_tv i ty s = Some (v, i', ty', t) \<and>
       (\<forall>u. v = Some u \<longrightarrow> live t u \<and> v_fd (s_ev t u) > 0 \<and> callable (v_cb (s_ev t u)) u t)"
    using t callable_own [OF t(2)] by blast
qed

text \<open>One client is accepted.\<close>

definition serve_st :: st where
  "serve_st = (st0 (\<lambda>k. if k < 7 then
     [res0\<lparr>r_ret := 3\<rparr>, res0, res0\<lparr>r_ret := 1, r_evs := [(0, 1)]\<rparr>, res0\<lparr>r_ret := 5\<rparr>, res0, res0,
      res0\<lparr>r_ret := - 1, r_errno := EAGAIN\<rparr>] ! k else res0))\<lparr>s_ms := 1\<rparr>"

definition serve_open :: st where "serve_open = snd (the (add_event On_accept 4 POLLIN (snd (init_pool 3 serve_st))))"
lemmas serve_defs = serve_open_def serve_st_def init_pool_def add_event_def sys_def st0_def res0_def Let_def upd_ev_def

lemma serve_start: "init_pool 3 serve_st = (True, snd (init_pool 3 serve_st))"
    "add_event On_accept 4 POLLIN (snd (init_pool 3 serve_st)) = Some (Some 0, serve_open)"
  by (simp_all add: serve_defs)

lemma serve_open_fields: "s_brk serve_open = False" "s_tv_start serve_open = None" "epoll_law serve_open"
  by (simp_all add: serve_defs epoll_law_def live_def)

definition serve_wait :: st where
  "serve_wait = serve_open\<lparr>s_iters := Suc 0, s_pevents := [(0, 1)], s_k := 3, s_trace := s_trace serve_open @ [CEpollWait (- 1)]\<rparr>"

lemma serve_wait_eq: "next_event_tv (- 1) (- 1) serve_open = Some (Some 0, - 1, 1, serve_wait)"
  unfolding next_event_tv_def
  by (subst next_event.simps) (simp add: serve_wait_def serve_defs epoll_refill_def eval_nat_numeral)

definition serve_client :: st where "serve_client = the (accept_client 5 (r_addr res0) (snd (sys (CAccept 4) serve_wait)))"

definition serve_done :: st where
  "serve_done = serve_client\<lparr>s_k := 7, s_errno := EAGAIN, s_ms := s_ms serve_client + int (r_dt res0), s_time := r_time res0,
     s_trace := s_trace serve_client @ [CAccept 4]\<rparr>"

lemma serve_client_eq: "accept_client 5 (r_addr res0) (snd (sys (CAccept 4) serve_wait)) = Some serve_client"
  by (simp add: serve_client_def serve_wait_def serve_defs accept_client_def has_flag_def par0_def eval_nat_numeral)

lemma serve_client_fields: "v_fd (s_ev serve_client 0) = 4" "s_k serve_client = 6" "s_orc serve_client = s_orc serve_st"
    "s_count serve_client = 2"
  by (simp_all add: serve_client_def serve_wait_def serve_defs accept_client_def has_flag_def par0_def eval_nat_numeral)

lemma serve_sys: "v_fd (s_ev serve_wait 0) = 4" "v_cb (s_ev serve_wait 0) = On_accept" "r_ret (fst (sys (CAccept 4) serve_wait)) = 5"
    "r_addr (fst (sys (CAccept 4) serve_wait)) = r_addr res0"
  by (simp_all add: serve_wait_def serve_defs eval_nat_numeral)

lemma serve_accept: "on_accept 0 serve_wait = Some (0, serve_done)"
proof -
  have "on_accept 0 serve_client = Some (0, serve_done)"
    by (simp add: on_accept.simps [of 0 serve_client] serve_client_fields sys_def serve_done_def serve_st_def st0_def Let_def)
  then show ?thesis
    using serve_sys serve_client_eq by (simp add: on_accept.simps [of 0 serve_wait] Let_def case_prod_unfold)
qed

lemma serve_done_law: "epoll_law serve_done" "s_count serve_done = 2"
  by (simp_all add: serve_done_def epoll_law_def serve_client_fields serve_st_def st0_def res0_def)

lemma serve_reached: "reached 3 4 serve_st (- 1) 1 serve_done"
proof (rule reached.turn [OF reached.start [OF serve_start] serve_open_fields(3)])
  show "turn (- 1) (- 1) serve_open (- 1) 1 serve_done"
    by (rule turn.served [OF _ serve_wait_eq, where r = 0 and u = serve_done])
      (simp_all add: serve_open_fields serve_sys dispatch.simps [of On_accept] callback_def result_def serve_accept)
qed

theorem server_keeps_order_witness:
  "s_count serve_done = 2 \<and> pool_ok serve_done \<and> (\<exists>t. destroy_pool serve_done = Some t \<and> s_count t = 0)"
  using server_keeps_order [OF serve_reached _ _ _ _ serve_done_law(1)] serve_done_law(2)
  by (simp add: serve_st_def st0_def par0_def)

end
