(* ===== verification/Poll.thy ===== *)
theory Poll
  imports Conev
begin

text \<open>
  The event pool of \<open>src/conev.c\<close> as it is built without epoll (\<open>NOEPOLL\<close>). The array \<open>pevents\<close> then belongs
  to the program: entry \<open>i\<close> watches the connection \<open>links[i]\<close>, and \<open>poll\<close> writes what happened there. What both
  variants share (the items, the links, the timers, the buffers) is the state \<open>st\<close>.
\<close>

record pollfd =
  pf_fd :: int
  pf_events :: int
  pf_revents :: int

record poller =
  pl_st :: st
  pl_fds :: "nat \<Rightarrow> pollfd"

definition init_pool_poll :: "nat \<Rightarrow> poller \<Rightarrow> poller" where
  "init_pool_poll n p =
     (let s = pl_st p in
      p\<lparr>pl_st := s\<lparr>s_max := n, s_count := 0, s_iters := 0, s_efd := 0, s_links := (\<lambda>i. i),
          s_ev := (s_ev s)(0 := eval0), s_brk := False, s_tv_start := None, s_tv_end := None,
          s_free := [], s_buff_count := 0\<rparr>\<rparr>)"

definition add_event_poll :: "cb \<Rightarrow> int \<Rightarrow> int \<Rightarrow> poller \<Rightarrow> (nat option \<times> poller) option" where
  "add_event_poll cb fd e p =
     (let s = pl_st p in
      if \<not> fd > 0 then None
      else if s_count s \<ge> s_max s then Some (None, p)
      else
        (let v = s_links s (s_count s);
             s = upd_ev v (\<lambda>_. eval0\<lparr>v_mod_iter := s_iters s, v_fd := fd, v_index := s_count s, v_cb := cb\<rparr>) s;
             fds = (pl_fds p)(s_count s := \<lparr>pf_fd = fd, pf_events = e, pf_revents = 0\<rparr>) in
         Some (Some v, p\<lparr>pl_st := s\<lparr>s_count := s_count s + 1\<rparr>, pl_fds := fds\<rparr>)))"

text \<open>The swap also moves the entry of \<open>pevents\<close>.\<close>

definition unlink_poll :: "nat \<Rightarrow> poller \<Rightarrow> poller" where
  "unlink_poll v p =
     (let s = pl_st p; n = s_count s - 1 in
      p\<lparr>pl_st := unlink_event v s,
        pl_fds := (if s_links s n \<noteq> v then (pl_fds p)(v_index (s_ev s v) := pl_fds p n) else pl_fds p)\<rparr>)"

partial_function (option) del_event_poll :: "nat \<Rightarrow> poller \<Rightarrow> poller option" where
  "del_event_poll v p =
     (let e = s_ev (pl_st p) v in
      if \<not> (v_fd e \<ge> - 1 \<and> v_mod_iter e \<le> s_iters (pl_st p)) then None
      else if v_fd e = - 1 then Some p
      else if v_fd e \<noteq> pf_fd (pl_fds p (v_index e)) then None
      else
        (let p = p\<lparr>pl_st := close_event v (pl_st p)\<rparr> in
         if s_count (pl_st p) = 0 then None
         else
           (let p = unlink_poll v p in
            case v_pair (s_ev (pl_st p) v) of
              None \<Rightarrow> Some p
            | Some q \<Rightarrow> del_event_poll q (p\<lparr>pl_st := unpair v q (pl_st p)\<rparr>))))"

text \<open>The call of \<open>poll\<close>. An error leaves the entries as they are; otherwise each entry gets what the
  system reports for its position, and zero where it reports nothing.\<close>

definition poll_fds :: "int \<Rightarrow> poller \<Rightarrow> int \<times> poller" where
  "poll_fds ms p =
     (let n = s_count (pl_st p);
          (r, s) = sys (CPoll (map (\<lambda>i. (pf_fd (pl_fds p i), pf_events (pl_fds p i))) [0..<n]) ms) (pl_st p);
          seen = (\<lambda>i. (pl_fds p i)\<lparr>pf_revents := (case map_of (r_evs r) i of None \<Rightarrow> 0 | Some e \<Rightarrow> e)\<rparr>) in
      (r_ret r, p\<lparr>pl_st := s, pl_fds := (if r_ret r < 0 then pl_fds p else (\<lambda>i. if i < n then seen i else pl_fds p i))\<rparr>))"

definition poll_refill :: "int \<Rightarrow> poller \<Rightarrow> int \<times> poller" where
  "poll_refill ms p =
     (let (ret, p) = poll_fds ms p in
      (ret, if ret \<le> 0 then p else p\<lparr>pl_st := (pl_st p)\<lparr>s_iters := s_iters (pl_st p) + 1\<rparr>\<rparr>))"

text \<open>\<open>next_event\<close>: \<open>i\<close> is the position the loop stands at, \<open>offs\<close> and \<open>ty\<close> are \<open>*offs\<close> and \<open>*typel\<close>, which are
  written when an event is found. With no connection in the pool the entry before the first would be
  read.\<close>

partial_function (option) next_event_poll ::
  "int \<Rightarrow> int \<Rightarrow> int \<Rightarrow> int \<Rightarrow> poller \<Rightarrow> (nat option \<times> int \<times> int \<times> poller) option" where
  "next_event_poll i offs ty ms p =
     (if \<not> (- 1 \<le> i \<and> i < int (s_max (pl_st p))) then None
      else
        (let (ret, i, p) =
           (if i < 0 then (let (ret, p) = poll_refill ms p in (ret, int (s_count (pl_st p)) - 1, p)) else (1, i, p)) in
         if ret \<le> 0 then Some (None, offs, if ret = 0 then POLLTIMEOUT else ty, p)
         else if i < 0 then None
         else
           (let k = nat i; e = pf_revents (pl_fds p k); v = s_links (pl_st p) k;
                touched = v_mod_iter (s_ev (pl_st p) v) = s_iters (pl_st p) in
            if e = 0 then next_event_poll (i - 1) offs ty ms p
            else if \<not> (k < s_count (pl_st p) \<or> touched) then None
            else if touched then next_event_poll (i - 1) offs ty ms p
            else Some (Some v, i - 1, e, p\<lparr>pl_fds := (pl_fds p)(k := (pl_fds p k)\<lparr>pf_revents := 0\<rparr>)\<rparr>))))"

definition mod_etype_poll :: "nat \<Rightarrow> int \<Rightarrow> poller \<Rightarrow> (int \<times> poller) option" where
  "mod_etype_poll v ty p =
     (let k = v_index (s_ev (pl_st p) v) in
      if \<not> k < s_count (pl_st p) then None
      else Some (0, p\<lparr>pl_fds := (pl_fds p)(k := (pl_fds p k)\<lparr>pf_events := ty\<rparr>)\<rparr>))"

partial_function (option) del_all_poll :: "poller \<Rightarrow> poller option" where
  "del_all_poll p =
     (if s_count (pl_st p) = 0 then Some p else do { p \<leftarrow> del_event_poll (s_links (pl_st p) 0) p; del_all_poll p })"

definition destroy_pool_poll :: "poller \<Rightarrow> poller option" where
  "destroy_pool_poll p = do { p \<leftarrow> del_all_poll p; Some (p\<lparr>pl_st := buff_destroy (pl_st p)\<rparr>) }"

end
