(* ===== verification/PollSpec.thy ===== *)
theory PollSpec
  imports Poll ConevSpec
begin

text \<open>
  The variant with \<open>poll\<close> keeps the same pool as the one with epoll: an operation changes what both share in
  the same way (\<open>same\<close>), so the invariant \<open>pool_ok\<close> carries over. What is new is that entry \<open>i\<close> of \<open>pevents\<close> watches
  the connection \<open>links[i]\<close>, and that a report for a position behind the live connections belongs to one that
  was closed since.
\<close>

section \<open>What both variants share\<close>

definition core :: "st \<Rightarrow> st" where
  "core s = s\<lparr>s_efd := 0, s_pevents := [], s_orc := (\<lambda>_. res0), s_k := 0, s_errno := 0, s_ms := 0, s_time := 0, s_trace := []\<rparr>"

definition same :: "st \<Rightarrow> st \<Rightarrow> bool" where "same s t \<longleftrightarrow> core s = core t"

lemma core_fields [simp]:
  "s_ev (core s) = s_ev s" "s_max (core s) = s_max s" "s_count (core s) = s_count s" "s_links (core s) = s_links s"
  "s_iters (core s) = s_iters s" "s_tv_start (core s) = s_tv_start s" "s_tv_end (core s) = s_tv_end s"
  "s_free (core s) = s_free s" "s_buff_count (core s) = s_buff_count s"
  by (simp_all add: core_def)

lemma same_fields:
  assumes "same s t"
  shows "s_ev s = s_ev t" "s_max s = s_max t" "s_count s = s_count t" "s_links s = s_links t" "s_iters s = s_iters t"
    "s_tv_start s = s_tv_start t" "s_tv_end s = s_tv_end t" "s_free s = s_free t" "s_buff_count s = s_buff_count t"
  using arg_cong [OF assms [unfolded same_def], of s_ev]
    arg_cong [OF assms [unfolded same_def], of s_max]
    arg_cong [OF assms [unfolded same_def], of s_count]
    arg_cong [OF assms [unfolded same_def], of s_links]
    arg_cong [OF assms [unfolded same_def], of s_iters]
    arg_cong [OF assms [unfolded same_def], of s_tv_start]
    arg_cong [OF assms [unfolded same_def], of s_tv_end]
    arg_cong [OF assms [unfolded same_def], of s_free]
    arg_cong [OF assms [unfolded same_def], of s_buff_count]
  by simp_all

lemma same_refl [simp]: "same s s"
  by (simp add: same_def)

lemma pool_ok_core: "pool_ok (core s) = pool_ok s"
proof -
  have "live (core s) = live s" "closed (core s) = closed s" "deadline (core s) = deadline s"
    by (simp_all add: fun_eq_iff live_def closed_def deadline_def)
  then show ?thesis by (simp add: pool_ok_def links_ok_def evs_ok_def bufs_ok_def timers_def)
qed

lemma same_ok:
  assumes "same s t"
  shows "pool_ok s = pool_ok t" "live s v = live t v" "closed s v = closed t v"
proof -
  show "pool_ok s = pool_ok t" using pool_ok_core [of s] pool_ok_core [of t] assms by (simp add: same_def)
  show "live s v = live t v" "closed s v = closed t v" using same_fields [OF assms] by (simp_all add: live_def closed_def)
qed

lemma core_sys [simp]: "core (snd (sys c s)) = core s"
  by (simp add: core_def sys_def Let_def)

lemma core_upd [simp]: "core (upd_ev v f s) = upd_ev v f (core s)"
  by (simp add: core_def upd_ev_def)

lemma core_push [simp]: "core (buff_push b s) = buff_push b (core s)"
  by (simp add: core_def buff_push_def split: option.split)

lemma same_upd: "same s t \<Longrightarrow> same (upd_ev v f s) (upd_ev v f t)"
  by (simp add: same_def)

lemma same_release: "same s t \<Longrightarrow> same (release_event v s) (release_event v t)"
  using same_fields(1) [of s t] by (simp add: release_event_def Let_def same_def split: option.split)

lemma core_tv [simp]:
  "core (s\<lparr>s_tv_start := x\<rparr>) = (core s)\<lparr>s_tv_start := x\<rparr>" "core (s\<lparr>s_tv_end := x\<rparr>) = (core s)\<lparr>s_tv_end := x\<rparr>"
  by (simp_all add: core_def)

lemma core_remove_timer: "core (remove_timer v s) = remove_timer v (core s)"
  by (cases "v_tv_prev (s_ev s v)"; cases "v_tv_next (s_ev s v)") (simp_all add: remove_timer_def Let_def)

lemma core_unlink: "core (unlink_event v s) = unlink_event v (core s)"
  by (simp add: unlink_event_def Let_def core_def upd_ev_def)

lemma same_close:
  assumes "same s t"
  shows "same (close_event v s) (close_event v t)"
  using same_release [OF assms, of v] same_fields(5) [OF assms]
  by (simp add: close_event_def Let_def same_def core_remove_timer)

lemma same_unpair: "same s t \<Longrightarrow> same (unpair v q s) (unpair v q t)"
  using same_fields(1) [of s t] by (simp add: unpair_def Let_def same_def)

lemma same_shut: "same s t \<Longrightarrow> same (close_event v s) (shut_event v t)"
  unfolding shut_event_def by (rule same_close) (simp add: same_def)

lemma same_unlink: "same s t \<Longrightarrow> same (unlink_event v s) (unlink_event v t)"
  by (simp add: same_def core_unlink)

section \<open>The invariant\<close>

definition fds_ok :: "poller \<Rightarrow> bool" where
  "fds_ok p \<longleftrightarrow> (\<forall>i < s_count (pl_st p). pf_fd (pl_fds p i) = v_fd (s_ev (pl_st p) (s_links (pl_st p) i)))"

definition seen_ok :: "int \<Rightarrow> poller \<Rightarrow> bool" where
  "seen_ok offs p \<longleftrightarrow> - 1 \<le> offs \<and> offs < int (s_max (pl_st p)) \<and>
     (\<forall>i. int i \<le> offs \<longrightarrow> s_count (pl_st p) \<le> i \<longrightarrow> pf_revents (pl_fds p i) \<noteq> 0 \<longrightarrow>
        v_mod_iter (s_ev (pl_st p) (s_links (pl_st p) i)) = s_iters (pl_st p))"

definition poller_ok :: "int \<Rightarrow> poller \<Rightarrow> bool" where
  "poller_ok offs p \<longleftrightarrow> pool_ok (pl_st p) \<and> fds_ok p \<and> seen_ok offs p"

section \<open>Opening and closing\<close>

lemma add_poll_ok:
  assumes p: "poller_ok offs p" and fd: "fd > 0"
  shows "\<exists>r q. add_event_poll cb fd e p = Some (r, q) \<and> poller_ok offs q \<and> s_max (pl_st q) = s_max (pl_st p) \<and>
    (r = None \<longrightarrow> q = p) \<and>
    (\<forall>v. r = Some v \<longrightarrow> \<not> live (pl_st p) v \<and> (\<forall>u. live (pl_st q) u \<longleftrightarrow> live (pl_st p) u \<or> u = v) \<and>
       v_fd (s_ev (pl_st q) v) = fd \<and> v_cb (s_ev (pl_st q) v) = cb)"
proof (cases "s_count (pl_st p) \<ge> s_max (pl_st p)")
  case True
  then show ?thesis using p fd by (simp add: add_event_poll_def Let_def)
next
  case False
  let ?s = "pl_st p"
  define v where "v = s_links ?s (s_count ?s)"
  define w where "w = (upd_ev v (\<lambda>_. eval0\<lparr>v_mod_iter := s_iters ?s, v_fd := fd, v_index := s_count ?s, v_cb := cb\<rparr>) ?s)
    \<lparr>s_count := s_count ?s + 1\<rparr>"
  define q where "q = p\<lparr>pl_st := w, pl_fds := (pl_fds p)(s_count ?s := \<lparr>pf_fd = fd, pf_events = e, pf_revents = 0\<rparr>)\<rparr>"
  have ok: "pool_ok ?s" "fds_ok p" "seen_ok offs p" using p by (simp_all add: poller_ok_def)
  have w: "s_ev w x = (if x = v then eval0\<lparr>v_mod_iter := s_iters ?s, v_fd := fd, v_index := s_count ?s, v_cb := cb\<rparr>
      else s_ev ?s x)" "s_count w = s_count ?s + 1" "s_max w = s_max ?s" "s_links w = s_links ?s" "s_iters w = s_iters ?s" for x
    by (simp_all add: w_def)
  have slot: "\<not> live ?s v" "\<And>u. live w u \<longleftrightarrow> live ?s u \<or> u = v" "pool_ok w"
    using slot_taken_ok [of ?s fd w cb] ok(1) fd False by (simp_all add: v_def w_def)
  have inj: "i = s_count ?s" if "s_links ?s i = v" "i < s_max ?s" for i
    using links_inj [of ?s i "s_count ?s"] ok(1) that False by (simp add: v_def pool_ok_def)
  have "fds_ok q"
    unfolding fds_ok_def
  proof (intro allI impI)
    fix i assume "i < s_count (pl_st q)"
    then consider "i = s_count ?s" | "i < s_count ?s" by (fastforce simp: q_def w)
    then show "pf_fd (pl_fds q i) = v_fd (s_ev (pl_st q) (s_links (pl_st q) i))"
    proof cases
      case 1
      then show ?thesis by (simp add: q_def w v_def)
    next
      case 2
      then have "s_links ?s i \<noteq> v" using inj [of i] False by auto
      then show ?thesis using ok(2) 2 by (simp add: fds_ok_def q_def w)
    qed
  qed
  moreover have "seen_ok offs q"
    using ok(3) inj unfolding seen_ok_def q_def by (auto simp: w)
  moreover have "add_event_poll cb fd e p = Some (Some v, q)"
    using fd False by (simp add: add_event_poll_def Let_def v_def q_def w_def)
  ultimately show ?thesis using slot by (auto simp: poller_ok_def q_def w)
qed

text \<open>One connection is closed.\<close>

lemma unlink_poll_ok:
  assumes p: "poller_ok offs p" and v: "live (pl_st p) v"
  defines "q \<equiv> unlink_poll v (p\<lparr>pl_st := close_event v (pl_st p)\<rparr>)"
  shows "poller_ok offs q" "same (pl_st q) (unlink_event v (shut_event v (pl_st p)))" "s_max (pl_st q) = s_max (pl_st p)"
proof -
  let ?s = "pl_st p" and ?c = "close_event v (pl_st p)" and ?n = "s_count (pl_st p) - 1"
  have ok: "pool_ok ?s" "fds_ok p" "seen_ok offs p" using p by (simp_all add: poller_ok_def)
  then have l: "links_ok ?s" by (simp add: pool_ok_def)
  have q: "pl_st q = unlink_event v ?c" by (simp add: q_def unlink_poll_def Let_def)
  show sq: "same (pl_st q) (unlink_event v (shut_event v ?s))"
    unfolding q by (rule same_unlink [OF same_shut [OF same_refl]])
  note f = same_fields [OF same_shut [OF same_refl, of v ?s]]
  show mx: "s_max (pl_st q) = s_max ?s" using same_fields(2) [OF sq] by (simp add: unlink_frame shut_event_frame)
  have po: "pool_ok (pl_st q)" using same_ok(1) [OF sq] shut_unlink_ok(1) [OF ok(1) v] by simp
  define i where "i = v_index (s_ev ?s v)"
  have i: "i < s_count ?s" "s_links ?s i = v" using links_index [OF l v] by (simp_all add: i_def)
  have inj: "\<And>x y. x < s_max ?s \<Longrightarrow> y < s_max ?s \<Longrightarrow> s_links ?s x = s_links ?s y \<longleftrightarrow> x = y" by (rule links_inj [OF l])
  have c: "s_count ?s \<le> s_max ?s" using l by (simp add: links_ok_def)
  have ev: "v_fd (s_ev (pl_st q) u) = (if u = v then - 1 else v_fd (s_ev ?s u))"
      "v_mod_iter (s_ev (pl_st q) u) = (if u = v then s_iters ?s else v_mod_iter (s_ev ?s u))"
      "s_iters (pl_st q) = s_iters ?s" "s_count (pl_st q) = ?n" for u
    using same_fields(1,3,5) [OF sq] by (simp_all add: unlink_frame shut_event_frame)
  have lk: "s_links (pl_st q) = (if s_links ?s ?n = v then s_links ?s else (s_links ?s)(i := s_links ?s ?n, ?n := v))"
    unfolding q using f by (simp add: unlink_event_def Let_def shut_event_frame i_def)
  have fd: "pl_fds q = (if s_links ?s ?n = v then pl_fds p else (pl_fds p)(i := pl_fds p ?n))"
    using f by (simp add: q_def unlink_poll_def Let_def shut_event_frame i_def)
  have old: "pf_fd (pl_fds p k) = v_fd (s_ev ?s (s_links ?s k))" if "k < s_count ?s" for k
    using ok(2) that by (simp add: fds_ok_def)
  have ne: "s_links ?s k \<noteq> v" if "k < s_count ?s" "k \<noteq> i" for k using inj [of k i] i c that by simp
  have "fds_ok q"
    unfolding fds_ok_def
  proof (intro allI impI)
    fix k assume "k < s_count (pl_st q)"
    then have k: "k < ?n" "k < s_count ?s" "?n < s_count ?s" by (simp_all add: ev)
    show "pf_fd (pl_fds q k) = v_fd (s_ev (pl_st q) (s_links (pl_st q) k))"
    proof (cases "s_links ?s ?n = v")
      case True
      then have "i = ?n" using ne [OF k(3)] by auto
      then show ?thesis using True k old [OF k(2)] ne [OF k(2)] by (simp add: fd lk ev)
    next
      case False
      then show ?thesis using k old [of k] old [of ?n] ne [of k] by (simp add: fd lk ev)
    qed
  qed
  moreover have "v_mod_iter (s_ev (pl_st q) (s_links (pl_st q) k)) = s_iters (pl_st q)"
    if k: "int k \<le> offs" "s_count (pl_st q) \<le> k" "pf_revents (pl_fds q k) \<noteq> 0" for k
  proof (cases "k = ?n")
    case True
    then show ?thesis by (simp add: lk ev)
  next
    case False
    then have g: "s_count ?s \<le> k" "k \<noteq> i" "k \<noteq> ?n" using k(2) i(1) by (auto simp: ev)
    then have "v_mod_iter (s_ev ?s (s_links ?s k)) = s_iters ?s"
      using ok(3) k by (auto simp: seen_ok_def fd split: if_splits)
    then show ?thesis using g by (simp add: lk ev)
  qed
  then have "seen_ok offs q" using ok(3) by (simp add: seen_ok_def mx)
  ultimately show "poller_ok offs q" using po by (simp add: poller_ok_def)
qed

text \<open>Closing a connection changes what both variants share in the same way, and the assertion on the entry
  of \<open>pevents\<close> holds.\<close>

lemma del_event_poll_closed: "closed (pl_st p) v \<Longrightarrow> del_event_poll v p = Some p"
  by (simp add: closed_def del_event_poll.simps)

lemma seen_fds_same:
  assumes "same (pl_st p) s"
  shows "poller_ok offs (p\<lparr>pl_st := s\<rparr>) = poller_ok offs p"
  using same_fields [OF assms] same_ok(1) [OF assms] by (simp add: poller_ok_def fds_ok_def seen_ok_def)

lemma unpair_poll_ok: "poller_ok offs p \<Longrightarrow> poller_ok offs (p\<lparr>pl_st := unpair v q (pl_st p)\<rparr>)"
  using unpair_ok [where s = "pl_st p"]
  by (auto simp: poller_ok_def fds_ok_def seen_ok_def unpair_def Let_def unpair_ok)

lemma unpair_live: "live (unpair v q s) u = live s u" "closed (unpair v q s) u = closed s u"
  by (simp_all add: unpair_def Let_def unpair_ok)

lemma del_poll_ok:
  assumes "poller_ok offs p" "live (pl_st p) v \<or> closed (pl_st p) v" "same (pl_st p) s"
  shows "\<exists>q t. del_event_poll v p = Some q \<and> del_event v s = Some t \<and> same (pl_st q) t \<and> poller_ok offs q"
  using assms
proof (induction "s_count s" arbitrary: s p v rule: less_induct)
  case less
  let ?s = "pl_st p"
  have sf: "s_count s = s_count ?s" "s_ev s = s_ev ?s" "s_iters s = s_iters ?s" using same_fields [OF less.prems(3)] by simp_all
  have ok: "pool_ok ?s" "fds_ok p" using less.prems(1) by (simp_all add: poller_ok_def)
  show ?case
  proof (cases "live ?s v")
    case False
    with less.prems(2) have "closed ?s v" by simp
    then show ?thesis using less.prems(1,3) same_ok(3) [OF less.prems(3)] del_event_closed del_event_poll_closed by metis
  next
    case v: True
    let ?q = "unlink_poll v (p\<lparr>pl_st := close_event v ?s\<rparr>)" and ?t = "unlink_event v (shut_event v s)"
    have ev: "v_fd (s_ev ?s v) > 0" "v_mod_iter (s_ev ?s v) \<le> s_iters ?s"
        "\<And>r. v_pair (s_ev ?s v) = Some r \<Longrightarrow> live ?s r \<or> closed ?s r"
      using ok(1) v by (auto simp: pool_ok_def evs_ok_def)
    have fd: "pf_fd (pl_fds p (v_index (s_ev ?s v))) = v_fd (s_ev ?s v)"
      using ok links_index [of ?s v] v by (auto simp: pool_ok_def fds_ok_def)
    have c: "s_count ?s > 0" using v by (auto simp: live_def)
    note q = unlink_poll_ok [OF less.prems(1) v]
    have qt: "same (pl_st ?q) ?t"
      using q(2) same_unlink [OF same_shut [OF less.prems(3), of v], of v] unfolding same_def
      by (simp add: unlink_poll_def Let_def)
    note t = shut_unlink_ok [OF ok(1) v]
    have fr: "s_count (close_event v ?s) = s_count ?s" "v_pair (s_ev (pl_st ?q) v) = v_pair (s_ev ?s v)"
        "v_pair (s_ev ?t v) = v_pair (s_ev ?s v)" "s_count ?t < s_count s" "s_count (shut_event v s) = s_count ?s"
      using same_fields(3) [OF same_shut [OF same_refl, of v ?s]] same_fields(1) [OF qt] c
      by (simp_all add: shut_event_frame unlink_frame sf)
    show ?thesis
    proof (cases "v_pair (s_ev ?s v)")
      case None
      have "del_event_poll v p = Some ?q"
        using ev fd c None fr by (subst del_event_poll.simps) (simp add: Let_def)
      moreover have "del_event v s = Some ?t"
        using ev c None fr sf by (subst del_event.simps) (simp add: Let_def)
      ultimately show ?thesis using q(1) qt by blast
    next
      case (Some r)
      let ?p' = "?q\<lparr>pl_st := unpair v r (pl_st ?q)\<rparr>" and ?s' = "unpair v r ?t"
      have "del_event_poll v p = del_event_poll r ?p'"
        using ev fd c Some fr by (subst del_event_poll.simps) (simp add: Let_def)
      moreover have "del_event v s = del_event r ?s'"
        using ev c Some fr sf by (subst del_event.simps) (simp add: Let_def)
      moreover have lr: "live (pl_st ?p') r \<or> closed (pl_st ?p') r"
        using ev(3) [OF Some] same_ok(2,3) [OF q(2), of r] t(2) [of r] t(3) t(4) [of r]
        by (cases "r = v") (auto simp: unpair_live)
      moreover have "s_count ?s' < s_count s" using fr(4) by (simp add: unpair_def Let_def)
      from less.hyps [OF this unpair_poll_ok [OF q(1)] lr] same_unpair [OF qt]
      have "\<exists>q t. del_event_poll r ?p' = Some q \<and> del_event r ?s' = Some t \<and> same (pl_st q) t \<and> poller_ok offs q" by simp
      ultimately show ?thesis by simp
    qed
  qed
qed

text \<open>Opening a connection agrees where \<open>epoll_ctl\<close> does not fail.\<close>

lemma add_poll_same:
  assumes "add_event_poll cb fd e p = Some (r, q)" "r_ret (s_orc (pl_st p) (s_k (pl_st p))) = 0"
  shows "\<exists>t. add_event cb fd e (pl_st p) = Some (r, t) \<and> same (pl_st q) t"
proof -
  have "core (s\<lparr>s_count := n\<rparr>) = (core s)\<lparr>s_count := n\<rparr>" for s n by (simp add: core_def)
  then show ?thesis
    using assms by (auto simp: add_event_poll_def add_event_def Let_def case_prod_unfold same_def split: if_splits)
qed

section \<open>Waiting\<close>

text \<open>A positive result of \<open>poll\<close> means that there is a report.\<close>

definition poll_law :: "poller \<Rightarrow> bool" where
  "poll_law p \<longleftrightarrow> (let r = s_orc (pl_st p) (s_k (pl_st p)) in
     r_ret r > 0 \<longrightarrow> (\<exists>i < s_count (pl_st p). \<exists>e. map_of (r_evs r) i = Some e \<and> e \<noteq> 0))"

definition touched :: "poller \<Rightarrow> nat \<Rightarrow> bool" where
  "touched p i \<longleftrightarrow> v_mod_iter (s_ev (pl_st p) (s_links (pl_st p) i)) = s_iters (pl_st p)"

definition fired :: "poller \<Rightarrow> nat \<Rightarrow> bool" where
  "fired p i \<longleftrightarrow> pf_revents (pl_fds p i) \<noteq> 0 \<and> \<not> touched p i"

definition taken_at :: "poller \<Rightarrow> nat \<Rightarrow> nat option \<times> int \<times> int \<times> poller" where
  "taken_at p i = (Some (s_links (pl_st p) i), int i - 1, pf_revents (pl_fds p i),
     p\<lparr>pl_fds := (pl_fds p)(i := (pl_fds p i)\<lparr>pf_revents := 0\<rparr>)\<rparr>)"

text \<open>The scan finds the last report that counts.\<close>

lemma scan_step:
  assumes "seen_ok (int i) p"
  shows "next_event_poll (int i) offs ty ms p = (if fired p i then Some (taken_at p i) else next_event_poll (int i - 1) offs ty ms p)"
proof -
  have "i < s_count (pl_st p) \<or> touched p i" if "pf_revents (pl_fds p i) \<noteq> 0"
    using assms that by (auto simp: seen_ok_def touched_def not_less)
  moreover have "int i < int (s_max (pl_st p))" using assms by (simp add: seen_ok_def)
  ultimately show ?thesis
    by (subst next_event_poll.simps) (auto simp: Let_def fired_def touched_def taken_at_def)
qed

lemma seen_ok_dec: "seen_ok offs p \<Longrightarrow> - 1 \<le> offs' \<Longrightarrow> offs' \<le> offs \<Longrightarrow> seen_ok offs' p"
  by (auto simp: seen_ok_def)

lemma scan_all:
  assumes "seen_ok (int n - 1) p"
  shows "(\<exists>i < n. fired p i \<and> next_event_poll (int n - 1) offs ty ms p = Some (taken_at p i)) \<or>
    (\<forall>i < n. \<not> fired p i) \<and> next_event_poll (int n - 1) offs ty ms p = next_event_poll (- 1) offs ty ms p"
  using assms
proof (induction n)
  case (Suc n)
  show ?case
  proof (cases "fired p n")
    case True
    then show ?thesis using scan_step [of n p offs ty ms] Suc.prems by auto
  next
    case False
    then have "next_event_poll (int (Suc n) - 1) offs ty ms p = next_event_poll (int n - 1) offs ty ms p"
      using scan_step [of n p offs ty ms] Suc.prems by simp
    moreover have "seen_ok (int n - 1) p" using Suc.prems by (auto intro: seen_ok_dec)
    ultimately show ?thesis using Suc.IH False by (auto simp: less_Suc_eq)
  qed
qed simp

text \<open>A report that counts belongs to an open connection.\<close>

lemma taken_ok:
  assumes "poller_ok offs p" "int i \<le> offs" "fired p i"
  shows "live (pl_st p) (s_links (pl_st p) i)" "poller_ok (int i - 1) (snd (snd (snd (taken_at p i))))"
proof -
  have "i < s_count (pl_st p)"
    using assms by (auto simp: poller_ok_def seen_ok_def fired_def touched_def not_less)
  then show "live (pl_st p) (s_links (pl_st p) i)" by (auto simp: live_def)
  show "poller_ok (int i - 1) (snd (snd (snd (taken_at p i))))"
    using assms by (auto simp: poller_ok_def taken_at_def fds_ok_def seen_ok_def)
qed

lemma pool_ok_tick: "pool_ok s \<Longrightarrow> pool_ok (s\<lparr>s_iters := s_iters s + 1\<rparr>)"
proof -
  assume p: "pool_ok s"
  let ?t = "s\<lparr>s_iters := s_iters s + 1\<rparr>"
  have "live ?t u = live s u" "closed s u \<Longrightarrow> closed ?t u" for u by (simp_all add: live_def closed_def)
  moreover have "timers s ts \<Longrightarrow> timers ?t ts" for ts by (erule timers_cong) simp_all
  ultimately show "pool_ok ?t" using p by (auto simp: pool_ok_def links_ok_def evs_ok_def bufs_ok_def) (fastforce+)
qed

lemma poll_fds_same: "poll_fds ms p = (ret, q) \<Longrightarrow> same (pl_st q) (pl_st p) \<and> (\<forall>i. pf_fd (pl_fds q i) = pf_fd (pl_fds p i)) \<and>
    (\<forall>i. s_count (pl_st p) \<le> i \<longrightarrow> pl_fds q i = pl_fds p i)"
  by (auto simp: poll_fds_def Let_def case_prod_unfold same_def)

lemma poll_fds_ok:
  assumes p: "poller_ok offs p" and q: "poll_fds ms p = (ret, q)"
  shows "poller_ok offs q"
  using p poll_fds_same [OF q] same_fields [of "pl_st q" "pl_st p"] same_ok(1) [of "pl_st q" "pl_st p"]
  by (auto simp: poller_ok_def fds_ok_def seen_ok_def)

text \<open>After a report all connections may be served, and one has to be.\<close>

lemma poll_refill_ok:
  assumes p: "poller_ok offs p" and l: "poll_law p" and q: "poll_refill ms p = (ret, q)" "ret > 0"
  shows "poller_ok (int (s_count (pl_st q)) - 1) q" "s_ev (pl_st q) = s_ev (pl_st p)" "live (pl_st q) u = live (pl_st p) u"
    "\<exists>i < s_count (pl_st q). fired q i"
proof -
  obtain w where w: "poll_fds ms p = (ret, w)" "q = w\<lparr>pl_st := (pl_st w)\<lparr>s_iters := s_iters (pl_st w) + 1\<rparr>\<rparr>"
    using q by (auto simp: poll_refill_def split: prod.splits)
  note s = poll_fds_same [OF w(1)]
  note f = same_fields [OF conjunct1 [OF s]]
  have ok: "poller_ok offs w" by (rule poll_fds_ok [OF p w(1)])
  have pk: "pool_ok (pl_st p)" using p by (simp add: poller_ok_def)
  have c: "s_count (pl_st p) \<le> s_max (pl_st p)" using pk by (simp add: pool_ok_def links_ok_def)
  have "pool_ok (pl_st q)" using ok pool_ok_tick by (simp add: w poller_ok_def)
  moreover have "fds_ok q" using ok by (simp add: w poller_ok_def fds_ok_def)
  ultimately show "poller_ok (int (s_count (pl_st q)) - 1) q" using c by (auto simp: poller_ok_def seen_ok_def w f)
  show "s_ev (pl_st q) = s_ev (pl_st p)" "live (pl_st q) u = live (pl_st p) u" by (simp_all add: w f live_def)
  have "ret = r_ret (s_orc (pl_st p) (s_k (pl_st p)))" using w(1) by (simp add: poll_fds_def Let_def case_prod_unfold)
  then obtain i e where i: "i < s_count (pl_st p)" "map_of (r_evs (s_orc (pl_st p) (s_k (pl_st p)))) i = Some e" "e \<noteq> 0"
    using l q(2) by (auto simp: poll_law_def Let_def)
  have "pf_revents (pl_fds w i) = e" using w(1) i q(2) by (auto simp: poll_fds_def Let_def case_prod_unfold)
  moreover have "v_mod_iter (s_ev (pl_st p) (s_links (pl_st p) i)) \<le> s_iters (pl_st p)"
    using pk i(1) by (auto simp: pool_ok_def evs_ok_def live_def)
  ultimately show "\<exists>i < s_count (pl_st q). fired q i"
    using i by (intro exI [of _ i]) (simp add: fired_def touched_def w f)
qed

text \<open>The search ends, and finds open connections only.\<close>

definition served :: "poller \<Rightarrow> (nat option \<times> int \<times> int \<times> poller) option \<Rightarrow> bool" where
  "served p r \<longleftrightarrow> (\<exists>v offs ty q. r = Some (v, offs, ty, q) \<and> poller_ok offs q \<and> s_ev (pl_st q) = s_ev (pl_st p) \<and>
     (\<forall>u. live (pl_st q) u \<longleftrightarrow> live (pl_st p) u) \<and> (\<forall>u. v = Some u \<longrightarrow> live (pl_st q) u))"

lemma served_taken:
  assumes "poller_ok offs p" "int i \<le> offs" "fired p i"
  shows "served p (Some (taken_at p i))"
  using taken_ok [OF assms] by (auto simp: served_def taken_at_def)

lemma refill_served:
  assumes p: "poller_ok offs p" and l: "poll_law p"
  shows "served p (next_event_poll (- 1) offs ty ms p)"
proof -
  obtain ret q where q: "poll_refill ms p = (ret, q)" by fastforce
  have m: "- 1 < int (s_max (pl_st p))" by simp
  show ?thesis
  proof (cases "ret > 0")
    case True
    note r = poll_refill_ok [OF p l q True]
    then obtain n where n: "s_count (pl_st q) = Suc n" by (cases "s_count (pl_st q)") auto
    then have qn: "poller_ok (int n) q" "seen_ok (int (Suc n) - 1) q" using r(1) by (simp_all add: poller_ok_def)
    have "next_event_poll (- 1) offs ty ms p = next_event_poll (int n) offs ty ms q"
      using q True n qn(2)
      by (simp add: next_event_poll.simps [of "- 1" offs ty ms p] next_event_poll.simps [of "int n" offs ty ms q] Let_def seen_ok_def)
    moreover obtain i where i: "i < Suc n" "fired q i" "next_event_poll (int n) offs ty ms q = Some (taken_at q i)"
      using scan_all [OF qn(2), of offs ty ms] r(4) n by auto
    moreover have "served q (Some (taken_at q i))" by (rule served_taken [OF qn(1)]) (use i in simp_all)
    ultimately show ?thesis using r(2,3) by (simp add: served_def)
  next
    case False
    then have w: "poll_fds ms p = (ret, q)" using q by (auto simp: poll_refill_def split: prod.splits)
    have "next_event_poll (- 1) offs ty ms p = Some (None, offs, if ret = 0 then POLLTIMEOUT else ty, q)"
      using False q m by (subst next_event_poll.simps) simp
    then show ?thesis
      using poll_fds_ok [OF p w] same_fields(1) same_ok(2) poll_fds_same [OF w] by (auto simp: served_def)
  qed
qed

lemma next_poll_served:
  assumes p: "poller_ok offs p" and l: "poll_law p"
  shows "served p (next_event_poll offs offs ty ms p)"
proof -
  have o: "- 1 \<le> offs" "seen_ok offs p" using p by (simp_all add: poller_ok_def seen_ok_def)
  define n where "n = nat (offs + 1)"
  have n: "offs = int n - 1" using o by (simp add: n_def)
  consider i where "i < n" "fired p i" "next_event_poll offs offs ty ms p = Some (taken_at p i)"
    | "next_event_poll offs offs ty ms p = next_event_poll (- 1) offs ty ms p"
    using scan_all [of n p offs ty ms] o(2) n by auto
  then show ?thesis
  proof cases
    case 1
    then show ?thesis using served_taken [OF p _ 1(2)] n by simp
  next
    case 2
    then show ?thesis using refill_served [OF p l] by simp
  qed
qed

section \<open>All operations\<close>

lemma mod_poll_ok:
  assumes "poller_ok offs p" "live (pl_st p) v"
  shows "\<exists>q. mod_etype_poll v ty p = Some (0, q) \<and> poller_ok offs q \<and> pl_st q = pl_st p \<and>
    pf_fd (pl_fds q (v_index (s_ev (pl_st q) v))) = v_fd (s_ev (pl_st q) v) \<and>
    pf_events (pl_fds q (v_index (s_ev (pl_st q) v))) = ty"
proof -
  have k: "v_index (s_ev (pl_st p) v) < s_count (pl_st p)" "s_links (pl_st p) (v_index (s_ev (pl_st p) v)) = v"
    using links_index [of "pl_st p" v] assms by (auto simp: poller_ok_def pool_ok_def)
  then show ?thesis using assms by (auto simp: mod_etype_poll_def Let_def poller_ok_def fds_ok_def seen_ok_def)
qed

lemma del_all_poll_ok: "poller_ok offs p \<Longrightarrow> \<exists>q. del_all_poll p = Some q \<and> s_count (pl_st q) = 0"
proof (induction "s_count (pl_st p)" arbitrary: p rule: less_induct)
  case less
  show ?case
  proof (cases "s_count (pl_st p) = 0")
    case True
    then show ?thesis by (simp add: del_all_poll.simps)
  next
    case False
    let ?v = "s_links (pl_st p) 0"
    have v: "live (pl_st p) ?v" using False by (auto simp: live_def)
    then obtain q t where q: "del_event_poll ?v p = Some q" "del_event ?v (pl_st p) = Some t" "same (pl_st q) t" "poller_ok offs q"
      using del_poll_ok [OF less.prems _ same_refl] by blast
    moreover have "s_count t < s_count (pl_st p)"
      using del_event_ok [of "pl_st p" ?v] less.prems v q(2) by (auto simp: poller_ok_def)
    ultimately have "\<exists>q'. del_all_poll q = Some q' \<and> s_count (pl_st q') = 0"
      using less.hyps same_fields(3) by metis
    then show ?thesis using False q(1) by (simp add: del_all_poll.simps [of p])
  qed
qed

lemma init_poll_ok: "poller_ok (- 1) (init_pool_poll n p)"
proof -
  let ?s = "pl_st (init_pool_poll n p)"
  have "timers ?s []" by (rule timers_empty) (simp_all add: init_pool_poll_def Let_def)
  moreover have "links_ok ?s" "evs_ok ?s" "bufs_ok ?s"
    by (simp_all add: init_pool_poll_def Let_def links_ok_def evs_ok_def bufs_ok_def live_def bij_betw_def)
  ultimately show ?thesis
    by (auto simp: poller_ok_def pool_ok_def fds_ok_def seen_ok_def) (simp_all add: init_pool_poll_def Let_def)
qed

text \<open>A pool in use. Besides the operations of the pool, the callbacks change other fields of open connections, the
  timers and the spare buffers (\<open>work\<close>); they leave the items, the links and the entries of \<open>pevents\<close> alone.\<close>

inductive running :: "nat \<Rightarrow> poller \<Rightarrow> int \<Rightarrow> poller \<Rightarrow> bool" for n p0 where
  start: "running n p0 (- 1) (init_pool_poll n p0)"
| opened: "\<lbrakk> running n p0 offs p; fd > 0; add_event_poll cb fd e p = Some (r, q) \<rbrakk> \<Longrightarrow> running n p0 offs q"
| shut: "\<lbrakk> running n p0 offs p; live (pl_st p) v; del_event_poll v p = Some q \<rbrakk> \<Longrightarrow> running n p0 offs q"
| changed: "\<lbrakk> running n p0 offs p; live (pl_st p) v; mod_etype_poll v e p = Some (r, q) \<rbrakk> \<Longrightarrow> running n p0 offs q"
| waited: "\<lbrakk> running n p0 offs p; poll_law p; next_event_poll offs offs ty ms p = Some (v, offs', ty', q) \<rbrakk> \<Longrightarrow> running n p0 offs' q"
| work: "\<lbrakk> running n p0 offs p; pool_ok s; s_max s = s_max (pl_st p); s_count s = s_count (pl_st p);
    s_links s = s_links (pl_st p); s_iters s = s_iters (pl_st p);
    \<forall>v. v_fd (s_ev s v) = v_fd (s_ev (pl_st p) v) \<and> v_mod_iter (s_ev s v) = v_mod_iter (s_ev (pl_st p) v) \<rbrakk> \<Longrightarrow>
    running n p0 offs (p\<lparr>pl_st := s\<rparr>)"

lemma running_ok: "running n p0 offs p \<Longrightarrow> poller_ok offs p"
proof (induction rule: running.induct)
  case start
  then show ?case by (rule init_poll_ok)
next
  case (opened offs p fd cb e r q)
  then show ?case using add_poll_ok [OF opened.IH opened.hyps(2), of cb e] by auto
next
  case (shut offs p v q)
  then show ?case using del_poll_ok [OF shut.IH _ same_refl, of v] by auto
next
  case (changed offs p v e r q)
  then show ?case using mod_poll_ok [OF changed.IH changed.hyps(2), of e] by auto
next
  case (waited offs p ty ms v offs' ty' q)
  then show ?case using next_poll_served [OF waited.IH waited.hyps(2), of ty ms] by (auto simp: served_def)
next
  case (work offs p s)
  then show ?case by (simp add: poller_ok_def fds_ok_def seen_ok_def)
qed

section \<open>The property\<close>

text \<open>C32: The event pool without epoll does what the one with epoll does. In every state of a pool in use: entry \<open>i\<close> of
  \<open>pevents\<close> watches the connection \<open>links[i]\<close>; opening and closing a connection pass their assertions, and change the
  connections, the links, the timers and the buffers exactly as with epoll (if \<open>epoll_ctl\<close> succeeds there);
  \<open>next_event\<close> ends, passes its assertions, and finds an open connection; a change of the events wanted reaches the
  right entry; and the pool can be destroyed. \<open>poll\<close> is assumed to have a report when it says so.\<close>

theorem poll_variant_agrees:
  assumes "running n p0 offs p" "poll_law p"
  shows "(\<forall>i < s_count (pl_st p). pf_fd (pl_fds p i) = v_fd (s_ev (pl_st p) (s_links (pl_st p) i))) \<and>
    (\<forall>cb fd e. fd > 0 \<longrightarrow> (\<exists>r q. add_event_poll cb fd e p = Some (r, q) \<and>
       (r_ret (s_orc (pl_st p) (s_k (pl_st p))) = 0 \<longrightarrow> (\<exists>t. add_event cb fd e (pl_st p) = Some (r, t) \<and> same (pl_st q) t)))) \<and>
    (\<forall>v. live (pl_st p) v \<longrightarrow> (\<exists>q t. del_event_poll v p = Some q \<and> del_event v (pl_st p) = Some t \<and> same (pl_st q) t)) \<and>
    (\<exists>v offs' ty' q. next_event_poll offs offs ty ms p = Some (v, offs', ty', q) \<and> s_ev (pl_st q) = s_ev (pl_st p) \<and>
       (\<forall>u. v = Some u \<longrightarrow> live (pl_st q) u)) \<and>
    (\<forall>v e. live (pl_st p) v \<longrightarrow> (\<exists>q. mod_etype_poll v e p = Some (0, q) \<and> pl_st q = pl_st p \<and>
       pf_fd (pl_fds q (v_index (s_ev (pl_st p) v))) = v_fd (s_ev (pl_st p) v) \<and>
       pf_events (pl_fds q (v_index (s_ev (pl_st p) v))) = e)) \<and>
    (\<exists>q. destroy_pool_poll p = Some q \<and> s_count (pl_st q) = 0)"
proof (intro conjI)
  have ok: "poller_ok offs p" by (rule running_ok [OF assms(1)])
  show "\<forall>i < s_count (pl_st p). pf_fd (pl_fds p i) = v_fd (s_ev (pl_st p) (s_links (pl_st p) i))"
    using ok by (simp add: poller_ok_def fds_ok_def)
  show "\<forall>cb fd e. fd > 0 \<longrightarrow> (\<exists>r q. add_event_poll cb fd e p = Some (r, q) \<and>
       (r_ret (s_orc (pl_st p) (s_k (pl_st p))) = 0 \<longrightarrow> (\<exists>t. add_event cb fd e (pl_st p) = Some (r, t) \<and> same (pl_st q) t)))"
    using add_poll_ok [OF ok] add_poll_same by blast
  show "\<forall>v. live (pl_st p) v \<longrightarrow> (\<exists>q t. del_event_poll v p = Some q \<and> del_event v (pl_st p) = Some t \<and> same (pl_st q) t)"
    using del_poll_ok [OF ok _ same_refl] by blast
  show "\<exists>v offs' ty' q. next_event_poll offs offs ty ms p = Some (v, offs', ty', q) \<and> s_ev (pl_st q) = s_ev (pl_st p) \<and>
       (\<forall>u. v = Some u \<longrightarrow> live (pl_st q) u)"
    using next_poll_served [OF ok assms(2), of ty ms] by (auto simp: served_def)
  show "\<forall>v e. live (pl_st p) v \<longrightarrow> (\<exists>q. mod_etype_poll v e p = Some (0, q) \<and> pl_st q = pl_st p \<and>
       pf_fd (pl_fds q (v_index (s_ev (pl_st p) v))) = v_fd (s_ev (pl_st p) v) \<and>
       pf_events (pl_fds q (v_index (s_ev (pl_st p) v))) = e)"
    using mod_poll_ok [OF ok] by fastforce
  show "\<exists>q. destroy_pool_poll p = Some q \<and> s_count (pl_st q) = 0"
    using del_all_poll_ok [OF ok] by (auto simp: destroy_pool_poll_def buff_destroy_def)
qed

text \<open>One connection, with input reported.\<close>

definition poller_ex :: poller where
  "poller_ex = snd (the (add_event_poll On_request 5 POLLIN
     (init_pool_poll 3 \<lparr>pl_st = st0 (\<lambda>_. res0\<lparr>r_ret := 1, r_evs := [(0, 1)]\<rparr>), pl_fds = (\<lambda>_. \<lparr>pf_fd = 0, pf_events = 0, pf_revents = 7\<rparr>)\<rparr>)))"

theorem poll_variant_agrees_witness:
  "(\<exists>q. del_event_poll 0 poller_ex = Some q) \<and>
   (\<exists>v offs' ty' q. next_event_poll (- 1) (- 1) 0 5 poller_ex = Some (v, offs', ty', q) \<and> (\<forall>u. v = Some u \<longrightarrow> live (pl_st q) u))"
proof -
  let ?p = "\<lparr>pl_st = st0 (\<lambda>_. res0\<lparr>r_ret := 1, r_evs := [(0, 1)]\<rparr>), pl_fds = (\<lambda>_. \<lparr>pf_fd = 0, pf_events = 0, pf_revents = 7\<rparr>)\<rparr>"
  have "add_event_poll On_request 5 POLLIN (init_pool_poll 3 ?p) = Some (Some 0, poller_ex)"
    by (simp add: poller_ex_def add_event_poll_def init_pool_poll_def st0_def Let_def)
  from running.opened [OF running.start _ this] have r: "running 3 ?p (- 1) poller_ex" by simp
  have l: "poll_law poller_ex" "live (pl_st poller_ex) 0"
    by (simp_all add: poller_ex_def add_event_poll_def init_pool_poll_def st0_def Let_def poll_law_def upd_ev_def live_def)
  show ?thesis using poll_variant_agrees [OF r l(1), of 0 5] l(2) by blast
qed

end
